(* ===== verification/Prelude.thy ===== *)
theory Prelude
  imports Main "HOL-Library.Word"
begin

unbundle bit_operations_syntax

text \<open>
  Shared vocabulary of the development: the machine types of the 32-bit ARM target, the ways a
  run of the code can end without a result, the sequencing of fallible steps, and generic facts
  on words, bytes and lists that the component theories use.
\<close>

section \<open>Machine types and failures\<close>

type_synonym u8 = "8 word"
type_synonym u16 = "16 word"
type_synonym u32 = "32 word"
type_synonym u64 = "64 word"

text \<open>
  How C code of the repository stops: \<open>assert\<close> and \<open>demand\<close> fail, \<open>panic\<close> (and \<open>die\<close> on the
  unix side), a reboot, the exit of a simulated program, an operation that C leaves undefined (a shift by at least the width,
  an index outside an array, a null dereference), and waiting forever for an event that does
  not come.
\<close>

datatype err = Assert_fail | Panic | Rebooted | Exited | Undefined | Stuck

type_synonym 'a res = "err + 'a"

definition seq :: "'a res \<Rightarrow> ('a \<Rightarrow> 'b res) \<Rightarrow> 'b res" where
  "seq r f = (case r of Inl e \<Rightarrow> Inl e | Inr a \<Rightarrow> f a)"

definition require :: "bool \<Rightarrow> err \<Rightarrow> unit res" where
  "require b e = (if b then Inr () else Inl e)"

lemma seq_simps [simp]: "seq (Inl e) f = Inl e" "seq (Inr a) f = f a"
  by (simp_all add: seq_def)

lemma seq_eq_Inr: "seq r f = Inr y \<longleftrightarrow> (\<exists>x. r = Inr x \<and> f x = Inr y)"
  by (cases r) simp_all

lemma seq_eq_Inl: "seq r f = Inl e \<longleftrightarrow> r = Inl e \<or> (\<exists>x. r = Inr x \<and> f x = Inl e)"
  by (cases r) simp_all

lemma require_simps [simp]: "require True e = Inr ()" "require False e = Inl e"
  by (simp_all add: require_def)

lemma require_eq_Inr [simp]: "require b e = Inr u \<longleftrightarrow> b"
  by (simp add: require_def)

text \<open>C's \<open>x << n\<close> and \<open>x >> n\<close> on \<open>uint32_t\<close>, which are defined for \<open>n < 32\<close> only.\<close>

definition shl :: "u32 \<Rightarrow> u32 \<Rightarrow> u32" where
  "shl x n = push_bit (unat n) x"

definition shr :: "u32 \<Rightarrow> u32 \<Rightarrow> u32" where
  "shr x n = drop_bit (unat n) x"

named_theorems bits_of \<comment> \<open>rules that read a bit of a result\<close>

lemma bit_shl [bits_of]: "bit (shl x n) i \<longleftrightarrow> unat n \<le> i \<and> i < 32 \<and> bit x (i - unat n)"
  by (auto simp: shl_def bit_push_bit_iff dest: bit_imp_le_length)

lemma bit_shr [bits_of]: "bit (shr x n) i \<longleftrightarrow> bit x (unat n + i)"
  by (simp add: shr_def bit_drop_bit_eq)

lemma bit_u32_bound: "bit (x :: u32) i \<Longrightarrow> i < 32"
  using bit_imp_le_length [of x i] by simp

declare bit_and_iff [bits_of] bit_or_iff [bits_of] bit_xor_iff [bits_of]

lemma bit_not_u32 [bits_of]: "bit (NOT x :: u32) i \<longleftrightarrow> i < 32 \<and> \<not> bit x i"
  by (auto simp: bit_not_iff possible_bit_def)

lemma bit_one_u32 [bits_of]: "bit (1 :: u32) i \<longleftrightarrow> i = 0"
  by (simp add: bit_1_iff)

lemma bit_mask_u32 [bits_of]: "bit (mask n :: u32) i \<longleftrightarrow> i < n \<and> i < 32"
  by (auto simp: bit_mask_iff possible_bit_def)

lemma u32_eqI: "(\<And>i. i < 32 \<Longrightarrow> bit x i = bit y i) \<Longrightarrow> x = (y :: u32)"
  by (rule bit_word_eqI) simp

lemma small_word_bit: "unat (x :: 'a :: len word) < 2 ^ n \<Longrightarrow> bit x i \<Longrightarrow> i < n"
proof -
  assume "unat x < 2 ^ n" "bit x i"
  then have "take_bit n (unat x) = unat x" "bit (unat x) i"
    by (simp_all add: take_bit_nat_eq_self bit_unsigned_iff possible_bit_def bit_imp_le_length)
  then show "i < n" by (metis bit_take_bit_iff)
qed

lemma unat_u32_lt [simp]: "unat (x :: u32) < 4294967296"
  using unsigned_less [of x] by simp

lemma and_one_bit: "(x AND 1 :: u32) = (if bit x 0 then 1 else 0)"
  by (rule u32_eqI) (auto simp: bits_of intro!: gr0I)

lemma word_and_not_mask: "x AND NOT (mask k) = (x :: u32) - (x AND mask k)"
proof -
  have "x = (x AND NOT (mask k)) + (x AND mask k)"
    by (subst disjunctive_add) (auto simp: bit_simps intro: bit_word_eqI)
  then show ?thesis by (metis add_diff_cancel_right')
qed


section \<open>Arrays and byte order\<close>

text \<open>Reading and writing an array: an index outside it is undefined behaviour in C.\<close>

definition arr_get :: "'a list \<Rightarrow> nat \<Rightarrow> 'a res" where
  "arr_get xs i = (if i < length xs then Inr (xs ! i) else Inl Undefined)"

definition arr_set :: "'a list \<Rightarrow> nat \<Rightarrow> 'a \<Rightarrow> 'a list res" where
  "arr_set xs i v = (if i < length xs then Inr (xs[i := v]) else Inl Undefined)"

lemma arr_get_ok [simp]: "i < length xs \<Longrightarrow> arr_get xs i = Inr (xs ! i)"
  by (simp add: arr_get_def)

lemma arr_set_ok [simp]: "i < length xs \<Longrightarrow> arr_set xs i v = Inr (xs[i := v])"
  by (simp add: arr_set_def)

text \<open>The bytes of a \<open>uint32_t\<close> as both machines of the repository lay it out: little endian.\<close>

definition le_bytes :: "u32 \<Rightarrow> u8 list" where
  "le_bytes x = map (\<lambda>k. ucast (drop_bit k x)) [0, 8, 16, 24]"

definition le_word :: "u8 \<Rightarrow> u8 \<Rightarrow> u8 \<Rightarrow> u8 \<Rightarrow> u32" where
  "le_word a b c d =
     (((ucast a OR push_bit 8 (ucast b)) OR push_bit 16 (ucast c)) OR push_bit 24 (ucast d))"

lemma length_le_bytes [simp]: "length (le_bytes x) = 4"
  by (simp add: le_bytes_def)

lemma le_bytes_eq: "le_bytes x =
    [ucast x, ucast (drop_bit 8 x), ucast (drop_bit 16 x), ucast (drop_bit 24 x)]"
  by (simp add: le_bytes_def)

lemma bit_ucast_u8 [bits_of]: "bit (ucast (x :: u8) :: u32) i \<longleftrightarrow> i < 8 \<and> bit x i"
  by (auto simp: bit_ucast_iff possible_bit_def dest: bit_imp_le_length)

lemma bit_ucast_u32 [bits_of]: "bit (ucast (x :: u32) :: u8) i \<longleftrightarrow> i < 8 \<and> bit x i"
  by (auto simp: bit_ucast_iff possible_bit_def dest: bit_imp_le_length)

lemma le_word_bytes: "le_word (ucast x) (ucast (drop_bit 8 x)) (ucast (drop_bit 16 x)) (ucast (drop_bit 24 x)) = x"
proof (rule u32_eqI)
  fix i :: nat assume "i < 32"
  then consider "i < 8" | "8 \<le> i \<and> i < 16" | "16 \<le> i \<and> i < 24" | "24 \<le> i \<and> i < 32" by linarith
  then show "bit (le_word (ucast x) (ucast (drop_bit 8 x)) (ucast (drop_bit 16 x)) (ucast (drop_bit 24 x))) i = bit x i"
    by cases (auto simp: le_word_def bits_of bit_push_bit_iff bit_drop_bit_eq possible_bit_def)
qed

lemma le_bytes_word: "le_bytes (le_word a b c d) = [a, b, c, d]"
proof -
  have 1: "ucast (le_word a b c d) = a"
    by (rule bit_word_eqI)
      (auto simp: le_word_def bits_of bit_push_bit_iff bit_ucast_iff possible_bit_def dest: bit_imp_le_length)
  have 2: "ucast (drop_bit 8 (le_word a b c d)) = b"
    by (rule bit_word_eqI)
      (auto simp: le_word_def bits_of bit_push_bit_iff bit_drop_bit_eq possible_bit_def)
  have 3: "ucast (drop_bit 16 (le_word a b c d)) = c"
    by (rule bit_word_eqI)
      (auto simp: le_word_def bits_of bit_push_bit_iff bit_drop_bit_eq possible_bit_def)
  have 4: "ucast (drop_bit 24 (le_word a b c d)) = d"
    by (rule bit_word_eqI)
      (auto simp: le_word_def bits_of bit_push_bit_iff bit_drop_bit_eq possible_bit_def)
  from 1 2 3 4 show ?thesis by (simp add: le_bytes_eq)
qed

end
