(* ===== verification/BitSupport.thy ===== *)
theory BitSupport
  imports Prelude
begin

unbundle bit_operations_syntax

text \<open>
  The bit manipulation helpers of \<open>libpi/libc/bit-support.h\<close>. Every failing \<open>assert\<close> of the C
  code is the result \<open>Inl Assert_fail\<close>. The lemmas read a bit of each result; \<open>field_put\<close> is the
  specification of \<open>bits_set\<close>: bits \<open>lb..ub\<close> come from the value, all others are untouched.
\<close>

section \<open>Definitions\<close>

definition bit_clr :: "u32 \<Rightarrow> u32 \<Rightarrow> u32 res" where
  "bit_clr x b = seq (require (b < 32) Assert_fail) (\<lambda>_. Inr (x AND NOT (shl 1 b)))"

definition bit_set :: "u32 \<Rightarrow> u32 \<Rightarrow> u32 res" where
  "bit_set x b = seq (require (b < 32) Assert_fail) (\<lambda>_. Inr (x OR shl 1 b))"

definition bit_not :: "u32 \<Rightarrow> u32 \<Rightarrow> u32 res" where
  "bit_not x b = seq (require (b < 32) Assert_fail) (\<lambda>_. Inr (x XOR shl 1 b))"

definition bit_is_on :: "u32 \<Rightarrow> u32 \<Rightarrow> u32 res" where
  "bit_is_on x b = seq (require (b < 32) Assert_fail) (\<lambda>_. Inr (shr x b AND 1))"

definition bit_is_off :: "u32 \<Rightarrow> u32 \<Rightarrow> u32 res" where
  "bit_is_off x b = seq (bit_is_on x b) (\<lambda>v. Inr (if v = 0 then 1 else 0))"

definition bits_mask :: "u32 \<Rightarrow> u32 res" where
  "bits_mask nbits =
     (if nbits = 32 then Inr (NOT 0)
      else seq (require (0 \<le> nbits \<and> nbits < 32) Assert_fail) (\<lambda>_. Inr (shl 1 nbits - 1)))"

definition bits_get :: "u32 \<Rightarrow> u32 \<Rightarrow> u32 \<Rightarrow> u32 res" where
  "bits_get x lb ub =
     seq (require (lb \<le> ub) Assert_fail) (\<lambda>_.
     seq (require (ub < 32) Assert_fail) (\<lambda>_.
     seq (bits_mask (ub - lb + 1)) (\<lambda>m.
     Inr (shr x lb AND m))))"

definition bits_clr :: "u32 \<Rightarrow> u32 \<Rightarrow> u32 \<Rightarrow> u32 res" where
  "bits_clr x lb ub =
     seq (require (lb \<le> ub) Assert_fail) (\<lambda>_.
     seq (require (ub < 32) Assert_fail) (\<lambda>_.
     seq (bits_mask (ub - lb + 1)) (\<lambda>m.
     Inr (x AND NOT (shl m lb)))))"

definition bits_set :: "u32 \<Rightarrow> u32 \<Rightarrow> u32 \<Rightarrow> u32 \<Rightarrow> u32 res" where
  "bits_set x lb ub v =
     seq (require (lb \<le> ub) Assert_fail) (\<lambda>_.
     seq (require (ub < 32) Assert_fail) (\<lambda>_.
     let n = ub - lb + 1 in
     seq (require (n \<le> 32) Assert_fail) (\<lambda>_.
     seq (bits_mask n) (\<lambda>m.
     seq (require (m AND v = v) Assert_fail) (\<lambda>_.
     seq (bits_clr x lb ub) (\<lambda>y.
     Inr (y OR shl v lb)))))))"

definition bits_eq :: "u32 \<Rightarrow> u32 \<Rightarrow> u32 \<Rightarrow> u32 \<Rightarrow> u32 res" where
  "bits_eq x lb ub val =
     seq (require (lb \<le> ub) Assert_fail) (\<lambda>_.
     seq (require (ub < 32) Assert_fail) (\<lambda>_.
     seq (bits_get x lb ub) (\<lambda>v.
     Inr (if v = val then 1 else 0))))"

text \<open>The loop \<open>for(i = 0; i < 32; i++) if(bit_is_on(x,i)) cnt++\<close>, with \<open>n\<close> iterations left.\<close>

fun bit_count_loop :: "nat \<Rightarrow> u32 \<Rightarrow> u32 \<Rightarrow> u32 \<Rightarrow> u32 res" where
  "bit_count_loop 0 x i cnt = Inr cnt"
| "bit_count_loop (Suc n) x i cnt =
     seq (bit_is_on x i) (\<lambda>v. bit_count_loop n x (i + 1) (if v \<noteq> 0 then cnt + 1 else cnt))"

definition bit_count :: "u32 \<Rightarrow> u32 res" where
  "bit_count x = bit_count_loop 32 x 0 0"

definition bits_union :: "u32 \<Rightarrow> u32 \<Rightarrow> u32" where
  "bits_union x y = (x OR y)"

definition bits_intersect :: "u32 \<Rightarrow> u32 \<Rightarrow> u32" where
  "bits_intersect x y = (x AND y)"

definition bits_not :: "u32 \<Rightarrow> u32" where
  "bits_not x = NOT x"

definition bits_diff :: "u32 \<Rightarrow> u32 \<Rightarrow> u32" where
  "bits_diff A B = bits_intersect A (bits_not B)"

section \<open>Specification and correctness\<close>

definition field_put :: "u32 \<Rightarrow> nat \<Rightarrow> nat \<Rightarrow> u32 \<Rightarrow> nat \<Rightarrow> bool" where
  "field_put x lb ub v i = (if lb \<le> i \<and> i \<le> ub then bit v (i - lb) else bit x i)"

lemma shl_one_minus_one: "unat n < 32 \<Longrightarrow> shl 1 n - 1 = (mask (unat n) :: u32)"
  by (simp add: shl_def push_bit_eq_mult mask_eq_exp_minus_1)

lemma u32_less_32: "(n :: u32) < 32 \<longleftrightarrow> unat n < 32"
  by (simp add: word_less_nat_alt)

lemma bits_mask_ok: "unat n \<le> 32 \<Longrightarrow> bits_mask n = Inr (mask (unat n))"
proof (cases "n = 32")
  case True
  then show ?thesis
    by (auto simp: bits_mask_def bits_of intro!: u32_eqI)
next
  case False
  assume "unat n \<le> 32"
  moreover from False have "unat n \<noteq> 32"
    by (simp add: word_unat_eq_iff)
  ultimately have "unat n < 32" by simp
  with False show ?thesis
    by (simp add: bits_mask_def u32_less_32 shl_one_minus_one)
qed

lemma bits_mask_fails: "32 < unat n \<Longrightarrow> bits_mask n = Inl Assert_fail"
  by (auto simp: bits_mask_def u32_less_32)

lemma field_width:
  assumes "(lb :: u32) \<le> ub" "ub < 32"
  shows "unat (ub - lb + 1) = unat ub - unat lb + 1" "unat lb \<le> unat ub" "unat ub < 32"
proof -
  show le: "unat lb \<le> unat ub" using assms by (simp add: word_le_nat_alt)
  show lt: "unat ub < 32" using assms by (simp add: u32_less_32)
  have "unat (ub - lb) = unat ub - unat lb"
    using assms(1) by (simp add: unat_sub)
  with lt show "unat (ub - lb + 1) = unat ub - unat lb + 1"
    by (simp add: unat_word_ariths)
qed

lemma bits_get_ok:
  assumes "lb \<le> ub" "ub < 32"
  shows "bits_get x lb ub = Inr (shr x lb AND mask (unat ub - unat lb + 1))"
  using assms field_width [OF assms] by (simp add: bits_get_def bits_mask_ok)

lemma bits_clr_ok:
  assumes "lb \<le> ub" "ub < 32"
  shows "bits_clr x lb ub = Inr (x AND NOT (shl (mask (unat ub - unat lb + 1)) lb))"
  using assms field_width [OF assms] by (simp add: bits_clr_def bits_mask_ok)

definition fits :: "u32 \<Rightarrow> u32 \<Rightarrow> u32 \<Rightarrow> bool" where
  "fits v lb ub \<longleftrightarrow> mask (unat ub - unat lb + 1) AND v = v"

lemma fits_bit: "fits v lb ub \<Longrightarrow> bit v i \<Longrightarrow> i \<le> unat ub - unat lb"
  unfolding fits_def by (metis bit_and_iff bit_mask_u32 less_Suc_eq_le Suc_eq_plus1)

lemma bits_set_cases:
  assumes "lb \<le> ub" "ub < 32"
  shows "bits_set x lb ub v =
    (if fits v lb ub
     then Inr ((x AND NOT (shl (mask (unat ub - unat lb + 1)) lb)) OR shl v lb)
     else Inl Assert_fail)"
proof -
  note w = field_width [OF assms]
  have "unat (ub - lb + 1) \<le> 32" using w by simp
  then show ?thesis
    using w assms by (simp add: bits_set_def bits_mask_ok bits_clr_ok fits_def word_le_nat_alt)
qed

lemma bits_set_bit:
  assumes "lb \<le> ub" "ub < 32" "fits v lb ub" "bits_set x lb ub v = Inr y"
  shows "bit y i = field_put x (unat lb) (unat ub) v i"
proof -
  note w = field_width [OF assms(1,2)]
  have y: "y = (x AND NOT (shl (mask (unat ub - unat lb + 1)) lb)) OR shl v lb"
    using assms by (simp add: bits_set_cases)
  show ?thesis
    using w fits_bit [OF assms(3), of "i - unat lb"] bit_u32_bound [of x i] bit_u32_bound [of v "i - unat lb"]
    by (auto simp: y bits_of field_put_def)
qed


lemma bits_get_bit:
  assumes "lb \<le> ub" "ub < 32" "bits_get x lb ub = Inr y"
  shows "bit y i \<longleftrightarrow> i \<le> unat ub - unat lb \<and> bit x (unat lb + i)"
  using assms field_width [OF assms(1,2)]
  by (auto simp: bits_get_ok bits_of dest: bit_u32_bound)

lemma bits_get_eqI:
  assumes "lb \<le> ub" "ub < 32"
    and "\<And>i. i \<le> unat ub - unat lb \<Longrightarrow> bit x (unat lb + i) = bit y (unat lb + i)"
  shows "bits_get x lb ub = bits_get y lb ub"
  using assms by (auto simp: bits_get_ok bits_of intro!: u32_eqI)

lemma bits_set_get_same:
  assumes "lb \<le> ub" "ub < 32" "fits v lb ub" "bits_set x lb ub v = Inr y"
  shows "bits_get y lb ub = Inr v"
proof -
  obtain w where w: "bits_get y lb ub = Inr w"
    using assms(1,2) by (simp add: bits_get_ok)
  have "w = v"
  proof (rule u32_eqI)
    fix i :: nat
    show "bit w i = bit v i"
      using field_width [OF assms(1,2)] fits_bit [OF assms(3), of i]
      by (auto simp: bits_get_bit [OF assms(1,2) w] bits_set_bit [OF assms] field_put_def)
  qed
  with w show ?thesis by simp
qed

lemma bits_set_get_other:
  assumes "lb \<le> ub" "ub < 32" "fits v lb ub" "bits_set x lb ub v = Inr y"
    and "lb' \<le> ub'" "ub' < 32" "ub' < lb \<or> ub < lb'"
  shows "bits_get y lb' ub' = bits_get x lb' ub'"
  using assms(5,6)
proof (rule bits_get_eqI)
  fix i assume "i \<le> unat ub' - unat lb'"
  then show "bit y (unat lb' + i) = bit x (unat lb' + i)"
    using assms(7) field_width(2) [OF assms(5,6)]
    by (auto simp: bits_set_bit [OF assms(1-4)] field_put_def word_less_nat_alt)
qed

text \<open>\<open>bits_set\<close> writes exactly the field: when the value fits the field the call succeeds,
  \<open>bits_get\<close> reads the value back, and every field that does not overlap reads as before; a value
  that does not fit is refused by the assertion.\<close>

theorem bits_set_field:
  assumes "lb \<le> ub" "ub < 32"
  shows "if fits v lb ub
    then \<exists>y. bits_set x lb ub v = Inr y \<and> bits_get y lb ub = Inr v \<and>
         (\<forall>lb' ub'. lb' \<le> ub' \<and> ub' < 32 \<and> (ub' < lb \<or> ub < lb') \<longrightarrow>
            bits_get y lb' ub' = bits_get x lb' ub')
    else bits_set x lb ub v = Inl Assert_fail"
proof (cases "fits v lb ub")
  case True
  then obtain y where y: "bits_set x lb ub v = Inr y"
    using assms by (simp add: bits_set_cases)
  from True show ?thesis
    using bits_set_get_same [OF assms True y] bits_set_get_other [OF assms True y] y by auto
next
  case False
  with assms show ?thesis by (simp add: bits_set_cases)
qed

theorem bits_set_field_witness:
  "bits_set 0xFF00 4 7 0x9 = Inr 0xFF90 \<and> bits_get 0xFF90 4 7 = Inr 9 \<and>
   bits_set 0xFF00 4 7 0x10 = Inl Assert_fail"
proof -
  have a: "bits_set 0xFF00 4 7 0x9 = Inr 0xFF90" "fits 9 4 7"
    by (simp_all add: bits_set_def bits_mask_def bits_clr_def shl_def fits_def mask_eq_exp_minus_1)
  have b: "\<not> fits 0x10 4 7" by (simp add: fits_def mask_eq_exp_minus_1)
  show ?thesis
    using bits_set_field [where lb = 4 and ub = 7 and v = 9 and x = "0xFF00"]
      bits_set_field [where lb = 4 and ub = 7 and v = "0x10" and x = "0xFF00"] a b by auto
qed

lemma bit_is_on_ok: "unat b < 32 \<Longrightarrow> bit_is_on x b = Inr (if bit x (unat b) then 1 else 0)"
  by (simp add: bit_is_on_def u32_less_32 and_one_bit bits_of)

lemma bit_count_loop_ok:
  "unat i + n = 32 \<Longrightarrow>
   bit_count_loop n x i cnt = Inr (cnt + of_nat (card {k. unat i \<le> k \<and> k < 32 \<and> bit x k}))"
proof (induction n arbitrary: i cnt)
  case 0
  then have none: "{k. unat i \<le> k \<and> k < 32 \<and> bit x k} = {}" by auto
  show ?case unfolding none by simp
next
  case (Suc n)
  then have i: "unat i < 32" by simp
  then have i1: "unat (i + 1) = unat i + 1"
    by (simp add: unat_word_ariths)
  let ?S = "{k. unat i + 1 \<le> k \<and> k < 32 \<and> bit x k}"
  have split: "{k. unat i \<le> k \<and> k < 32 \<and> bit x k} = (if bit x (unat i) then insert (unat i) ?S else ?S)"
    using i by (auto simp: Suc_le_eq intro: le_neq_implies_less)
  have "finite ?S" "unat i \<notin> ?S" by auto
  then show ?case
    using Suc.prems i1 by (simp add: bit_is_on_ok [OF i] Suc.IH split)
qed

text \<open>\<open>bit_count\<close> never fails and counts the bits of its argument that are 1.\<close>

theorem bit_count_counts:
  "\<exists>r. bit_count x = Inr r \<and> unat r = card {i. i < 32 \<and> bit x i}"
proof -
  have le: "card {i. i < 32 \<and> bit x i} \<le> 32"
    using card_mono [of "{..<32::nat}" "{i. i < 32 \<and> bit x i}"] by auto
  have "bit_count x = Inr (of_nat (card {i. i < 32 \<and> bit x i}))"
    using bit_count_loop_ok [of 0 32 x 0] by (simp add: bit_count_def)
  with le show ?thesis by (simp add: unat_of_nat)
qed

end
