(* ===== verification/Fifo.thy ===== *)
theory Fifo
  imports Prelude
begin

text \<open>
  The interface a first-in first-out queue offers its clients: two operations, an abstraction to
  the list of queued items, and the laws both queues of the repository keep (the circular buffer of
  \<open>libpi/libc/circular.h\<close> and the linked queue of \<open>libpi/libc/Q.h\<close>). \<open>can_push\<close> is what the client
  has to know before it pushes: free space for the one, an element that is not queued for the other.
\<close>

datatype 'a fifo_op = Push 'a | Pop

fun pushed :: "'a fifo_op list \<Rightarrow> 'a list" where
  "pushed [] = []"
| "pushed (Push x # ops) = x # pushed ops"
| "pushed (Pop # ops) = pushed ops"

lemma pushed_map_Push [simp]: "pushed (map Push xs) = xs"
  by (induction xs) simp_all

locale fifo =
  fixes items :: "'q \<Rightarrow> 'a list"
    and valid :: "'q \<Rightarrow> bool"
    and can_push :: "'q \<Rightarrow> 'a \<Rightarrow> bool"
    and push :: "'q \<Rightarrow> 'a \<Rightarrow> 'q option"
    and pop :: "'q \<Rightarrow> ('a \<times> 'q) option"
  assumes push_law: "valid q \<Longrightarrow> can_push q x \<Longrightarrow>
      \<exists>q'. push q x = Some q' \<and> valid q' \<and> items q' = items q @ [x]"
    and pop_empty_law: "valid q \<Longrightarrow> items q = [] \<Longrightarrow> pop q = None"
    and pop_law: "valid q \<Longrightarrow> items q = x # xs \<Longrightarrow>
      \<exists>q'. pop q = Some (x, q') \<and> valid q' \<and> items q' = xs"
begin

text \<open>A client's run: the items the pops return, in order, and the queue that is left. A push the
  client was not entitled to ends the run with \<open>None\<close>; a pop of an empty queue returns nothing.\<close>

fun run :: "'q \<Rightarrow> 'a fifo_op list \<Rightarrow> ('a list \<times> 'q) option" where
  "run q [] = Some ([], q)"
| "run q (Push x # ops) =
     (if can_push q x then case push q x of None \<Rightarrow> None | Some q' \<Rightarrow> run q' ops else None)"
| "run q (Pop # ops) =
     (case pop q of None \<Rightarrow> run q ops
      | Some (x, q') \<Rightarrow> map_option (\<lambda>(out, r). (x # out, r)) (run q' ops))"

lemma pop_None_iff: "valid q \<Longrightarrow> pop q = None \<longleftrightarrow> items q = []"
  using pop_empty_law pop_law by (cases "items q") fastforce+

lemma pop_SomeD:
  assumes "valid q" "pop q = Some (x, q')"
  shows "valid q'" "items q = x # items q'"
  using assms pop_empty_law [of q] pop_law [of q] by (cases "items q"; fastforce)+

lemma run_order:
  assumes "valid q" "run q ops = Some (out, q')"
  shows "valid q' \<and> out @ items q' = items q @ pushed ops"
  using assms
proof (induction q ops arbitrary: out rule: run.induct)
  case (1 q)
  then show ?case by simp
next
  case (2 q x ops)
  then obtain q1 where "can_push q x" "push q x = Some q1" "run q1 ops = Some (out, q')"
    by (auto split: if_splits option.splits)
  with "2.IH" push_law [of q x] "2.prems"(1) show ?case by auto
next
  case (3 q ops)
  show ?case
  proof (cases "pop q")
    case None
    with 3 show ?thesis by simp
  next
    case (Some p)
    then obtain x q1 where p: "pop q = Some (x, q1)" by (cases p) auto
    with "3.prems" obtain o1 where "run q1 ops = Some (o1, q')" "out = x # o1"
      by (auto split: prod.splits)
    with "3.IH"(2) [OF p] pop_SomeD [OF "3.prems"(1) p] show ?thesis by simp
  qed
qed

text \<open>Popping a non-empty queue as often as it has items returns the items in order.\<close>

fun drain :: "'q \<Rightarrow> nat \<Rightarrow> ('a list \<times> 'q) option" where
  "drain q 0 = Some ([], q)"
| "drain q (Suc k) = (case pop q of None \<Rightarrow> None
     | Some (x, q') \<Rightarrow> map_option (\<lambda>(out, r). (x # out, r)) (drain q' k))"

lemma drain_take:
  "valid q \<Longrightarrow> k \<le> length (items q) \<Longrightarrow>
   \<exists>q'. drain q k = Some (take k (items q), q') \<and> valid q' \<and> items q' = drop k (items q)"
proof (induction k arbitrary: q)
  case 0
  then show ?case by simp
next
  case (Suc k)
  then obtain x xs where q: "items q = x # xs" by (cases "items q") auto
  from pop_law [OF Suc.prems(1) q] obtain q1
    where "pop q = Some (x, q1)" "valid q1" "items q1 = xs" by blast
  with Suc.IH [of q1] Suc.prems(2) q show ?case by auto
qed

end

end
