(* ===== verification/Circular.thy ===== *)
theory Circular
  imports Fifo
begin

unbundle bit_operations_syntax

text \<open>
  The circular queue of \<open>libpi/libc/circular.h\<close>: one interrupt handler and one thread share it
  without a lock, because only the producer writes \<open>head\<close> and only the consumer writes \<open>tail\<close>.
  The macro \<open>CQ_N\<close> (8192 unless the client defines it) is the argument \<open>N\<close> and the element type
  \<open>cqe_t\<close> is a type variable. Memory barriers have no effect on a sequential run; the orders they
  enforce are the orders of the micro steps of section \<open>Producer and consumer\<close>.
\<close>

section \<open>Definitions\<close>

record 'e cq =
  c_buf :: "'e list"
  fence :: u32
  head :: u32
  tail :: u32
  overflow :: u32
  errors_fatal_p :: bool

definition CQ_N :: u32 where
  "CQ_N = 8192"

definition cq_empty :: "'e cq \<Rightarrow> bool" where
  "cq_empty q \<longleftrightarrow> head q = tail q"

definition cq_full :: "u32 \<Rightarrow> 'e cq \<Rightarrow> bool" where
  "cq_full N q \<longleftrightarrow> (head q + 1) mod N = tail q"

definition cq_nelem :: "u32 \<Rightarrow> 'e cq \<Rightarrow> u32" where
  "cq_nelem N q = (head q - tail q) mod N"

definition cq_nspace :: "u32 \<Rightarrow> 'e cq \<Rightarrow> u32" where
  "cq_nspace N q = (N - 1) - cq_nelem N q"

text \<open>The two ordered memory effects of a pop (read the slot, then publish \<open>tail\<close>) and of a push
  (write the slot, then publish \<open>head\<close>), marked 1 and 2 in the source.\<close>

definition cq_read_slot :: "'e cq \<Rightarrow> u32 \<Rightarrow> 'e res" where
  "cq_read_slot c i = arr_get (c_buf c) (unat i)"

definition cq_publish_tail :: "u32 \<Rightarrow> u32 \<Rightarrow> 'e cq \<Rightarrow> 'e cq" where
  "cq_publish_tail N t c = c\<lparr>tail := (t + 1) mod N\<rparr>"

definition cq_write_slot :: "'e cq \<Rightarrow> u32 \<Rightarrow> 'e \<Rightarrow> 'e cq res" where
  "cq_write_slot c i x = seq (arr_set (c_buf c) (unat i) x) (\<lambda>b. Inr (c\<lparr>c_buf := b\<rparr>))"

definition cq_publish_head :: "u32 \<Rightarrow> u32 \<Rightarrow> 'e cq \<Rightarrow> 'e cq" where
  "cq_publish_head N h c = c\<lparr>head := (h + 1) mod N\<rparr>"

text \<open>\<open>None\<close> is the return value 0 with \<open>*e\<close> untouched, \<open>Some e\<close> the value 1 with \<open>*e = e\<close>.\<close>

definition cq_pop_nonblock :: "u32 \<Rightarrow> 'e cq \<Rightarrow> ('e option \<times> 'e cq) res" where
  "cq_pop_nonblock N c =
     (if cq_empty c then Inr (None, c)
      else let t = tail c in
        seq (cq_read_slot c t) (\<lambda>e.
        Inr (Some e, cq_publish_tail N t c)))"

text \<open>
  \<open>cq_pop\<close> spins until an interrupt has pushed something. \<open>ie\<close> is \<open>cpsr_int_enabled()\<close> and \<open>irqs\<close>
  what the interrupt handler does to the queue between one try and the next; when no interrupt is
  left the loop does not end.
\<close>

fun cq_pop :: "u32 \<Rightarrow> bool \<Rightarrow> ('e cq \<Rightarrow> 'e cq) list \<Rightarrow> 'e cq
    \<Rightarrow> ('e \<times> ('e cq \<Rightarrow> 'e cq) list \<times> 'e cq) res" where
  "cq_pop N ie irqs c =
     seq (cq_pop_nonblock N c) (\<lambda>(r, c').
       case r of Some e \<Rightarrow> Inr (e, irqs, c')
       | None \<Rightarrow> if \<not> ie then Inl Panic
           else (case irqs of [] \<Rightarrow> Inl Stuck | f # fs \<Rightarrow> cq_pop N ie fs (f c')))"

declare cq_pop.simps [simp del]

text \<open>0 when full, else 1 and the queue with the element.\<close>

definition cq_push :: "u32 \<Rightarrow> 'e cq \<Rightarrow> 'e \<Rightarrow> (bool \<times> 'e cq) res" where
  "cq_push N c x =
     (if cq_full N c then Inr (False, c)
      else let h = head c in
        seq (require (0 < cq_nspace N c) Assert_fail) (\<lambda>_.
        seq (cq_write_slot c h x) (\<lambda>c.
        Inr (True, cq_publish_head N h c))))"

definition cq_peek :: "'e cq \<Rightarrow> 'e option res" where
  "cq_peek c =
     (if cq_empty c then Inr None
      else seq (cq_read_slot c (tail c)) (\<lambda>e. Inr (Some e)))"

fun cq_pop_n :: "u32 \<Rightarrow> bool \<Rightarrow> ('e cq \<Rightarrow> 'e cq) list \<Rightarrow> 'e cq \<Rightarrow> nat
    \<Rightarrow> ('e list \<times> ('e cq \<Rightarrow> 'e cq) list \<times> 'e cq) res" where
  "cq_pop_n N ie irqs c 0 = Inr ([], irqs, c)"
| "cq_pop_n N ie irqs c (Suc n) =
     seq (cq_pop N ie irqs c) (\<lambda>(e, irqs, c).
     seq (cq_pop_n N ie irqs c n) (\<lambda>(es, irqs, c).
     Inr (e # es, irqs, c)))"

definition cq_pop_n_noblk :: "u32 \<Rightarrow> bool \<Rightarrow> ('e cq \<Rightarrow> 'e cq) list \<Rightarrow> 'e cq \<Rightarrow> u32
    \<Rightarrow> ('e list option \<times> ('e cq \<Rightarrow> 'e cq) list \<times> 'e cq) res" where
  "cq_pop_n_noblk N ie irqs q n =
     (if cq_nelem N q < n then Inr (None, irqs, q)
      else seq (cq_pop_n N ie irqs q (unat n)) (\<lambda>(es, irqs, q). Inr (Some es, irqs, q)))"

definition cq_peek_n :: "u32 \<Rightarrow> bool \<Rightarrow> ('e cq \<Rightarrow> 'e cq) list \<Rightarrow> 'e cq \<Rightarrow> u32
    \<Rightarrow> ('e list option \<times> ('e cq \<Rightarrow> 'e cq) list \<times> 'e cq) res" where
  "cq_peek_n N ie irqs c n =
     (let sz = cq_nelem N c in
      if sz < n then Inr (None, irqs, c)
      else let t = tail c in
        seq (cq_pop_n_noblk N ie irqs c n) (\<lambda>(r, irqs, c).
        case r of None \<Rightarrow> Inr (None, irqs, c)
        | Some v \<Rightarrow> let c = c\<lparr>tail := t\<rparr> in
            seq (require (sz = cq_nelem N c) Assert_fail) (\<lambda>_. Inr (Some v, irqs, c))))"

fun cq_push_all :: "u32 \<Rightarrow> 'e cq \<Rightarrow> 'e list \<Rightarrow> 'e cq res" where
  "cq_push_all N c [] = Inr c"
| "cq_push_all N c (x # xs) =
     seq (cq_push N c x) (\<lambda>(ok, c).
     seq (require ok Panic) (\<lambda>_. cq_push_all N c xs))"

text \<open>\<open>data\<close> is the array the pointer points to, \<open>n\<close> its length.\<close>

definition cq_push_n :: "u32 \<Rightarrow> 'e cq \<Rightarrow> 'e list \<Rightarrow> (bool \<times> 'e cq) res" where
  "cq_push_n N c data =
     (let n = word_of_nat (length data) in
      seq (require (n \<noteq> 0) Assert_fail) (\<lambda>_.
      if cq_nspace N c < n then Inr (False, c)
      else seq (cq_push_all N c data) (\<lambda>c. Inr (True, c))))"

definition cq_push32 :: "u32 \<Rightarrow> u8 cq \<Rightarrow> u32 \<Rightarrow> (bool \<times> u8 cq) res" where
  "cq_push32 N c x = cq_push_n N c (le_bytes x)"

fun word_of_bytes :: "u8 list \<Rightarrow> u32" where
  "word_of_bytes [a, b, c, d] = le_word a b c d"
| "word_of_bytes _ = 0"

definition cq_pop32_noblk :: "u32 \<Rightarrow> bool \<Rightarrow> (u8 cq \<Rightarrow> u8 cq) list \<Rightarrow> u8 cq
    \<Rightarrow> (u32 option \<times> (u8 cq \<Rightarrow> u8 cq) list \<times> u8 cq) res" where
  "cq_pop32_noblk N ie irqs c =
     seq (cq_pop_n_noblk N ie irqs c 4) (\<lambda>(r, irqs, c). Inr (map_option word_of_bytes r, irqs, c))"

definition cq_pop32 :: "u32 \<Rightarrow> bool \<Rightarrow> (u8 cq \<Rightarrow> u8 cq) list \<Rightarrow> u8 cq
    \<Rightarrow> (u32 \<times> (u8 cq \<Rightarrow> u8 cq) list \<times> u8 cq) res" where
  "cq_pop32 N ie irqs c =
     seq (cq_pop_n N ie irqs c 4) (\<lambda>(es, irqs, c). Inr (word_of_bytes es, irqs, c))"

definition cq_ok :: "'e cq \<Rightarrow> unit res" where
  "cq_ok c = require (fence c = 0x12345678) Panic"

text \<open>\<open>z\<close> is the element whose bytes are all 0 (the \<open>memset\<close>), \<open>n\<close> the length of the array.\<close>

definition cq_init :: "u32 \<Rightarrow> 'e \<Rightarrow> bool \<Rightarrow> 'e cq res" where
  "cq_init N z errors_fatal =
     (let c = \<lparr>c_buf = replicate (unat N) z, fence = 0x12345678, head = 0, tail = 0,
               overflow = 0, errors_fatal_p = errors_fatal\<rparr> in
      seq (require (cq_empty c) Assert_fail) (\<lambda>_.
      seq (require (\<not> cq_full N c) Assert_fail) (\<lambda>_.
      seq (require (cq_nelem N c = 0) Assert_fail) (\<lambda>_.
      seq (cq_pop_nonblock N c) (\<lambda>(r, c).
      seq (require (case r of None \<Rightarrow> True | Some _ \<Rightarrow> False) Assert_fail) (\<lambda>_. Inr c))))))"

definition cq_ckpt :: "'e cq \<Rightarrow> u32" where
  "cq_ckpt c = tail c"

definition cq_restore :: "'e cq \<Rightarrow> u32 \<Rightarrow> 'e cq" where
  "cq_restore c ckpt = c\<lparr>tail := ckpt\<rparr>"


section \<open>The ring as a list\<close>

definition ring_cnt :: "nat \<Rightarrow> nat \<Rightarrow> nat \<Rightarrow> nat" where
  "ring_cnt n h t = (if t \<le> h then h - t else n + h - t)"

definition ring_list :: "'e list \<Rightarrow> nat \<Rightarrow> nat \<Rightarrow> 'e list" where
  "ring_list b t k = map (\<lambda>i. b ! ((t + i) mod length b)) [0..<k]"

lemma length_ring_list [simp]: "length (ring_list b t k) = k"
  by (simp add: ring_list_def)

lemma ring_cnt_less: "h < n \<Longrightarrow> t < n \<Longrightarrow> ring_cnt n h t < n"
  by (auto simp: ring_cnt_def)

lemma ring_head: "h < n \<Longrightarrow> t < n \<Longrightarrow> (t + ring_cnt n h t) mod n = h"
  by (auto simp: ring_cnt_def mod_if)

lemma ring_cnt_0: "h < n \<Longrightarrow> t < n \<Longrightarrow> ring_cnt n h t = 0 \<longleftrightarrow> h = t"
  by (auto simp: ring_cnt_def)

lemma Suc_mod_if: "h < n \<Longrightarrow> Suc h mod n = (if Suc h = n then 0 else Suc h)"
  by simp

lemma ring_full: "h < n \<Longrightarrow> t < n \<Longrightarrow> Suc h mod n = t \<longleftrightarrow> ring_cnt n h t = n - 1"
  by (auto simp: ring_cnt_def Suc_mod_if)

lemma ring_cnt_push:
  "h < n \<Longrightarrow> t < n \<Longrightarrow> Suc h mod n \<noteq> t \<Longrightarrow> ring_cnt n (Suc h mod n) t = Suc (ring_cnt n h t)"
  by (auto simp: ring_cnt_def Suc_mod_if)

lemma ring_cnt_pop:
  "h < n \<Longrightarrow> t < n \<Longrightarrow> h \<noteq> t \<Longrightarrow> ring_cnt n h t = Suc (ring_cnt n h (Suc t mod n))"
  by (auto simp: ring_cnt_def Suc_mod_if)

lemma ring_list_write:
  assumes "t < length b" "k < length b"
  shows "ring_list (b[(t + k) mod length b := x]) t k = ring_list b t k"
proof -
  have "(t + k) mod length b \<noteq> (t + i) mod length b" if "i < k" for i
  proof
    assume "(t + k) mod length b = (t + i) mod length b"
    with that have "length b dvd k - i" by (simp add: mod_eq_dvd_iff_nat)
    with that assms(2) show False by (auto dest!: dvd_imp_le)
  qed
  then show ?thesis by (simp add: ring_list_def)
qed

lemma ring_list_push:
  assumes "t < length b" "k < length b"
  shows "ring_list (b[(t + k) mod length b := x]) t (Suc k) = ring_list b t k @ [x]"
proof -
  have "(t + k) mod length b < length b" using assms(1) by (intro mod_less_divisor) linarith
  then show ?thesis
    using ring_list_write [OF assms, of x] by (simp add: ring_list_def)
qed

lemma ring_list_pop:
  assumes "t < length b"
  shows "ring_list b t (Suc k) = b ! t # ring_list b (Suc t mod length b) k"
proof -
  have "map (\<lambda>i. b ! ((t + i) mod length b)) [Suc 0..<Suc k] =
      map (\<lambda>i. b ! ((Suc t mod length b + i) mod length b)) [0..<k]"
    by (simp add: map_Suc_upt [symmetric] mod_add_left_eq del: upt_Suc)
  then show ?thesis
    using assms by (simp add: ring_list_def upt_rec [of 0 "Suc k"] del: upt_Suc)
qed

definition cq_cnt :: "'e cq \<Rightarrow> nat" where
  "cq_cnt c = ring_cnt (length (c_buf c)) (unat (head c)) (unat (tail c))"

definition cq_items :: "'e cq \<Rightarrow> 'e list" where
  "cq_items c = ring_list (c_buf c) (unat (tail c)) (cq_cnt c)"

text \<open>The data invariant. \<open>N\<close> has to divide \<open>2 ^ 32\<close>, because \<open>cq_nelem\<close> reduces a wrapped difference.\<close>

definition cq_inv :: "u32 \<Rightarrow> 'e cq \<Rightarrow> bool" where
  "cq_inv N c \<longleftrightarrow> length (c_buf c) = unat N \<and> unat (head c) < unat N \<and> unat (tail c) < unat N"

definition size_ok :: "u32 \<Rightarrow> bool" where
  "size_ok N \<longleftrightarrow> 1 < unat N \<and> unat N dvd 2 ^ 32"

lemma size_ok_CQ_N: "size_ok CQ_N"
  by (simp add: size_ok_def CQ_N_def)

lemma length_cq_items [simp]: "length (cq_items c) = cq_cnt c"
  by (simp add: cq_items_def)

lemma cq_cnt_less: "cq_inv N c \<Longrightarrow> cq_cnt c < unat N"
  by (simp add: cq_inv_def cq_cnt_def ring_cnt_less)

lemma unat_succ_mod: "unat h < unat N \<Longrightarrow> unat ((h + 1) mod N) = Suc (unat h) mod unat (N :: u32)"
proof -
  assume h: "unat h < unat N"
  from h unat_u32_lt [of N] have "Suc (unat h) < 4294967296" by linarith
  then have "unat (h + 1) = Suc (unat h)" by (simp add: unat_word_ariths)
  then show ?thesis by (simp add: unat_mod_distrib)
qed

lemma unat_diff_mod:
  fixes h t N :: u32
  assumes "unat h < unat N" "unat t < unat N" "unat N dvd 2 ^ 32"
  shows "unat ((h - t) mod N) = ring_cnt (unat N) (unat h) (unat t)"
proof (cases "unat t \<le> unat h")
  case True
  then have "unat (h - t) = unat h - unat t" by (simp add: unat_sub word_le_nat_alt)
  with True assms show ?thesis by (simp add: unat_mod_distrib ring_cnt_def)
next
  case False
  then have sub: "unat (h - t) = 2 ^ 32 + unat h - unat t"
    by (simp add: unat_sub_if' not_le)
  from assms(3) obtain k where k: "2 ^ 32 = unat N * k" by (elim dvdE)
  then have "0 < k" by (cases k) auto
  then obtain j where "k = Suc j" by (cases k) auto
  with k have "2 ^ 32 + unat h - unat t = unat N * j + (unat N + unat h - unat t)"
    using assms(2) by simp
  then have "(2 ^ 32 + unat h - unat t) mod unat N = (unat N + unat h - unat t) mod unat N"
    by simp
  with False assms sub show ?thesis by (simp add: unat_mod_distrib ring_cnt_def)
qed

lemma cq_empty_iff: "cq_inv N c \<Longrightarrow> cq_empty c \<longleftrightarrow> cq_items c = []"
  using ring_cnt_0 [of "unat (head c)" "unat N" "unat (tail c)"]
  by (simp add: cq_empty_def cq_inv_def cq_cnt_def word_unat_eq_iff flip: length_0_conv)

lemma cq_full_iff: "cq_inv N c \<Longrightarrow> cq_full N c \<longleftrightarrow> cq_cnt c = unat N - 1"
  using ring_full [of "unat (head c)" "unat N" "unat (tail c)"]
  by (simp add: cq_full_def cq_inv_def cq_cnt_def word_unat_eq_iff unat_succ_mod)

lemma cq_nelem_eq: "size_ok N \<Longrightarrow> cq_inv N c \<Longrightarrow> unat (cq_nelem N c) = cq_cnt c"
  by (simp add: cq_nelem_def cq_inv_def size_ok_def cq_cnt_def unat_diff_mod)

lemma cq_nspace_eq:
  assumes "size_ok N" "cq_inv N c"
  shows "unat (cq_nspace N c) = unat N - 1 - cq_cnt c"
proof -
  have n1: "unat (N - 1) = unat N - 1"
    using assms(1) by (simp add: size_ok_def unat_sub word_le_nat_alt)
  moreover have "cq_nelem N c \<le> N - 1"
    using cq_cnt_less [OF assms(2)] cq_nelem_eq [OF assms] n1 by (simp add: word_le_nat_alt)
  ultimately show ?thesis
    using cq_nelem_eq [OF assms] by (simp add: cq_nspace_def unat_sub)
qed


section \<open>Every operation on the list\<close>

lemma cq_write_publish:
  assumes "cq_inv N c" "cq_cnt c < unat N - 1"
  shows "\<exists>c1. cq_write_slot c (head c) x = Inr c1 \<and> cq_inv N c1 \<and> cq_items c1 = cq_items c \<and>
      cq_inv N (cq_publish_head N (head c) c1) \<and>
      cq_items (cq_publish_head N (head c) c1) = cq_items c @ [x]"
proof -
  let ?n = "unat N" and ?h = "unat (head c)" and ?t = "unat (tail c)" and ?b = "c_buf c"
  have inv: "length ?b = ?n" "?h < ?n" "?t < ?n" using assms(1) by (simp_all add: cq_inv_def)
  have h: "?h = (?t + cq_cnt c) mod ?n"
    using ring_head [OF inv(2,3)] inv(1) by (simp add: cq_cnt_def)
  have "Suc ?h mod ?n \<noteq> ?t" using ring_full [OF inv(2,3)] assms(2) inv(1) by (simp add: cq_cnt_def)
  note cnt' = ring_cnt_push [OF inv(2,3) this]
  have "cq_cnt c < length ?b" using cq_cnt_less [OF assms(1)] inv(1) by simp
  with inv have l1: "ring_list (?b[?h := x]) ?t (cq_cnt c) = ring_list ?b ?t (cq_cnt c)"
    and l2: "ring_list (?b[?h := x]) ?t (Suc (cq_cnt c)) = ring_list ?b ?t (cq_cnt c) @ [x]"
    using ring_list_write [of ?t ?b "cq_cnt c" x] ring_list_push [of ?t ?b "cq_cnt c" x] h
    by simp_all
  have lt: "Suc ?h mod ?n < ?n" using inv by (intro mod_less_divisor) linarith
  show ?thesis
    using inv l1 l2 cnt' lt unat_succ_mod [OF inv(2)]
    by (simp add: cq_write_slot_def cq_publish_head_def cq_inv_def cq_items_def cq_cnt_def)
qed

lemma cq_read_publish:
  assumes "cq_inv N c" "cq_items c = x # xs"
  shows "cq_read_slot c (tail c) = Inr x" "cq_inv N (cq_publish_tail N (tail c) c)"
    "cq_items (cq_publish_tail N (tail c) c) = xs"
proof -
  let ?n = "unat N" and ?h = "unat (head c)" and ?t = "unat (tail c)" and ?b = "c_buf c"
  have inv: "length ?b = ?n" "?h < ?n" "?t < ?n" using assms(1) by (simp_all add: cq_inv_def)
  have "cq_cnt c = length (x # xs)" using assms(2) length_cq_items [of c] by metis
  then have cnt: "cq_cnt c = Suc (length xs)" by simp
  then have ne: "?h \<noteq> ?t" using ring_cnt_0 [OF inv(2,3)] inv(1) by (simp add: cq_cnt_def)
  have "Suc (length xs) = Suc (ring_cnt ?n ?h (Suc ?t mod ?n))"
    using ring_cnt_pop [OF inv(2,3) ne] cnt inv(1) by (simp add: cq_cnt_def)
  then have cnt': "ring_cnt ?n ?h (Suc ?t mod ?n) = length xs" by simp
  have pop: "x # xs = ?b ! ?t # ring_list ?b (Suc ?t mod ?n) (length xs)"
    using ring_list_pop [of ?t ?b "length xs"] assms(2) inv cnt by (simp add: cq_items_def)
  have lt: "Suc ?t mod ?n < ?n" using inv by (intro mod_less_divisor) linarith
  show "cq_read_slot c (tail c) = Inr x" using inv pop by (simp add: cq_read_slot_def)
  show "cq_inv N (cq_publish_tail N (tail c) c)"
    using inv lt by (simp add: cq_inv_def cq_publish_tail_def unat_succ_mod)
  show "cq_items (cq_publish_tail N (tail c) c) = xs"
    using inv pop cnt' by (simp add: cq_items_def cq_cnt_def cq_publish_tail_def unat_succ_mod)
qed

lemma cq_push_full: "cq_inv N c \<Longrightarrow> cq_cnt c = unat N - 1 \<Longrightarrow> cq_push N c x = Inr (False, c)"
  by (simp add: cq_push_def cq_full_iff)

lemma cq_push_ok:
  assumes "size_ok N" "cq_inv N c" "cq_cnt c < unat N - 1"
  shows "\<exists>c'. cq_push N c x = Inr (True, c') \<and> cq_inv N c' \<and> cq_items c' = cq_items c @ [x]"
proof -
  have "0 < cq_nspace N c"
    using cq_nspace_eq [OF assms(1,2)] assms(3) by (simp add: word_less_nat_alt)
  with cq_write_publish [OF assms(2,3), of x] assms show ?thesis
    by (auto simp: cq_push_def cq_full_iff Let_def)
qed

lemma cq_pop_empty: "cq_inv N c \<Longrightarrow> cq_items c = [] \<Longrightarrow> cq_pop_nonblock N c = Inr (None, c)"
  by (simp add: cq_pop_nonblock_def cq_empty_iff)

lemma cq_pop_ok:
  "cq_inv N c \<Longrightarrow> cq_items c = x # xs \<Longrightarrow>
   \<exists>c'. cq_pop_nonblock N c = Inr (Some x, c') \<and> c' = cq_publish_tail N (tail c) c \<and>
        cq_inv N c' \<and> cq_items c' = xs"
  using cq_read_publish [of N c x xs] by (simp add: cq_pop_nonblock_def cq_empty_iff Let_def)

definition cq_try_push :: "u32 \<Rightarrow> 'e cq \<Rightarrow> 'e \<Rightarrow> 'e cq option" where
  "cq_try_push N c x = (case cq_push N c x of Inr (True, c') \<Rightarrow> Some c' | _ \<Rightarrow> None)"

definition cq_try_pop :: "u32 \<Rightarrow> 'e cq \<Rightarrow> ('e \<times> 'e cq) option" where
  "cq_try_pop N c = (case cq_pop_nonblock N c of Inr (Some x, c') \<Rightarrow> Some (x, c') | _ \<Rightarrow> None)"

interpretation cqf: fifo cq_items "\<lambda>c. size_ok N \<and> cq_inv N c" "\<lambda>c x. cq_cnt c < unat N - 1"
    "cq_try_push N" "cq_try_pop N" for N
proof unfold_locales
  fix q :: "'a cq" and x
  assume "size_ok N \<and> cq_inv N q" "cq_cnt q < unat N - 1"
  then show "\<exists>q'. cq_try_push N q x = Some q' \<and> (size_ok N \<and> cq_inv N q') \<and> cq_items q' = cq_items q @ [x]"
    using cq_push_ok [of N q x] by (auto simp: cq_try_push_def)
next
  fix q :: "'a cq"
  assume "size_ok N \<and> cq_inv N q" "cq_items q = []"
  then show "cq_try_pop N q = None" by (simp add: cq_try_pop_def cq_pop_empty)
next
  fix q :: "'a cq" and x xs
  assume "size_ok N \<and> cq_inv N q" "cq_items q = x # xs"
  then show "\<exists>q'. cq_try_pop N q = Some (x, q') \<and> (size_ok N \<and> cq_inv N q') \<and> cq_items q' = xs"
    using cq_pop_ok [of N q x xs] by (auto simp: cq_try_pop_def)
qed

lemma cq_pop_now: "cq_pop_nonblock N c = Inr (Some x, c') \<Longrightarrow> cq_pop N ie irqs c = Inr (x, irqs, c')"
  by (subst cq_pop.simps) simp

text \<open>\<open>cq_pop_n\<close> is the \<open>drain\<close> of the interface while there are items.\<close>

lemma cq_pop_n_drain:
  "size_ok N \<and> cq_inv N c \<Longrightarrow> n \<le> cq_cnt c \<Longrightarrow>
   \<exists>c'. cq_pop_n N ie irqs c n = Inr (take n (cq_items c), irqs, c') \<and>
        cqf.drain N c n = Some (take n (cq_items c), c') \<and> c' = c\<lparr>tail := tail c'\<rparr>"
proof (induction n arbitrary: c)
  case 0
  then show ?case by simp
next
  case (Suc n)
  then have "length (cq_items c) = Suc (cq_cnt c - 1)" by simp
  then obtain x xs where items: "cq_items c = x # xs" by (meson length_Suc_conv)
  then have len: "cq_cnt c = Suc (length xs)" using length_cq_items [of c] by simp
  from cq_pop_ok [OF conjunct2 [OF Suc.prems(1)] items] obtain c1 where c1:
    "cq_pop_nonblock N c = Inr (Some x, c1)" "c1 = cq_publish_tail N (tail c) c" "cq_inv N c1"
    "cq_items c1 = xs" by blast
  then have "n \<le> cq_cnt c1" using Suc.prems(2) len length_cq_items [of c1] by simp
  from Suc.IH [OF _ this] Suc.prems c1 obtain c2 where
    "cq_pop_n N ie irqs c1 n = Inr (take n xs, irqs, c2)"
    "cqf.drain N c1 n = Some (take n xs, c2)" "c2 = c1\<lparr>tail := tail c2\<rparr>" by auto
  moreover have "cq_try_pop N c = Some (x, c1)" using c1(1) by (simp add: cq_try_pop_def)
  moreover have "c1 = c\<lparr>tail := tail c1\<rparr>" using c1(2) by (simp add: cq_publish_tail_def)
  ultimately show ?case
    using items by (simp add: cq_pop_now [OF c1(1)]) (metis cq.update_convs(4) cq.surjective)
qed

lemma cq_pop_n_noblk_spec:
  assumes "size_ok N" "cq_inv N c"
  shows "if unat n \<le> cq_cnt c
    then \<exists>c'. cq_pop_n_noblk N ie irqs c n = Inr (Some (take (unat n) (cq_items c)), irqs, c') \<and>
           cq_inv N c' \<and> cq_items c' = drop (unat n) (cq_items c) \<and> c' = c\<lparr>tail := tail c'\<rparr>
    else cq_pop_n_noblk N ie irqs c n = Inr (None, irqs, c)"
proof (cases "unat n \<le> cq_cnt c")
  case True
  with cq_pop_n_drain [of N c "unat n" ie irqs] cqf.drain_take [of N c "unat n"] assms
  show ?thesis
    by (auto simp: cq_pop_n_noblk_def word_less_nat_alt cq_nelem_eq)
next
  case False
  with assms show ?thesis by (simp add: cq_pop_n_noblk_def word_less_nat_alt cq_nelem_eq)
qed

lemma cq_push_all_ok:
  "size_ok N \<Longrightarrow> cq_inv N c \<Longrightarrow> length xs \<le> unat N - 1 - cq_cnt c \<Longrightarrow>
   \<exists>c'. cq_push_all N c xs = Inr c' \<and> cq_inv N c' \<and> cq_items c' = cq_items c @ xs"
proof (induction xs arbitrary: c)
  case Nil
  then show ?case by simp
next
  case (Cons x xs)
  have "cq_cnt c < unat N - 1" using Cons.prems(3) by simp
  from cq_push_ok [OF Cons.prems(1,2) this, of x] obtain c1 where
    "cq_push N c x = Inr (True, c1)" "cq_inv N c1" "cq_items c1 = cq_items c @ [x]" by auto
  moreover from this have "cq_cnt c1 = Suc (cq_cnt c)" using length_cq_items [of c1] by simp
  ultimately show ?case using Cons.IH [of c1] Cons.prems by auto
qed


section \<open>Properties\<close>

lemma unat_length_word: "length xs < 2 ^ 32 \<Longrightarrow> unat (word_of_nat (length xs) :: u32) = length xs"
  by (simp add: unat_of_nat)

lemma cq_push_n_spec:
  assumes "size_ok N" "cq_inv N c" "xs \<noteq> []" "length xs < 2 ^ 32"
  shows "if cq_cnt c + length xs \<le> unat N - 1
    then \<exists>c'. cq_push_n N c xs = Inr (True, c') \<and> cq_inv N c' \<and> cq_items c' = cq_items c @ xs
    else cq_push_n N c xs = Inr (False, c)"
proof -
  have n: "unat (word_of_nat (length xs) :: u32) = length xs"
    using assms(4) by (rule unat_length_word)
  with assms(3) have nz: "(word_of_nat (length xs) :: u32) \<noteq> 0"
    by (metis length_0_conv unat_0)
  have room: "cq_nspace N c < word_of_nat (length xs) \<longleftrightarrow> \<not> cq_cnt c + length xs \<le> unat N - 1"
    using cq_nspace_eq [OF assms(1,2)] cq_cnt_less [OF assms(2)] n by (auto simp: word_less_nat_alt)
  show ?thesis
  proof (cases "cq_cnt c + length xs \<le> unat N - 1")
    case True
    then have "length xs \<le> unat N - 1 - cq_cnt c" by simp
    from cq_push_all_ok [OF assms(1,2) this] obtain c' where
      "cq_push_all N c xs = Inr c'" "cq_inv N c'" "cq_items c' = cq_items c @ xs" by blast
    with True room nz show ?thesis by (simp add: cq_push_n_def)
  next
    case False
    with room nz show ?thesis by (simp add: cq_push_n_def)
  qed
qed

text \<open>\<open>cq_push_n\<close> is all or nothing: on a valid queue it appends the whole array when that many
  slots are free and returns 1, and otherwise returns 0 and changes nothing; it never reaches its
  panic and no assertion fails.\<close>

theorem cq_push_n_all_or_nothing:
  assumes "size_ok N" "cq_inv N c" "xs \<noteq> []" "length xs < 2 ^ 32"
  shows "if cq_cnt c + length xs \<le> unat N - 1
    then \<exists>c'. cq_push_n N c xs = Inr (True, c') \<and> cq_inv N c' \<and> cq_items c' = cq_items c @ xs
    else cq_push_n N c xs = Inr (False, c)"
  by (rule cq_push_n_spec [OF assms])

theorem cq_push_n_all_or_nothing_witness:
  "\<exists>c'. cq_push_n 8 \<lparr>c_buf = [0, 0, 0, 0, 0, 0, 0, 0 :: nat], fence = 0x12345678, head = 6, tail = 5,
      overflow = 0, errors_fatal_p = False\<rparr> [7, 8, 9] = Inr (True, c') \<and> cq_items c' = [0, 7, 8, 9]"
proof -
  let ?c = "\<lparr>c_buf = [0, 0, 0, 0, 0, 0, 0, 0 :: nat], fence = 0x12345678, head = 6, tail = 5,
      overflow = 0, errors_fatal_p = False\<rparr>"
  have s: "size_ok 8" by (simp add: size_ok_def)
  have i: "cq_inv 8 ?c" by (simp add: cq_inv_def)
  have n: "cq_cnt ?c = 1" "cq_items ?c = [0]"
    by (simp_all add: cq_cnt_def ring_cnt_def cq_items_def ring_list_def)
  from cq_push_n_all_or_nothing [OF s i, of "[7, 8, 9]"] n show ?thesis by auto
qed

text \<open>\<open>cq_peek_n\<close> does not consume: it hands out the first \<open>n\<close> queued elements and leaves the
  queue as it was, or reports 0 when fewer are queued; its final assertion holds.\<close>

theorem cq_peek_n_nondestructive:
  assumes "size_ok N" "cq_inv N c"
  shows "cq_peek_n N ie irqs c n =
    Inr (if unat n \<le> cq_cnt c then Some (take (unat n) (cq_items c)) else None, irqs, c)"
proof (cases "unat n \<le> cq_cnt c")
  case True
  then have "\<not> cq_nelem N c < n" using assms by (simp add: word_less_nat_alt cq_nelem_eq)
  moreover from True cq_pop_n_noblk_spec [OF assms, of n ie irqs] obtain c' where
    "cq_pop_n_noblk N ie irqs c n = Inr (Some (take (unat n) (cq_items c)), irqs, c')"
    "c' = c\<lparr>tail := tail c'\<rparr>" by auto
  moreover from this have "c'\<lparr>tail := tail c\<rparr> = c" by (metis cq.surjective cq.update_convs(4))
  ultimately show ?thesis using True by (simp add: cq_peek_n_def Let_def)
next
  case False
  then have "cq_nelem N c < n" using assms by (simp add: word_less_nat_alt cq_nelem_eq)
  with False show ?thesis by (simp add: cq_peek_n_def)
qed

theorem cq_peek_n_nondestructive_witness:
  "cq_peek_n 4 False [] \<lparr>c_buf = [1, 2, 3, 4 :: int], fence = 0x12345678, head = 1, tail = 3,
      overflow = 0, errors_fatal_p = False\<rparr> 2 =
   Inr (Some [4, 1], [], \<lparr>c_buf = [1, 2, 3, 4 :: int], fence = 0x12345678, head = 1, tail = 3,
      overflow = 0, errors_fatal_p = False\<rparr>)"
proof -
  let ?c = "\<lparr>c_buf = [1, 2, 3, 4 :: int], fence = 0x12345678, head = 1, tail = 3,
      overflow = 0, errors_fatal_p = False\<rparr>"
  have s: "size_ok 4" by (simp add: size_ok_def)
  have i: "cq_inv 4 ?c" by (simp add: cq_inv_def)
  have n: "cq_cnt ?c = 2" by (simp add: cq_cnt_def ring_cnt_def)
  have l: "cq_items ?c = [4, 1]"
    by (simp add: cq_items_def n) (simp add: ring_list_def upt_rec numeral_2_eq_2)
  from cq_peek_n_nondestructive [OF s i, of False "[]" 2] n l show ?thesis by simp
qed

text \<open>The 32-bit wrappers are inverse to each other: a word pushed into a byte queue that holds
  nothing else and has four free slots is the word \<open>cq_pop32_noblk\<close> returns, and the queue is empty
  again.\<close>

theorem cq_push32_pop32:
  assumes "size_ok N" "cq_inv N c" "cq_items c = []" "5 \<le> unat N"
  shows "\<exists>c1 c2. cq_push32 N c x = Inr (True, c1) \<and>
    cq_pop32_noblk N ie irqs c1 = Inr (Some x, irqs, c2) \<and> cq_inv N c2 \<and> cq_items c2 = []"
proof -
  have "cq_cnt c = 0" using assms(3) length_cq_items [of c] by simp
  moreover have "le_bytes x \<noteq> []" "length (le_bytes x) < 2 ^ 32" by (simp_all add: le_bytes_eq)
  moreover have "4 \<le> unat N - 1" using assms(4) by simp
  ultimately obtain c1 where
    c1: "cq_push32 N c x = Inr (True, c1)" "cq_inv N c1" "cq_items c1 = le_bytes x"
    using cq_push_n_all_or_nothing [OF assms(1,2), of "le_bytes x"] assms(3)
    by (auto simp: cq_push32_def)
  then have "cq_cnt c1 = 4" using length_cq_items [of c1] by simp
  with cq_pop_n_noblk_spec [OF assms(1) c1(2), of 4 ie irqs] c1(3)
  obtain c2 where "cq_pop_n_noblk N ie irqs c1 4 = Inr (Some (le_bytes x), irqs, c2)"
    "cq_inv N c2" "cq_items c2 = []" by (auto simp: le_bytes_eq)
  with c1(1) show ?thesis by (simp add: cq_pop32_noblk_def le_bytes_eq le_word_bytes)
qed

theorem cq_push32_pop32_witness:
  "let c = \<lparr>c_buf = [0, 0, 0, 0, 0, 0, 0, 0], fence = 0x12345678, head = 6, tail = 6,
      overflow = 0, errors_fatal_p = False\<rparr>
   in \<exists>c1 c2. cq_push32 8 c 0xDEADBEEF = Inr (True, c1) \<and>
    cq_pop32_noblk 8 False [] c1 = Inr (Some 0xDEADBEEF, [], c2) \<and> cq_inv 8 c2 \<and> cq_items c2 = []"
proof -
  let ?c = "\<lparr>c_buf = [0, 0, 0, 0, 0, 0, 0, 0 :: u8], fence = 0x12345678, head = 6, tail = 6,
      overflow = 0, errors_fatal_p = False\<rparr>"
  have s: "size_ok 8" by (simp add: size_ok_def)
  have i: "cq_inv 8 ?c" by (simp add: cq_inv_def)
  have e: "cq_items ?c = []" by (simp add: cq_items_def cq_cnt_def ring_cnt_def ring_list_def)
  show ?thesis
    unfolding Let_def by (rule cq_push32_pop32 [OF s i e]) simp
qed

text \<open>\<open>cq_init\<close> establishes the invariant, with an empty queue and a fence \<open>cq_ok\<close> accepts.\<close>

lemma cq_init_ok:
  assumes "size_ok N"
  shows "\<exists>c. cq_init N z ef = Inr c \<and> cq_inv N c \<and> cq_items c = [] \<and> cq_ok c = Inr ()"
proof -
  let ?c = "\<lparr>c_buf = replicate (unat N) z, fence = 0x12345678, head = 0, tail = 0,
               overflow = 0, errors_fatal_p = ef\<rparr>"
  have i: "cq_inv N ?c" using assms by (simp add: cq_inv_def size_ok_def)
  have cnt: "cq_cnt ?c = 0" by (simp add: cq_cnt_def ring_cnt_def)
  then have nil: "cq_items ?c = []" by (simp add: cq_items_def ring_list_def)
  have "\<not> cq_full N ?c" using assms cnt by (simp add: cq_full_iff [OF i] size_ok_def)
  moreover have "cq_nelem N ?c = 0"
    using cq_nelem_eq [OF assms i] cnt by (simp add: unat_eq_0)
  ultimately show ?thesis
    using i nil cq_pop_empty [OF i nil] cq_empty_iff [OF i] by (simp add: cq_init_def cq_ok_def Let_def)
qed

definition cq_churn :: "nat \<Rightarrow> u32 \<Rightarrow> nat cq \<Rightarrow> nat cq res" where
  "cq_churn k N c = seq (cq_push_all N c [0..<k]) (\<lambda>c.
     seq (cq_pop_n N False [] c k) (\<lambda>(_, _, c). cq_push_all N c [7]))"

text \<open>The queue size the client may define has to divide 2 to the 32: with 6 slots, after five
  pushes and five pops and one more push, one element is queued and \<open>cq_nelem\<close> says 5.\<close>

theorem cq_size_must_divide:
  "let c = \<lparr>c_buf = [0, 1, 2, 3, 4, 7], fence = 0x12345678, head = 0, tail = 5,
            overflow = 0, errors_fatal_p = False\<rparr>
   in seq (cq_init 6 0 False) (cq_churn 5 6) = Inr c \<and> cq_items c = [7] \<and>
      cq_nelem 6 c = 5 \<and> cq_push 6 c 8 = Inl Assert_fail"
proof -
  have 1: "seq (cq_init 6 0 False) (cq_churn 5 6) =
      Inr \<lparr>c_buf = [0, 1, 2, 3, 4, 7], fence = 0x12345678, head = 0, tail = 5,
            overflow = 0, errors_fatal_p = False\<rparr>"
    by code_simp
  have 2: "cq_items \<lparr>c_buf = [0, 1, 2, 3, 4, 7 :: nat], fence = 0x12345678, head = 0, tail = 5,
            overflow = 0, errors_fatal_p = False\<rparr> = [7]"
    by code_simp
  show ?thesis using 1 2 by (simp add: Let_def cq_push_def cq_full_def cq_nspace_def cq_nelem_def)
qed

end
