(* ===== verification/CircularConc.thy ===== *)
theory CircularConc
  imports Circular
begin

text \<open>
  One producer and one consumer on the circular queue, interleaved at the granularity the source's
  barriers keep: the producer tests \<open>cq_full\<close> and reads \<open>head\<close>, writes the slot, publishes \<open>head\<close>;
  the consumer tests \<open>cq_empty\<close> and reads \<open>tail\<close>, reads the slot, publishes \<open>tail\<close>. These are the
  steps of \<open>cq_push\<close> and \<open>cq_pop_nonblock\<close> of \<open>libpi/libc/circular.h\<close>. The ghost fields \<open>sent\<close> and
  \<open>received\<close> record what was pushed and popped.
\<close>

datatype 'e producer = P_idle | P_ready 'e u32 | P_stored 'e u32

datatype 'e consumer = C_idle | C_ready u32 | C_loaded 'e u32

record 'e spsc =
  cqueue :: "'e cq"
  ppc :: "'e producer"
  cpc :: "'e consumer"
  sent :: "'e list"
  received :: "'e list"

inductive spsc_step :: "u32 \<Rightarrow> 'e spsc \<Rightarrow> 'e spsc \<Rightarrow> bool" for N :: u32 where
  p_check: "ppc s = P_idle \<Longrightarrow> \<not> cq_full N (cqueue s) \<Longrightarrow>
     spsc_step N s (s\<lparr>ppc := P_ready x (head (cqueue s))\<rparr>)"
| p_store: "ppc s = P_ready x h \<Longrightarrow> cq_write_slot (cqueue s) h x = Inr c \<Longrightarrow>
     spsc_step N s (s\<lparr>cqueue := c, ppc := P_stored x h\<rparr>)"
| p_publish: "ppc s = P_stored x h \<Longrightarrow>
     spsc_step N s (s\<lparr>cqueue := cq_publish_head N h (cqueue s), ppc := P_idle, sent := sent s @ [x]\<rparr>)"
| c_check: "cpc s = C_idle \<Longrightarrow> \<not> cq_empty (cqueue s) \<Longrightarrow>
     spsc_step N s (s\<lparr>cpc := C_ready (tail (cqueue s))\<rparr>)"
| c_load: "cpc s = C_ready t \<Longrightarrow> cq_read_slot (cqueue s) t = Inr e \<Longrightarrow>
     spsc_step N s (s\<lparr>cpc := C_loaded e t\<rparr>)"
| c_publish: "cpc s = C_loaded e t \<Longrightarrow>
     spsc_step N s (s\<lparr>cqueue := cq_publish_tail N t (cqueue s), cpc := C_idle,
       received := received s @ [e]\<rparr>)"

inductive spsc_reach :: "u32 \<Rightarrow> 'e spsc \<Rightarrow> bool" for N :: u32 where
  start: "cq_init N z ef = Inr c \<Longrightarrow>
     spsc_reach N \<lparr>cqueue = c, ppc = P_idle, cpc = C_idle, sent = [], received = []\<rparr>"
| step: "spsc_reach N s \<Longrightarrow> spsc_step N s t \<Longrightarrow> spsc_reach N t"

section \<open>The invariant\<close>

fun producer_ok :: "u32 \<Rightarrow> 'e cq \<Rightarrow> 'e producer \<Rightarrow> bool" where
  "producer_ok N c P_idle = True"
| "producer_ok N c (P_ready x h) = (h = head c \<and> cq_cnt c < unat N - 1)"
| "producer_ok N c (P_stored x h) = (h = head c \<and> cq_cnt c < unat N - 1 \<and> c_buf c ! unat h = x)"

fun consumer_ok :: "'e cq \<Rightarrow> 'e consumer \<Rightarrow> bool" where
  "consumer_ok c C_idle = True"
| "consumer_ok c (C_ready t) = (t = tail c \<and> cq_items c \<noteq> [])"
| "consumer_ok c (C_loaded e t) = (t = tail c \<and> cq_items c \<noteq> [] \<and> e = hd (cq_items c))"

definition spsc_inv :: "u32 \<Rightarrow> 'e spsc \<Rightarrow> bool" where
  "spsc_inv N s \<longleftrightarrow> size_ok N \<and> cq_inv N (cqueue s) \<and> producer_ok N (cqueue s) (ppc s) \<and>
     consumer_ok (cqueue s) (cpc s) \<and> received s @ cq_items (cqueue s) = sent s"

lemma cq_cnt_not_full: "cq_inv N c \<Longrightarrow> \<not> cq_full N c \<Longrightarrow> cq_cnt c < unat N - 1"
  using cq_cnt_less [of N c] cq_full_iff [of N c] by auto

lemma write_slot_fields:
  assumes "cq_write_slot c h x = Inr c1"
  shows "head c1 = head c" "tail c1 = tail c" "unat h < length (c_buf c)" "c_buf c1 = (c_buf c)[unat h := x]"
  using assms by (auto simp: cq_write_slot_def arr_set_def split: if_splits)

lemma write_slot_same:
  "unat h < length (c_buf c) \<Longrightarrow> c_buf c ! unat h = x \<Longrightarrow> cq_write_slot c h x = Inr c"
  by (auto simp: cq_write_slot_def)

lemma write_slot_step:
  assumes "cq_inv N c" "cq_cnt c < unat N - 1" "cq_write_slot c (head c) x = Inr c1"
  shows "cq_inv N c1 \<and> cq_items c1 = cq_items c \<and> cq_cnt c1 = cq_cnt c"
  using cq_write_publish [OF assms(1,2), of x] assms(3) length_cq_items [of c1] length_cq_items [of c]
  by auto

lemma publish_head_step:
  assumes "cq_inv N c" "cq_cnt c < unat N - 1" "c_buf c ! unat (head c) = x"
  shows "cq_inv N (cq_publish_head N (head c) c)"
    "cq_items (cq_publish_head N (head c) c) = cq_items c @ [x]"
proof -
  have "cq_write_slot c (head c) x = Inr c"
    using assms by (intro write_slot_same) (simp_all add: cq_inv_def)
  with cq_write_publish [OF assms(1,2), of x]
  show "cq_inv N (cq_publish_head N (head c) c)"
    "cq_items (cq_publish_head N (head c) c) = cq_items c @ [x]" by auto
qed

lemma publish_fields [simp]:
  "head (cq_publish_tail N t c) = head c" "c_buf (cq_publish_tail N t c) = c_buf c"
  "tail (cq_publish_head N h c) = tail c" "c_buf (cq_publish_head N h c) = c_buf c"
  by (simp_all add: cq_publish_tail_def cq_publish_head_def)

lemma consumer_ok_mono:
  assumes "consumer_ok c p" "tail c' = tail c" "cq_items c' = cq_items c @ xs"
  shows "consumer_ok c' p"
  using assms by (cases p) auto

lemma producer_ok_shrink:
  assumes "producer_ok N c p" "head c' = head c" "c_buf c' = c_buf c" "cq_cnt c' \<le> cq_cnt c"
  shows "producer_ok N c' p"
  using assms by (cases p) auto

lemma spsc_step_inv:
  assumes "spsc_step N s t" "spsc_inv N s"
  shows "spsc_inv N t"
  using assms
proof (induction rule: spsc_step.induct)
  case (p_check s x)
  then show ?case using cq_cnt_not_full [of N "cqueue s"] by (simp add: spsc_inv_def)
next
  case (p_store s x h c)
  then have *: "cq_inv N (cqueue s)" "cq_cnt (cqueue s) < unat N - 1" "h = head (cqueue s)"
    by (auto simp: spsc_inv_def)
  note w = write_slot_fields [OF p_store(2)]
  have st: "cq_inv N c \<and> cq_items c = cq_items (cqueue s) \<and> cq_cnt c = cq_cnt (cqueue s)"
    using write_slot_step [OF *(1,2)] p_store(2) *(3) by simp
  have "consumer_ok (cqueue s) (cpc s)" using p_store(3) by (simp add: spsc_inv_def)
  then have "consumer_ok c (cpc s)"
    by (rule consumer_ok_mono [where xs = "[]"]) (use st w in simp_all)
  with p_store st * w show ?case by (simp add: spsc_inv_def)
next
  case (p_publish s x h)
  then have *: "cq_inv N (cqueue s)" "cq_cnt (cqueue s) < unat N - 1" "h = head (cqueue s)"
    "c_buf (cqueue s) ! unat (head (cqueue s)) = x"
    by (auto simp: spsc_inv_def)
  note st = publish_head_step [OF *(1,2,4)]
  have "consumer_ok (cqueue s) (cpc s)" using p_publish(2) by (simp add: spsc_inv_def)
  then have "consumer_ok (cq_publish_head N h (cqueue s)) (cpc s)"
    by (rule consumer_ok_mono) (use st(2) *(3) in simp_all)
  moreover have "sent s = received s @ cq_items (cqueue s)"
    using p_publish(2) by (simp add: spsc_inv_def)
  then have "received s @ cq_items (cq_publish_head N h (cqueue s)) = sent s @ [x]"
    using st(2) *(3) by simp
  ultimately show ?case using p_publish(2) st(1) *(3) by (simp add: spsc_inv_def)
next
  case (c_check s)
  then show ?case by (auto simp: spsc_inv_def cq_empty_iff)
next
  case (c_load s t e)
  then have *: "cq_inv N (cqueue s)" "t = tail (cqueue s)" "cq_items (cqueue s) \<noteq> []"
    by (auto simp: spsc_inv_def)
  then have "cq_read_slot (cqueue s) t = Inr (hd (cq_items (cqueue s)))"
    using cq_read_publish(1) [OF *(1), of "hd (cq_items (cqueue s))" "tl (cq_items (cqueue s))"] by simp
  with c_load * show ?case by (simp add: spsc_inv_def)
next
  case (c_publish s e t)
  then obtain xs where *: "cq_inv N (cqueue s)" "t = tail (cqueue s)" "cq_items (cqueue s) = e # xs"
    by (cases "cq_items (cqueue s)") (auto simp: spsc_inv_def)
  let ?c = "cq_publish_tail N t (cqueue s)"
  have st: "cq_inv N ?c" "cq_items ?c = xs" using cq_read_publish(2,3) [OF *(1,3)] *(2) by simp_all
  have "cq_cnt ?c = length xs" using st(2) length_cq_items [of ?c] by metis
  moreover have "cq_cnt (cqueue s) = length (e # xs)" using *(3) length_cq_items [of "cqueue s"] by metis
  ultimately have le: "cq_cnt ?c \<le> cq_cnt (cqueue s)" by simp
  have "producer_ok N (cqueue s) (ppc s)" using c_publish(2) by (simp add: spsc_inv_def)
  then have "producer_ok N ?c (ppc s)" by (rule producer_ok_shrink) (use le in simp_all)
  moreover have "received s @ [e] @ xs = sent s" using c_publish(2) *(3) by (simp add: spsc_inv_def)
  ultimately show ?case using c_publish(2) st by (simp add: spsc_inv_def)
qed

lemma spsc_reach_inv: "spsc_reach N s \<Longrightarrow> size_ok N \<Longrightarrow> spsc_inv N s"
proof (induction rule: spsc_reach.induct)
  case (start z ef c)
  then show ?case using cq_init_ok [of N z ef] by (auto simp: spsc_inv_def)
next
  case (step s t)
  then show ?case by (blast intro: spsc_step_inv)
qed

section \<open>Properties\<close>

text \<open>C1. The queue needs no lock: in every interleaving of one producer and one consumer, what has
  been popped followed by what is queued is exactly what has been pushed, in order, and at most
  \<open>N - 1\<close> elements are queued.\<close>

theorem spsc_fifo:
  assumes "size_ok N" "spsc_reach N s"
  shows "received s @ cq_items (cqueue s) = sent s \<and> length (cq_items (cqueue s)) \<le> unat N - 1"
proof -
  have inv: "spsc_inv N s" using spsc_reach_inv [OF assms(2,1)] .
  then have "cq_cnt (cqueue s) < unat N" by (auto simp: spsc_inv_def cq_cnt_less)
  with inv show ?thesis by (auto simp: spsc_inv_def)
qed

definition spsc_sample :: "nat spsc" where
  "spsc_sample = \<lparr>cqueue = \<lparr>c_buf = [5, 0, 0, 0], fence = 0x12345678, head = 1, tail = 0,
     overflow = 0, errors_fatal_p = False\<rparr>, ppc = P_idle, cpc = C_ready 0, sent = [5], received = []\<rparr>"

lemma spsc_sample_reach: "spsc_reach 4 spsc_sample"
proof -
  let ?c = "\<lparr>c_buf = [0, 0, 0, 0 :: nat], fence = 0x12345678, head = 0, tail = 0,
     overflow = 0, errors_fatal_p = False\<rparr>"
  let ?s = "\<lparr>cqueue = ?c, ppc = P_idle, cpc = C_idle, sent = [], received = []\<rparr>"
  have "cq_init 4 0 False = Inr ?c" by code_simp
  then have 0: "spsc_reach 4 ?s" by (rule spsc_reach.start)
  have 1: "spsc_reach 4 (?s\<lparr>ppc := P_ready 5 0\<rparr>)"
    using spsc_reach.step [OF 0 spsc_step.p_check [of ?s 4 5]] by (simp add: cq_full_def)
  have 2: "spsc_reach 4 (?s\<lparr>ppc := P_stored 5 0, cqueue := ?c\<lparr>c_buf := [5, 0, 0, 0]\<rparr>\<rparr>)"
    using spsc_reach.step [OF 1 spsc_step.p_store [of _ 5 0 "?c\<lparr>c_buf := [5, 0, 0, 0]\<rparr>"]]
    by (simp add: cq_write_slot_def)
  have 3: "spsc_reach 4 (spsc_sample\<lparr>cpc := C_idle\<rparr>)"
    using spsc_reach.step [OF 2 spsc_step.p_publish [of _ 5 0 4]]
    by (simp add: cq_publish_head_def spsc_sample_def)
  show ?thesis
    using spsc_reach.step [OF 3 spsc_step.c_check] by (simp add: cq_empty_def spsc_sample_def)
qed

lemma size_ok_4: "size_ok 4"
  by (simp add: size_ok_def)

theorem spsc_fifo_witness:
  "spsc_reach 4 spsc_sample \<and> received spsc_sample @ cq_items (cqueue spsc_sample) = [5]"
  using spsc_fifo [OF size_ok_4 spsc_sample_reach] spsc_sample_reach
  by (simp add: spsc_sample_def)

text \<open>C14. No interleaving blocks: in every reachable state the producer or the consumer can take its
  next step, and the assertion in \<open>cq_push\<close> holds whenever the producer has passed the test.\<close>

theorem spsc_no_deadlock:
  assumes "size_ok N" "spsc_reach N s"
  shows "(\<exists>t. spsc_step N s t) \<and> (case ppc s of P_ready x h \<Rightarrow> 0 < cq_nspace N (cqueue s) | _ \<Rightarrow> True)"
proof -
  have inv: "size_ok N" "cq_inv N (cqueue s)" "producer_ok N (cqueue s) (ppc s)"
    using spsc_reach_inv [OF assms(2,1)] by (simp_all add: spsc_inv_def)
  have "\<exists>t. spsc_step N s t"
  proof (cases "ppc s")
    case P_idle
    show ?thesis
    proof (cases "cpc s")
      case C_idle
      have "\<not> (cq_empty (cqueue s) \<and> cq_full N (cqueue s))"
        using inv by (auto simp: cq_full_iff cq_empty_iff size_ok_def simp flip: length_cq_items)
      with P_idle C_idle show ?thesis by (auto intro: spsc_step.p_check spsc_step.c_check)
    next
      case (C_ready t)
      then have "t = tail (cqueue s)" using spsc_reach_inv [OF assms(2,1)] by (simp add: spsc_inv_def)
      then have "\<exists>e. cq_read_slot (cqueue s) t = Inr e"
        using inv by (simp add: cq_read_slot_def cq_inv_def)
      with C_ready show ?thesis by (auto intro: spsc_step.c_load)
    next
      case (C_loaded e t)
      then show ?thesis by (auto intro: spsc_step.c_publish)
    qed
  next
    case (P_ready x h)
    with inv have "\<exists>c. cq_write_slot (cqueue s) h x = Inr c"
      using cq_write_publish [of N "cqueue s" x] by auto
    with P_ready show ?thesis by (auto intro: spsc_step.p_store)
  next
    case (P_stored x h)
    then show ?thesis by (auto intro: spsc_step.p_publish)
  qed
  moreover have "case ppc s of P_ready x h \<Rightarrow> 0 < cq_nspace N (cqueue s) | _ \<Rightarrow> True"
    using inv cq_nspace_eq [OF inv(1,2)] by (auto simp: word_less_nat_alt split: producer.splits)
  ultimately show ?thesis by blast
qed

theorem spsc_no_deadlock_witness: "\<exists>t. spsc_step 4 spsc_sample t"
  using spsc_no_deadlock [OF size_ok_4 spsc_sample_reach] by blast

end
