(* ===== verification/Qlist.thy ===== *)
theory Qlist
  imports Fifo
begin

text \<open>
  The intrusive linked queue of \<open>libpi/libc/Q.h\<close>. Elements are pointers \<open>'p\<close>; their \<open>next\<close> fields
  are the map \<open>nxt\<close> (\<open>None\<close> is the null pointer), which every queue of the program shares. Each
  operation takes and returns the \<open>next\<close> fields and the queue header.
\<close>

section \<open>Definitions\<close>

type_synonym 'p links = "'p \<Rightarrow> 'p option"

record 'p Q_t =
  q_head :: "'p option"
  q_tail :: "'p option"
  cnt :: u32

definition Q_mk :: "'p Q_t" where
  "Q_mk = \<lparr>q_head = None, q_tail = None, cnt = 0\<rparr>"

definition Q_init :: "'p Q_t \<Rightarrow> 'p Q_t" where
  "Q_init q = \<lparr>q_head = None, q_tail = None, cnt = 0\<rparr>"

definition Q_start :: "'p Q_t \<Rightarrow> 'p option" where
  "Q_start q = q_head q"

definition Q_next :: "'p links \<Rightarrow> 'p \<Rightarrow> 'p option" where
  "Q_next nxt e = nxt e"

definition Q_nelem :: "'p Q_t \<Rightarrow> u32" where
  "Q_nelem q = cnt q"

definition Q_empty :: "'p Q_t \<Rightarrow> bool res" where
  "Q_empty q = (case q_head q of Some _ \<Rightarrow> Inr False
     | None \<Rightarrow> seq (require (Q_nelem q = 0) Assert_fail) (\<lambda>_.
              seq (require (q_tail q = None) Assert_fail) (\<lambda>_. Inr True)))"

definition Q_pop :: "'p links \<Rightarrow> 'p Q_t \<Rightarrow> ('p option \<times> 'p Q_t) res" where
  "Q_pop nxt q = (case q_head q of
       None \<Rightarrow> seq (Q_empty q) (\<lambda>b. seq (require b Assert_fail) (\<lambda>_. Inr (None, q)))
     | Some e \<Rightarrow>
         let q = q\<lparr>cnt := cnt q - 1, q_head := nxt e\<rparr>;
             q = (if q_head q = None then q\<lparr>q_tail := None\<rparr> else q)
         in Inr (Some e, q))"

definition Q_append :: "'p links \<Rightarrow> 'p Q_t \<Rightarrow> 'p \<Rightarrow> 'p links \<times> 'p Q_t" where
  "Q_append nxt q e =
     (let nxt = nxt(e := None); q = q\<lparr>cnt := cnt q + 1\<rparr>
      in case q_tail q of
           None \<Rightarrow> (nxt, q\<lparr>q_head := Some e, q_tail := Some e\<rparr>)
         | Some t \<Rightarrow> (nxt(t := Some e), q\<lparr>q_tail := Some e\<rparr>))"

definition Q_push :: "'p links \<Rightarrow> 'p Q_t \<Rightarrow> 'p \<Rightarrow> 'p links \<times> 'p Q_t" where
  "Q_push nxt q e =
     (let q = q\<lparr>cnt := cnt q + 1\<rparr>;
          nxt = nxt(e := q_head q);
          q = q\<lparr>q_head := Some e\<rparr>
      in (nxt, if q_tail q = None then q\<lparr>q_tail := Some e\<rparr> else q))"

definition Q_insert_after :: "'p links \<Rightarrow> 'p Q_t \<Rightarrow> 'p option \<Rightarrow> 'p \<Rightarrow> 'p links \<times> 'p Q_t" where
  "Q_insert_after nxt q e e_new = (case e of
       None \<Rightarrow> Q_push nxt q e_new
     | Some p \<Rightarrow> if q_tail q = Some p then Q_append nxt q e_new
         else let q = q\<lparr>cnt := cnt q + 1\<rparr>; nxt = nxt(e_new := nxt p)
              in (nxt(p := Some e_new), q))"

section \<open>The queue as a list\<close>

fun chain :: "'p links \<Rightarrow> 'p option \<Rightarrow> 'p list \<Rightarrow> bool" where
  "chain nxt p [] \<longleftrightarrow> p = None"
| "chain nxt p (x # xs) \<longleftrightarrow> p = Some x \<and> chain nxt (nxt x) xs"

text \<open>\<open>Qrep nxt q xs\<close>: the queue \<open>q\<close> holds the elements \<open>xs\<close>, in this order, once each, and its
  tail pointer and counter agree with them.\<close>

definition Qrep :: "'p links \<Rightarrow> 'p Q_t \<Rightarrow> 'p list \<Rightarrow> bool" where
  "Qrep nxt q xs \<longleftrightarrow> chain nxt (q_head q) xs \<and> distinct xs \<and> length xs < 2 ^ 32 \<and>
     q_tail q = (if xs = [] then None else Some (last xs)) \<and> cnt q = word_of_nat (length xs)"

fun walk :: "'p links \<Rightarrow> 'p option \<Rightarrow> nat \<Rightarrow> 'p list" where
  "walk nxt None k = []"
| "walk nxt (Some x) 0 = []"
| "walk nxt (Some x) (Suc k) = x # walk nxt (nxt x) k"

definition Qlist :: "'p links \<Rightarrow> 'p Q_t \<Rightarrow> 'p list" where
  "Qlist nxt q = walk nxt (q_head q) (unat (cnt q))"

lemma chain_fun: "chain nxt p xs \<Longrightarrow> chain nxt p ys \<Longrightarrow> xs = ys"
proof (induction xs arbitrary: p ys)
  case Nil
  then show ?case by (cases ys) auto
next
  case (Cons x xs)
  then show ?case by (cases ys) auto
qed

lemma chain_frame: "\<forall>x \<in> set xs. nxt' x = nxt x \<Longrightarrow> chain nxt' p xs \<longleftrightarrow> chain nxt p xs"
  by (induction xs arbitrary: p) auto

lemma walk_chain: "chain nxt p xs \<Longrightarrow> walk nxt p (length xs) = xs"
  by (induction xs arbitrary: p) auto

lemma Qrep_Qlist: "Qrep nxt q xs \<Longrightarrow> Qlist nxt q = xs"
  by (simp add: Qrep_def Qlist_def unat_of_nat walk_chain)

lemma Qrep_frame: "Qrep nxt q xs \<Longrightarrow> \<forall>x \<in> set xs. nxt' x = nxt x \<Longrightarrow> Qrep nxt' q xs"
  using chain_frame [of xs nxt' nxt "q_head q"] by (simp add: Qrep_def)

lemma Qrep_fun: "Qrep nxt q xs \<Longrightarrow> Qrep nxt q ys \<Longrightarrow> xs = ys"
  by (metis Qrep_Qlist)

lemma Qrep_mk: "Qrep nxt Q_mk []"
  by (simp add: Qrep_def Q_mk_def)

lemma Q_empty_ok: "Qrep nxt q xs \<Longrightarrow> Q_empty q = Inr (xs = [])"
  by (cases xs) (auto simp: Qrep_def Q_empty_def Q_nelem_def)

lemma Q_pop_nil: "Qrep nxt q [] \<Longrightarrow> Q_pop nxt q = Inr (None, q)"
  using Q_empty_ok [of nxt q "[]"] by (simp add: Q_pop_def Qrep_def)

lemma Q_pop_cons:
  assumes "Qrep nxt q (x # xs)"
  shows "\<exists>q'. Q_pop nxt q = Inr (Some x, q') \<and> Qrep nxt q' xs"
  using assms by (cases xs) (auto simp: Qrep_def Q_pop_def Let_def)

lemma chain_last: "chain nxt p (xs @ [t]) \<Longrightarrow> distinct (xs @ [t]) \<Longrightarrow> e \<notin> set (xs @ [t]) \<Longrightarrow>
    chain (nxt(e := None, t := Some e)) p (xs @ [t, e])"
  by (induction xs arbitrary: p) auto

lemma Q_append_ok:
  assumes "Qrep nxt q xs" "e \<notin> set xs" "length xs + 1 < 2 ^ 32" "Q_append nxt q e = (nxt', q')"
  shows "Qrep nxt' q' (xs @ [e])" "\<forall>y. y \<noteq> e \<and> y \<notin> set xs \<longrightarrow> nxt' y = nxt y"
proof -
  show "Qrep nxt' q' (xs @ [e])"
  proof (cases xs rule: rev_cases)
    case Nil
    with assms show ?thesis by (auto simp: Qrep_def Q_append_def)
  next
    case (snoc ys t)
    with assms chain_last [of nxt "q_head q" ys t e] show ?thesis
      by (auto simp: Qrep_def Q_append_def Let_def)
  qed
  show "\<forall>y. y \<noteq> e \<and> y \<notin> set xs \<longrightarrow> nxt' y = nxt y"
    using assms by (cases xs rule: rev_cases) (auto simp: Qrep_def Q_append_def Let_def)
qed

lemma Q_push_ok:
  assumes "Qrep nxt q xs" "e \<notin> set xs" "length xs + 1 < 2 ^ 32" "Q_push nxt q e = (nxt', q')"
  shows "Qrep nxt' q' (e # xs)" "\<forall>y. y \<noteq> e \<longrightarrow> nxt' y = nxt y"
proof -
  have n: "nxt' = nxt(e := q_head q)" using assms(4) by (auto simp: Q_push_def Let_def)
  then show "\<forall>y. y \<noteq> e \<longrightarrow> nxt' y = nxt y" by simp
  have "chain nxt' (q_head q) xs"
    using assms(1,2) n chain_frame [of xs nxt' nxt "q_head q"] by (auto simp: Qrep_def)
  then show "Qrep nxt' q' (e # xs)"
    using assms n by (auto simp: Qrep_def Q_push_def Let_def split: if_splits)
qed

text \<open>\<open>Q_insert_after\<close> inserts right behind the element it is given (in front of everything for
  the null pointer), keeps every other element in place and the header consistent.\<close>

lemma chain_insert:
  "chain nxt p (xs @ a # ys) \<Longrightarrow> distinct (xs @ a # ys) \<Longrightarrow> e \<notin> set (xs @ a # ys) \<Longrightarrow>
   chain (nxt(e := nxt a, a := Some e)) p (xs @ a # e # ys)"
proof (induction xs arbitrary: p)
  case Nil
  let ?n = "nxt(e := nxt a, a := Some e)"
  have "chain ?n (nxt a) ys \<longleftrightarrow> chain nxt (nxt a) ys"
    using Nil by (intro chain_frame) auto
  moreover have "?n a = Some e" "?n e = nxt a" using Nil by auto
  ultimately show ?case using Nil by (simp del: fun_upd_apply)
next
  case (Cons x xs)
  then show ?case by auto
qed

theorem Q_insert_after_correct:
  assumes "Qrep nxt q (xs @ ys)" "e \<notin> set (xs @ ys)" "length (xs @ ys) + 1 < 2 ^ 32"
    and "Q_insert_after nxt q (if xs = [] then None else Some (last xs)) e = (nxt', q')"
  shows "Qrep nxt' q' (xs @ e # ys)"
proof (cases xs rule: rev_cases)
  case Nil
  with assms Q_push_ok(1) [of nxt q ys e] show ?thesis by (simp add: Q_insert_after_def)
next
  case (snoc zs a)
  show ?thesis
  proof (cases "ys = []")
    case True
    with snoc assms Q_append_ok(1) [of nxt q xs e] show ?thesis
      by (simp add: Q_insert_after_def Qrep_def)
  next
    case False
    with snoc assms have "q_tail q \<noteq> Some a" by (auto simp: Qrep_def)
    with False snoc assms chain_insert [of nxt "q_head q" zs a ys e] show ?thesis
      by (auto simp: Q_insert_after_def Qrep_def Let_def)
  qed
qed

theorem Q_insert_after_correct_witness:
  "let nxt = (\<lambda>_. None)(1 := Some 2); q = \<lparr>q_head = Some 1, q_tail = Some 2, cnt = 2\<rparr>;
       (nxt', q') = Q_insert_after nxt q (Some 1) (7 :: nat)
   in Qrep nxt' q' [1, 7, 2]"
proof -
  let ?n = "(\<lambda>_. None)(1 := Some 2)" and ?q = "\<lparr>q_head = Some 1, q_tail = Some 2, cnt = 2\<rparr>"
  have r: "Qrep ?n ?q ([1] @ [2 :: nat])" by (simp add: Qrep_def)
  obtain n' q' where e: "Q_insert_after ?n ?q (if [1 :: nat] = [] then None else Some (last [1])) (7 :: nat) = (n', q')"
    by fastforce
  from Q_insert_after_correct [OF r _ _ e] e show ?thesis by simp
qed

text \<open>The first-in first-out interface: an element may be appended when it is not queued.\<close>

definition Q_fifo_append :: "'p links \<times> 'p Q_t \<Rightarrow> 'p \<Rightarrow> ('p links \<times> 'p Q_t) option" where
  "Q_fifo_append s e = Some (Q_append (fst s) (snd s) e)"

definition Q_fifo_pop :: "'p links \<times> 'p Q_t \<Rightarrow> ('p \<times> 'p links \<times> 'p Q_t) option" where
  "Q_fifo_pop s = (case Q_pop (fst s) (snd s) of Inr (Some e, q) \<Rightarrow> Some (e, fst s, q) | _ \<Rightarrow> None)"

definition Qitems :: "'p links \<times> 'p Q_t \<Rightarrow> 'p list" where
  "Qitems s = Qlist (fst s) (snd s)"

definition Qvalid :: "'p links \<times> 'p Q_t \<Rightarrow> bool" where
  "Qvalid s \<longleftrightarrow> Qrep (fst s) (snd s) (Qitems s)"

lemma QvalidI: "Qrep nxt q xs \<Longrightarrow> Qvalid (nxt, q) \<and> Qitems (nxt, q) = xs"
  using Qrep_Qlist [of nxt q xs] by (simp add: Qvalid_def Qitems_def)

interpretation lq: fifo Qitems Qvalid "\<lambda>s e. e \<notin> set (Qitems s) \<and> length (Qitems s) + 1 < 2 ^ 32"
    Q_fifo_append Q_fifo_pop
proof unfold_locales
  fix s :: "'p links \<times> 'p Q_t" and e
  assume s: "Qvalid s" "e \<notin> set (Qitems s) \<and> length (Qitems s) + 1 < 2 ^ 32"
  obtain n' q' where a: "Q_append (fst s) (snd s) e = (n', q')" by fastforce
  with Q_append_ok(1) [OF s(1) [unfolded Qvalid_def] _ _ a] s(2)
  show "\<exists>t. Q_fifo_append s e = Some t \<and> Qvalid t \<and> Qitems t = Qitems s @ [e]"
    using QvalidI by (auto simp: Q_fifo_append_def)
next
  fix s :: "'p links \<times> 'p Q_t"
  assume "Qvalid s" "Qitems s = []"
  then show "Q_fifo_pop s = None" by (simp add: Q_fifo_pop_def Qvalid_def Q_pop_nil)
next
  fix s :: "'p links \<times> 'p Q_t" and x xs
  assume s: "Qvalid s" "Qitems s = x # xs"
  then obtain q' where "Q_pop (fst s) (snd s) = Inr (Some x, q')" "Qrep (fst s) q' xs"
    using Q_pop_cons [of "fst s" "snd s" x xs] by (auto simp: Qvalid_def)
  then show "\<exists>t. Q_fifo_pop s = Some (x, t) \<and> Qvalid t \<and> Qitems t = xs"
    using QvalidI by (auto simp: Q_fifo_pop_def)
qed

end
