(* ===== verification/Threads.thy ===== *)
theory Threads
  imports Qlist
begin

unbundle bit_operations_syntax

text \<open>
  The non-preemptive threads package of \<open>labs/6-threads/code-threads\<close>: the C scheduler of
  \<open>rpi-thread.c\<close> over the queues of \<open>Q.h\<close>, and the assembly of \<open>rpi-thread-asm.S\<close> (the context
  switch and the trampoline) on a register file and a word memory.

  A thread block is identified by the number of the \<open>kmalloc_aligned\<close> call that returned it.
  \<open>kmalloc_aligned\<close> is not part of the sources: the argument \<open>stk\<close> gives the address of the array
  \<open>stack\<close> of each block. Trace output and \<open>redzone_check\<close>, which only prints, are left out.
\<close>

section \<open>State\<close>

record cpu =
  callee :: "u32 list" \<comment> \<open>\<open>r4\<close> to \<open>r11\<close>\<close>
  r0 :: u32
  r1 :: u32
  sp :: u32
  lr :: u32
  pc :: u32

record rpi_thread =
  saved_sp :: u32
  th_tid :: u32
  fn :: u32
  arg :: u32

record sys =
  blk :: "nat \<Rightarrow> rpi_thread"
  nxt :: "nat links"
  runq :: "nat Q_t"
  freeq :: "nat Q_t"
  cur_thread :: "nat option"
  scheduler_thread :: "nat option"
  tid :: u32
  nalloced :: u32
  mem :: "u32 \<Rightarrow> u32" \<comment> \<open>the word at a byte address\<close>
  regs :: cpu

definition THREAD_MAXSTACK :: u32 where
  "THREAD_MAXSTACK = 1024 * 8 div 4"

definition R4_OFFSET :: u32 where "R4_OFFSET = 0"
definition R5_OFFSET :: u32 where "R5_OFFSET = 1"
definition LR_OFFSET :: u32 where "LR_OFFSET = 8"

section \<open>Assembly: context switch and trampoline\<close>

fun store_words :: "u32 \<Rightarrow> u32 list \<Rightarrow> (u32 \<Rightarrow> u32) \<Rightarrow> u32 \<Rightarrow> u32" where
  "store_words a [] m = m"
| "store_words a (w # ws) m = store_words (a + 4) ws (m(a := w))"

fun load_words :: "u32 \<Rightarrow> nat \<Rightarrow> (u32 \<Rightarrow> u32) \<Rightarrow> u32 list" where
  "load_words a 0 m = []"
| "load_words a (Suc n) m = m a # load_words (a + 4) n m"

text \<open>\<open>push {r4-r11, lr}; str sp, [r0]; mov sp, r1; pop {r4-r11, lr}; bx lr\<close>: \<open>old\<close> is the block
  whose \<open>saved_sp\<close> the first argument points to, \<open>new_sp\<close> the second argument.\<close>

definition rpi_cswitch :: "nat \<Rightarrow> u32 \<Rightarrow> sys \<Rightarrow> sys" where
  "rpi_cswitch old new_sp s =
     (let c = regs s;
          sp' = sp c - 36;
          m = store_words sp' (callee c @ [lr c]) (mem s);
          b = (blk s)(old := (blk s old)\<lparr>saved_sp := sp'\<rparr>);
          ws = load_words new_sp 9 m
      in s\<lparr>mem := m, blk := b,
           regs := c\<lparr>callee := take 8 ws, lr := ws ! 8, sp := new_sp + 36, pc := ws ! 8\<rparr>\<rparr>)"

text \<open>\<open>mov r0, r5; mov r1, r4; blx r1; b rpi_exit\<close>, up to and including the call: \<open>tramp\<close> is the
  address of the first instruction, so \<open>blx\<close> leaves \<open>tramp + 12\<close>, the branch to \<open>rpi_exit\<close>.\<close>

definition rpi_init_trampoline :: "u32 \<Rightarrow> cpu \<Rightarrow> cpu" where
  "rpi_init_trampoline tramp c =
     (let c = c\<lparr>r0 := callee c ! 1\<rparr>; c = c\<lparr>r1 := callee c ! 0\<rparr>
      in c\<lparr>lr := tramp + 12, pc := r1 c\<rparr>)"

section \<open>Scheduler\<close>

definition th_alloc :: "(nat \<Rightarrow> u32) \<Rightarrow> sys \<Rightarrow> (nat \<times> sys) res" where
  "th_alloc stk s =
     seq (Q_pop (nxt s) (freeq s)) (\<lambda>(p, fq).
     let s = s\<lparr>freeq := fq\<rparr>;
         (t, s) = (case p of Some t \<Rightarrow> (t, s)
                   | None \<Rightarrow> (unat (nalloced s), s\<lparr>nalloced := nalloced s + 1\<rparr>))
     in seq (require (stk t mod 8 = 0) Assert_fail) (\<lambda>_.
        Inr (t, s\<lparr>blk := (blk s)(t := (blk s t)\<lparr>th_tid := tid s\<rparr>), tid := tid s + 1\<rparr>)))"

definition th_free :: "nat \<Rightarrow> sys \<Rightarrow> sys" where
  "th_free t s = (let (n, fq) = Q_push (nxt s) (freeq s) t in s\<lparr>nxt := n, freeq := fq\<rparr>)"

definition rpi_cur_thread :: "sys \<Rightarrow> nat option" where
  "rpi_cur_thread s = cur_thread s"

definition rpi_fork :: "(nat \<Rightarrow> u32) \<Rightarrow> u32 \<Rightarrow> u32 \<Rightarrow> u32 \<Rightarrow> sys \<Rightarrow> (nat \<times> sys) res" where
  "rpi_fork stk tramp code a s =
     seq (th_alloc stk s) (\<lambda>(t, s).
     let start = THREAD_MAXSTACK - 20;
         slot = (\<lambda>i. stk t + 4 * i);
         m = (mem s)(slot (start + LR_OFFSET) := tramp,
                     slot (start + R4_OFFSET) := code,
                     slot (start + R5_OFFSET) := a);
         b = (blk s)(t := (blk s t)\<lparr>fn := code, arg := a, saved_sp := slot start\<rparr>);
         (n, rq) = Q_append (nxt s) (runq s) t
     in Inr (t, s\<lparr>mem := m, blk := b, nxt := n, runq := rq\<rparr>))"

definition rpi_exit :: "sys \<Rightarrow> sys res" where
  "rpi_exit s =
     seq (Q_pop (nxt s) (runq s)) (\<lambda>(new, rq).
     case cur_thread s of None \<Rightarrow> Inl Undefined
     | Some old \<Rightarrow>
        let s = th_free old (s\<lparr>runq := rq, cur_thread := new\<rparr>)
        in case new of
             Some t \<Rightarrow> Inr (rpi_cswitch old (saved_sp (blk s t)) s)
           | None \<Rightarrow> (case scheduler_thread s of None \<Rightarrow> Inl Undefined
               | Some d \<Rightarrow> Inr (rpi_cswitch old (saved_sp (blk s d)) s)))"

definition rpi_yield :: "sys \<Rightarrow> sys res" where
  "rpi_yield s =
     seq (Q_empty (runq s)) (\<lambda>e.
     if e then Inr s
     else case cur_thread s of None \<Rightarrow> Inl Undefined
     | Some old \<Rightarrow>
        let (n, rq) = Q_append (nxt s) (runq s) old; s = s\<lparr>nxt := n, runq := rq\<rparr>
        in seq (Q_pop (nxt s) (runq s)) (\<lambda>(new, rq).
           case new of None \<Rightarrow> Inl Undefined
           | Some t \<Rightarrow> let s = s\<lparr>runq := rq, cur_thread := Some t\<rparr>
               in Inr (rpi_cswitch old (saved_sp (blk s t)) s)))"

text \<open>\<open>redzone_init\<close> clears the first 4096 bytes. The scheduler's block is allocated once; a run
  ends when control comes back to the frame \<open>rpi_cswitch\<close> saves there.\<close>

definition redzone_init :: "sys \<Rightarrow> sys" where
  "redzone_init s = s\<lparr>mem := (\<lambda>a. if a < 4096 then 0 else mem s a)\<rparr>"

definition rpi_thread_start :: "(nat \<Rightarrow> u32) \<Rightarrow> sys \<Rightarrow> sys res" where
  "rpi_thread_start stk s =
     (let s = redzone_init s in
      seq (Q_empty (runq s)) (\<lambda>e.
      if e then Inr s
      else seq (case scheduler_thread s of Some d \<Rightarrow> Inr (d, s)
                | None \<Rightarrow> seq (th_alloc stk s) (\<lambda>(d, s). Inr (d, s\<lparr>scheduler_thread := Some d\<rparr>)))
        (\<lambda>(d, s).
        seq (Q_pop (nxt s) (runq s)) (\<lambda>(new, rq).
        case new of None \<Rightarrow> Inl Undefined
        | Some t \<Rightarrow> let s = s\<lparr>runq := rq, cur_thread := Some t\<rparr>
            in Inr (rpi_cswitch d (saved_sp (blk s t)) s)))))"

definition sys_init :: "(nat \<Rightarrow> rpi_thread) \<Rightarrow> (u32 \<Rightarrow> u32) \<Rightarrow> cpu \<Rightarrow> sys" where
  "sys_init b m c = \<lparr>blk = b, nxt = (\<lambda>_. None), runq = Q_mk, freeq = Q_mk, cur_thread = None,
     scheduler_thread = None, tid = 1, nalloced = 0, mem = m, regs = c\<rparr>"


section \<open>Who owns a thread block\<close>

definition run_list :: "sys \<Rightarrow> nat list" where
  "run_list s = Qlist (nxt s) (runq s)"

definition free_list :: "sys \<Rightarrow> nat list" where
  "free_list s = Qlist (nxt s) (freeq s)"

fun opt :: "'a option \<Rightarrow> 'a list" where
  "opt None = []"
| "opt (Some x) = [x]"

definition blocks :: "sys \<Rightarrow> nat list" where
  "blocks s = run_list s @ free_list s @ opt (cur_thread s) @ opt (scheduler_thread s)"

text \<open>Both queues are well formed and every block \<open>kmalloc_aligned\<close> ever returned is in exactly one
  place: the run queue, the free queue, running, the scheduler's block, or (\<open>X\<close>) in the hands of the
  operation that is in progress.\<close>

definition owns :: "sys \<Rightarrow> nat list \<Rightarrow> bool" where
  "owns s X \<longleftrightarrow> Qrep (nxt s) (runq s) (run_list s) \<and> Qrep (nxt s) (freeq s) (free_list s) \<and>
     distinct (X @ blocks s) \<and> set (X @ blocks s) = {..<unat (nalloced s)}"

definition thr_inv :: "sys \<Rightarrow> bool" where
  "thr_inv s \<longleftrightarrow> owns s []"

lemma owns_init: "thr_inv (sys_init b m c)"
proof -
  have "Qlist (\<lambda>_. None) Q_mk = ([] :: nat list)" by (rule Qrep_Qlist [OF Qrep_mk])
  then show ?thesis
    by (simp add: thr_inv_def owns_def sys_init_def run_list_def free_list_def blocks_def Qrep_mk)
qed

lemma lists_cong:
  assumes "nxt s' = nxt s" "runq s' = runq s" "freeq s' = freeq s"
  shows "run_list s' = run_list s" "free_list s' = free_list s"
  using assms by (simp_all add: run_list_def free_list_def)

lemma owns_cong:
  assumes "nxt s' = nxt s" "runq s' = runq s" "freeq s' = freeq s" "cur_thread s' = cur_thread s"
    "scheduler_thread s' = scheduler_thread s" "nalloced s' = nalloced s"
  shows "owns s' X \<longleftrightarrow> owns s X"
  using assms lists_cong [OF assms(1-3)] by (simp add: owns_def blocks_def)

lemma owns_queue_room:
  assumes "owns s (t # X)"
  shows "length (run_list s) + 1 < 2 ^ 32" "length (free_list s) + 1 < 2 ^ 32"
proof -
  have d: "distinct (t # X @ blocks s)" and e: "set (t # X @ blocks s) = {..<unat (nalloced s)}"
    using assms by (simp_all add: owns_def)
  have "length (t # X @ blocks s) = unat (nalloced s)"
    using distinct_card [OF d] e by (metis card_lessThan)
  then have "1 + length (run_list s) + length (free_list s) \<le> unat (nalloced s)"
    by (simp add: blocks_def)
  moreover have "unat (nalloced s) < 2 ^ 32" by simp
  ultimately show "length (run_list s) + 1 < 2 ^ 32" "length (free_list s) + 1 < 2 ^ 32"
    by linarith+
qed

lemma owns_append_run:
  assumes "owns s (t # X)" "Q_append (nxt s) (runq s) t = (n, rq)"
  shows "owns (s\<lparr>nxt := n, runq := rq\<rparr>) X" "run_list (s\<lparr>nxt := n, runq := rq\<rparr>) = run_list s @ [t]"
    "free_list (s\<lparr>nxt := n, runq := rq\<rparr>) = free_list s"
proof -
  have r: "Qrep (nxt s) (runq s) (run_list s)" and f: "Qrep (nxt s) (freeq s) (free_list s)"
    and d: "distinct (t # X @ blocks s)"
    using assms(1) by (simp_all add: owns_def)
  then have t: "t \<notin> set (run_list s)" "set (run_list s) \<inter> set (free_list s) = {}" "t \<notin> set (free_list s)"
    by (auto simp: blocks_def)
  note a = Q_append_ok [OF r t(1) owns_queue_room(1) [OF assms(1)] assms(2)]
  have "\<forall>x \<in> set (free_list s). n x = nxt s x" using a(2) t by auto
  with f have f': "Qrep n (freeq s) (free_list s)" by (rule Qrep_frame)
  show l: "run_list (s\<lparr>nxt := n, runq := rq\<rparr>) = run_list s @ [t]"
    "free_list (s\<lparr>nxt := n, runq := rq\<rparr>) = free_list s"
    using Qrep_Qlist [OF a(1)] Qrep_Qlist [OF f'] by (simp_all add: run_list_def free_list_def)
  show "owns (s\<lparr>nxt := n, runq := rq\<rparr>) X"
    using assms(1) a(1) f' l by (auto simp: owns_def blocks_def)
qed

lemma owns_pop_run:
  assumes "owns s X" "run_list s = t # ts"
  shows "\<exists>rq. Q_pop (nxt s) (runq s) = Inr (Some t, rq) \<and> owns (s\<lparr>runq := rq\<rparr>) (t # X) \<and>
    run_list (s\<lparr>runq := rq\<rparr>) = ts \<and> free_list (s\<lparr>runq := rq\<rparr>) = free_list s"
proof -
  from assms have "Qrep (nxt s) (runq s) (t # ts)" by (simp add: owns_def)
  from Q_pop_cons [OF this] obtain rq where rq: "Q_pop (nxt s) (runq s) = Inr (Some t, rq)"
    "Qrep (nxt s) rq ts" by blast
  then have l: "run_list (s\<lparr>runq := rq\<rparr>) = ts" "free_list (s\<lparr>runq := rq\<rparr>) = free_list s"
    using Qrep_Qlist [OF rq(2)] by (simp_all add: run_list_def free_list_def)
  then have "owns (s\<lparr>runq := rq\<rparr>) (t # X)"
    using assms rq(2) by (auto simp: owns_def blocks_def)
  with rq l show ?thesis by blast
qed

lemma owns_pop_run_empty:
  assumes "owns s X" "run_list s = []"
  shows "Q_pop (nxt s) (runq s) = Inr (None, runq s)"
  using assms Q_pop_nil [of "nxt s" "runq s"] by (simp add: owns_def)

lemma owns_free:
  assumes "owns s (t # X)"
  shows "owns (th_free t s) X" "run_list (th_free t s) = run_list s"
    "free_list (th_free t s) = t # free_list s"
proof -
  obtain n fq where p: "Q_push (nxt s) (freeq s) t = (n, fq)" by fastforce
  then have th: "th_free t s = s\<lparr>nxt := n, freeq := fq\<rparr>" by (simp add: th_free_def)
  have r: "Qrep (nxt s) (runq s) (run_list s)" and f: "Qrep (nxt s) (freeq s) (free_list s)"
    and d: "distinct (t # X @ blocks s)"
    using assms(1) by (simp_all add: owns_def)
  then have t: "t \<notin> set (free_list s)" "t \<notin> set (run_list s)" by (auto simp: blocks_def)
  note a = Q_push_ok [OF f t(1) owns_queue_room(2) [OF assms(1)] p]
  have "\<forall>x \<in> set (run_list s). n x = nxt s x" using a(2) t by auto
  with r have r': "Qrep n (runq s) (run_list s)" by (rule Qrep_frame)
  show l: "run_list (th_free t s) = run_list s" "free_list (th_free t s) = t # free_list s"
    using Qrep_Qlist [OF a(1)] Qrep_Qlist [OF r'] by (simp_all add: th run_list_def free_list_def)
  show "owns (th_free t s) X"
    using assms(1) a(1) r' l by (auto simp: th owns_def blocks_def)
qed

lemma owns_cur:
  "cur_thread s = Some c \<Longrightarrow> owns s X \<Longrightarrow> owns (s\<lparr>cur_thread := None\<rparr>) (c # X)"
  "cur_thread s = None \<Longrightarrow> owns s (c # X) \<Longrightarrow> owns (s\<lparr>cur_thread := Some c\<rparr>) X"
  by (auto simp: owns_def blocks_def run_list_def free_list_def)

lemma owns_sched:
  "scheduler_thread s = None \<Longrightarrow> owns s (d # X) \<Longrightarrow> owns (s\<lparr>scheduler_thread := Some d\<rparr>) X"
  by (auto simp: owns_def blocks_def run_list_def free_list_def)

lemma th_alloc_owns:
  assumes "owns s X" "unat (nalloced s) < 2 ^ 32 - 1" "\<forall>k. stk k mod 8 = 0"
  shows "\<exists>t s'. th_alloc stk s = Inr (t, s') \<and> owns s' (t # X) \<and> run_list s' = run_list s \<and>
    cur_thread s' = cur_thread s \<and> scheduler_thread s' = scheduler_thread s \<and> mem s' = mem s \<and>
    regs s' = regs s \<and> (\<forall>b. b \<noteq> t \<longrightarrow> blk s' b = blk s b) \<and> th_tid (blk s' t) = tid s \<and> tid s' = tid s + 1 \<and>
    unat (nalloced s') \<le> unat (nalloced s) + 1"
proof (cases "free_list s")
  case Nil
  then have f: "Q_pop (nxt s) (freeq s) = Inr (None, freeq s)"
    using assms(1) Q_pop_nil [of "nxt s" "freeq s"] by (simp add: owns_def)
  have n: "unat (nalloced s + 1) = Suc (unat (nalloced s))"
    using assms(2) by (simp add: unat_word_ariths)
  let ?t = "unat (nalloced s)"
  let ?s = "s\<lparr>freeq := freeq s, nalloced := nalloced s + 1,
      blk := (blk s)(?t := (blk s ?t)\<lparr>th_tid := tid s\<rparr>), tid := tid s + 1\<rparr>"
  have "th_alloc stk s = Inr (?t, ?s)" using f assms(3) by (simp add: th_alloc_def Let_def)
  moreover have l: "run_list ?s = run_list s" "free_list ?s = free_list s"
    by (simp_all add: run_list_def free_list_def)
  moreover have "owns ?s (?t # X)"
  proof -
    have b: "blocks ?s = blocks s" using l by (simp add: blocks_def)
    have "distinct (X @ blocks s)" and e: "set (X @ blocks s) = {..<?t}"
      using assms(1) by (simp_all add: owns_def)
    then have "distinct (?t # X @ blocks ?s)" unfolding b by simp
    moreover have "set (?t # X @ blocks ?s) = {..<unat (nalloced ?s)}"
      unfolding b using e n by (simp add: lessThan_Suc)
    moreover have "Qrep (nxt ?s) (runq ?s) (run_list ?s)" "Qrep (nxt ?s) (freeq ?s) (free_list ?s)"
      using assms(1) l by (simp_all add: owns_def)
    ultimately show ?thesis by (simp add: owns_def)
  qed
  ultimately show ?thesis using l n by auto
next
  case (Cons t fs)
  then have "Qrep (nxt s) (freeq s) (t # fs)" using assms(1) by (simp add: owns_def)
  from Q_pop_cons [OF this] obtain fq where fq: "Q_pop (nxt s) (freeq s) = Inr (Some t, fq)"
    "Qrep (nxt s) fq fs" by blast
  let ?s = "s\<lparr>freeq := fq, blk := (blk s)(t := (blk s t)\<lparr>th_tid := tid s\<rparr>), tid := tid s + 1\<rparr>"
  have "th_alloc stk s = Inr (t, ?s)" using fq(1) assms(3) by (simp add: th_alloc_def Let_def)
  moreover have l: "run_list ?s = run_list s" "free_list ?s = fs"
    using Qrep_Qlist [OF fq(2)] by (simp_all add: run_list_def free_list_def)
  have "owns ?s (t # X)" using assms(1) Cons fq(2) l by (auto simp: owns_def blocks_def)
  ultimately show ?thesis using l by auto
qed


section \<open>The scheduler operations\<close>

lemma cswitch_fields [simp]:
  "nxt (rpi_cswitch p n s) = nxt s" "runq (rpi_cswitch p n s) = runq s"
  "freeq (rpi_cswitch p n s) = freeq s" "cur_thread (rpi_cswitch p n s) = cur_thread s"
  "scheduler_thread (rpi_cswitch p n s) = scheduler_thread s" "nalloced (rpi_cswitch p n s) = nalloced s"
  "tid (rpi_cswitch p n s) = tid s"
  by (simp_all add: rpi_cswitch_def Let_def)

lemma cswitch_owns [simp]:
  "owns (rpi_cswitch p n s) X = owns s X" "run_list (rpi_cswitch p n s) = run_list s"
  "free_list (rpi_cswitch p n s) = free_list s"
  by (simp_all add: owns_def blocks_def run_list_def free_list_def)

lemma th_free_fields [simp]:
  "cur_thread (th_free t s) = cur_thread s" "scheduler_thread (th_free t s) = scheduler_thread s"
  "saved_sp (blk (th_free t s) b) = saved_sp (blk s b)"
  by (simp_all add: th_free_def split: prod.split)

lemma rpi_yield_switch:
  assumes "thr_inv s" "cur_thread s = Some c" "run_list s = t # ts"
  shows "\<exists>s1. rpi_yield s = Inr (rpi_cswitch c (saved_sp (blk s t)) s1) \<and> thr_inv s1 \<and>
    cur_thread s1 = Some t \<and> run_list s1 = ts @ [c] \<and> free_list s1 = free_list s \<and>
    regs s1 = regs s \<and> mem s1 = mem s \<and> blk s1 = blk s"
proof -
  have e: "Q_empty (runq s) = Inr False"
    using assms Q_empty_ok [of "nxt s" "runq s" "run_list s"] by (simp add: thr_inv_def owns_def)
  have o: "owns (s\<lparr>cur_thread := None\<rparr>) [c]" using owns_cur(1) [OF assms(2)] assms(1) by (simp add: thr_inv_def)
  obtain n rq where a: "Q_append (nxt s) (runq s) c = (n, rq)" by fastforce
  let ?s = "s\<lparr>cur_thread := None\<rparr>" and ?s2 = "s\<lparr>cur_thread := None, nxt := n, runq := rq\<rparr>"
  have o2: "owns ?s2 []" and l2: "run_list ?s2 = run_list s @ [c]" "free_list ?s2 = free_list s"
    using owns_append_run [OF o, of n rq] a by (simp_all add: run_list_def free_list_def)
  from l2(1) assms(3) have "run_list ?s2 = t # (ts @ [c])" by simp
  from owns_pop_run [OF o2 this] obtain rq' where q: "Q_pop n rq = Inr (Some t, rq')"
    "owns (?s2\<lparr>runq := rq'\<rparr>) [t]" "run_list (?s2\<lparr>runq := rq'\<rparr>) = ts @ [c]"
    "free_list (?s2\<lparr>runq := rq'\<rparr>) = free_list ?s2" by auto
  let ?s3 = "s\<lparr>nxt := n, runq := rq', cur_thread := Some t\<rparr>"
  have "thr_inv ?s3" using owns_cur(2) [OF _ q(2)] by (simp add: thr_inv_def)
  moreover have "run_list ?s3 = ts @ [c]" "free_list ?s3 = free_list s"
    using q(3,4) l2(2) by (simp_all add: run_list_def free_list_def)
  moreover have "rpi_yield s = Inr (rpi_cswitch c (saved_sp (blk s t)) ?s3)"
    using e a q(1) assms(2) by (simp add: rpi_yield_def Let_def)
  ultimately show ?thesis by auto
qed

lemma rpi_yield_alone:
  "thr_inv s \<Longrightarrow> run_list s = [] \<Longrightarrow> rpi_yield s = Inr s"
  using Q_empty_ok [of "nxt s" "runq s" "run_list s"] by (simp add: thr_inv_def owns_def rpi_yield_def)


lemma rpi_exit_switch:
  assumes "thr_inv s" "cur_thread s = Some c"
  shows "\<exists>s1. thr_inv s1 \<and> free_list s1 = c # free_list s \<and> scheduler_thread s1 = scheduler_thread s \<and>
    (case run_list s of
       [] \<Rightarrow> cur_thread s1 = None \<and> run_list s1 = [] \<and>
         (case scheduler_thread s of None \<Rightarrow> rpi_exit s = Inl Undefined
          | Some d \<Rightarrow> rpi_exit s = Inr (rpi_cswitch c (saved_sp (blk s d)) s1))
     | t # ts \<Rightarrow> cur_thread s1 = Some t \<and> run_list s1 = ts \<and>
         rpi_exit s = Inr (rpi_cswitch c (saved_sp (blk s t)) s1))"
proof (cases "run_list s")
  case Nil
  let ?s1 = "th_free c (s\<lparr>cur_thread := None\<rparr>)"
  have o: "owns (s\<lparr>cur_thread := None\<rparr>) [c]" using owns_cur(1) [OF assms(2)] assms(1) by (simp add: thr_inv_def)
  have p: "Q_pop (nxt s) (runq s) = Inr (None, runq s)"
    using owns_pop_run_empty [of s "[]"] assms(1) Nil by (simp add: thr_inv_def)
  have "rpi_exit s = (case scheduler_thread s of None \<Rightarrow> Inl Undefined
      | Some d \<Rightarrow> Inr (rpi_cswitch c (saved_sp (blk s d)) ?s1))"
    using p assms(2) by (simp add: rpi_exit_def Let_def cong: option.case_cong)
  moreover have "thr_inv ?s1" "run_list ?s1 = []" "free_list ?s1 = c # free_list s"
    using owns_free [OF o] Nil by (simp_all add: thr_inv_def run_list_def free_list_def)
  ultimately show ?thesis using Nil by (intro exI [of _ ?s1]) (auto split: option.splits)
next
  case (Cons t ts)
  have o: "owns (s\<lparr>cur_thread := None\<rparr>) [c]" using owns_cur(1) [OF assms(2)] assms(1) by (simp add: thr_inv_def)
  from owns_pop_run [OF o, of t ts] Cons obtain rq where p: "Q_pop (nxt s) (runq s) = Inr (Some t, rq)"
    "owns (s\<lparr>cur_thread := None, runq := rq\<rparr>) [t, c]" "run_list (s\<lparr>cur_thread := None, runq := rq\<rparr>) = ts"
    "free_list (s\<lparr>cur_thread := None, runq := rq\<rparr>) = free_list s"
    by (auto simp: run_list_def free_list_def)
  let ?s0 = "s\<lparr>runq := rq, cur_thread := Some t\<rparr>"
  let ?s1 = "th_free c ?s0"
  have "owns ?s0 [c]" using owns_cur(2) [OF _ p(2)] by simp
  from owns_free [OF this] have "thr_inv ?s1" "run_list ?s1 = ts" "free_list ?s1 = c # free_list s"
    using p(3,4) by (simp_all add: thr_inv_def run_list_def free_list_def)
  moreover have "rpi_exit s = Inr (rpi_cswitch c (saved_sp (blk s t)) ?s1)"
    using p(1) assms(2) by (simp add: rpi_exit_def Let_def)
  ultimately show ?thesis using Cons by auto
qed

lemma fork_append:
  assumes "thr_inv s" "unat (nalloced s) < 2 ^ 32 - 1" "\<forall>k. stk k mod 8 = 0"
  shows "\<exists>t s'. rpi_fork stk tramp code a s = Inr (t, s') \<and> thr_inv s' \<and>
    run_list s' = run_list s @ [t] \<and> cur_thread s' = cur_thread s \<and>
    scheduler_thread s' = scheduler_thread s \<and> regs s' = regs s \<and>
    saved_sp (blk s' t) = stk t + 8112 \<and> unat (nalloced s') \<le> unat (nalloced s) + 1 \<and>
    mem s' = (mem s)(stk t + 8144 := tramp, stk t + 8112 := code, stk t + 8116 := a)"
proof -
  from th_alloc_owns [of s "[]" stk] assms obtain t s1 where al: "th_alloc stk s = Inr (t, s1)"
    "owns s1 [t]" "run_list s1 = run_list s" "cur_thread s1 = cur_thread s"
    "scheduler_thread s1 = scheduler_thread s" "mem s1 = mem s" "regs s1 = regs s"
    "unat (nalloced s1) \<le> unat (nalloced s) + 1"
    by (auto simp: thr_inv_def)
  obtain n rq where ap: "Q_append (nxt s1) (runq s1) t = (n, rq)" by fastforce
  let ?m = "(mem s)(stk t + 8144 := tramp, stk t + 8112 := code, stk t + 8116 := a)"
  let ?b = "(blk s1)(t := (blk s1 t)\<lparr>fn := code, arg := a, saved_sp := stk t + 8112\<rparr>)"
  let ?s2 = "s1\<lparr>mem := ?m, blk := ?b, nxt := n, runq := rq\<rparr>"
  have f: "rpi_fork stk tramp code a s = Inr (t, ?s2)"
    using al(1,6) ap
    by (simp add: rpi_fork_def Let_def THREAD_MAXSTACK_def LR_OFFSET_def R4_OFFSET_def R5_OFFSET_def)
  have "owns ?s2 []"
    using owns_append_run(1) [OF al(2) ap] owns_cong [of ?s2 "s1\<lparr>nxt := n, runq := rq\<rparr>"] by simp
  moreover have "run_list ?s2 = run_list s @ [t]"
    using owns_append_run(2) [OF al(2) ap] al(3) by (simp add: run_list_def)
  ultimately show ?thesis using f al(4,5,7,8) by (auto simp: thr_inv_def)
qed

lemma thread_start_switch:
  assumes "thr_inv s" "unat (nalloced s) < 2 ^ 32 - 1" "\<forall>k. stk k mod 8 = 0"
    and "cur_thread s = None" "run_list s = t # ts"
  shows "\<exists>d s1. rpi_thread_start stk s = Inr (rpi_cswitch d (saved_sp (blk s t)) s1) \<and> thr_inv s1 \<and>
    scheduler_thread s1 = Some d \<and> cur_thread s1 = Some t \<and> run_list s1 = ts \<and> regs s1 = regs s \<and>
    saved_sp (blk s1 t) = saved_sp (blk s t) \<and> mem s1 = (\<lambda>x. if x < 4096 then 0 else mem s x)"
proof -
  let ?r = "redzone_init s"
  have r: "owns ?r []" "run_list ?r = t # ts" "regs ?r = regs s" "blk ?r = blk s"
    "scheduler_thread ?r = scheduler_thread s" "nalloced ?r = nalloced s" "cur_thread ?r = None"
    using assms(1,4,5) owns_cong [of ?r s]
    by (simp_all add: redzone_init_def thr_inv_def run_list_def)
  have e: "Q_empty (runq ?r) = Inr False"
    using r(1,2) Q_empty_ok [of "nxt ?r" "runq ?r" "run_list ?r"] by (simp add: owns_def)
  have "\<exists>d s2. (case scheduler_thread ?r of Some d \<Rightarrow> Inr (d, ?r)
      | None \<Rightarrow> seq (th_alloc stk ?r) (\<lambda>(d, s). Inr (d, s\<lparr>scheduler_thread := Some d\<rparr>))) = Inr (d, s2) \<and>
      owns s2 [] \<and> run_list s2 = t # ts \<and> scheduler_thread s2 = Some d \<and> cur_thread s2 = None \<and>
      regs s2 = regs s \<and> saved_sp (blk s2 t) = saved_sp (blk s t) \<and> mem s2 = mem ?r"
  proof (cases "scheduler_thread s")
    case (Some d)
    with r show ?thesis by auto
  next
    case None
    have "unat (nalloced ?r) < 2 ^ 32 - 1" using r(6) assms(2) by simp
    from th_alloc_owns [OF r(1) this assms(3)] obtain d s2 where al: "th_alloc stk ?r = Inr (d, s2)"
      "owns s2 [d]" "run_list s2 = run_list ?r" "cur_thread s2 = cur_thread ?r"
      "scheduler_thread s2 = scheduler_thread ?r" "mem s2 = mem ?r" "regs s2 = regs ?r"
      "\<forall>b. b \<noteq> d \<longrightarrow> blk s2 b = blk ?r b" by blast
    let ?s3 = "s2\<lparr>scheduler_thread := Some d\<rparr>"
    have o: "owns ?s3 []" using owns_sched [OF _ al(2)] al(5) None r(5) by simp
    have "t \<noteq> d" using al(2,3) r(2) by (auto simp: owns_def blocks_def)
    moreover have "run_list ?s3 = t # ts" using al(3) r(2) by (simp add: run_list_def)
    ultimately show ?thesis using None r al o by simp
  qed
  then obtain d s2 where s2: "(case scheduler_thread ?r of Some d \<Rightarrow> Inr (d, ?r)
      | None \<Rightarrow> seq (th_alloc stk ?r) (\<lambda>(d, s). Inr (d, s\<lparr>scheduler_thread := Some d\<rparr>))) = Inr (d, s2)"
    "owns s2 []" "run_list s2 = t # ts" "scheduler_thread s2 = Some d" "cur_thread s2 = None"
    "regs s2 = regs s" "saved_sp (blk s2 t) = saved_sp (blk s t)" "mem s2 = mem ?r" by blast
  from owns_pop_run [OF s2(2,3)] obtain rq where q: "Q_pop (nxt s2) (runq s2) = Inr (Some t, rq)"
    "owns (s2\<lparr>runq := rq\<rparr>) [t]" "run_list (s2\<lparr>runq := rq\<rparr>) = ts" by blast
  let ?s3 = "s2\<lparr>runq := rq, cur_thread := Some t\<rparr>"
  have "thr_inv ?s3" using owns_cur(2) [OF _ q(2)] s2(5) by (simp add: thr_inv_def)
  moreover have "run_list ?s3 = ts" using q(3) by (simp add: run_list_def)
  moreover have "rpi_thread_start stk s = Inr (rpi_cswitch d (saved_sp (blk s t)) ?s3)"
    using e s2(1,7) q(1) by (simp add: rpi_thread_start_def Let_def)
  moreover have "mem ?s3 = (\<lambda>x. if x < 4096 then 0 else mem s x)"
    using s2(8) by (simp add: redzone_init_def)
  ultimately show ?thesis using s2(4,6,7)
    by (intro exI [of _ d] exI [of _ ?s3]) simp
qed



text \<open>\<open>rpi_exit\<close> hands the block of the exiting thread to the free list and runs the next thread;
  after the last thread control goes back to the frame the scheduler saved.\<close>

theorem exit_runs_next:
  assumes "thr_inv s" "cur_thread s = Some c" "scheduler_thread s = Some d"
  shows "\<exists>s'. rpi_exit s = Inr s' \<and> free_list s' = c # free_list s \<and>
    cur_thread s' = (case run_list s of [] \<Rightarrow> None | t # ts \<Rightarrow> Some t) \<and> run_list s' = tl (run_list s)"
  using rpi_exit_switch [OF assms(1,2)] assms(3) by (auto split: list.splits)

section \<open>The context switch\<close>

lemma length_9E:
  assumes "length ws = 9"
  obtains a b c d e f g h i where "ws = [a, b, c, d, e, f, g, h, i]"
proof -
  have "\<exists>a b c d e f g h i. ws = [a, b, c, d, e, f, g, h, i]"
    using assms by (simp add: numeral_nat length_Suc_conv) blast
  with that show ?thesis by blast
qed

lemma load_9: "load_words a 9 m =
    [m a, m (a + 4), m (a + 8), m (a + 12), m (a + 16), m (a + 20), m (a + 24), m (a + 28), m (a + 32)]"
  by (simp add: numeral_nat add.assoc)

lemma load_store_9: "length ws = 9 \<Longrightarrow> load_words a 9 (store_words a ws m) = ws"
  by (erule length_9E) (simp add: load_9 add.assoc)

lemma load_cong: "(\<And>i. i < n \<Longrightarrow> m' (a + 4 * word_of_nat i) = m (a + 4 * word_of_nat i)) \<Longrightarrow>
    load_words a n m' = load_words a n m"
proof (induction n arbitrary: a)
  case 0
  then show ?case by simp
next
  case (Suc n)
  have "m' (a + 4 + 4 * word_of_nat i) = m (a + 4 + 4 * word_of_nat i)" if "i < n" for i
    using Suc.prems [of "Suc i"] that by (simp add: algebra_simps)
  with Suc.IH Suc.prems [of 0] show ?case by simp
qed

lemma store_other: "(\<And>i. i < length ws \<Longrightarrow> x \<noteq> a + 4 * word_of_nat i) \<Longrightarrow> store_words a ws m x = m x"
proof (induction ws arbitrary: a m)
  case Nil
  then show ?case by simp
next
  case (Cons w ws)
  have "x \<noteq> a + 4 + 4 * word_of_nat i" if "i < length ws" for i
    using Cons.prems [of "Suc i"] that by (simp add: algebra_simps)
  with Cons.IH Cons.prems [of 0] show ?case by simp
qed

text \<open>The nine words \<open>rpi_cswitch\<close> saves below \<open>a\<close> do not overlap the frame at \<open>f\<close>.\<close>

definition frames_disjoint :: "u32 \<Rightarrow> u32 \<Rightarrow> bool" where
  "frames_disjoint a f \<longleftrightarrow> (\<forall>i < 9. \<forall>j < 9. a - 36 + 4 * word_of_nat i \<noteq> f + 4 * word_of_nat j)"

lemma cswitch_loads:
  assumes "length (callee (regs s)) = 8" "frames_disjoint (sp (regs s)) f"
  shows "regs (rpi_cswitch old f s) = (regs s)\<lparr>callee := take 8 (load_words f 9 (mem s)),
      lr := load_words f 9 (mem s) ! 8, sp := f + 36, pc := load_words f 9 (mem s) ! 8\<rparr>"
proof -
  have "store_words (sp (regs s) - 36) (callee (regs s) @ [lr (regs s)]) (mem s) (f + 4 * word_of_nat j)
      = mem s (f + 4 * word_of_nat j)" if "j < 9" for j
    using assms that by (intro store_other) (metis frames_disjoint_def length_append_singleton eval_nat_numeral(3))
  then have "load_words f 9 (store_words (sp (regs s) - 36) (callee (regs s) @ [lr (regs s)]) (mem s))
      = load_words f 9 (mem s)"
    by (rule load_cong)
  then show ?thesis by (simp add: rpi_cswitch_def Let_def)
qed

lemma cswitch_saves:
  assumes "length (callee (regs s)) = 8"
  shows "saved_sp (blk (rpi_cswitch old f s) old) = sp (regs s) - 36"
    "load_words (sp (regs s) - 36) 9 (mem (rpi_cswitch old f s)) = callee (regs s) @ [lr (regs s)]"
  using assms load_store_9 [of "callee (regs s) @ [lr (regs s)]" "sp (regs s) - 36" "mem s"]
  by (simp_all add: rpi_cswitch_def Let_def)




section \<open>Witnesses\<close>

text \<open>Thread 0 runs, 1 and 2 are queued, block 3 is the scheduler's, and no block is free.\<close>

definition sample :: sys where
  "sample = \<lparr>blk = (\<lambda>_. \<lparr>saved_sp = 0x200000, th_tid = 1, fn = 0, arg = 0\<rparr>),
     nxt = (\<lambda>_. None)(1 := Some 2), runq = \<lparr>q_head = Some 1, q_tail = Some 2, cnt = 2\<rparr>,
     freeq = Q_mk, cur_thread = Some 0, scheduler_thread = Some 3, tid = 5, nalloced = 4,
     mem = (\<lambda>_. 0), regs = \<lparr>callee = [4, 5, 6, 7, 8, 9, 10, 11], r0 = 0, r1 = 0,
       sp = 0x300000, lr = 0x8010, pc = 0x8000\<rparr>\<rparr>"

definition boot_sample :: sys where
  "boot_sample = sys_init (\<lambda>_. \<lparr>saved_sp = 0, th_tid = 0, fn = 0, arg = 0\<rparr>) (\<lambda>_. 0)
     \<lparr>callee = [4, 5, 6, 7, 8, 9, 10, 11], r0 = 0, r1 = 0, sp = 0x300000, lr = 0x8010, pc = 0x8000\<rparr>"

definition sample_stk :: "nat \<Rightarrow> u32" where
  "sample_stk k = (if k = 0 then 0x100000 else 0x102100)"

lemma Qrep_sample: "Qrep (nxt sample) (runq sample) [1, 2]" "Qrep (nxt sample) (freeq sample) []"
  by (simp_all add: sample_def Qrep_def Q_mk_def)

lemma run_list_sample: "run_list sample = [1, 2]" "free_list sample = []"
  using Qrep_Qlist [OF Qrep_sample(1)] Qrep_Qlist [OF Qrep_sample(2)]
  by (simp_all add: run_list_def free_list_def)

lemma thr_inv_sample: "thr_inv sample"
proof -
  have "{1, 2, 0, 3} = {..<4 :: nat}" by auto
  moreover have "blocks sample = [1, 2, 0, 3]"
    unfolding blocks_def run_list_sample by (simp add: sample_def)
  moreover have "unat (nalloced sample) = 4" by (simp add: sample_def)
  ultimately show ?thesis
    unfolding thr_inv_def owns_def run_list_sample using Qrep_sample by simp
qed



theorem exit_runs_next_witness:
  "\<exists>s'. rpi_exit sample = Inr s' \<and> free_list s' = [0] \<and> cur_thread s' = Some 1 \<and> run_list s' = [2]"
proof -
  have "cur_thread sample = Some 0" "scheduler_thread sample = Some 3" by (simp_all add: sample_def)
  from exit_runs_next [OF thr_inv_sample this] show ?thesis by (auto simp: run_list_sample)
qed

lemma all_less_9: "(\<forall>i < 9. P i) \<longleftrightarrow> P 0 \<and> P 1 \<and> P 2 \<and> P 3 \<and> P 4 \<and> P 5 \<and> P 6 \<and> P 7 \<and> P (8 :: nat)"
proof -
  have "{..<9 :: nat} = {0, 1, 2, 3, 4, 5, 6, 7, 8}" by auto
  moreover have "(\<forall>i < 9. P i) \<longleftrightarrow> (\<forall>i \<in> {..<9}. P i)" by auto
  ultimately have "(\<forall>i < 9. P i) \<longleftrightarrow> (\<forall>i \<in> {0, 1, 2, 3, 4, 5, 6, 7, 8}. P i)" by metis
  then show ?thesis by simp
qed


lemma all_block: "P 0x100000 \<Longrightarrow> P 0x102100 \<Longrightarrow> \<forall>k. P (sample_stk k)"
  by (simp add: sample_stk_def)


end
