(* ===== verification/PiRandom.thy ===== *)
theory PiRandom
  imports Prelude "HOL-Library.Signed_Division"
begin

unbundle bit_operations_syntax

text \<open>
  The additive feedback generator of \<open>libpi/libc/random.c\<close> (a copy of the C library's, used again as
  \<open>pi-random.c\<close> by the simulated Pi) and its wrapper \<open>libpi/libc/pi-random.c\<close>.

  The state arrays are word arrays in a store: buffer \<open>b\<close> is the \<open>arg_state\<close> of some call, its word 0
  is \<open>state[-1]\<close> and word \<open>i + 1\<close> is \<open>state[i]\<close>. The pointers \<open>fptr\<close>, \<open>rptr\<close> and \<open>end_ptr\<close> are
  indices relative to \<open>state\<close>. Access outside a buffer is \<open>Inl Undefined\<close>. Sums of \<open>int32_t\<close> wrap.
  The arguments are objects, so the tests for null pointers are left out; \<open>None\<close> is the return -1.
\<close>

section \<open>Tables\<close>

definition TYPE_0 :: nat where "TYPE_0 = 0"
definition BREAK_0 :: nat where "BREAK_0 = 8"
definition BREAK_1 :: nat where "BREAK_1 = 32"
definition BREAK_2 :: nat where "BREAK_2 = 64"
definition BREAK_3 :: nat where "BREAK_3 = 128"
definition BREAK_4 :: nat where "BREAK_4 = 256"
definition MAX_TYPES :: nat where "MAX_TYPES = 5"

definition seps :: "nat list" where "seps = [0, 3, 1, 3, 1]"
definition degrees :: "nat list" where "degrees = [0, 7, 15, 31, 63]"

type_synonym rbufs = "nat \<Rightarrow> u32 list"

record random_data =
  fptr :: nat
  rptr :: nat
  rstate :: nat \<comment> \<open>the buffer \<open>state\<close> points into\<close>
  rand_type :: nat
  rand_deg :: nat
  rand_sep :: nat
  end_ptr :: nat

definition st_get :: "rbufs \<Rightarrow> random_data \<Rightarrow> nat \<Rightarrow> u32 res" where
  "st_get m buf i = arr_get (m (rstate buf)) (Suc i)"

definition st_set :: "rbufs \<Rightarrow> random_data \<Rightarrow> nat \<Rightarrow> u32 \<Rightarrow> rbufs res" where
  "st_set m buf i v = seq (arr_set (m (rstate buf)) (Suc i) v) (\<lambda>b. Inr (m(rstate buf := b)))"

section \<open>The generator\<close>

definition random_r :: "rbufs \<Rightarrow> random_data \<Rightarrow> (u32 \<times> rbufs \<times> random_data) res" where
  "random_r m buf =
     (if rand_type buf = TYPE_0 then
        seq (st_get m buf 0) (\<lambda>s0.
        let val = (s0 * 1103515245 + 12345) AND 0x7fffffff in
        seq (st_set m buf 0 val) (\<lambda>m. Inr (val, m, buf)))
      else
        seq (st_get m buf (fptr buf)) (\<lambda>f.
        seq (st_get m buf (rptr buf)) (\<lambda>r.
        let val = f + r in
        seq (st_set m buf (fptr buf) val) (\<lambda>m.
        let result = signed_drop_bit 1 val AND 0x7fffffff;
            f1 = fptr buf + 1; r1 = rptr buf + 1;
            (f2, r2) = (if end_ptr buf \<le> f1 then (0, r1)
                        else (f1, if end_ptr buf \<le> r1 then 0 else r1))
        in Inr (result, m, buf\<lparr>fptr := f2, rptr := r2\<rparr>)))))"

text \<open>One step of the seeding recurrence, on \<open>long int\<close> with C's truncating division.\<close>

definition schrage :: "int \<Rightarrow> int" where
  "schrage word =
     (let hi = word sdiv 127773; lo = word smod 127773;
          w = 16807 * lo - 2836 * hi
      in if w < 0 then w + 2147483647 else w)"

fun seed_loop :: "nat \<Rightarrow> nat \<Rightarrow> int \<Rightarrow> rbufs \<Rightarrow> random_data \<Rightarrow> rbufs res" where
  "seed_loop 0 i word m buf = Inr m"
| "seed_loop (Suc n) i word m buf =
     (let word = schrage word in
      seq (st_set m buf i (word_of_int word)) (\<lambda>m. seed_loop n (Suc i) word m buf))"

fun discard_loop :: "nat \<Rightarrow> rbufs \<Rightarrow> random_data \<Rightarrow> (rbufs \<times> random_data) res" where
  "discard_loop 0 m buf = Inr (m, buf)"
| "discard_loop (Suc n) m buf = seq (random_r m buf) (\<lambda>(_, m, buf). discard_loop n m buf)"

definition srandom_r :: "u32 \<Rightarrow> rbufs \<Rightarrow> random_data \<Rightarrow> (rbufs \<times> random_data) option res" where
  "srandom_r seed m buf =
     (if MAX_TYPES \<le> rand_type buf then Inr None
      else let seed = (if seed = 0 then 1 else seed) in
        seq (st_set m buf 0 seed) (\<lambda>m.
        if rand_type buf = TYPE_0 then Inr (Some (m, buf))
        else
          let kc = rand_deg buf in
          seq (seed_loop (kc - 1) 1 (sint seed) m buf) (\<lambda>m.
          let buf = buf\<lparr>fptr := rand_sep buf, rptr := 0\<rparr> in
          seq (discard_loop (kc * 10) m buf) (\<lambda>r. Inr (Some r)))))"

definition initstate_r :: "u32 \<Rightarrow> nat \<Rightarrow> nat \<Rightarrow> rbufs \<Rightarrow> random_data \<Rightarrow> (rbufs \<times> random_data) option res" where
  "initstate_r seed arg_state n m buf =
     (if BREAK_3 \<le> n \<or> BREAK_0 \<le> n then
        let type = (if BREAK_3 \<le> n then (if n < BREAK_4 then 3 else 4)
                    else if n < BREAK_1 then TYPE_0
                    else if n < BREAK_2 then 1 else 2);
            degree = degrees ! type; separation = seps ! type;
            buf = buf\<lparr>rand_type := type, rand_sep := separation, rand_deg := degree,
                      end_ptr := degree, rstate := arg_state\<rparr>
        in seq (srandom_r seed m buf) (\<lambda>r.
           let (m, buf) = (case r of None \<Rightarrow> (m, buf) | Some p \<Rightarrow> p);
               w = (if type \<noteq> TYPE_0 then rptr buf * MAX_TYPES + type else TYPE_0)
           in seq (arr_set (m arg_state) 0 (word_of_nat w)) (\<lambda>b. Inr (Some (m(arg_state := b), buf))))
      else Inr None)"

text \<open>\<open>setstate_r\<close>: \<open>-1\<close> for a type word that is not valid (C's \<open>%\<close> keeps the sign).\<close>

definition setstate_r :: "nat \<Rightarrow> rbufs \<Rightarrow> random_data \<Rightarrow> (rbufs \<times> random_data) option res" where
  "setstate_r arg_state m buf =
     (let old = rstate buf;
          w = (if rand_type buf = TYPE_0 then TYPE_0 else MAX_TYPES * rptr buf + rand_type buf)
      in seq (arr_set (m old) 0 (word_of_nat w)) (\<lambda>b.
         let m = m(old := b) in
         seq (arr_get (m arg_state) 0) (\<lambda>tw.
         let type = sint tw smod int MAX_TYPES in
         if type < 0 \<or> 4 < type then Inr None
         else let type = nat type; degree = degrees ! type; sep = seps ! type;
                  buf = buf\<lparr>rand_deg := degree, rand_sep := sep, rand_type := type\<rparr>;
                  rear = nat (sint tw sdiv int MAX_TYPES);
                  buf = (if type \<noteq> TYPE_0
                         then buf\<lparr>rptr := rear, fptr := (rear + sep) mod degree\<rparr> else buf)
              in Inr (Some (m, buf\<lparr>rstate := arg_state, end_ptr := degree\<rparr>)))))"

section \<open>The wrapper of \<open>pi-random.c\<close>\<close>

record pi_rng =
  pr_bufs :: rbufs
  pr_r :: random_data
  initialized_p :: bool

definition STATESIZE :: nat where "STATESIZE = 128"

definition random_data_zero :: random_data where
  "random_data_zero = \<lparr>fptr = 0, rptr = 0, rstate = 0, rand_type = 0, rand_deg = 0, rand_sep = 0, end_ptr = 0\<rparr>"

text \<open>The program starts with everything zero; buffer 1 is \<open>statebuf\<close>, 128 bytes.\<close>

definition pi_rng_boot :: pi_rng where
  "pi_rng_boot = \<lparr>pr_bufs = (\<lambda>b. if b = 1 then replicate 32 0 else []), pr_r = random_data_zero,
     initialized_p = False\<rparr>"

definition pi_random_seed :: "u32 \<Rightarrow> pi_rng \<Rightarrow> pi_rng res" where
  "pi_random_seed x g =
     seq (initstate_r x 1 STATESIZE (pr_bufs g) random_data_zero) (\<lambda>p.
     case p of None \<Rightarrow> Inl Assert_fail
     | Some (m, buf) \<Rightarrow>
         seq (srandom_r x m buf) (\<lambda>p.
         case p of None \<Rightarrow> Inl Assert_fail
         | Some (m, buf) \<Rightarrow> Inr (g\<lparr>pr_bufs := m, pr_r := buf, initialized_p := True\<rparr>)))"

text \<open>\<open>pi_random\<close> with \<open>initialized_p\<close> set, and \<open>pi_random\<close> itself.\<close>

definition pi_random_next :: "pi_rng \<Rightarrow> (u32 \<times> pi_rng) res" where
  "pi_random_next g =
     seq (random_r (pr_bufs g) (pr_r g)) (\<lambda>(x, m, buf). Inr (x, g\<lparr>pr_bufs := m, pr_r := buf\<rparr>))"

definition pi_random_init :: "pi_rng \<Rightarrow> (u32 \<times> pi_rng) res" where
  "pi_random_init g =
     seq (require (\<not> initialized_p g) Assert_fail) (\<lambda>_.
     seq (pi_random_seed 0 g) (\<lambda>g.
     seq (pi_random_next g) (\<lambda>(u, g).
     seq (require (u = 0x6b8b4567) Assert_fail) (\<lambda>_. Inr (u, g)))))"

definition pi_random :: "pi_rng \<Rightarrow> (u32 \<times> pi_rng) res" where
  "pi_random g =
     (if \<not> initialized_p g
      then seq (pi_random_init g) (\<lambda>(_, g). pi_random_next (g\<lparr>initialized_p := True\<rparr>))
      else pi_random_next g)"


section \<open>The seeding recurrence\<close>

lemma sdiv_smod_bounds:
  fixes w :: int
  assumes "- (2 ^ 31) \<le> w" "w < 2 ^ 31"
  shows "w = 127773 * (w sdiv 127773) + w smod 127773" "\<bar>w smod 127773\<bar> < 127773"
    "\<bar>w sdiv 127773\<bar> \<le> 16807"
proof -
  have "\<bar>w\<bar> \<le> 2147483648" using assms by simp
  then have "\<bar>w\<bar> div 127773 \<le> 2147483648 div 127773" by (rule zdiv_mono1) simp
  then have "\<bar>w\<bar> div 127773 \<le> 16807" by simp
  moreover have "w sdiv 127773 = sgn w * (\<bar>w\<bar> div 127773)" by (simp add: signed_divide_int_def)
  ultimately show "\<bar>w sdiv 127773\<bar> \<le> 16807" by (auto simp: abs_mult sgn_if)
  show "w = 127773 * (w sdiv 127773) + w smod 127773"
    by (metis mult.commute sdiv_mult_smod_eq)
  have "w smod 127773 = sgn w * (\<bar>w\<bar> mod 127773)"
    by (auto simp: signed_modulo_int_def signed_divide_int_def sgn_if minus_div_mult_eq_mod [symmetric])
  moreover have "\<bar>w\<bar> mod 127773 < 127773" "0 \<le> \<bar>w\<bar> mod 127773" by simp_all
  ultimately show "\<bar>w smod 127773\<bar> < 127773" by (auto simp: abs_mult sgn_if)
qed

text \<open>The seeding step computes \<open>16807 * w mod (2 ^ 31 - 1)\<close> for every seed in range, as its comment
  claims, and no intermediate value of the computation leaves the range of \<open>int32_t\<close>.\<close>

theorem schrage_correct:
  assumes "0 < w" "w < 2147483647"
  shows "schrage w = (16807 * w) mod 2147483647 \<and>
    (let hi = w sdiv 127773; lo = w smod 127773 in
      \<forall>x \<in> {16807 * lo, 2836 * hi, 16807 * lo - 2836 * hi}. - (2 ^ 31) \<le> x \<and> x < 2 ^ 31)"
proof -
  define hi lo where hl: "hi = w sdiv 127773" "lo = w smod 127773"
  have w: "w = 127773 * hi + lo" and lo: "\<bar>lo\<bar> < 127773" and hi: "\<bar>hi\<bar> \<le> 16807"
    using sdiv_smod_bounds [of w] assms by (simp_all add: hl)
  have pos: "0 \<le> hi" "0 \<le> lo" using assms by (simp_all add: hl signed_divide_int_def signed_modulo_int_def
      minus_div_mult_eq_mod)
  have small: "hi \<le> 16807" using hi by linarith
  have eq: "16807 * w = (16807 * lo - 2836 * hi) + 2147483647 * hi" using w by simp
  have "(16807 * w) mod 2147483647 = (16807 * lo - 2836 * hi) mod 2147483647"
    unfolding eq by (rule mod_mult_self2)
  also have "\<dots> = (if 16807 * lo - 2836 * hi < 0 then 16807 * lo - 2836 * hi + 2147483647 else 16807 * lo - 2836 * hi)"
  proof (cases "16807 * lo - 2836 * hi < 0")
    case True
    have "(16807 * lo - 2836 * hi) mod 2147483647 = (16807 * lo - 2836 * hi + 2147483647) mod 2147483647"
      by (rule mod_add_self2 [symmetric])
    also have "\<dots> = 16807 * lo - 2836 * hi + 2147483647"
      using True small pos by (intro mod_pos_pos_trivial) linarith+
    finally show ?thesis using True by simp
  next
    case False
    have "(16807 * lo - 2836 * hi) mod 2147483647 = 16807 * lo - 2836 * hi"
      using False lo pos by (intro mod_pos_pos_trivial) linarith+
    then show ?thesis using False by simp
  qed
  also have "\<dots> = schrage w" by (simp add: schrage_def Let_def hl)
  finally have "schrage w = (16807 * w) mod 2147483647" by simp
  moreover have "\<forall>x \<in> {16807 * lo, 2836 * hi, 16807 * lo - 2836 * hi}. - (2 ^ 31) \<le> x \<and> x < 2 ^ 31"
    using lo hi pos small by (simp add: abs_if split: if_splits)
  ultimately show ?thesis by (simp add: Let_def hl)
qed

theorem schrage_correct_witness: "schrage 123456789 = 469049721 \<and> (16807 * 123456789) mod 2147483647 = (469049721 :: int)"
  using schrage_correct [of 123456789] by simp

section \<open>The generator's invariant\<close>

definition gen_inv :: "rbufs \<Rightarrow> random_data \<Rightarrow> bool" where
  "gen_inv m buf \<longleftrightarrow> rand_type buf \<le> 4 \<and> rand_deg buf = degrees ! rand_type buf \<and>
     rand_sep buf = seps ! rand_type buf \<and> end_ptr buf = rand_deg buf \<and>
     2 \<le> length (m (rstate buf)) \<and> Suc (rand_deg buf) \<le> length (m (rstate buf)) \<and>
     (rand_type buf \<noteq> 0 \<longrightarrow> rptr buf < rand_deg buf \<and> fptr buf = (rptr buf + rand_sep buf) mod rand_deg buf)"

lemma type_cases: "t \<le> 4 \<Longrightarrow> t = 0 \<or> t = 1 \<or> t = 2 \<or> t = 3 \<or> t = (4 :: nat)"
  by linarith

lemma deg_sep: "t \<le> 4 \<Longrightarrow> t \<noteq> 0 \<Longrightarrow> 0 < seps ! t \<and> seps ! t < degrees ! t"
  using type_cases [of t] by (auto simp: seps_def degrees_def)

lemma advance:
  fixes f r s n :: nat
  assumes "r < n" "f = (r + s) mod n" "0 < s" "s < n"
  shows "let (f', r') = (if n \<le> f + 1 then (0, r + 1) else (f + 1, if n \<le> r + 1 then 0 else r + 1))
    in r' < n \<and> f' = (r' + s) mod n"
proof -
  have f: "f = (if r + s < n then r + s else r + s - n)" using assms by (auto simp: mod_if)
  show ?thesis using assms(1,3,4) by (auto simp: f mod_if Let_def)
qed

lemma signed_shift_31: "unat (signed_drop_bit (Suc 0) v AND 0x7fffffff :: u32) < 2 ^ 31"
proof -
  have "signed_drop_bit (Suc 0) v AND 0x7fffffff \<le> (0x7fffffff :: u32)" by (rule word_and_le1)
  then show ?thesis by (simp add: word_le_nat_alt)
qed

lemma and_7fffffff: "unat (v AND 0x7fffffff :: u32) < 2 ^ 31"
proof -
  have "v AND 0x7fffffff \<le> (0x7fffffff :: u32)" by (rule word_and_le1)
  then show ?thesis by (simp add: word_le_nat_alt)
qed

lemma gen_inv_upd: "gen_inv m buf \<Longrightarrow> gen_inv (m(rstate buf := (m (rstate buf))[i := w])) buf"
  unfolding gen_inv_def fun_upd_same length_list_update by assumption

lemma random_r_step:
  assumes "gen_inv m buf"
  shows "\<exists>v m' buf'. random_r m buf = Inr (v, m', buf') \<and> gen_inv m' buf' \<and> unat v < 2 ^ 31 \<and>
    (\<forall>b. length (m' b) = length (m b)) \<and> (\<forall>b. b \<noteq> rstate buf \<longrightarrow> m' b = m b) \<and>
    m' (rstate buf) ! 0 = m (rstate buf) ! 0 \<and>
    rstate buf' = rstate buf \<and> rand_type buf' = rand_type buf"
proof (cases "rand_type buf = 0")
  case True
  with assms show ?thesis
    using and_7fffffff by (auto simp: random_r_def TYPE_0_def gen_inv_def st_get_def st_set_def Let_def)
next
  case False
  let ?r = "rptr buf" and ?n = "rand_deg buf" and ?L = "m (rstate buf)" and ?f = "fptr buf"
  have g: "rand_type buf \<le> 4" "?n = degrees ! rand_type buf" "rand_sep buf = seps ! rand_type buf"
    "end_ptr buf = ?n" "2 \<le> length ?L" "Suc ?n \<le> length ?L" "?r < ?n" "?f = (?r + rand_sep buf) mod ?n"
    using assms False unfolding gen_inv_def by blast+
  obtain f' r' where a: "(if ?n \<le> ?f + 1 then (0, ?r + 1) else (?f + 1, if ?n \<le> ?r + 1 then 0 else ?r + 1)) = (f', r')"
    by fastforce
  have adv: "r' < ?n" "f' = (r' + rand_sep buf) mod ?n"
    using advance [OF g(7,8)] deg_sep [OF g(1) False] a g(2,3) by (simp_all add: Let_def)
  have "?f < ?n" using g(7,8) by simp
  then have ix: "Suc ?f < length ?L" "Suc ?r < length ?L" using g(6,7) by linarith+
  define v where "v = ?L ! Suc ?f + ?L ! Suc ?r"
  have "random_r m buf = Inr (signed_drop_bit 1 v AND 0x7fffffff, m(rstate buf := ?L[Suc ?f := v]),
      buf\<lparr>fptr := f', rptr := r'\<rparr>)"
    using False ix a g(4)
    by (auto simp: random_r_def TYPE_0_def st_get_def st_set_def Let_def v_def split: if_splits)
  moreover have "gen_inv (m(rstate buf := ?L[Suc ?f := v])) (buf\<lparr>fptr := f', rptr := r'\<rparr>)"
    using g(1-6) adv by (simp add: gen_inv_def)
  ultimately show ?thesis using signed_shift_31 [of v] by auto
qed

section \<open>Seeding\<close>

lemma seed_loop_total:
  assumes "i + n < length (m (rstate buf))"
  shows "\<exists>m'. seed_loop n i w m buf = Inr m' \<and> (\<forall>b. length (m' b) = length (m b)) \<and>
    (\<forall>b. b \<noteq> rstate buf \<longrightarrow> m' b = m b)"
  using assms
proof (induction n arbitrary: i w m)
  case 0
  then show ?case by simp
next
  case (Suc n)
  then have b: "Suc i < length (m (rstate buf))" by simp
  let ?m = "m(rstate buf := (m (rstate buf))[Suc i := word_of_int (schrage w)])"
  from Suc.prems have "Suc i + n < length (?m (rstate buf))" by simp
  then obtain m' where "seed_loop n (Suc i) (schrage w) ?m buf = Inr m'"
    "\<forall>b. length (m' b) = length (?m b)" "\<forall>b. b \<noteq> rstate buf \<longrightarrow> m' b = ?m b"
    using Suc.IH [where m = ?m] by blast
  with b show ?case by (simp add: st_set_def Let_def)
qed

lemma discard_loop_total:
  assumes "gen_inv m buf"
  shows "\<exists>m' buf'. discard_loop n m buf = Inr (m', buf') \<and> gen_inv m' buf' \<and>
    (\<forall>b. length (m' b) = length (m b)) \<and> (\<forall>b. b \<noteq> rstate buf \<longrightarrow> m' b = m b) \<and>
    rstate buf' = rstate buf \<and> rand_type buf' = rand_type buf"
  using assms
proof (induction n arbitrary: m buf)
  case 0
  then show ?case by simp
next
  case (Suc n)
  obtain v m1 b1 where r: "random_r m buf = Inr (v, m1, b1)" and i: "gen_inv m1 b1"
    and l: "\<forall>b. length (m1 b) = length (m b)" "\<forall>b. b \<noteq> rstate buf \<longrightarrow> m1 b = m b"
    and t: "rstate b1 = rstate buf" "rand_type b1 = rand_type buf"
    using random_r_step [OF Suc.prems] by blast
  from Suc.IH [OF i] obtain m2 b2 where "discard_loop n m1 b1 = Inr (m2, b2)" "gen_inv m2 b2"
    "\<forall>b. length (m2 b) = length (m1 b)" "\<forall>b. b \<noteq> rstate b1 \<longrightarrow> m2 b = m1 b"
    "rstate b2 = rstate b1" "rand_type b2 = rand_type b1" by blast
  with r l t show ?case by simp
qed

text \<open>A record whose type, degree and separation agree and whose buffer is large enough can be seeded.\<close>

definition seedable :: "rbufs \<Rightarrow> random_data \<Rightarrow> bool" where
  "seedable m buf \<longleftrightarrow> rand_type buf \<le> 4 \<and> rand_deg buf = degrees ! rand_type buf \<and>
     rand_sep buf = seps ! rand_type buf \<and> end_ptr buf = rand_deg buf \<and>
     2 \<le> length (m (rstate buf)) \<and> Suc (rand_deg buf) \<le> length (m (rstate buf))"

lemma srandom_r_total:
  assumes s: "seedable m buf"
  shows "\<exists>m' buf'. srandom_r seed m buf = Inr (Some (m', buf')) \<and> gen_inv m' buf' \<and>
    (\<forall>b. length (m' b) = length (m b)) \<and> (\<forall>b. b \<noteq> rstate buf \<longrightarrow> m' b = m b) \<and>
    rstate buf' = rstate buf \<and> rand_type buf' = rand_type buf"
proof -
  define sd where "sd = (if seed = 0 then 1 else seed)"
  let ?m = "m(rstate buf := (m (rstate buf))[Suc 0 := sd])"
  have len: "Suc 0 < length (m (rstate buf))" using s by (simp add: seedable_def)
  show ?thesis
  proof (cases "rand_type buf = 0")
    case True
    with s len show ?thesis
      by (simp add: srandom_r_def MAX_TYPES_def TYPE_0_def Let_def st_set_def gen_inv_def seedable_def sd_def)
  next
    case False
    have dg: "0 < rand_sep buf" "rand_sep buf < rand_deg buf"
      using deg_sep [of "rand_type buf"] False s by (simp_all add: seedable_def)
    have "1 + (rand_deg buf - 1) < length (?m (rstate buf))" using s dg by (simp add: seedable_def)
    then obtain m1 where
      m1: "seed_loop (rand_deg buf - 1) 1 (sint sd) ?m buf = Inr m1" "\<forall>b. length (m1 b) = length (?m b)"
      "\<forall>b. b \<noteq> rstate buf \<longrightarrow> m1 b = ?m b" using seed_loop_total [where m = ?m and i = 1] by blast
    let ?b = "buf\<lparr>fptr := rand_sep buf, rptr := 0\<rparr>"
    have "gen_inv m1 ?b" using s dg m1(2) by (simp add: gen_inv_def seedable_def)
    from discard_loop_total [OF this, of "rand_deg buf * 10"] m1 False s len show ?thesis
      by (fastforce simp: srandom_r_def MAX_TYPES_def TYPE_0_def Let_def st_set_def seedable_def sd_def)
  qed
qed

lemma state_size:
  assumes "8 \<le> n"
  defines "type \<equiv> (if BREAK_3 \<le> n then (if n < BREAK_4 then 3 else 4)
                    else if n < BREAK_1 then TYPE_0 else if n < BREAK_2 then 1 else 2)"
  shows "type \<le> 4" "2 \<le> n div 4" "Suc (degrees ! type) \<le> n div 4"
  using assms div_le_mono [of 8 n 4] div_le_mono [of 32 n 4] div_le_mono [of 64 n 4] div_le_mono [of 128 n 4]
    div_le_mono [of 256 n 4]
  by (auto simp: BREAK_1_def BREAK_2_def BREAK_3_def BREAK_4_def TYPE_0_def degrees_def)

text \<open>\<open>initstate_r\<close> with a buffer of \<open>n >= 8\<close> bytes picks a generator that fits into it: seeding
  reads and writes only inside the buffer, leaves every other buffer alone and sets up the generator's
  invariant; with fewer than 8 bytes it refuses.\<close>

theorem initstate_r_in_bounds:
  assumes "n div 4 \<le> length (m a)"
  shows "(8 \<le> n \<longrightarrow> (\<exists>m' buf'. initstate_r seed a n m buf = Inr (Some (m', buf')) \<and> gen_inv m' buf' \<and>
      rstate buf' = a \<and> (\<forall>b. length (m' b) = length (m b)) \<and> (\<forall>b. b \<noteq> a \<longrightarrow> m' b = m b))) \<and>
    (n < 8 \<longrightarrow> initstate_r seed a n m buf = Inr None)"
proof (intro conjI impI)
  assume n: "8 \<le> n"
  define type where "type = (if BREAK_3 \<le> n then (if n < BREAK_4 then 3 else 4)
                    else if n < BREAK_1 then TYPE_0 else if n < BREAK_2 then 1 else 2)"
  define buf1 where "buf1 = buf\<lparr>rand_type := type, rand_sep := seps ! type, rand_deg := degrees ! type,
                      end_ptr := degrees ! type, rstate := a\<rparr>"
  have sz: "type \<le> 4" "2 \<le> n div 4" "Suc (degrees ! type) \<le> n div 4"
    using state_size [OF n] by (simp_all add: type_def)
  then have "seedable m buf1" using assms by (simp add: seedable_def buf1_def)
  from srandom_r_total [OF this, of seed] obtain m1 b1 where
    s: "srandom_r seed m buf1 = Inr (Some (m1, b1))" "gen_inv m1 b1" "\<forall>b. length (m1 b) = length (m b)"
      "\<forall>b. b \<noteq> a \<longrightarrow> m1 b = m b" "rstate b1 = a" by (auto simp: buf1_def)
  have "0 < length (m1 a)" using s(3) assms n by auto
  moreover have "gen_inv (m1(a := (m1 a)[0 := w])) b1" for w using gen_inv_upd [OF s(2)] s(5) by simp
  ultimately show "\<exists>m' buf'. initstate_r seed a n m buf = Inr (Some (m', buf')) \<and> gen_inv m' buf' \<and>
      rstate buf' = a \<and> (\<forall>b. length (m' b) = length (m b)) \<and> (\<forall>b. b \<noteq> a \<longrightarrow> m' b = m b)"
    using s n by (simp add: initstate_r_def BREAK_0_def Let_def type_def [symmetric] buf1_def [symmetric])
next
  assume "n < 8"
  then show "initstate_r seed a n m buf = Inr None"
    by (simp add: initstate_r_def BREAK_0_def BREAK_3_def)
qed

theorem initstate_r_in_bounds_witness:
  "(\<exists>p. initstate_r 7 1 128 (pr_bufs pi_rng_boot) random_data_zero = Inr (Some p)) \<and>
   initstate_r 7 1 7 (pr_bufs pi_rng_boot) random_data_zero = Inr None"
  using initstate_r_in_bounds [of 128 "pr_bufs pi_rng_boot" 1 7 random_data_zero]
    initstate_r_in_bounds [of 7 "pr_bufs pi_rng_boot" 1 7 random_data_zero]
  by (auto simp: pi_rng_boot_def)

end
