(* ===== verification/Mmio.thy ===== *)
theory Mmio
  imports Prelude
begin

unbundle bit_operations_syntax

text \<open>
  Device access. The drivers reach the hardware only through \<open>GET32\<close>, \<open>PUT32\<close>, \<open>dev_barrier\<close> and
  \<open>DEV_VAL32\<close> of \<open>rpi.h\<close>; a \<open>bus\<close> is one implementation of the four on a device state \<open>'d\<close>. The
  drivers are functions of the bus, so that they run on the simulated Pi of \<open>FakePi\<close>, on the
  scripted device below (which replays a list of read values and logs every access), and on any
  device that keeps the laws of the locale \<open>reg_bus\<close>.
\<close>

section \<open>Programs on a device state\<close>

type_synonym ('d, 'a) io = "'d \<Rightarrow> ('a \<times> 'd) res"

definition ret :: "'a \<Rightarrow> ('d, 'a) io" where
  "ret x d = Inr (x, d)"

definition bnd :: "('d, 'a) io \<Rightarrow> ('a \<Rightarrow> ('d, 'b) io) \<Rightarrow> ('d, 'b) io" where
  "bnd m f d = seq (m d) (\<lambda>(x, d). f x d)"

definition thn :: "('d, 'a) io \<Rightarrow> ('d, 'b) io \<Rightarrow> ('d, 'b) io" where
  "thn m m' = bnd m (\<lambda>_. m')"

definition fails :: "err \<Rightarrow> ('d, 'a) io" where
  "fails e d = Inl e"

definition check :: "bool \<Rightarrow> err \<Rightarrow> ('d, unit) io" where
  "check b e = (if b then ret () else fails e)"

text \<open>\<open>while(!c());\<close> with a bound on the number of rounds: \<open>Stuck\<close> when it is used up.\<close>

fun poll :: "nat \<Rightarrow> ('d, bool) io \<Rightarrow> ('d, unit) io" where
  "poll 0 c = fails Stuck"
| "poll (Suc n) c = bnd c (\<lambda>b. if b then ret () else poll n c)"

fun run_all :: "('d, unit) io list \<Rightarrow> ('d, unit) io" where
  "run_all [] = ret ()"
| "run_all (m # ms) = thn m (run_all ms)"

lemma io_simps [simp]:
  "ret x d = Inr (x, d)" "fails e d = Inl e" "check True e = ret ()" "check False e = fails e"
  by (simp_all add: ret_def fails_def check_def)

lemma bnd_Inr [simp]: "m d = Inr (x, d') \<Longrightarrow> bnd m f d = f x d'"
  by (simp add: bnd_def)

lemma bnd_Inl [simp]: "m d = Inl e \<Longrightarrow> bnd m f d = Inl e"
  by (simp add: bnd_def)

lemma thn_Inr [simp]: "m d = Inr (x, d') \<Longrightarrow> thn m m' d = m' d'"
  by (simp add: thn_def)

lemma thn_Inl [simp]: "m d = Inl e \<Longrightarrow> thn m m' d = Inl e"
  by (simp add: thn_def)

lemma bnd_eq_Inr: "bnd m f d = Inr (y, d'') \<longleftrightarrow> (\<exists>x d'. m d = Inr (x, d') \<and> f x d' = Inr (y, d''))"
  by (auto simp: bnd_def seq_eq_Inr)

lemma thn_eq_Inr: "thn m m' d = Inr (y, d'') \<longleftrightarrow> (\<exists>x d'. m d = Inr (x, d') \<and> m' d' = Inr (y, d''))"
  by (simp add: thn_def bnd_eq_Inr)

lemma bnd_assoc: "bnd (bnd m f) g = bnd m (\<lambda>x. bnd (f x) g)"
  by (rule ext) (auto simp: bnd_def seq_def split: sum.splits)

lemma run_all_append: "run_all (ms @ ns) = thn (run_all ms) (run_all ns)"
  by (induction ms) (auto simp: fun_eq_iff thn_def bnd_def seq_def split: sum.splits)

section \<open>The bus\<close>

record 'd bus =
  GET32 :: "u32 \<Rightarrow> ('d, u32) io"
  PUT32 :: "u32 \<Rightarrow> u32 \<Rightarrow> ('d, unit) io"
  dev_barrier :: "('d, unit) io"
  DEV_VAL32 :: "u32 \<Rightarrow> ('d, u32) io"

subsection \<open>A scripted device\<close>

datatype access = Rd u32 u32 | Wr u32 u32 | Bar | Val u32

record script =
  replies :: "u32 list"
  log :: "access list"

definition script_bus :: "script bus" where
  "script_bus = \<lparr>
     GET32 = (\<lambda>a d. case replies d of [] \<Rightarrow> Inl Stuck
                    | v # vs \<Rightarrow> Inr (v, d\<lparr>replies := vs, log := log d @ [Rd a v]\<rparr>)),
     PUT32 = (\<lambda>a v d. Inr ((), d\<lparr>log := log d @ [Wr a v]\<rparr>)),
     dev_barrier = (\<lambda>d. Inr ((), d\<lparr>log := log d @ [Bar]\<rparr>)),
     DEV_VAL32 = (\<lambda>v d. Inr (v, d\<lparr>log := log d @ [Val v]\<rparr>))\<rparr>"

lemma script_bus_simps [simp]:
  "GET32 script_bus a \<lparr>replies = v # vs, log = l\<rparr> = Inr (v, \<lparr>replies = vs, log = l @ [Rd a v]\<rparr>)"
  "GET32 script_bus a \<lparr>replies = [], log = l\<rparr> = Inl Stuck"
  "PUT32 script_bus a w \<lparr>replies = vs, log = l\<rparr> = Inr ((), \<lparr>replies = vs, log = l @ [Wr a w]\<rparr>)"
  "dev_barrier script_bus \<lparr>replies = vs, log = l\<rparr> = Inr ((), \<lparr>replies = vs, log = l @ [Bar]\<rparr>)"
  "DEV_VAL32 script_bus w \<lparr>replies = vs, log = l\<rparr> = Inr (w, \<lparr>replies = vs, log = l @ [Val w]\<rparr>)"
  by (simp_all add: script_bus_def)

subsection \<open>Registers that hold what was written\<close>

text \<open>
  \<open>reg_bus\<close>: the registers in \<open>rw\<close> read back the last value written. \<open>ready n d\<close> says that the
  device accepts at least \<open>n\<close> more accesses (a simulator may stop after a number of them).
\<close>

locale reg_bus =
  fixes B :: "'d bus" and reg :: "'d \<Rightarrow> u32 \<Rightarrow> u32" and ready :: "nat \<Rightarrow> 'd \<Rightarrow> bool" and rw :: "u32 set"
  assumes get_rw: "a \<in> rw \<Longrightarrow> ready (Suc n) d \<Longrightarrow>
      \<exists>d'. GET32 B a d = Inr (reg d a, d') \<and> reg d' = reg d \<and> ready n d'"
    and put_rw: "a \<in> rw \<Longrightarrow> ready (Suc n) d \<Longrightarrow>
      \<exists>d'. PUT32 B a v d = Inr ((), d') \<and> reg d' = (reg d)(a := v) \<and> ready n d'"
begin

lemma update:
  assumes "a \<in> rw" "ready (Suc (Suc n)) d"
  shows "\<exists>d'. bnd (GET32 B a) (\<lambda>v. PUT32 B a (f v)) d = Inr ((), d') \<and>
    reg d' = (reg d)(a := f (reg d a)) \<and> ready n d'"
proof -
  obtain d1 where 1: "GET32 B a d = Inr (reg d a, d1)" "reg d1 = reg d" "ready (Suc n) d1"
    using get_rw [OF assms] by blast
  obtain d2 where 2: "PUT32 B a (f (reg d a)) d1 = Inr ((), d2)" "reg d2 = (reg d1)(a := f (reg d a))" "ready n d2"
    using put_rw [OF assms(1) 1(3)] by blast
  from 1 2 show ?thesis by auto
qed

end

end
