(* ===== verification/Gpio.thy ===== *)
theory Gpio
  imports Mmio BitSupport
begin

unbundle bit_operations_syntax

text \<open>
  The pin driver \<open>libpi/src/gpio.c\<close> and its interrupt side \<open>libpi/src/gpio-int.c\<close>, as functions of
  the bus. Pins are \<open>u32\<close>; \<open>gpio_read\<close> returns an \<open>int\<close> in C, here the \<open>u32\<close> of the same bits.
\<close>

section \<open>The code\<close>

definition GPIO_TX :: u32 where "GPIO_TX = 14"
definition GPIO_RX :: u32 where "GPIO_RX = 15"
definition GPIO_FUNC_INPUT :: u32 where "GPIO_FUNC_INPUT = 0"
definition GPIO_FUNC_OUTPUT :: u32 where "GPIO_FUNC_OUTPUT = 1"
definition GPIO_FUNC_ALT5 :: u32 where "GPIO_FUNC_ALT5 = 2"

definition GPIO_BASE :: u32 where "GPIO_BASE = 0x20200000"
definition gpio_set0 :: u32 where "gpio_set0 = GPIO_BASE + 0x1C"
definition gpio_set1 :: u32 where "gpio_set1 = GPIO_BASE + 0x20"
definition gpio_clr0 :: u32 where "gpio_clr0 = GPIO_BASE + 0x28"
definition gpio_clr1 :: u32 where "gpio_clr1 = GPIO_BASE + 0x2C"
definition gpio_lev0 :: u32 where "gpio_lev0 = GPIO_BASE + 0x34"

definition gpio_set_function :: "'d bus \<Rightarrow> u32 \<Rightarrow> u32 \<Rightarrow> ('d, unit) io" where
  "gpio_set_function B pin function =
     (if 32 \<le> pin \<and> pin \<noteq> 47 then ret ()
      else if 8 \<le> function then ret ()
      else let reg_n = pin div 10; sel_n = pin mod 10;
               addr = GPIO_BASE + 4 * reg_n;
               mask = shl 0x7 (sel_n * 3); shift = 3 * sel_n
           in bnd (GET32 B addr) (\<lambda>val.
              PUT32 B addr ((val AND NOT mask) OR shl function shift)))"

definition gpio_set_output :: "'d bus \<Rightarrow> u32 \<Rightarrow> ('d, unit) io" where
  "gpio_set_output B pin = gpio_set_function B pin GPIO_FUNC_OUTPUT"

definition gpio_set_input :: "'d bus \<Rightarrow> u32 \<Rightarrow> ('d, unit) io" where
  "gpio_set_input B pin = gpio_set_function B pin GPIO_FUNC_INPUT"

definition gpio_set_on :: "'d bus \<Rightarrow> u32 \<Rightarrow> ('d, unit) io" where
  "gpio_set_on B pin =
     (if 32 \<le> pin \<and> pin \<noteq> 47 then ret ()
      else if pin \<le> 31 then PUT32 B gpio_set0 (shl 1 pin)
      else if pin \<le> 53 then PUT32 B gpio_set1 (shl 1 (pin - 32))
      else ret ())"

definition gpio_set_off :: "'d bus \<Rightarrow> u32 \<Rightarrow> ('d, unit) io" where
  "gpio_set_off B pin =
     (if 32 \<le> pin \<and> pin \<noteq> 47 then ret ()
      else if pin \<le> 31 then PUT32 B gpio_clr0 (shl 1 pin)
      else if pin \<le> 53 then PUT32 B gpio_clr1 (shl 1 (pin - 32))
      else ret ())"

definition gpio_write :: "'d bus \<Rightarrow> u32 \<Rightarrow> u32 \<Rightarrow> ('d, unit) io" where
  "gpio_write B pin v = (if v \<noteq> 0 then gpio_set_on B pin else gpio_set_off B pin)"

text \<open>The shift of \<open>gpio_read\<close> is by \<open>pin\<close>, which is 47 for the one pin above 31 that it accepts.\<close>

definition gpio_read :: "'d bus \<Rightarrow> u32 \<Rightarrow> ('d, u32) io" where
  "gpio_read B pin =
     (if 32 \<le> pin \<and> pin \<noteq> 47 then ret (- 1)
      else bnd (GET32 B gpio_lev0) (\<lambda>val.
           thn (check (pin < 32) Undefined) (DEV_VAL32 B (shr val pin AND 1))))"

subsection \<open>Interrupts\<close>

definition irq_pending2 :: u32 where "irq_pending2 = 0x2000B000 + 0x208"
definition enable_irqs2 :: u32 where "enable_irqs2 = 0x2000B000 + 0x214"
definition GPEDS0 :: u32 where "GPEDS0 = GPIO_BASE + 0x40"
definition GPREN0 :: u32 where "GPREN0 = GPIO_BASE + 0x4C"
definition GPFEN0 :: u32 where "GPFEN0 = GPIO_BASE + 0x58"

definition gpio_has_interrupt :: "'d bus \<Rightarrow> ('d, u32) io" where
  "gpio_has_interrupt B =
     bnd (GET32 B irq_pending2) (\<lambda>val. DEV_VAL32 B (shr val 17 AND 1))"

definition gpio_int_rising_edge :: "'d bus \<Rightarrow> u32 \<Rightarrow> ('d, unit) io" where
  "gpio_int_rising_edge B pin =
     (if 32 \<le> pin then ret ()
      else thn (dev_barrier B) (bnd (GET32 B GPREN0) (\<lambda>val. run_all
        [PUT32 B GPREN0 (val OR shl 1 pin), dev_barrier B, PUT32 B enable_irqs2 (shl 1 17), dev_barrier B])))"

definition gpio_int_falling_edge :: "'d bus \<Rightarrow> u32 \<Rightarrow> ('d, unit) io" where
  "gpio_int_falling_edge B pin =
     (if 32 \<le> pin then ret ()
      else thn (dev_barrier B) (bnd (GET32 B GPFEN0) (\<lambda>val. run_all
        [PUT32 B GPFEN0 (val OR shl 1 pin), dev_barrier B, PUT32 B enable_irqs2 (shl 1 17), dev_barrier B])))"

definition gpio_event_detected :: "'d bus \<Rightarrow> u32 \<Rightarrow> ('d, u32) io" where
  "gpio_event_detected B pin =
     (if 32 \<le> pin then ret 0
      else thn (dev_barrier B) (bnd (GET32 B GPEDS0) (\<lambda>val.
           thn (dev_barrier B) (DEV_VAL32 B (shr val pin AND 1)))))"

definition gpio_event_clear :: "'d bus \<Rightarrow> u32 \<Rightarrow> ('d, unit) io" where
  "gpio_event_clear B pin =
     (if 32 \<le> pin then ret ()
      else run_all [dev_barrier B, PUT32 B GPEDS0 (shl 1 pin), dev_barrier B])"

section \<open>Pin function fields\<close>

definition pin_ok :: "u32 \<Rightarrow> bool" where
  "pin_ok pin \<longleftrightarrow> pin < 32 \<or> pin = 47"

definition fsel_reg :: "u32 \<Rightarrow> u32" where
  "fsel_reg pin = GPIO_BASE + 4 * (pin div 10)"

definition fsel_of :: "(u32 \<Rightarrow> u32) \<Rightarrow> u32 \<Rightarrow> u32" where
  "fsel_of r pin = shr (r (fsel_reg pin)) (3 * (pin mod 10)) AND 7"

definition fsel_regs :: "u32 set" where
  "fsel_regs = {GPIO_BASE, GPIO_BASE + 4, GPIO_BASE + 8, GPIO_BASE + 12, GPIO_BASE + 16}"

lemma seven_mask: "(7 :: u32) = mask 3"
  by (simp add: mask_eq_exp_minus_1)

lemma field_write_read:
  assumes "f < (8 :: u32)" "unat s + 3 \<le> 32"
  shows "shr ((v AND NOT (shl 7 s)) OR shl f s) s AND 7 = f"
proof (rule u32_eqI)
  fix i :: nat
  assume "i < 32"
  have "unat f < 2 ^ 3" using assms(1) by (simp add: word_less_nat_alt)
  from small_word_bit [OF this, of i]
  show "bit (shr ((v AND NOT (shl 7 s)) OR shl f s) s AND 7) i = bit f i"
    using assms(2) by (auto simp: bits_of seven_mask)
qed

lemma field_write_other:
  assumes "f < (8 :: u32)" "unat s + 3 \<le> 32" "unat s + 3 \<le> unat t \<or> unat t + 3 \<le> unat s"
  shows "shr ((v AND NOT (shl 7 s)) OR shl f s) t AND 7 = shr v t AND 7"
proof (rule u32_eqI)
  fix i :: nat
  assume "i < 32"
  have "unat f < 2 ^ 3" using assms(1) by (simp add: word_less_nat_alt)
  from small_word_bit [OF this, of "unat t + i - unat s"]
  show "bit (shr ((v AND NOT (shl 7 s)) OR shl f s) t AND 7) i = bit (shr v t AND 7) i"
    using assms(2,3) by (auto simp: bits_of seven_mask dest: bit_u32_bound)
qed

lemma pin_arith:
  assumes "pin < (50 :: u32)"
  shows "unat (pin div 10) = unat pin div 10" "unat (3 * (pin mod 10)) = 3 * (unat pin mod 10)"
    "unat (3 * (pin mod 10)) + 3 \<le> 32" "unat pin < 50"
proof -
  show "unat pin < 50" using assms by (simp add: word_less_nat_alt)
  show "unat (pin div 10) = unat pin div 10" by (simp add: unat_div)
  show "unat (3 * (pin mod 10)) = 3 * (unat pin mod 10)" by (simp add: unat_mod unat_word_ariths)
  then show "unat (3 * (pin mod 10)) + 3 \<le> 32" by simp
qed

lemma fsel_reg_cases:
  assumes "pin < 50"
  shows "fsel_reg pin \<in> fsel_regs"
proof -
  have "unat (pin div 10) = unat pin div 10" "unat pin < 50" using pin_arith [OF assms] by simp_all
  then have "unat (pin div 10) < 5" by simp
  then have "pin div 10 = 0 \<or> pin div 10 = 1 \<or> pin div 10 = 2 \<or> pin div 10 = 3 \<or> pin div 10 = 4"
    unfolding word_unat_eq_iff by simp linarith
  then show ?thesis by (auto simp: fsel_reg_def fsel_regs_def GPIO_BASE_def)
qed

lemma fsel_reg_inj:
  assumes "p < 50" "q < 50"
  shows "fsel_reg p = fsel_reg q \<longleftrightarrow> unat p div 10 = unat q div 10"
proof -
  have "unat (4 * (p div 10)) = 4 * (unat p div 10)" "unat (4 * (q div 10)) = 4 * (unat q div 10)"
    using pin_arith [OF assms(1)] pin_arith [OF assms(2)] by (simp_all add: unat_word_ariths)
  then have "4 * (p div 10) = 4 * (q div 10) \<longleftrightarrow> unat p div 10 = unat q div 10"
    unfolding word_unat_eq_iff by simp
  then show ?thesis by (simp only: fsel_reg_def add_left_cancel)
qed

context reg_bus begin

lemma gpio_set_function_fields:
  assumes "fsel_regs \<subseteq> rw" "pin_ok pin" "f < 8" "ready (Suc (Suc n)) d"
  shows "\<exists>d'. gpio_set_function B pin f d = Inr ((), d') \<and> ready n d' \<and>
    (\<forall>p < 50. fsel_of (reg d') p = (if p = pin then f else fsel_of (reg d) p)) \<and>
    (\<forall>a. a \<notin> fsel_regs \<longrightarrow> reg d' a = reg d a)"
proof -
  have pin: "pin < 50" using assms(2) by (auto simp: pin_ok_def word_less_nat_alt)
  let ?a = "fsel_reg pin" and ?s = "3 * (pin mod 10)"
  let ?f = "\<lambda>v. (v AND NOT (shl 7 ?s)) OR shl f ?s"
  have a: "?a \<in> rw" using assms(1) fsel_reg_cases [OF pin] by blast
  obtain d' where d': "bnd (GET32 B ?a) (\<lambda>v. PUT32 B ?a (?f v)) d = Inr ((), d')"
    "reg d' = (reg d)(?a := ?f (reg d ?a))" "ready n d'" using update [OF a assms(4), of ?f] by blast
  have "gpio_set_function B pin f d = Inr ((), d')"
    using assms(2,3) d'(1) by (auto simp: gpio_set_function_def pin_ok_def Let_def fsel_reg_def
        not_le [symmetric] mult.commute)
  moreover have "fsel_of (reg d') p = (if p = pin then f else fsel_of (reg d) p)" if p: "p < 50" for p
  proof (cases "fsel_reg p = ?a")
    case False
    then have "p \<noteq> pin" by blast
    with False d'(2) show ?thesis by (simp add: fsel_of_def)
  next
    case same: True
    show ?thesis
    proof (cases "p = pin")
      case True
      with same d'(2) field_write_read [OF assms(3) pin_arith(3) [OF pin]] show ?thesis
        by (simp add: fsel_of_def)
    next
      case False
      then have "unat p \<noteq> unat pin" by (simp add: word_unat_eq_iff)
      moreover have "unat p div 10 = unat pin div 10" using same fsel_reg_inj [OF p pin] by simp
      ultimately have "unat p mod 10 \<noteq> unat pin mod 10" by (metis div_mult_mod_eq)
      then have "unat ?s + 3 \<le> unat (3 * (p mod 10)) \<or> unat (3 * (p mod 10)) + 3 \<le> unat ?s"
        using pin_arith(2) [OF pin] pin_arith(2) [OF p] by linarith
      with same d'(2) False field_write_other [OF assms(3) pin_arith(3) [OF pin]] show ?thesis
        by (simp add: fsel_of_def)
    qed
  qed
  moreover have "reg d' x = reg d x" if "x \<notin> fsel_regs" for x
    using that d'(2) fsel_reg_cases [OF pin] by auto
  ultimately show ?thesis using d'(3) by blast
qed

end

section \<open>What the driver does to the device\<close>

text \<open>\<open>gpio_write\<close> makes exactly one access, to the set or clear register of the pin's bank, with only
  the pin's bit set; for a pin that is not accessible it makes none.\<close>

theorem gpio_write_one_access:
  "gpio_write script_bus pin v \<lparr>replies = rs, log = l\<rparr> = Inr ((), \<lparr>replies = rs, log = l @
     (if pin < 32 then [Wr (if v \<noteq> 0 then gpio_set0 else gpio_clr0) (push_bit (unat pin) 1)]
      else if pin = 47 then [Wr (if v \<noteq> 0 then gpio_set1 else gpio_clr1) (push_bit 15 1)]
      else [])\<rparr>)"
proof -
  have "pin < 32 \<longleftrightarrow> pin \<le> 31" "pin = 47 \<Longrightarrow> shl 1 (pin - 32) = push_bit 15 1"
    by (auto simp: word_less_nat_alt word_le_nat_alt shl_def)
  then show ?thesis
    by (auto simp: gpio_write_def gpio_set_on_def gpio_set_off_def shl_def not_less word_le_nat_alt)
qed

text \<open>\<open>gpio_read\<close> of pins 0 to 31 returns the pin's bit of the level register as 0 or 1. Pin 47 passes
  the guard but its level is in the second level register: the code reads the first one and shifts it
  by 47, which C does not define.\<close>

theorem gpio_read_level:
  "(pin < 32 \<longrightarrow> gpio_read script_bus pin \<lparr>replies = v # rs, log = l\<rparr> =
      (let b = of_bool (bit v (unat pin)) in Inr (b, \<lparr>replies = rs, log = l @ [Rd gpio_lev0 v, Val b]\<rparr>))) \<and>
   gpio_read script_bus 47 \<lparr>replies = v # rs, log = l\<rparr> = Inl Undefined"
  by (auto simp: gpio_read_def and_one_bit bits_of Let_def bnd_def not_less)

theorem gpio_read_level_witness:
  "gpio_read script_bus 5 \<lparr>replies = [0x20], log = []\<rparr> =
     Inr (1, \<lparr>replies = [], log = [Rd gpio_lev0 0x20, Val 1]\<rparr>)"
  using gpio_read_level [of 5 "0x20" "[]" "[]"] by (simp add: Let_def)

text \<open>Enabling edge detection on a pin keeps every other pin's setting and enables GPIO interrupt
  49, with a barrier before the first access, between the two devices and at the end.\<close>

theorem gpio_int_edge_enables:
  assumes "pin < 32"
  shows "gpio_int_rising_edge script_bus pin \<lparr>replies = v # rs, log = l\<rparr> = Inr ((), \<lparr>replies = rs, log = l @
      [Bar, Rd GPREN0 v, Wr GPREN0 (set_bit (unat pin) v), Bar, Wr enable_irqs2 (set_bit 17 0), Bar]\<rparr>) \<and>
    gpio_int_falling_edge script_bus pin \<lparr>replies = v # rs, log = l\<rparr> = Inr ((), \<lparr>replies = rs, log = l @
      [Bar, Rd GPFEN0 v, Wr GPFEN0 (set_bit (unat pin) v), Bar, Wr enable_irqs2 (set_bit 17 0), Bar]\<rparr>)"
proof -
  have "v OR shl 1 pin = set_bit (unat pin) v" by (simp add: shl_def set_bit_eq_or)
  moreover have "shl 1 17 = set_bit 17 0" by (simp add: shl_def set_bit_eq_or)
  ultimately show ?thesis using assms by (simp add: gpio_int_rising_edge_def gpio_int_falling_edge_def)
qed

theorem gpio_int_edge_enables_witness:
  "gpio_int_rising_edge script_bus 3 \<lparr>replies = [1], log = []\<rparr> = Inr ((), \<lparr>replies = [],
     log = [Bar, Rd GPREN0 1, Wr GPREN0 9, Bar, Wr enable_irqs2 (2 ^ 17), Bar]\<rparr>)"
  using gpio_int_edge_enables [of 3 1 "[]" "[]"] by (simp add: set_bit_eq_or)

lemma gpio_has_interrupt_bit:
  "gpio_has_interrupt script_bus \<lparr>replies = v # rs, log = l\<rparr> =
     (let b = of_bool (bit v 17) in Inr (b, \<lparr>replies = rs, log = l @ [Rd irq_pending2 v, Val b]\<rparr>))"
  by (simp add: gpio_has_interrupt_def and_one_bit bits_of Let_def)

text \<open>Events: \<open>gpio_event_detected\<close> reports the pin's bit of the event register, and
  \<open>gpio_event_clear\<close> writes a one to that bit only, leaving other pending events alone.\<close>

theorem gpio_event_bits:
  assumes "pin < 32"
  shows "gpio_event_detected script_bus pin \<lparr>replies = v # rs, log = l\<rparr> =
      (let b = of_bool (bit v (unat pin)) in
       Inr (b, \<lparr>replies = rs, log = l @ [Bar, Rd GPEDS0 v, Bar, Val b]\<rparr>)) \<and>
    gpio_event_clear script_bus pin \<lparr>replies = rs, log = l\<rparr> =
      Inr ((), \<lparr>replies = rs, log = l @ [Bar, Wr GPEDS0 (push_bit (unat pin) 1), Bar]\<rparr>)"
  using assms by (simp add: gpio_event_detected_def gpio_event_clear_def and_one_bit bits_of Let_def shl_def)

theorem gpio_event_bits_witness:
  "gpio_event_clear script_bus 4 \<lparr>replies = [], log = []\<rparr> =
     Inr ((), \<lparr>replies = [], log = [Bar, Wr GPEDS0 16, Bar]\<rparr>)"
  using gpio_event_bits [of 4 0 "[]" "[]"] by simp

end
