(* ===== verification/FakePi.thy ===== *)
theory FakePi
  imports Gpio PiRandom
begin

unbundle bit_operations_syntax

text \<open>
  The simulated Pi that runs driver code on a laptop and prints a trace of its device accesses, in its
  version with a UART (\<open>labs/8-uart/3-fake-pi/fake-pi.c\<close> with \<open>fake-random.c\<close> of the same directory).
  The state holds the file's static variables; \<open>outs\<close> is what was printed. \<open>exit(0)\<close> is
  \<open>Inl Exited\<close>, \<open>exit(1)\<close> of the file's own \<open>panic\<close> is \<open>Inl Panic\<close>.
\<close>

section \<open>State\<close>

datatype out =
    T_put u32 u32 | T_get u32 u32 | T_val u32 | T_barrier u32
  | T_uart_put u32 u32 u32 | T_uart_buffered u32 u32 | T_uart_off u32 u32 | T_uart_on u32 u32
  | T_delay_cycles u32 | T_delay_us u32 | T_delay_ms u32 | T_calling
  | O_init u32 u32 | O_seed u32

record dev_mem_t =
  dm_addr :: u32
  dm_v :: u32
  dm_epoch :: u32

record fake_pi =
  ntrace :: u32
  trace_on_p :: bool
  trace_ops :: u32
  gpio_fsel0_v :: u32
  gpio_fsel1_v :: u32
  gpio_fsel2_v :: u32
  gpio_fsel3_v :: u32
  gpio_fsel4_v :: u32
  gpio_set0_v :: u32
  gpio_clr0_v :: u32
  gpio_set1_v :: u32
  gpio_clr1_v :: u32
  aux_periph_v :: u32
  dev_barrier_cnt :: u32
  uart_mem :: "dev_mem_t list"
  uart_off_p :: u32
  fr_bufs :: rbufs
  fr_r :: random_data
  init_p :: bool
  nrandom_calls :: u32
  outs :: "out list"

definition max_trace :: u32 where "max_trace = 128"

definition gpio_fsel0 :: u32 where "gpio_fsel0 = GPIO_BASE + 0x00"
definition gpio_fsel1 :: u32 where "gpio_fsel1 = GPIO_BASE + 0x04"
definition gpio_fsel2 :: u32 where "gpio_fsel2 = GPIO_BASE + 0x08"
definition gpio_fsel3 :: u32 where "gpio_fsel3 = GPIO_BASE + 0x0c"
definition gpio_fsel4 :: u32 where "gpio_fsel4 = gpio_fsel3 + 4"
definition aux_periph :: u32 where "aux_periph = GPIO_BASE + 0x15004"
definition uart_start :: u32 where "uart_start = GPIO_BASE + 0x15040"
definition uart_cntrl :: u32 where "uart_cntrl = GPIO_BASE + 0x15060"
definition uart_end :: u32 where "uart_end = uart_start + 12 * 4"
definition uart_n :: nat where "uart_n = unat ((uart_end - uart_start) div 4 + 1)"

text \<open>The static initialisers.\<close>

definition fake_pi_zero :: fake_pi where
  "fake_pi_zero = \<lparr>ntrace = 0, trace_on_p = False, trace_ops = 0, gpio_fsel0_v = 0, gpio_fsel1_v = 0,
     gpio_fsel2_v = 0, gpio_fsel3_v = 0, gpio_fsel4_v = NOT 0, gpio_set0_v = 0, gpio_clr0_v = 0,
     gpio_set1_v = 0, gpio_clr1_v = 0, aux_periph_v = 0, dev_barrier_cnt = 0,
     uart_mem = replicate uart_n \<lparr>dm_addr = 0, dm_v = 0, dm_epoch = 0\<rparr>, uart_off_p = 0,
     fr_bufs = (\<lambda>b. if b = 1 then replicate 32 0 else []), fr_r = random_data_zero,
     init_p = False, nrandom_calls = 0, outs = []\<rparr>"

section \<open>Tracing and random numbers\<close>

definition out_put :: "out \<Rightarrow> (fake_pi, unit) io" where
  "out_put t s = Inr ((), s\<lparr>outs := outs s @ [t]\<rparr>)"

definition fake_pi_exit :: "(fake_pi, 'a) io" where
  "fake_pi_exit = fails Exited"

definition trace :: "out \<Rightarrow> (fake_pi, unit) io" where
  "trace t s =
     (if trace_on_p s then
        let s1 = s\<lparr>outs := outs s @ [t], trace_ops := trace_ops s + 1, ntrace := ntrace s + 1\<rparr>
        in if max_trace \<le> ntrace s then fake_pi_exit s1 else Inr ((), s1)
      else Inr ((), s))"

text \<open>The seed argument is not used: the state is seeded from the static variable \<open>seed = 0\<close>.\<close>

definition fake_random_seed :: "u32 \<Rightarrow> (fake_pi, unit) io" where
  "fake_random_seed x s =
     seq (initstate_r 0 1 STATESIZE (fr_bufs s) random_data_zero) (\<lambda>p.
     case p of None \<Rightarrow> Inl Assert_fail
     | Some (m, buf) \<Rightarrow>
         seq (srandom_r 0 m buf) (\<lambda>p.
         case p of None \<Rightarrow> Inl Assert_fail
         | Some (m, buf) \<Rightarrow> Inr ((), s\<lparr>init_p := True, fr_bufs := m, fr_r := buf\<rparr>)))"

definition fake_random :: "(fake_pi, u32) io" where
  "fake_random s =
     (if \<not> init_p s then Inl Assert_fail
      else seq (random_r (fr_bufs s) (fr_r s)) (\<lambda>(x, m, buf).
           Inr (x, s\<lparr>nrandom_calls := nrandom_calls s + 1, fr_bufs := m, fr_r := buf\<rparr>)))"

definition fake_random_init :: "(fake_pi, unit) io" where
  "fake_random_init =
     thn (fake_random_seed 0x140e) (bnd fake_random (\<lambda>u. check (0x6b8b4567 = u) Assert_fail))"

definition fake_random_calls :: "fake_pi \<Rightarrow> u32" where
  "fake_random_calls s = nrandom_calls s"

section \<open>Device memory\<close>

text \<open>A macro argument is evaluated only when tracing is on, so barriers are counted only then.\<close>

definition fake_dev_barrier :: "(fake_pi, unit) io" where
  "fake_dev_barrier s =
     (if trace_on_p s then trace (T_barrier (dev_barrier_cnt s)) (s\<lparr>dev_barrier_cnt := dev_barrier_cnt s + 1\<rparr>)
      else Inr ((), s))"

definition dev_mem_mk :: "u32 \<Rightarrow> u32 \<Rightarrow> fake_pi \<Rightarrow> dev_mem_t" where
  "dev_mem_mk a v s = \<lparr>dm_addr = a, dm_v = v, dm_epoch = dev_barrier_cnt s\<rparr>"

definition uart_addr_lookup :: "u32 \<Rightarrow> (fake_pi, nat option) io" where
  "uart_addr_lookup a s =
     (if a < uart_start \<or> uart_end < a then Inr (None, s)
      else seq (require (a mod 4 = 0) Assert_fail) (\<lambda>_.
           let index = unat ((a - uart_start) div 4) in
           seq (require (index < uart_n) Assert_fail) (\<lambda>_.
           seq (arr_get (uart_mem s) index) (\<lambda>m.
           seq (require (dm_addr m = a) Assert_fail) (\<lambda>_. Inr (Some index, s))))))"

fun uart_mem_fill :: "nat \<Rightarrow> nat \<Rightarrow> u32 \<Rightarrow> (fake_pi, unit) io" where
  "uart_mem_fill 0 i a = ret ()"
| "uart_mem_fill (Suc n) i a = bnd fake_random (\<lambda>v s.
     seq (arr_set (uart_mem s) i (dev_mem_mk a v s)) (\<lambda>ms. uart_mem_fill n (Suc i) (a + 4) (s\<lparr>uart_mem := ms\<rparr>)))"

fun uart_mem_verify :: "nat \<Rightarrow> u32 \<Rightarrow> (fake_pi, unit) io" where
  "uart_mem_verify 0 a = ret ()"
| "uart_mem_verify (Suc n) a = bnd (uart_addr_lookup a) (\<lambda>p.
     thn (check (p \<noteq> None) Assert_fail) (uart_mem_verify n (a + 4)))"

text \<open>The second loop stops before \<open>uart_end\<close>: twelve addresses.\<close>

definition uart_mem_init :: "(fake_pi, unit) io" where
  "uart_mem_init = thn (uart_mem_fill uart_n 0 uart_start) (uart_mem_verify (uart_n - 1) uart_start)"

fun uart_mem_flush :: "u32 \<Rightarrow> dev_mem_t list \<Rightarrow> (fake_pi, unit) io" where
  "uart_mem_flush earliest_dev [] = ret ()"
| "uart_mem_flush earliest_dev (p # ps) =
     thn (if earliest_dev \<le> dm_epoch p then trace (T_uart_buffered (dm_addr p) (dm_v p)) else ret ())
         (uart_mem_flush earliest_dev ps)"

definition uart_addr_get :: "u32 \<Rightarrow> (fake_pi, u32 option) io" where
  "uart_addr_get a = bnd (uart_addr_lookup a) (\<lambda>p s.
     case p of None \<Rightarrow> Inr (None, s)
     | Some i \<Rightarrow> seq (arr_get (uart_mem s) i) (\<lambda>m. Inr (Some (dm_v m), s)))"

definition uart_addr_put :: "u32 \<Rightarrow> u32 \<Rightarrow> (fake_pi, bool) io" where
  "uart_addr_put a v = bnd (uart_addr_lookup a) (\<lambda>p s.
     case p of None \<Rightarrow> Inr (False, s)
     | Some i \<Rightarrow>
       seq (arr_get (uart_mem s) i) (\<lambda>m.
       seq (arr_set (uart_mem s) i (m\<lparr>dm_v := v, dm_epoch := dev_barrier_cnt s\<rparr>)) (\<lambda>ms.
       (thn (if uart_off_p s = 0 then trace (T_uart_put a v (uart_off_p s)) else ret ())
        (if a = uart_cntrl then
           (if v AND 0b11 = 0 then (\<lambda>s.
              let s = s\<lparr>uart_off_p := dev_barrier_cnt s\<rparr> in
              thn (check (dev_barrier_cnt s \<noteq> 0) Assert_fail)
                (thn (trace (T_uart_off a v)) (ret True)) s)
            else if v AND 0b11 = 0b11 then (\<lambda>s.
              let s = s\<lparr>uart_off_p := 0\<rparr> in
              thn (uart_mem_flush (dev_barrier_cnt s) (uart_mem s))
                (thn (trace (T_uart_on a v)) (ret True)) s)
            else fails Panic)
         else ret True)) (s\<lparr>uart_mem := ms\<rparr>))))"

definition fake_PUT32 :: "u32 \<Rightarrow> u32 \<Rightarrow> (fake_pi, unit) io" where
  "fake_PUT32 a v =
     thn (\<lambda>s. if \<not> trace_on_p s then out_put (O_init a v) s else Inr ((), s))
     (bnd (uart_addr_put a v) (\<lambda>done.
      if done then ret ()
      else thn (trace (T_put a v)) (\<lambda>s.
       if a = gpio_fsel0 then Inr ((), s\<lparr>gpio_fsel0_v := v\<rparr>)
       else if a = gpio_fsel1 then Inr ((), s\<lparr>gpio_fsel1_v := v\<rparr>)
       else if a = gpio_fsel2 then Inr ((), s\<lparr>gpio_fsel2_v := v\<rparr>)
       else if a = gpio_fsel3 then Inr ((), s\<lparr>gpio_fsel3_v := v\<rparr>)
       else if a = gpio_fsel4 then Inr ((), s\<lparr>gpio_fsel4_v := v\<rparr>)
       else if a = gpio_set0 then Inr ((), s\<lparr>gpio_set0_v := v\<rparr>)
       else if a = gpio_set1 then Inr ((), s\<lparr>gpio_set1_v := v\<rparr>)
       else if a = gpio_clr0 then Inr ((), s\<lparr>gpio_clr0_v := v\<rparr>)
       else if a = gpio_clr1 then Inr ((), s\<lparr>gpio_clr1_v := v\<rparr>)
       else if a = aux_periph then Inr ((), s\<lparr>aux_periph_v := v\<rparr>)
       else Inl Panic)))"

definition fake_GET32 :: "u32 \<Rightarrow> (fake_pi, u32) io" where
  "fake_GET32 a =
     bnd (bnd (uart_addr_get a) (\<lambda>p. case p of Some v \<Rightarrow> ret v | None \<Rightarrow> (\<lambda>s.
       if a = gpio_fsel0 then Inr (gpio_fsel0_v s, s)
       else if a = gpio_fsel1 then Inr (gpio_fsel1_v s, s)
       else if a = gpio_fsel2 then Inr (gpio_fsel2_v s, s)
       else if a = gpio_fsel3 then Inr (gpio_fsel3_v s, s)
       else if a = gpio_fsel4 then Inr (gpio_fsel4_v s, s)
       else if a = gpio_lev0 then fake_random s
       else if a = aux_periph then Inr (aux_periph_v s, s)
       else Inl Panic)))
     (\<lambda>v. thn (trace (T_get a v)) (ret v))"

definition fake_DEV_VAL32 :: "u32 \<Rightarrow> (fake_pi, u32) io" where
  "fake_DEV_VAL32 x = thn (trace (T_val x)) (ret x)"

definition GET8 :: "u32 \<Rightarrow> (fake_pi, u8) io" where
  "GET8 a = thn (check (a mod 4 = 0) Assert_fail) (bnd (fake_GET32 a) (\<lambda>x. ret (ucast (x AND 0xff))))"

definition PUT8 :: "u32 \<Rightarrow> u8 \<Rightarrow> (fake_pi, unit) io" where
  "PUT8 a v = thn (check (a mod 4 = 0) Assert_fail)
     (bnd (fake_GET32 a) (\<lambda>x. fake_PUT32 a ((x AND NOT 0xff) OR ucast v)))"

definition rpi_reboot :: "(fake_pi, 'a) io" where
  "rpi_reboot = fails Exited"

definition fake_delay_cycles :: "u32 \<Rightarrow> (fake_pi, unit) io" where
  "fake_delay_cycles n = trace (T_delay_cycles n)"

definition fake_delay_us :: "u32 \<Rightarrow> (fake_pi, unit) io" where
  "fake_delay_us n = trace (T_delay_us n)"

definition fake_delay_ms :: "u32 \<Rightarrow> (fake_pi, unit) io" where
  "fake_delay_ms n = trace (T_delay_ms n)"

definition fake_bus :: "fake_pi bus" where
  "fake_bus = \<lparr>GET32 = fake_GET32, PUT32 = fake_PUT32, dev_barrier = fake_dev_barrier,
     DEV_VAL32 = fake_DEV_VAL32\<rparr>"

section \<open>The simulator's main program\<close>

definition put_random :: "u32 \<Rightarrow> (fake_pi, unit) io" where
  "put_random a = bnd fake_random (fake_PUT32 a)"

text \<open>\<open>arg\<close> is the command line: no argument, or one that \<open>atoi\<close> turned into a number.\<close>

definition fake_pi_main :: "u32 option \<Rightarrow> (fake_pi, unit) io \<Rightarrow> (fake_pi, unit) io" where
  "fake_pi_main arg notmain =
     thn (case arg of None \<Rightarrow> fake_random_init
          | Some seed \<Rightarrow> thn (check (seed \<noteq> 0) Panic) (thn (out_put (O_seed seed)) (fake_random_seed seed)))
     (thn (\<lambda>s. Inr ((), s\<lparr>trace_on_p := False\<rparr>))
     (thn (run_all (List.map put_random [gpio_fsel0, gpio_fsel1, gpio_fsel2, gpio_fsel3, gpio_set0, gpio_clr0]))
     (thn uart_mem_init
     (thn (\<lambda>s. Inr ((), s\<lparr>trace_on_p := True\<rparr>))
     (thn (trace T_calling) (thn notmain fake_pi_exit))))))"

section \<open>The device memory keeps what is written\<close>

definition uart_mem_ok :: "dev_mem_t list \<Rightarrow> bool" where
  "uart_mem_ok ms \<longleftrightarrow> length ms = uart_n \<and> (\<forall>i < uart_n. dm_addr (ms ! i) = uart_start + word_of_nat (4 * i))"

definition fp_ok :: "fake_pi \<Rightarrow> bool" where
  "fp_ok s \<longleftrightarrow> init_p s \<and> gen_inv (fr_bufs s) (fr_r s) \<and> uart_mem_ok (uart_mem s)"

definition fp_ready :: "nat \<Rightarrow> fake_pi \<Rightarrow> bool" where
  "fp_ready n s \<longleftrightarrow> fp_ok s \<and> trace_on_p s \<and> unat (ntrace s) + n \<le> 128"

definition fp_reg :: "fake_pi \<Rightarrow> u32 \<Rightarrow> u32" where
  "fp_reg s a =
     (if a = gpio_fsel0 then gpio_fsel0_v s else if a = gpio_fsel1 then gpio_fsel1_v s
      else if a = gpio_fsel2 then gpio_fsel2_v s else if a = gpio_fsel3 then gpio_fsel3_v s
      else if a = gpio_fsel4 then gpio_fsel4_v s else if a = aux_periph then aux_periph_v s else 0)"

lemmas fp_addrs = gpio_fsel0_def gpio_fsel1_def gpio_fsel2_def gpio_fsel3_def gpio_fsel4_def gpio_set0_def
  gpio_set1_def gpio_clr0_def gpio_clr1_def gpio_lev0_def aux_periph_def uart_start_def uart_cntrl_def
  uart_end_def GPIO_BASE_def

lemma uart_n_eq [simp]: "uart_n = 13"
  by (simp add: uart_n_def uart_end_def)

lemma trace_off [simp]: "\<not> trace_on_p s \<Longrightarrow> trace t s = Inr ((), s)"
  by (simp add: trace_def)

lemma trace_on [simp]:
  "trace_on_p s \<Longrightarrow> unat (ntrace s) < 128 \<Longrightarrow>
    trace t s = Inr ((), s\<lparr>outs := outs s @ [t], trace_ops := trace_ops s + 1, ntrace := ntrace s + 1\<rparr>)"
  by (simp add: trace_def max_trace_def word_le_nat_alt Let_def)

lemma ntrace_Suc [simp]: "unat (x :: u32) < 128 \<Longrightarrow> unat (x + 1) = Suc (unat x)"
  by (simp add: unat_word_ariths)

definition rw_regs :: "u32 set" where
  "rw_regs = insert aux_periph fsel_regs"

lemma rw_cases:
  "a \<in> rw_regs \<Longrightarrow> a = gpio_fsel0 \<or> a = gpio_fsel1 \<or> a = gpio_fsel2 \<or> a = gpio_fsel3 \<or> a = gpio_fsel4 \<or> a = aux_periph"
  by (auto simp: rw_regs_def fsel_regs_def fp_addrs)

lemma not_uart: "a < uart_start \<Longrightarrow> uart_addr_lookup a s = Inr (None, s)"
  by (simp add: uart_addr_lookup_def)

lemma rw_not_uart: "a \<in> rw_regs \<Longrightarrow> a < uart_start"
  by (auto simp: rw_regs_def fsel_regs_def fp_addrs)

lemma fp_distinct: "distinct [gpio_fsel0, gpio_fsel1, gpio_fsel2, gpio_fsel3, gpio_fsel4, gpio_set0,
    gpio_set1, gpio_clr0, gpio_clr1, gpio_lev0, aux_periph]"
  by (simp add: fp_addrs)

lemma fp_distinct_rev: "distinct [aux_periph, gpio_lev0, gpio_clr1, gpio_clr0, gpio_set1, gpio_set0,
    gpio_fsel4, gpio_fsel3, gpio_fsel2, gpio_fsel1, gpio_fsel0]"
  by (simp add: fp_addrs)

lemmas fp_neq = fp_distinct [simplified] fp_distinct_rev [simplified]

text \<open>The state after a trace line.\<close>

definition traced :: "out \<Rightarrow> fake_pi \<Rightarrow> fake_pi" where
  "traced t s = s\<lparr>outs := outs s @ [t], trace_ops := trace_ops s + 1, ntrace := ntrace s + 1\<rparr>"

lemma trace_traced: "trace_on_p s \<Longrightarrow> unat (ntrace s) < 128 \<Longrightarrow> trace t s = Inr ((), traced t s)"
  by (simp add: traced_def)

lemma fp_reg_traced [simp]: "fp_reg (traced t s) = fp_reg s"
  by (simp add: fp_reg_def traced_def fun_eq_iff)

lemma fp_ready_traced: "fp_ready (Suc n) s \<Longrightarrow> fp_ready n (traced t s)"
  by (simp add: fp_ready_def fp_ok_def traced_def)

lemma fake_get_rw:
  assumes "a \<in> rw_regs" "fp_ready (Suc n) s"
  shows "\<exists>s'. fake_GET32 a s = Inr (fp_reg s a, s') \<and> fp_reg s' = fp_reg s \<and> fp_ready n s'"
proof -
  have l: "uart_addr_get a s = Inr (None, s)" using not_uart [OF rw_not_uart [OF assms(1)]]
    by (simp add: uart_addr_get_def bnd_def)
  have t: "trace (T_get a v) s = Inr ((), traced (T_get a v) s)" for v
    using assms(2) by (intro trace_traced) (simp_all add: fp_ready_def)
  have "fake_GET32 a s = Inr (fp_reg s a, traced (T_get a (fp_reg s a)) s)"
    unfolding fake_GET32_def using rw_cases [OF assms(1)] l t
    by (elim disjE) (simp_all add: bnd_def thn_def fp_neq fp_reg_def)
  then show ?thesis using fp_ready_traced [OF assms(2)] by simp
qed

lemma fp_set:
  "fp_reg (s\<lparr>gpio_fsel0_v := v\<rparr>) = (fp_reg s)(gpio_fsel0 := v)" "fp_reg (s\<lparr>gpio_fsel1_v := v\<rparr>) = (fp_reg s)(gpio_fsel1 := v)"
  "fp_reg (s\<lparr>gpio_fsel2_v := v\<rparr>) = (fp_reg s)(gpio_fsel2 := v)" "fp_reg (s\<lparr>gpio_fsel3_v := v\<rparr>) = (fp_reg s)(gpio_fsel3 := v)"
  "fp_reg (s\<lparr>gpio_fsel4_v := v\<rparr>) = (fp_reg s)(gpio_fsel4 := v)" "fp_reg (s\<lparr>aux_periph_v := v\<rparr>) = (fp_reg s)(aux_periph := v)"
  using fp_neq by (auto simp: fp_reg_def fun_eq_iff)

lemma fp_ready_set:
  "fp_ready n (s\<lparr>gpio_fsel0_v := v\<rparr>) = fp_ready n s" "fp_ready n (s\<lparr>gpio_fsel1_v := v\<rparr>) = fp_ready n s"
  "fp_ready n (s\<lparr>gpio_fsel2_v := v\<rparr>) = fp_ready n s" "fp_ready n (s\<lparr>gpio_fsel3_v := v\<rparr>) = fp_ready n s"
  "fp_ready n (s\<lparr>gpio_fsel4_v := v\<rparr>) = fp_ready n s" "fp_ready n (s\<lparr>aux_periph_v := v\<rparr>) = fp_ready n s"
  by (simp_all add: fp_ready_def fp_ok_def)

lemma fake_put_rw:
  assumes "a \<in> rw_regs" "fp_ready (Suc n) s"
  shows "\<exists>s'. fake_PUT32 a v s = Inr ((), s') \<and> fp_reg s' = (fp_reg s)(a := v) \<and> fp_ready n s'"
proof -
  have l: "uart_addr_put a v s = Inr (False, s)" using not_uart [OF rw_not_uart [OF assms(1)]]
    by (simp add: uart_addr_put_def bnd_def)
  have t: "trace_on_p s" "trace (T_put a v) s = Inr ((), traced (T_put a v) s)"
    using assms(2) by (simp_all only: fp_ready_def, intro trace_traced, simp_all)
  note r = fp_ready_traced [OF assms(2)]
  show ?thesis
    unfolding fake_PUT32_def using rw_cases [OF assms(1)] l t r
    by (elim disjE) (simp_all add: bnd_def thn_def fp_neq fp_set fp_ready_set)
qed

interpretation fp: reg_bus fake_bus fp_reg fp_ready rw_regs
  by unfold_locales (auto simp: fake_bus_def fake_get_rw fake_put_rw)

text \<open>C20. On the simulated Pi \<open>gpio_set_function\<close> sets the function of an accessible pin and leaves the
  function of every other pin as it was.\<close>

theorem fake_gpio_set_function:
  assumes "pin_ok pin" "f < 8" "fp_ready 2 s"
  shows "\<exists>s'. gpio_set_function fake_bus pin f s = Inr ((), s') \<and>
    (\<forall>p < 50. fsel_of (fp_reg s') p = (if p = pin then f else fsel_of (fp_reg s) p)) \<and>
    aux_periph_v s' = aux_periph_v s"
proof -
  have "fp_ready (Suc (Suc 0)) s" using assms(3) by (simp add: numeral_2_eq_2)
  moreover have "fsel_regs \<subseteq> rw_regs" by (auto simp: rw_regs_def)
  ultimately obtain s' where "gpio_set_function fake_bus pin f s = Inr ((), s')"
    "\<forall>p < 50. fsel_of (fp_reg s') p = (if p = pin then f else fsel_of (fp_reg s) p)"
    "\<forall>a. a \<notin> fsel_regs \<longrightarrow> fp_reg s' a = fp_reg s a"
    using fp.gpio_set_function_fields [OF _ assms(1,2)] by blast
  moreover have "aux_periph \<notin> fsel_regs" by (simp add: fsel_regs_def fp_addrs)
  moreover have "fp_reg s aux_periph = aux_periph_v s" "fp_reg s' aux_periph = aux_periph_v s'"
    by (simp_all add: fp_reg_def fp_addrs)
  ultimately show ?thesis by metis
qed

definition fp_sample :: fake_pi where
  "fp_sample = fake_pi_zero\<lparr>trace_on_p := True, init_p := True,
     uart_mem := map (\<lambda>i. \<lparr>dm_addr = uart_start + word_of_nat (4 * i), dm_v = 0, dm_epoch = 0\<rparr>) [0..<uart_n],
     fr_bufs := (\<lambda>b. if b = 1 then replicate 32 0 else []),
     fr_r := random_data_zero\<lparr>rstate := 1, rand_type := 0\<rparr>\<rparr>"

theorem fake_gpio_set_function_witness:
  "\<exists>s'. gpio_set_function fake_bus 21 1 fp_sample = Inr ((), s') \<and> fsel_of (fp_reg s') 21 = 1"
proof -
  have "fp_ready 2 fp_sample"
    by (simp add: fp_ready_def fp_ok_def fp_sample_def fake_pi_zero_def gen_inv_def random_data_zero_def
        uart_mem_ok_def degrees_def seps_def TYPE_0_def)
  then show ?thesis
    using fake_gpio_set_function [of 21 1 fp_sample] by (auto simp: pin_ok_def)
qed

section \<open>Every run ends\<close>

text \<open>
  \<open>costs k m\<close>: with tracing on, \<open>m\<close> does not wait forever, and if it returns it has printed at least
  \<open>k\<close> trace lines. The simulator exits after 128 of them, so a polling loop needs no more rounds.
\<close>

named_theorems cost

definition costs :: "nat \<Rightarrow> (fake_pi, 'a) io \<Rightarrow> bool" where
  "costs k m \<longleftrightarrow> (\<forall>s. trace_on_p s \<and> unat (ntrace s) \<le> 128 \<longrightarrow>
     m s \<noteq> Inl Stuck \<and> (\<forall>x s'. m s = Inr (x, s') \<longrightarrow>
       trace_on_p s' \<and> unat (ntrace s) + k \<le> unat (ntrace s') \<and> unat (ntrace s') \<le> 128))"

lemma costs_0I:
  "(\<And>s. m s \<noteq> Inl Stuck \<and> (\<forall>x s'. m s = Inr (x, s') \<longrightarrow> trace_on_p s' = trace_on_p s \<and> ntrace s' = ntrace s)) \<Longrightarrow> costs 0 m"
  by (simp add: costs_def)

lemma costsI:
  assumes "\<And>s. trace_on_p s \<Longrightarrow> unat (ntrace s) \<le> 128 \<Longrightarrow> m s \<noteq> Inl Stuck"
    and "\<And>s x s'. trace_on_p s \<Longrightarrow> unat (ntrace s) \<le> 128 \<Longrightarrow> m s = Inr (x, s') \<Longrightarrow>
      trace_on_p s' \<and> unat (ntrace s) + k \<le> unat (ntrace s') \<and> unat (ntrace s') \<le> 128"
  shows "costs k m"
  unfolding costs_def using assms by blast

lemma costs_not_Stuck: "costs k m \<Longrightarrow> trace_on_p s \<Longrightarrow> unat (ntrace s) \<le> 128 \<Longrightarrow> m s \<noteq> Inl Stuck"
  unfolding costs_def by blast

lemma costs_Inr:
  "costs k m \<Longrightarrow> trace_on_p s \<Longrightarrow> unat (ntrace s) \<le> 128 \<Longrightarrow> m s = Inr (x, s') \<Longrightarrow>
     trace_on_p s' \<and> unat (ntrace s) + k \<le> unat (ntrace s') \<and> unat (ntrace s') \<le> 128"
  unfolding costs_def by blast

lemma costs_weaken: "costs k m \<Longrightarrow> j \<le> k \<Longrightarrow> costs j m"
proof (rule costsI, rule costs_not_Stuck, assumption+)
  fix s x s'
  assume a: "costs k m" "j \<le> k" "trace_on_p s" "unat (ntrace s) \<le> 128" "m s = Inr (x, s')"
  from costs_Inr [OF a(1,3-5)] a(2)
  show "trace_on_p s' \<and> unat (ntrace s) + j \<le> unat (ntrace s') \<and> unat (ntrace s') \<le> 128" by auto
qed

lemma costs_bnd:
  assumes m: "costs j m" and f: "\<And>x. costs k (f x)"
  shows "costs (j + k) (bnd m f)"
proof (rule costsI)
  fix s :: fake_pi
  assume s: "trace_on_p s" "unat (ntrace s) \<le> 128"
  show "bnd m f s \<noteq> Inl Stuck"
  proof (cases "m s")
    case (Inl e)
    with costs_not_Stuck [OF m s] show ?thesis by simp
  next
    case (Inr p)
    then obtain y t where p: "m s = Inr (y, t)" by (cases p) auto
    with costs_Inr [OF m s p] costs_not_Stuck [OF f] show ?thesis by simp
  qed
next
  fix s x s'
  assume s: "trace_on_p s" "unat (ntrace s) \<le> 128" and r: "bnd m f s = Inr (x, s')"
  then obtain y t where yt: "m s = Inr (y, t)" "f y t = Inr (x, s')" by (auto simp: bnd_eq_Inr)
  from costs_Inr [OF m s yt(1)] costs_Inr [OF f _ _ yt(2)]
  show "trace_on_p s' \<and> unat (ntrace s) + (j + k) \<le> unat (ntrace s') \<and> unat (ntrace s') \<le> 128" by auto
qed

lemma costs_thn: "costs j m \<Longrightarrow> costs k m' \<Longrightarrow> costs (j + k) (thn m m')"
  unfolding thn_def by (rule costs_bnd)

lemma costs_bnd_0 [cost]: "costs 0 m \<Longrightarrow> (\<And>x. costs 0 (f x)) \<Longrightarrow> costs 0 (bnd m f)"
  using costs_bnd [of 0 m 0 f] by simp

lemma costs_thn_0 [cost]: "costs 0 m \<Longrightarrow> costs 0 m' \<Longrightarrow> costs 0 (thn m m')"
  using costs_thn [of 0 m 0 m'] by simp

lemma costs_ret [cost]: "costs 0 (ret x)"
  by (rule costs_0I) simp

lemma costs_fails [cost]: "e \<noteq> Stuck \<Longrightarrow> costs k (fails e)"
  by (simp add: costs_def)

lemma costs_check [cost]: "e \<noteq> Stuck \<Longrightarrow> costs 0 (check b e)"
  by (cases b) (simp_all add: costs_ret costs_fails)

lemma costs_trace: "costs 1 (trace t)"
  by (auto simp: costs_def trace_def max_trace_def fake_pi_exit_def Let_def word_le_nat_alt split: if_splits)

lemmas costs_trace_0 [cost] = costs_weaken [OF costs_trace, of 0, simplified]

lemma costs_if [cost]: "(b \<Longrightarrow> costs k m) \<Longrightarrow> (\<not> b \<Longrightarrow> costs k m') \<Longrightarrow> costs k (if b then m else m')"
  by simp

lemma poll_ends:
  assumes "costs 1 c" "trace_on_p s" "unat (ntrace s) \<le> 128" "128 < n + unat (ntrace s)"
  shows "poll n c s \<noteq> Inl Stuck \<and> (\<forall>x s'. poll n c s = Inr (x, s') \<longrightarrow>
      trace_on_p s' \<and> unat (ntrace s) \<le> unat (ntrace s') \<and> unat (ntrace s') \<le> 128)"
  using assms(2-)
proof (induction n arbitrary: s)
  case 0
  then show ?case by simp
next
  case (Suc n)
  show ?case
  proof (cases "c s")
    case (Inl e)
    with costs_not_Stuck [OF assms(1) Suc.prems(1,2)] show ?thesis by simp
  next
    case (Inr p)
    obtain b t where p: "c s = Inr (b, t)" using Inr by (cases p) auto
    from costs_Inr [OF assms(1) Suc.prems(1,2) p] have t: "trace_on_p t"
      "Suc (unat (ntrace s)) \<le> unat (ntrace t)" "unat (ntrace t) \<le> 128" by simp_all
    then have "128 < n + unat (ntrace t)" using Suc.prems(3) by linarith
    from Suc.IH [OF t(1,3) this] t p show ?thesis by (cases b) auto
  qed
qed

lemma costs_poll:
  assumes "costs 1 c" "128 < n"
  shows "costs 0 (poll n c)"
proof (rule costsI)
  fix s :: fake_pi
  assume s: "trace_on_p s" "unat (ntrace s) \<le> 128"
  have p: "128 < n + unat (ntrace s)" using assms(2) by simp
  show "poll n c s \<noteq> Inl Stuck" using poll_ends [OF assms(1) s p] by blast
  show "trace_on_p s' \<and> unat (ntrace s) + 0 \<le> unat (ntrace s') \<and> unat (ntrace s') \<le> 128"
    if "poll n c s = Inr (x, s')" for x s'
    using poll_ends [OF assms(1) s p] that by auto
qed

end
