(* ===== verification/Uart.thy ===== *)
theory Uart
  imports Gpio FakePi
begin

unbundle bit_operations_syntax

text \<open>
  The mini-UART driver \<open>libpi/src/uart.c\<close>. Its waiting loops take a bound \<open>n\<close> on their rounds. On the
  scripted device the theorems say which accesses each operation makes; on the simulated Pi that
  every operation ends.
\<close>

section \<open>The code\<close>

definition AUX_BASE :: u32 where "AUX_BASE = 0x20215000"
definition AUXENB :: u32 where "AUXENB = AUX_BASE + 0x4"
definition AUXIIR :: u32 where "AUXIIR = AUX_BASE + 0x48"
definition AUXCNTL :: u32 where "AUXCNTL = AUX_BASE + 0x60"
definition AUXBAUD :: u32 where "AUXBAUD = AUX_BASE + 0x68"
definition AUXIER :: u32 where "AUXIER = AUX_BASE + 0x44"
definition AUXLCR :: u32 where "AUXLCR = AUX_BASE + 0x4C"
definition AUXIO :: u32 where "AUXIO = AUX_BASE + 0x40"
definition AUXLSR :: u32 where "AUXLSR = AUX_BASE + 0x54"

definition uart_can_put8 :: "'d bus \<Rightarrow> ('d, u32) io" where
  "uart_can_put8 B =
     thn (dev_barrier B) (bnd (GET32 B AUXLSR) (\<lambda>val. thn (dev_barrier B) (ret (shr val 5 AND 0x1))))"

definition uart_has_data :: "'d bus \<Rightarrow> ('d, u32) io" where
  "uart_has_data B =
     thn (dev_barrier B) (bnd (GET32 B AUXLSR) (\<lambda>val. thn (dev_barrier B) (ret (val AND 0x1))))"

definition uart_tx_is_empty :: "'d bus \<Rightarrow> ('d, u32) io" where
  "uart_tx_is_empty B =
     thn (dev_barrier B) (bnd (GET32 B AUXLSR) (\<lambda>val. thn (dev_barrier B) (ret (shr val 6 AND 0x1))))"

definition nonzero :: "('d, u32) io \<Rightarrow> ('d, bool) io" where
  "nonzero m = bnd m (\<lambda>x. ret (x \<noteq> 0))"

definition uart_put8 :: "'d bus \<Rightarrow> nat \<Rightarrow> u8 \<Rightarrow> ('d, u32) io" where
  "uart_put8 B n c =
     thn (dev_barrier B) (thn (poll n (nonzero (uart_can_put8 B)))
     (thn (PUT32 B AUXIO (ucast c)) (thn (dev_barrier B) (ret 0))))"

definition uart_get8 :: "'d bus \<Rightarrow> nat \<Rightarrow> ('d, u32) io" where
  "uart_get8 B n =
     thn (dev_barrier B) (thn (poll n (nonzero (uart_has_data B)))
     (bnd (GET32 B AUXIO) (\<lambda>val. thn (dev_barrier B) (ret (val AND 0xFF)))))"

definition uart_get8_async :: "'d bus \<Rightarrow> nat \<Rightarrow> ('d, u32) io" where
  "uart_get8_async B n = bnd (uart_has_data B) (\<lambda>x. if x = 0 then ret (- 1) else uart_get8 B n)"

definition uart_flush_tx :: "'d bus \<Rightarrow> nat \<Rightarrow> ('d, unit) io" where
  "uart_flush_tx B n = poll n (nonzero (uart_tx_is_empty B))"

definition uart_init :: "'d bus \<Rightarrow> nat \<Rightarrow> ('d, unit) io" where
  "uart_init B n =
     thn (dev_barrier B) (bnd (GET32 B AUXENB) (\<lambda>val. run_all
       [PUT32 B AUXENB (val OR 0x1),
        dev_barrier B, PUT32 B AUXCNTL 0b00,
        dev_barrier B, PUT32 B AUXIIR 0b110,
        dev_barrier B, PUT32 B AUXIER 0b00,
        dev_barrier B, PUT32 B AUXLCR 0b11,
        dev_barrier B, PUT32 B AUXBAUD 271,
        dev_barrier B, gpio_set_function B GPIO_TX GPIO_FUNC_ALT5,
        gpio_set_function B GPIO_RX GPIO_FUNC_ALT5,
        dev_barrier B, PUT32 B AUXCNTL 0b11,
        uart_flush_tx B n]))"

definition uart_disable :: "'d bus \<Rightarrow> nat \<Rightarrow> ('d, unit) io" where
  "uart_disable B n =
     thn (dev_barrier B) (thn (uart_flush_tx B n)
     (bnd (GET32 B AUXENB) (\<lambda>val. thn (PUT32 B AUXENB (val AND NOT 0x1)) (dev_barrier B))))"

section \<open>On a device that becomes ready\<close>

text \<open>One round of a polling loop reads the line status register between two barriers.\<close>

definition lsr_round :: "u32 \<Rightarrow> access list" where
  "lsr_round v = [Bar, Rd AUXLSR v, Bar]"

definition lsr_rounds :: "u32 list \<Rightarrow> access list" where
  "lsr_rounds vs = List.concat (List.map lsr_round vs)"

lemma lsr_rounds_simps [simp]: "lsr_rounds [] = []" "lsr_rounds (v # vs) = lsr_round v @ lsr_rounds vs"
  by (simp_all add: lsr_rounds_def)

lemma uart_can_put8_script [simp]:
  "uart_can_put8 script_bus \<lparr>replies = v # vs, log = l\<rparr> =
     Inr (of_bool (bit v 5), \<lparr>replies = vs, log = l @ lsr_round v\<rparr>)"
  by (simp add: uart_can_put8_def lsr_round_def and_one_bit bits_of)

lemma uart_has_data_script [simp]:
  "uart_has_data script_bus \<lparr>replies = v # vs, log = l\<rparr> =
     Inr (of_bool (bit v 0), \<lparr>replies = vs, log = l @ lsr_round v\<rparr>)"
  by (simp add: uart_has_data_def lsr_round_def and_one_bit bits_of)

lemma uart_tx_is_empty_script [simp]:
  "uart_tx_is_empty script_bus \<lparr>replies = v # vs, log = l\<rparr> =
     Inr (of_bool (bit v 6), \<lparr>replies = vs, log = l @ lsr_round v\<rparr>)"
  by (simp add: uart_tx_is_empty_def lsr_round_def and_one_bit bits_of)

lemma poll_script:
  assumes c: "\<And>v vs l. c \<lparr>replies = v # vs, log = l\<rparr> = Inr (of_bool (P v), \<lparr>replies = vs, log = l @ lsr_round v\<rparr>)"
    and "\<forall>w \<in> set ws. \<not> P w" "P v" "length ws < n"
  shows "poll n (nonzero c) \<lparr>replies = ws @ v # vs, log = l\<rparr> =
    Inr ((), \<lparr>replies = vs, log = l @ lsr_rounds (ws @ [v])\<rparr>)"
  using assms(2-)
proof (induction ws arbitrary: n l)
  case Nil
  then show ?case by (cases n) (simp_all add: nonzero_def bnd_def c)
next
  case (Cons w ws)
  then obtain m where "n = Suc m" by (cases n) simp_all
  with Cons show ?case by (simp add: nonzero_def bnd_def c)
qed

text \<open>\<open>uart_put8\<close> waits until the transmitter has space, whatever number of rounds that takes, and
  only then writes its byte, once.\<close>

theorem uart_put8_waits:
  assumes "\<forall>w \<in> set ws. \<not> bit w 5" "bit v 5" "length ws < n"
  shows "uart_put8 script_bus n c \<lparr>replies = ws @ v # vs, log = l\<rparr> = Inr (0, \<lparr>replies = vs,
    log = l @ [Bar] @ lsr_rounds (ws @ [v]) @ [Wr AUXIO (ucast c), Bar]\<rparr>)"
  using poll_script [of "uart_can_put8 script_bus" "\<lambda>v. bit v 5", OF uart_can_put8_script assms]
  by (simp add: uart_put8_def)

theorem uart_put8_waits_witness:
  "uart_put8 script_bus 3 0x41 \<lparr>replies = [0x40, 0x20], log = []\<rparr> = Inr (0, \<lparr>replies = [],
     log = [Bar, Bar, Rd AUXLSR 0x40, Bar, Bar, Rd AUXLSR 0x20, Bar, Wr AUXIO 0x41, Bar]\<rparr>)"
  using uart_put8_waits [of "[0x40]" "0x20" 3 "0x41" "[]" "[]"] by (simp add: lsr_round_def)

text \<open>\<open>uart_get8\<close> waits until the receiver holds a byte and returns the low eight bits of the data
  register; \<open>uart_get8_async\<close> never waits, and returns -1 when there is nothing to read.\<close>

theorem uart_get8_waits:
  assumes "\<forall>w \<in> set ws. \<not> bit w 0" "bit v 0" "length ws < n"
  shows "uart_get8 script_bus n \<lparr>replies = ws @ v # d # vs, log = l\<rparr> = Inr (d AND 0xFF, \<lparr>replies = vs,
      log = l @ [Bar] @ lsr_rounds (ws @ [v]) @ [Rd AUXIO d, Bar]\<rparr>) \<and>
    (\<not> bit w 0 \<longrightarrow> uart_get8_async script_bus n \<lparr>replies = w # us, log = l\<rparr> =
       Inr (- 1, \<lparr>replies = us, log = l @ lsr_round w\<rparr>))"
  using poll_script [of "uart_has_data script_bus" "\<lambda>v. bit v 0", OF uart_has_data_script assms]
  by (simp add: uart_get8_def uart_get8_async_def)

theorem uart_get8_waits_witness:
  "uart_get8 script_bus 2 \<lparr>replies = [0, 1, 0x142], log = []\<rparr> = Inr (0x42, \<lparr>replies = [],
     log = [Bar, Bar, Rd AUXLSR 0, Bar, Bar, Rd AUXLSR 1, Bar, Rd AUXIO 0x142, Bar]\<rparr>) \<and>
   uart_get8_async script_bus 2 \<lparr>replies = [2], log = []\<rparr> = Inr (- 1, \<lparr>replies = [], log = [Bar, Rd AUXLSR 2, Bar]\<rparr>)"
  using uart_get8_waits [of "[0]" 1 2 "0x142" "[]" "[]" 2 "[]"] by (simp add: lsr_round_def)

text \<open>\<open>uart_init\<close> configures the device only while transmitter and receiver are off: it enables the
  UART in the auxiliary block, turns both off, sets FIFOs, interrupts, word size and baud rate and the
  two pins, and turns both on as the last write; it returns once the transmitter is empty.\<close>

theorem uart_init_sequence:
  assumes "\<forall>w \<in> set ws. \<not> bit w 6" "bit v 6" "length ws < n"
  shows "uart_init script_bus n \<lparr>replies = e # f # g # ws @ v # vs, log = []\<rparr> = Inr ((), \<lparr>replies = vs, log =
    [Bar, Rd AUXENB e, Wr AUXENB (e OR 1), Bar, Wr AUXCNTL 0, Bar, Wr AUXIIR 6, Bar, Wr AUXIER 0,
     Bar, Wr AUXLCR 3, Bar, Wr AUXBAUD 271, Bar,
     Rd (GPIO_BASE + 4) f, Wr (GPIO_BASE + 4) ((f AND NOT 0x7000) OR 0x2000),
     Rd (GPIO_BASE + 4) g, Wr (GPIO_BASE + 4) ((g AND NOT 0x38000) OR 0x10000),
     Bar, Wr AUXCNTL 3] @ lsr_rounds (ws @ [v])\<rparr>)"
  using poll_script [of "uart_tx_is_empty script_bus" "\<lambda>v. bit v 6", OF uart_tx_is_empty_script assms]
  by (simp add: uart_init_def uart_flush_tx_def gpio_set_function_def GPIO_TX_def GPIO_RX_def
      GPIO_FUNC_ALT5_def shl_def Let_def)

theorem uart_init_sequence_witness:
  "\<exists>d. uart_init script_bus 1 \<lparr>replies = [0, 0, 0, 0x40], log = []\<rparr> = Inr ((), d)"
  using uart_init_sequence [of "[]" "0x40" 1 0 0 0 "[]"] by simp

section \<open>On the simulated Pi\<close>

lemma costs_0_same:
  assumes "\<And>s. m s \<noteq> Inl Stuck"
    and "\<And>s x s'. m s = Inr (x, s') \<Longrightarrow> trace_on_p s' = trace_on_p s \<and> ntrace s' = ntrace s"
  shows "costs 0 m"
  using assms by (intro costs_0I) blast

lemma require_not_Stuck: "require b e \<noteq> Inl Stuck \<longleftrightarrow> b \<or> e \<noteq> Stuck"
  by (simp add: require_def)

lemma costs_lookup [cost]: "costs 0 (uart_addr_lookup a)"
  by (rule costs_0_same) (auto simp: uart_addr_lookup_def seq_eq_Inl seq_eq_Inr Let_def require_def arr_get_def
      split: if_splits)

lemma random_r_not_Stuck: "random_r m buf \<noteq> Inl Stuck"
  by (auto simp: random_r_def st_get_def st_set_def arr_get_def arr_set_def Let_def seq_eq_Inl split: if_splits prod.splits)

lemma costs_fake_random [cost]: "costs 0 fake_random"
  by (rule costs_0_same) (auto simp: fake_random_def seq_eq_Inl seq_eq_Inr random_r_not_Stuck split: if_splits)

lemma costs_flush [cost]: "costs 0 (uart_mem_flush e ps)"
  by (induction ps) (simp_all only: uart_mem_flush.simps, (intro cost | assumption)+)

lemma costs_upd:
  assumes "\<And>s. trace_on_p (f s) = trace_on_p s" "\<And>s. ntrace (f s) = ntrace s" "costs k m"
  shows "costs k (\<lambda>s. m (f s))"
proof (rule costsI)
  fix s :: fake_pi
  assume s: "trace_on_p s" "unat (ntrace s) \<le> 128"
  then have t: "trace_on_p (f s)" "unat (ntrace (f s)) \<le> 128" by (simp_all add: assms(1,2))
  show "m (f s) \<noteq> Inl Stuck" by (rule costs_not_Stuck [OF assms(3) t])
  show "trace_on_p s' \<and> unat (ntrace s) + k \<le> unat (ntrace s') \<and> unat (ntrace s') \<le> 128"
    if "m (f s) = Inr (x, s')" for x s'
    using costs_Inr [OF assms(3) t that] by (simp add: assms(2))
qed

lemma costs_state:
  assumes "\<And>t. costs k (g t)"
  shows "costs k (\<lambda>s. g s s)"
proof (rule costsI)
  fix s :: fake_pi
  assume s: "trace_on_p s" "unat (ntrace s) \<le> 128"
  show "g s s \<noteq> Inl Stuck" by (rule costs_not_Stuck [OF assms s])
  show "trace_on_p s' \<and> unat (ntrace s) + k \<le> unat (ntrace s') \<and> unat (ntrace s') \<le> 128"
    if "g s s = Inr (x, s')" for x s'
    by (rule costs_Inr [OF assms s that])
qed

lemma costs_if_fun: "costs k m \<Longrightarrow> costs k m' \<Longrightarrow> costs k (\<lambda>s. if b then m s else m' s)"
  by (cases b) simp_all

lemma costs_read [cost]: "costs 0 (\<lambda>s. Inr (f s, s))"
  by (rule costs_0I) simp

lemma costs_Inl [cost]: "e \<noteq> Stuck \<Longrightarrow> costs k (\<lambda>s. Inl e)"
  by (rule costsI) simp_all

lemma costs_seq: "r \<noteq> Inl Stuck \<Longrightarrow> (\<And>y. costs k (f y)) \<Longrightarrow> costs k (\<lambda>s. seq r (\<lambda>y. f y s))"
  by (cases r) (auto intro: costs_Inl)

lemma arr_not_Stuck: "arr_get xs i \<noteq> Inl Stuck" "arr_set xs i v \<noteq> Inl Stuck"
  by (simp_all add: arr_get_def arr_set_def)

lemma costs_uart_get [cost]: "costs 0 (uart_addr_get a)"
proof -
  have "costs 0 (\<lambda>s. seq (arr_get (uart_mem s) i) (\<lambda>m. Inr (Some (dm_v m), s)))" for i
    by (rule costs_0_same) (auto simp: seq_eq_Inl seq_eq_Inr arr_not_Stuck)
  then have "costs 0 (\<lambda>s. case p of None \<Rightarrow> Inr (None, s)
      | Some i \<Rightarrow> seq (arr_get (uart_mem s) i) (\<lambda>m. Inr (Some (dm_v m), s)))" for p
    by (cases p) (simp_all add: costs_read)
  then show ?thesis unfolding uart_addr_get_def by (intro cost)
qed

lemma costs_get: "costs 1 (fake_GET32 a)"
proof -
  have "costs 0 (\<lambda>s. if a = gpio_fsel0 then Inr (gpio_fsel0_v s, s)
       else if a = gpio_fsel1 then Inr (gpio_fsel1_v s, s)
       else if a = gpio_fsel2 then Inr (gpio_fsel2_v s, s)
       else if a = gpio_fsel3 then Inr (gpio_fsel3_v s, s)
       else if a = gpio_fsel4 then Inr (gpio_fsel4_v s, s)
       else if a = gpio_lev0 then fake_random s
       else if a = aux_periph then Inr (aux_periph_v s, s)
       else Inl Panic)" (is "costs 0 ?m")
    by (intro costs_if_fun cost) simp
  then have "costs 0 (bnd (uart_addr_get a) (\<lambda>p. case p of Some v \<Rightarrow> ret v | None \<Rightarrow> ?m))"
    by (intro cost) (simp split: option.splits add: costs_ret del: io_simps)
  moreover have "costs 1 (thn (trace (T_get a v)) (ret v))" for v
    using costs_thn [OF costs_trace costs_ret] by simp
  ultimately show ?thesis unfolding fake_GET32_def
    by (rule costs_bnd [of 0 _ 1, unfolded add_0])
qed

lemma costs_barrier: "costs 1 fake_dev_barrier"
proof (rule costsI)
  fix s :: fake_pi
  let ?s = "s\<lparr>dev_barrier_cnt := dev_barrier_cnt s + 1\<rparr>" and ?t = "trace (T_barrier (dev_barrier_cnt s))"
  assume s: "trace_on_p s" "unat (ntrace s) \<le> 128"
  then have b: "fake_dev_barrier s = ?t ?s" and t: "trace_on_p ?s" "unat (ntrace ?s) \<le> 128"
    by (simp_all add: fake_dev_barrier_def)
  show "fake_dev_barrier s \<noteq> Inl Stuck" using costs_not_Stuck [OF costs_trace t] by (simp add: b)
  show "trace_on_p s' \<and> unat (ntrace s) + 1 \<le> unat (ntrace s') \<and> unat (ntrace s') \<le> 128"
    if "fake_dev_barrier s = Inr (x, s')" for x s'
    using costs_Inr [OF costs_trace t that [unfolded b]] by simp
qed

lemma costs_put_slot:
  assumes "\<And>u. costs k (tail u)"
  shows "costs k (\<lambda>s. seq (arr_get (uart_mem s) i) (\<lambda>m.
       seq (arr_set (uart_mem s) i (m\<lparr>dm_v := v, dm_epoch := dev_barrier_cnt s\<rparr>)) (\<lambda>ms.
       tail (uart_off_p s) (s\<lparr>uart_mem := ms\<rparr>))))"
proof -
  have u: "costs k (\<lambda>s. tail u (s\<lparr>uart_mem := ms\<rparr>))" for u ms
    by (rule costs_upd [OF _ _ assms]) simp_all
  have "costs k (\<lambda>s. seq (arr_get ms i) (\<lambda>m. seq (arr_set ms i (m\<lparr>dm_v := v, dm_epoch := b\<rparr>)) (\<lambda>ms.
       tail u (s\<lparr>uart_mem := ms\<rparr>))))" for ms b u
    by (rule costs_seq [OF arr_not_Stuck(1)], rule costs_seq [OF arr_not_Stuck(2)], rule u)
  then show ?thesis by (rule costs_state)
qed

lemma costs_put [cost]: "costs 0 (fake_PUT32 a v)"
proof -
  let ?off = "\<lambda>s. let s = s\<lparr>uart_off_p := dev_barrier_cnt s\<rparr> in
      thn (check (dev_barrier_cnt s \<noteq> 0) Assert_fail) (thn (trace (T_uart_off a v)) (ret True)) s"
  let ?on = "\<lambda>s. let s = s\<lparr>uart_off_p := 0\<rparr> in
      thn (uart_mem_flush (dev_barrier_cnt s) (uart_mem s)) (thn (trace (T_uart_on a v)) (ret True)) s"
  let ?tail = "\<lambda>u. thn (if u = 0 then trace (T_uart_put a v u) else ret ())
    (if a = uart_cntrl then (if v AND 0b11 = 0 then ?off else if v AND 0b11 = 0b11 then ?on else fails Panic)
     else ret True)"
  have off: "costs 0 ?off" unfolding Let_def
    by (rule costs_upd [OF _ _ costs_state]; (intro cost)?) simp_all
  have on: "costs 0 ?on" unfolding Let_def
    by (rule costs_upd [OF _ _ costs_state]; (intro cost)?) simp_all
  have tail: "costs 0 (?tail u)" for u by (intro cost off on) simp
  have put: "costs 0 (\<lambda>s. seq (arr_get (uart_mem s) i) (\<lambda>m.
       seq (arr_set (uart_mem s) i (m\<lparr>dm_v := v, dm_epoch := dev_barrier_cnt s\<rparr>)) (\<lambda>ms.
       ?tail (uart_off_p s) (s\<lparr>uart_mem := ms\<rparr>))))" for i
    by (rule costs_put_slot [OF tail])
  have "costs 0 (\<lambda>s. case p of None \<Rightarrow> Inr (False, s) | Some i \<Rightarrow> seq (arr_get (uart_mem s) i) (\<lambda>m.
       seq (arr_set (uart_mem s) i (m\<lparr>dm_v := v, dm_epoch := dev_barrier_cnt s\<rparr>)) (\<lambda>ms.
       ?tail (uart_off_p s) (s\<lparr>uart_mem := ms\<rparr>))))" for p
    using put by (cases p) (simp_all only: option.case costs_read)
  then have "costs 0 (uart_addr_put a v)" unfolding uart_addr_put_def by (intro cost)
  moreover have "costs 0 (\<lambda>s.
       if a = gpio_fsel0 then Inr ((), s\<lparr>gpio_fsel0_v := v\<rparr>)
       else if a = gpio_fsel1 then Inr ((), s\<lparr>gpio_fsel1_v := v\<rparr>)
       else if a = gpio_fsel2 then Inr ((), s\<lparr>gpio_fsel2_v := v\<rparr>)
       else if a = gpio_fsel3 then Inr ((), s\<lparr>gpio_fsel3_v := v\<rparr>)
       else if a = gpio_fsel4 then Inr ((), s\<lparr>gpio_fsel4_v := v\<rparr>)
       else if a = gpio_set0 then Inr ((), s\<lparr>gpio_set0_v := v\<rparr>)
       else if a = gpio_set1 then Inr ((), s\<lparr>gpio_set1_v := v\<rparr>)
       else if a = gpio_clr0 then Inr ((), s\<lparr>gpio_clr0_v := v\<rparr>)
       else if a = gpio_clr1 then Inr ((), s\<lparr>gpio_clr1_v := v\<rparr>)
       else if a = aux_periph then Inr ((), s\<lparr>aux_periph_v := v\<rparr>)
       else Inl Panic)"
    by (intro costs_if_fun costs_Inl; (rule costs_0_same)?) (auto)
  moreover have "costs 0 (\<lambda>s. if \<not> trace_on_p s then out_put (O_init a v) s else Inr ((), s))"
    by (rule costs_0_same) (auto simp: out_put_def split: if_splits)
  ultimately show ?thesis unfolding fake_PUT32_def by (intro cost)
qed

lemma costs_bus [cost]:
  "costs 0 (GET32 fake_bus a)" "costs 0 (PUT32 fake_bus a v)" "costs 0 (dev_barrier fake_bus)"
  by (simp_all add: fake_bus_def costs_put costs_weaken [OF costs_get] costs_weaken [OF costs_barrier])

lemma costs_run_all [cost]: "(\<And>m. m \<in> set ms \<Longrightarrow> costs 0 m) \<Longrightarrow> costs 0 (run_all ms)"
  by (induction ms) (simp_all only: run_all.simps, (rule costs_ret), (rule costs_thn_0; simp))

lemma costs_lsr:
  "costs 1 (nonzero (thn (dev_barrier fake_bus) (bnd (GET32 fake_bus a) (\<lambda>val. thn (dev_barrier fake_bus) (ret (g val :: u32))))))"
proof -
  have "costs (1 + 0) (thn (dev_barrier fake_bus) (bnd (GET32 fake_bus a) (\<lambda>val. thn (dev_barrier fake_bus) (ret (g val)))))"
    using costs_barrier by (intro costs_thn cost) (simp add: fake_bus_def)
  then have "costs ((1 + 0) + 0) (nonzero (thn (dev_barrier fake_bus) (bnd (GET32 fake_bus a) (\<lambda>val. thn (dev_barrier fake_bus) (ret (g val))))))"
    unfolding nonzero_def by (rule costs_bnd) (intro cost)
  then show ?thesis by simp
qed

lemma costs_rounds:
  "costs 1 (nonzero (uart_can_put8 fake_bus))" "costs 1 (nonzero (uart_has_data fake_bus))"
  "costs 1 (nonzero (uart_tx_is_empty fake_bus))"
  unfolding uart_can_put8_def uart_has_data_def uart_tx_is_empty_def by (rule costs_lsr)+

lemma costs_gpio_set_function [cost]: "costs 0 (gpio_set_function fake_bus pin f)"
  unfolding gpio_set_function_def Let_def by (intro cost)



end
