(* ===== verification/Crc.thy ===== *)
theory Crc
  imports Prelude
begin

unbundle bit_operations_syntax

text \<open>
  The CRC-32 checksum of the boot protocol (\<open>labs/7-bootloader/2-pi-side/boot-crc32.h\<close>), with the table
  written out as in the source and proved equal to the bitwise computation it abbreviates.
\<close>

section \<open>The code\<close>

definition crc32_tab :: "u32 list" where
  "crc32_tab = [
    0x00000000, 0x77073096, 0xee0e612c, 0x990951ba, 0x076dc419, 0x706af48f, 0xe963a535, 0x9e6495a3,
    0x0edb8832, 0x79dcb8a4, 0xe0d5e91e, 0x97d2d988, 0x09b64c2b, 0x7eb17cbd, 0xe7b82d07, 0x90bf1d91,
    0x1db71064, 0x6ab020f2, 0xf3b97148, 0x84be41de, 0x1adad47d, 0x6ddde4eb, 0xf4d4b551, 0x83d385c7,
    0x136c9856, 0x646ba8c0, 0xfd62f97a, 0x8a65c9ec, 0x14015c4f, 0x63066cd9, 0xfa0f3d63, 0x8d080df5,
    0x3b6e20c8, 0x4c69105e, 0xd56041e4, 0xa2677172, 0x3c03e4d1, 0x4b04d447, 0xd20d85fd, 0xa50ab56b,
    0x35b5a8fa, 0x42b2986c, 0xdbbbc9d6, 0xacbcf940, 0x32d86ce3, 0x45df5c75, 0xdcd60dcf, 0xabd13d59,
    0x26d930ac, 0x51de003a, 0xc8d75180, 0xbfd06116, 0x21b4f4b5, 0x56b3c423, 0xcfba9599, 0xb8bda50f,
    0x2802b89e, 0x5f058808, 0xc60cd9b2, 0xb10be924, 0x2f6f7c87, 0x58684c11, 0xc1611dab, 0xb6662d3d,
    0x76dc4190, 0x01db7106, 0x98d220bc, 0xefd5102a, 0x71b18589, 0x06b6b51f, 0x9fbfe4a5, 0xe8b8d433,
    0x7807c9a2, 0x0f00f934, 0x9609a88e, 0xe10e9818, 0x7f6a0dbb, 0x086d3d2d, 0x91646c97, 0xe6635c01,
    0x6b6b51f4, 0x1c6c6162, 0x856530d8, 0xf262004e, 0x6c0695ed, 0x1b01a57b, 0x8208f4c1, 0xf50fc457,
    0x65b0d9c6, 0x12b7e950, 0x8bbeb8ea, 0xfcb9887c, 0x62dd1ddf, 0x15da2d49, 0x8cd37cf3, 0xfbd44c65,
    0x4db26158, 0x3ab551ce, 0xa3bc0074, 0xd4bb30e2, 0x4adfa541, 0x3dd895d7, 0xa4d1c46d, 0xd3d6f4fb,
    0x4369e96a, 0x346ed9fc, 0xad678846, 0xda60b8d0, 0x44042d73, 0x33031de5, 0xaa0a4c5f, 0xdd0d7cc9,
    0x5005713c, 0x270241aa, 0xbe0b1010, 0xc90c2086, 0x5768b525, 0x206f85b3, 0xb966d409, 0xce61e49f,
    0x5edef90e, 0x29d9c998, 0xb0d09822, 0xc7d7a8b4, 0x59b33d17, 0x2eb40d81, 0xb7bd5c3b, 0xc0ba6cad,
    0xedb88320, 0x9abfb3b6, 0x03b6e20c, 0x74b1d29a, 0xead54739, 0x9dd277af, 0x04db2615, 0x73dc1683,
    0xe3630b12, 0x94643b84, 0x0d6d6a3e, 0x7a6a5aa8, 0xe40ecf0b, 0x9309ff9d, 0x0a00ae27, 0x7d079eb1,
    0xf00f9344, 0x8708a3d2, 0x1e01f268, 0x6906c2fe, 0xf762575d, 0x806567cb, 0x196c3671, 0x6e6b06e7,
    0xfed41b76, 0x89d32be0, 0x10da7a5a, 0x67dd4acc, 0xf9b9df6f, 0x8ebeeff9, 0x17b7be43, 0x60b08ed5,
    0xd6d6a3e8, 0xa1d1937e, 0x38d8c2c4, 0x4fdff252, 0xd1bb67f1, 0xa6bc5767, 0x3fb506dd, 0x48b2364b,
    0xd80d2bda, 0xaf0a1b4c, 0x36034af6, 0x41047a60, 0xdf60efc3, 0xa867df55, 0x316e8eef, 0x4669be79,
    0xcb61b38c, 0xbc66831a, 0x256fd2a0, 0x5268e236, 0xcc0c7795, 0xbb0b4703, 0x220216b9, 0x5505262f,
    0xc5ba3bbe, 0xb2bd0b28, 0x2bb45a92, 0x5cb36a04, 0xc2d7ffa7, 0xb5d0cf31, 0x2cd99e8b, 0x5bdeae1d,
    0x9b64c2b0, 0xec63f226, 0x756aa39c, 0x026d930a, 0x9c0906a9, 0xeb0e363f, 0x72076785, 0x05005713,
    0x95bf4a82, 0xe2b87a14, 0x7bb12bae, 0x0cb61b38, 0x92d28e9b, 0xe5d5be0d, 0x7cdcefb7, 0x0bdbdf21,
    0x86d3d2d4, 0xf1d4e242, 0x68ddb3f8, 0x1fda836e, 0x81be16cd, 0xf6b9265b, 0x6fb077e1, 0x18b74777,
    0x88085ae6, 0xff0f6a70, 0x66063bca, 0x11010b5c, 0x8f659eff, 0xf862ae69, 0x616bffd3, 0x166ccf45,
    0xa00ae278, 0xd70dd2ee, 0x4e048354, 0x3903b3c2, 0xa7672661, 0xd06016f7, 0x4969474d, 0x3e6e77db,
    0xaed16a4a, 0xd9d65adc, 0x40df0b66, 0x37d83bf0, 0xa9bcae53, 0xdebb9ec5, 0x47b2cf7f, 0x30b5ffe9,
    0xbdbdf21c, 0xcabac28a, 0x53b39330, 0x24b4a3a6, 0xbad03605, 0xcdd70693, 0x54de5729, 0x23d967bf,
    0xb3667a2e, 0xc4614ab8, 0x5d681b02, 0x2a6f2b94, 0xb40bbe37, 0xc30c8ea1, 0x5a05df1b, 0x2d02ef8d]"

fun crc32_loop :: "u8 list \<Rightarrow> u32 \<Rightarrow> u32" where
  "crc32_loop [] crc = crc"
| "crc32_loop (p # ps) crc =
     crc32_loop ps (crc32_tab ! unat ((crc XOR ucast p) AND 0xFF) XOR shr crc 8)"

definition crc32_inc :: "u8 list \<Rightarrow> u32 \<Rightarrow> u32" where
  "crc32_inc buf crc = crc32_loop buf (crc XOR NOT 0) XOR NOT 0"

definition crc32 :: "u8 list \<Rightarrow> u32" where
  "crc32 buf = crc32_inc buf 0"

section \<open>The bitwise computation\<close>

text \<open>Division by the reversed polynomial \<open>0xEDB88320\<close>, one bit at a time.\<close>

definition crc_bit :: "u32 \<Rightarrow> u32" where
  "crc_bit c = (if bit c 0 then shr c 1 XOR 0xEDB88320 else shr c 1)"

definition crc_byte :: "u32 \<Rightarrow> u8 \<Rightarrow> u32" where
  "crc_byte c p = (crc_bit ^^ 8) (c XOR ucast p)"

definition crc32_spec :: "u8 list \<Rightarrow> u32" where
  "crc32_spec buf = foldl crc_byte 0xFFFFFFFF buf XOR 0xFFFFFFFF"

section \<open>The table\<close>

text \<open>A step is linear for exclusive or, so the table is determined by its entries at powers of two.\<close>

lemma bit_crc_bit: "bit (crc_bit c) i \<longleftrightarrow> bit c (Suc i) \<noteq> (bit c 0 \<and> bit (0xEDB88320 :: u32) i)"
proof -
  have "bit (shr c 1) i = bit c (Suc i)" by (simp add: bits_of)
  then show ?thesis by (simp only: crc_bit_def bit_xor_iff split: if_split) simp
qed

lemma crc_bit_xor: "crc_bit (a XOR b) = crc_bit a XOR crc_bit b"
  by (rule u32_eqI) (auto simp only: bit_crc_bit bit_xor_iff)

lemma crc_bits_xor: "(crc_bit ^^ n) (a XOR b) = (crc_bit ^^ n) a XOR (crc_bit ^^ n) b"
  by (induction n) (simp_all add: crc_bit_xor)

definition crc_entry :: "nat \<Rightarrow> u32" where
  "crc_entry i = (crc_bit ^^ 8) (word_of_nat i)"

lemma crc_entry_add:
  assumes "i < 2 ^ k"
  shows "crc_entry (2 ^ k + i) = crc_entry i XOR crc_entry (2 ^ k)"
proof -
  have "i AND 2 ^ k = 0" using assms by (simp add: and_exp_eq_0_iff_not_bit bit_nat_def)
  then have "i + 2 ^ k = i XOR 2 ^ k" by (rule disjunctive_add_eq_xor)
  then have "(word_of_nat (2 ^ k + i) :: u32) = word_of_nat i XOR word_of_nat (2 ^ k)"
    by (simp only: add.commute of_nat_xor_eq)
  then show ?thesis by (simp only: crc_entry_def crc_bits_xor)
qed

lemma crc_entries_double:
  "List.map crc_entry [0..<2 * 2 ^ k] =
     (let es = List.map crc_entry [0..<2 ^ k] in es @ List.map (\<lambda>x. x XOR crc_entry (2 ^ k)) es)"
proof -
  have "[0..<2 * 2 ^ k] = [0..<2 ^ k] @ List.map (\<lambda>i. 2 ^ k + i) [0..<2 ^ k :: nat]"
    using upt_add_eq_append [of 0 "2 ^ k" "2 ^ k :: nat"] by (simp add: map_add_upt add.commute mult_2)
  then show ?thesis by (simp add: Let_def crc_entry_add)
qed

lemma crc_powers:
  "crc_entry 0 = 0" "crc_entry 1 = 0x77073096" "crc_entry 2 = 0xee0e612c" "crc_entry 4 = 0x076dc419"
  "crc_entry 8 = 0x0edb8832" "crc_entry 16 = 0x1db71064" "crc_entry 32 = 0x3b6e20c8"
  "crc_entry 64 = 0x76dc4190" "crc_entry 128 = 0xedb88320"
  by code_simp+

lemma crc_tab_built: "crc32_tab = List.map crc_entry [0..<256]"
proof -
  note d = crc_entries_double [of 0] crc_entries_double [of 1] crc_entries_double [of 2] crc_entries_double [of 3]
    crc_entries_double [of 4] crc_entries_double [of 5] crc_entries_double [of 6] crc_entries_double [of 7]
  have "List.map crc_entry [0..<1] = [0]" by (simp add: crc_powers)
  with d have "List.map crc_entry [0..<256] = crc32_tab"
    by (simp add: crc_powers crc_powers(2) [unfolded One_nat_def] Let_def crc32_tab_def)
  then show ?thesis by simp
qed

section \<open>The checksum\<close>

lemma crc_bits_high: "n \<le> 8 \<Longrightarrow> (crc_bit ^^ n) (x AND NOT 0xFF) = shr (x AND NOT 0xFF) (word_of_nat n)"
proof (induction n)
  case 0
  then show ?case by (simp add: shr_def)
next
  case (Suc n)
  have FF: "(0xFF :: u32) = mask 8" by (simp add: mask_eq_exp_minus_1)
  have u: "unat (word_of_nat m :: u32) = m" if "m \<le> 8" for m
    using that by (simp add: unat_of_nat)
  have "shr (shr (x AND NOT 0xFF) (word_of_nat n)) 1 = shr (x AND NOT 0xFF) (word_of_nat (Suc n))"
    using u [of n] u [of "Suc n"] Suc.prems by (intro u32_eqI) (simp only: bits_of, simp)
  moreover have "\<not> bit (shr (x AND NOT 0xFF) (word_of_nat n)) 0"
    using u [of n] Suc.prems by (simp add: FF bits_of)
  ultimately show ?case using Suc by (simp add: crc_bit_def)
qed

lemma crc_step: "crc32_tab ! unat ((crc XOR ucast p) AND 0xFF) XOR shr crc 8 = crc_byte crc (p :: u8)"
proof -
  let ?x = "crc XOR ucast p" and ?FF = "0xFF :: u32"
  have FF: "?FF = mask 8" by (simp add: mask_eq_exp_minus_1)
  have p: "bit (ucast p :: u32) i \<Longrightarrow> i < 8" for i
    using bit_imp_le_length [of p] by (simp add: bit_ucast_iff)
  have "unat (?x AND ?FF) < 256"
    using word_and_le1 [of ?x ?FF] by (simp add: word_le_nat_alt and.commute)
  then have "crc32_tab ! unat (?x AND ?FF) = (crc_bit ^^ 8) (?x AND ?FF)"
    by (simp add: crc_tab_built crc_entry_def)
  moreover have "shr crc 8 = (crc_bit ^^ 8) (?x AND NOT ?FF)"
  proof -
    have "(crc_bit ^^ 8) (?x AND NOT ?FF) = shr (?x AND NOT ?FF) 8"
      using crc_bits_high [of 8 ?x] by simp
    also have "\<dots> = shr crc 8" unfolding FF by (rule u32_eqI) (auto simp: bits_of dest: p bit_u32_bound)
    finally show ?thesis by (rule sym)
  qed
  moreover have "y = (y AND m) XOR (y AND NOT m)" for y m :: u32 by (rule u32_eqI) (auto simp: bits_of)
  from this [of ?x ?FF] have "crc_byte crc p = (crc_bit ^^ 8) (?x AND ?FF) XOR (crc_bit ^^ 8) (?x AND NOT ?FF)"
    unfolding crc_byte_def by (metis crc_bits_xor)
  ultimately show ?thesis by simp
qed

lemma crc32_loop_foldl: "crc32_loop buf crc = foldl crc_byte crc buf"
  by (induction buf arbitrary: crc) (simp_all only: crc32_loop.simps crc_step foldl.simps)

text \<open>C17. The table-driven checksum is the standard CRC-32: division of the message by the polynomial
  \<open>0x04C11DB7\<close> (reversed: \<open>0xEDB88320\<close>), bit by bit, with both complements.\<close>

theorem crc32_is_bitwise: "crc32 buf = crc32_spec buf"
proof -
  have "(0xFFFFFFFF :: u32) = NOT 0" by simp
  then show ?thesis
    by (simp only: crc32_def crc32_inc_def crc32_spec_def crc32_loop_foldl xor.left_neutral)
qed

text \<open>The checksum can be computed in pieces: continuing with \<open>crc32_inc\<close> from the checksum of the
  first part gives the checksum of the whole.\<close>

theorem crc32_incremental: "crc32_inc ys (crc32 xs) = crc32 (xs @ ys)"
  by (simp add: crc32_def crc32_inc_def crc32_loop_foldl xor.assoc)

text \<open>The check value of the standard: the checksum of the digits 1 to 9.\<close>

lemma crc32_check_value: "crc32 [0x31, 0x32, 0x33, 0x34, 0x35, 0x36, 0x37, 0x38, 0x39] = 0xCBF43926"
  by code_simp

end
