(* ===== verification/Proc.thy ===== *)
theory Proc
  imports Prelude
begin

text \<open>
  Two programs that talk over a serial line. A \<open>proc\<close> is a program as the tree of what it does on the
  line; a step relation runs two of them against each other in any order, with the bytes under way
  in two queues. The line loses nothing and a read waits for its byte.
\<close>

section \<open>Programs on a serial line\<close>

datatype 'a proc = Ret 'a | Fail err | Send u8 "'a proc" | Recv "u8 \<Rightarrow> 'a proc"

primrec pbind :: "'a proc \<Rightarrow> ('a \<Rightarrow> 'b proc) \<Rightarrow> 'b proc" where
  "pbind (Ret x) f = f x"
| "pbind (Fail e) f = Fail e"
| "pbind (Send b p) f = Send b (pbind p f)"
| "pbind (Recv g) f = Recv (\<lambda>b. pbind (g b) f)"

definition pthen :: "'a proc \<Rightarrow> 'b proc \<Rightarrow> 'b proc" where
  "pthen p q = pbind p (\<lambda>_. q)"

definition pcheck :: "bool \<Rightarrow> err \<Rightarrow> unit proc" where
  "pcheck b e = (if b then Ret () else Fail e)"

primrec sends :: "u8 list \<Rightarrow> 'a proc \<Rightarrow> 'a proc" where
  "sends [] p = p"
| "sends (b # bs) p = Send b (sends bs p)"

lemma pbind_assoc: "pbind (pbind p f) g = pbind p (\<lambda>x. pbind (f x) g)"
  by (induction p) simp_all

lemma pbind_sends [simp]: "pbind (sends bs p) f = sends bs (pbind p f)"
  by (induction bs) simp_all

lemma sends_append: "sends (xs @ ys) p = sends xs (sends ys p)"
  by (induction xs) simp_all

lemma pthen_simps [simp]:
  "pthen (Ret x) q = q" "pthen (Fail e) q = Fail e" "pthen (sends bs p) q = sends bs (pthen p q)"
  by (simp_all add: pthen_def)

lemma pcheck_simps [simp]: "pcheck True e = Ret ()" "pcheck False e = Fail e"
  by (simp_all add: pcheck_def)

section \<open>Running a program on the bytes that have arrived\<close>

primrec feed :: "'a proc \<Rightarrow> u8 list \<Rightarrow> 'a proc \<times> u8 list \<times> u8 list" where
  "feed (Ret x) = (\<lambda>bs. (Ret x, [], bs))"
| "feed (Fail e) = (\<lambda>bs. (Fail e, [], bs))"
| "feed (Send b p) = (\<lambda>bs. let (q, out, rest) = feed p bs in (q, b # out, rest))"
| "feed (Recv g) = (\<lambda>bs. case bs of [] \<Rightarrow> (Recv g, [], []) | b # bs \<Rightarrow> feed (g b) bs)"

lemma feed_sends [simp]: "feed (sends bs p) xs = (let (q, out, rest) = feed p xs in (q, bs @ out, rest))"
  by (induction bs) (simp_all split: prod.splits)

section \<open>Two programs\<close>

type_synonym ('a, 'b) link = "'a proc \<times> 'b proc \<times> u8 list \<times> u8 list"

text \<open>\<open>(p, q, pq, qp)\<close>: \<open>pq\<close> holds the bytes from \<open>p\<close> to \<open>q\<close> that are under way.\<close>

fun p_next :: "('a, 'b) link \<Rightarrow> ('a, 'b) link option" where
  "p_next (Send b p, q, pq, qp) = Some (p, q, pq @ [b], qp)"
| "p_next (Recv g, q, pq, b # qp) = Some (g b, q, pq, qp)"
| "p_next _ = None"

fun q_next :: "('a, 'b) link \<Rightarrow> ('a, 'b) link option" where
  "q_next (p, Send b q, pq, qp) = Some (p, q, pq, qp @ [b])"
| "q_next (p, Recv g, b # pq, qp) = Some (p, g b, pq, qp)"
| "q_next _ = None"

inductive link_step :: "('a, 'b) link \<Rightarrow> ('a, 'b) link \<Rightarrow> bool" where
  p_step: "p_next s = Some t \<Longrightarrow> link_step s t"
| q_step: "q_next s = Some t \<Longrightarrow> link_step s t"

inductive_simps link_step_iff: "link_step s t"

lemma p_next_cases:
  "p_next (p, q, pq, qp) = Some t \<Longrightarrow> (\<exists>b p'. p = Send b p' \<and> t = (p', q, pq @ [b], qp)) \<or>
     (\<exists>g b qp'. p = Recv g \<and> qp = b # qp' \<and> t = (g b, q, pq, qp'))"
  by (cases p; cases qp) auto

lemma q_next_cases:
  "q_next (p, q, pq, qp) = Some t \<Longrightarrow> (\<exists>b q'. q = Send b q' \<and> t = (p, q', pq, qp @ [b])) \<or>
     (\<exists>g b pq'. q = Recv g \<and> pq = b # pq' \<and> t = (p, g b, pq', qp))"
  by (cases q; cases pq) auto

lemma next_commute:
  assumes "p_next s = Some t" "q_next s = Some u"
  shows "\<exists>v. q_next t = Some v \<and> p_next u = Some v"
proof -
  obtain p q pq qp where s: "s = (p, q, pq, qp)" by (cases s)
  from p_next_cases [OF assms(1) [unfolded s]] q_next_cases [OF assms(2) [unfolded s]]
  show ?thesis by (elim disjE exE conjE) simp_all
qed

lemma link_diamond:
  "\<forall>s t u. link_step s t \<and> link_step s u \<longrightarrow> t = u \<or> (\<exists>v. link_step t v \<and> link_step u v)"
proof (intro allI impI)
  fix s t u :: "('a, 'b) link"
  assume a: "link_step s t \<and> link_step s u"
  have "\<exists>v. link_step a v \<and> link_step b v" if "p_next s = Some a" "q_next s = Some b" for a b
    using next_commute [OF that] by (blast intro: p_step q_step)
  note both = this
  from a have "p_next s = Some t \<or> q_next s = Some t" "p_next s = Some u \<or> q_next s = Some u"
    by (simp_all add: link_step_iff)
  then consider "t = u" | "p_next s = Some t" "q_next s = Some u" | "p_next s = Some u" "q_next s = Some t"
    by auto
  then show "t = u \<or> (\<exists>v. link_step t v \<and> link_step u v)"
    by cases (blast dest: both)+
qed

lemma diamond_steps:
  assumes d: "\<forall>s t u. R s t \<and> R s u \<longrightarrow> t = u \<or> (\<exists>v. R t v \<and> R u v)"
    and "(R ^^ n) s f" "\<not> (\<exists>g. R f g)" "R s t"
  shows "\<exists>m. n = Suc m \<and> (R ^^ m) t f"
  using assms(2-)
proof (induction n arbitrary: s t)
  case 0
  then show ?case by auto
next
  case (Suc n)
  from Suc.prems(1) obtain u where u: "R s u" "(R ^^ n) u f" by (rule relpowp_Suc_E2)
  from d Suc.prems(3) u(1) have "t = u \<or> (\<exists>v. R t v \<and> R u v)" by blast
  then show ?case
  proof
    assume "t = u"
    with u show ?thesis by blast
  next
    assume "\<exists>v. R t v \<and> R u v"
    then obtain v where v: "R t v" "R u v" by blast
    from Suc.IH [OF u(2) Suc.prems(2) v(2)] obtain m where "n = Suc m" "(R ^^ m) v f" by blast
    with v(1) show ?thesis using relpowp_Suc_I2 by fastforce
  qed
qed

text \<open>The two programs end the same way in every order of their steps.\<close>

lemma link_every_order:
  assumes "link_step\<^sup>*\<^sup>* s f" "\<not> (\<exists>g. link_step f g)" "link_step\<^sup>*\<^sup>* s t"
  shows "link_step\<^sup>*\<^sup>* t f"
  using assms(3)
proof (induction rule: rtranclp_induct)
  case base
  show ?case by (rule assms(1))
next
  case (step t u)
  from step.IH obtain n where "(link_step ^^ n) t f" by (auto simp: rtranclp_power)
  from diamond_steps [of link_step, OF link_diamond this assms(2) step.hyps(2)] show ?case
    unfolding rtranclp_power by blast
qed

lemma p_first: "p_next s = Some t \<Longrightarrow> link_step\<^sup>*\<^sup>* t u \<Longrightarrow> link_step\<^sup>*\<^sup>* s u"
  by (blast intro: converse_rtranclp_into_rtranclp p_step)

lemma q_first: "q_next s = Some t \<Longrightarrow> link_step\<^sup>*\<^sup>* t u \<Longrightarrow> link_step\<^sup>*\<^sup>* s u"
  by (blast intro: converse_rtranclp_into_rtranclp q_step)

lemma p_feed: "feed p qp = (p', out, rest) \<Longrightarrow> link_step\<^sup>*\<^sup>* (p, q, pq, qp) (p', q, pq @ out, rest)"
proof (induction p arbitrary: pq qp out)
  case (Send b p)
  then obtain out' where o': "feed p qp = (p', out', rest)" "out = b # out'" by (auto split: prod.splits)
  from Send.IH [OF o'(1), of "pq @ [b]"] o'(2) show ?case by (intro p_first [of "(Send b p, q, pq, qp)"]) simp_all
next
  case (Recv g)
  show ?case
  proof (cases qp)
    case Nil
    with Recv.prems show ?thesis by simp
  next
    case (Cons b bs)
    with Recv.prems have "feed (g b) bs = (p', out, rest)" by simp
    from Recv.IH [OF rangeI this, of pq] Cons show ?thesis by (intro p_first [of "(Recv g, q, pq, qp)"]) simp_all
  qed
qed auto

lemma q_feed: "feed q pq = (q', out, rest) \<Longrightarrow> link_step\<^sup>*\<^sup>* (p, q, pq, qp) (p, q', rest, qp @ out)"
proof (induction q arbitrary: pq qp out)
  case (Send b q)
  then obtain out' where o': "feed q pq = (q', out', rest)" "out = b # out'" by (auto split: prod.splits)
  from Send.IH [OF o'(1), of "qp @ [b]"] o'(2) show ?case by (intro q_first [of "(p, Send b q, pq, qp)"]) simp_all
next
  case (Recv g)
  show ?case
  proof (cases pq)
    case Nil
    with Recv.prems show ?thesis by simp
  next
    case (Cons b bs)
    with Recv.prems have "feed (g b) bs = (q', out, rest)" by simp
    from Recv.IH [OF rangeI this, of qp] Cons show ?thesis by (intro q_first [of "(p, Recv g, pq, qp)"]) simp_all
  qed
qed auto

lemma link_done: "\<not> (\<exists>s. link_step (Ret x, Ret y, pq, qp) s)"
  by (simp add: link_step_iff)

end
