(* ===== verification/Bootloader.thy ===== *)
theory Bootloader
  imports Proc Crc
begin

unbundle bit_operations_syntax

text \<open>
  The boot protocol: the Pi side \<open>get_code\<close> (\<open>labs/7-bootloader/2-pi-side/get-code.h\<close>) and the unix side
  \<open>simple_boot\<close> (\<open>1-unix-side/put-code.c\<close>, with \<open>libunix/put-get.c\<close>), as programs on a serial line.
  The Pi's memory is a function from addresses to bytes that \<open>get_code\<close> threads through. The link
  symbols \<open>PUT32\<close> and \<open>__prog_end__\<close> are the parameters \<open>pstart\<close> and \<open>pend\<close>; the results of the timed
  waits are a parameter too. Terminal output, the tracing of the unix side, the final delay and flush
  are left out. Loops with no bound take one, and \<open>Stuck\<close> is running out of it.
\<close>

section \<open>Protocol values\<close>

definition ARMBASE :: u32 where "ARMBASE = 0x8000"
definition BOOT_START :: u32 where "BOOT_START = 0xFFFF0000"
definition GET_PROG_INFO :: u32 where "GET_PROG_INFO = 0x11112222"
definition PUT_PROG_INFO :: u32 where "PUT_PROG_INFO = 0x33334444"
definition GET_CODE :: u32 where "GET_CODE = 0x55556666"
definition PUT_CODE :: u32 where "PUT_CODE = 0x77778888"
definition BOOT_SUCCESS :: u32 where "BOOT_SUCCESS = 0x9999AAAA"
definition BOOT_ERROR :: u32 where "BOOT_ERROR = 0xBBBBCCCC"
definition PRINT_STRING :: u32 where "PRINT_STRING = 0xDDDDEEEE"

lemmas opcodes = BOOT_START_def GET_PROG_INFO_def PUT_PROG_INFO_def GET_CODE_def PUT_CODE_def
  BOOT_SUCCESS_def BOOT_ERROR_def PRINT_STRING_def

definition boot_op_to_str :: "u32 \<Rightarrow> string" where
  "boot_op_to_str op =
     (if op = BOOT_START then ''BOOT_START'' else if op = GET_PROG_INFO then ''GET_PROG_INFO''
      else if op = PUT_PROG_INFO then ''PUT_PROG_INFO'' else if op = GET_CODE then ''GET_CODE''
      else if op = PUT_CODE then ''PUT_CODE'' else if op = BOOT_SUCCESS then ''BOOT_SUCCESS''
      else if op = PRINT_STRING then ''PRINT_STRING'' else if op = BOOT_ERROR then ''BOOT_ERROR''
      else ''UNKNOWN'')"

section \<open>The Pi side\<close>

definition boot_get8 :: "u8 proc" where
  "boot_get8 = Recv Ret"

definition boot_put8 :: "u8 \<Rightarrow> unit proc" where
  "boot_put8 x = Send x (Ret ())"

definition boot_get32 :: "u32 proc" where
  "boot_get32 =
     pbind boot_get8 (\<lambda>a. let u = ucast a in
     pbind boot_get8 (\<lambda>b. let u = u OR shl (ucast b) 8 in
     pbind boot_get8 (\<lambda>c. let u = u OR shl (ucast c) 16 in
     pbind boot_get8 (\<lambda>d. let u = u OR shl (ucast d) 24 in Ret u))))"

definition boot_put32 :: "u32 \<Rightarrow> unit proc" where
  "boot_put32 u =
     pthen (boot_put8 (ucast (shr u 0 AND 0xff))) (pthen (boot_put8 (ucast (shr u 8 AND 0xff)))
     (pthen (boot_put8 (ucast (shr u 16 AND 0xff))) (boot_put8 (ucast (shr u 24 AND 0xff)))))"

fun put_chars :: "u8 list \<Rightarrow> unit proc" where
  "put_chars [] = Ret ()"
| "put_chars (c # cs) = pthen (boot_put8 c) (put_chars cs)"

definition boot_putk :: "u8 list \<Rightarrow> unit proc" where
  "boot_putk msg =
     pthen (boot_put32 PRINT_STRING) (pthen (boot_put32 (word_of_nat (length msg))) (put_chars msg))"

definition boot_err :: "u32 \<Rightarrow> u8 list \<Rightarrow> 'a proc" where
  "boot_err error_opcode msg = pthen (boot_putk msg) (pthen (boot_put32 error_opcode) (Fail Rebooted))"

text \<open>
  \<open>has_data_timeout\<close> with \<open>s\<close> the first reading of the microsecond counter and the list of the
  readings and receiver states of the rounds of its loop.
\<close>

fun has_data_timeout :: "u32 \<Rightarrow> u32 \<Rightarrow> (u32 \<times> u32) list \<Rightarrow> bool res" where
  "has_data_timeout timeout s [] = Inl Stuck"
| "has_data_timeout timeout s ((e, has_data) # rounds) =
     (if has_data = 1 then Inr True
      else if timeout \<le> e - s then Inr False
      else has_data_timeout timeout s rounds)"

text \<open>The list holds what \<open>has_data_timeout\<close> returned each time.\<close>

fun wait_for_data :: "bool list \<Rightarrow> unit proc" where
  "wait_for_data [] = Fail Stuck"
| "wait_for_data (r # rs) =
     pthen (boot_put32 GET_PROG_INFO) (if r then Ret () else wait_for_data rs)"

type_synonym mem = "u32 \<Rightarrow> u8"

fun copy_code :: "nat \<Rightarrow> u32 \<Rightarrow> u32 \<Rightarrow> mem \<Rightarrow> mem proc" where
  "copy_code 0 addr i m = Ret m"
| "copy_code (Suc k) addr i m = pbind boot_get8 (\<lambda>c. copy_code k addr (i + 1) (m(addr + i := c)))"

definition mem_bytes :: "mem \<Rightarrow> u32 \<Rightarrow> u32 \<Rightarrow> u8 list" where
  "mem_bytes m addr n = List.map (\<lambda>i. m (addr + word_of_nat i)) [0..<unat n]"

text \<open>\<open>"UART - Jiayang"\<close>.\<close>

definition boot_name :: "u8 list" where
  "boot_name = [0x55, 0x41, 0x52, 0x54, 0x20, 0x2D, 0x20, 0x4A, 0x69, 0x61, 0x79, 0x61, 0x6E, 0x67]"

definition collides :: "u32 \<Rightarrow> u32 \<Rightarrow> u32 \<Rightarrow> u32 \<Rightarrow> bool" where
  "collides pstart pend addr n \<longleftrightarrow> pstart \<le> addr + n \<and> addr \<le> pend"

text \<open>Steps 5 to 7 of \<open>get_code\<close>, then steps 2 to 7, then all of it.\<close>

definition get_code_load :: "u32 \<Rightarrow> u32 \<Rightarrow> u32 \<Rightarrow> mem \<Rightarrow> (u32 \<times> mem) proc" where
  "get_code_load addr n crc m =
     pbind boot_get32 (\<lambda>_.
     pbind (copy_code (unat n) addr 0 m) (\<lambda>m.
     pthen (if crc32 (mem_bytes m addr n) \<noteq> crc then boot_put32 BOOT_ERROR else Ret ())
     (pthen (boot_putk boot_name) (pthen (boot_put32 BOOT_SUCCESS) (Ret (addr, m))))))"

definition get_code_info :: "u32 \<Rightarrow> u32 \<Rightarrow> mem \<Rightarrow> (u32 \<times> mem) proc" where
  "get_code_info pstart pend m =
     pbind boot_get32 (\<lambda>_. pbind boot_get32 (\<lambda>addr. pbind boot_get32 (\<lambda>n. pbind boot_get32 (\<lambda>crc.
     pthen (if collides pstart pend addr n then boot_put32 BOOT_ERROR else Ret ())
     (pthen (boot_put32 GET_CODE) (pthen (boot_put32 crc) (get_code_load addr n crc m)))))))"

definition get_code :: "u32 \<Rightarrow> u32 \<Rightarrow> bool list \<Rightarrow> mem \<Rightarrow> (u32 \<times> mem) proc" where
  "get_code pstart pend waits m = pthen (wait_for_data waits) (get_code_info pstart pend m)"

text \<open>The Pi's main program branches to the address it returns; address 0 is a reboot.\<close>

definition boot_main :: "u32 \<Rightarrow> u32 \<Rightarrow> bool list \<Rightarrow> mem \<Rightarrow> (u32 \<times> mem) proc" where
  "boot_main pstart pend waits m =
     pbind (get_code pstart pend waits m) (\<lambda>(addr, m). if addr = 0 then Fail Rebooted else Ret (addr, m))"

section \<open>The unix side\<close>

definition put_uint8 :: "u8 \<Rightarrow> unit proc" where
  "put_uint8 b = Send b (Ret ())"

definition put_uint32 :: "u32 \<Rightarrow> unit proc" where
  "put_uint32 u = sends (le_bytes u) (Ret ())"

definition get_uint8 :: "u8 proc" where
  "get_uint8 = Recv Ret"

definition get_uint32 :: "u32 proc" where
  "get_uint32 =
     pbind get_uint8 (\<lambda>a. let u = ucast a in
     pbind get_uint8 (\<lambda>b. let u = u OR shl (ucast b) 8 in
     pbind get_uint8 (\<lambda>c. let u = u OR shl (ucast c) 16 in
     pbind get_uint8 (\<lambda>d. let u = u OR shl (ucast d) 24 in Ret u))))"

fun eat :: "nat \<Rightarrow> unit proc" where
  "eat 0 = Ret ()"
| "eat (Suc k) = pbind get_uint8 (\<lambda>_. eat k)"

text \<open>The loop over \<open>nbytes-1\<close> compares unsigned values, so a length of 0 means 4294967295 rounds.\<close>

fun get_op :: "nat \<Rightarrow> u32 proc" where
  "get_op 0 = Fail Stuck"
| "get_op (Suc m) = pbind get_uint32 (\<lambda>op.
     if op \<noteq> PRINT_STRING then Ret op
     else pbind get_uint32 (\<lambda>nbytes.
          pthen (pcheck (nbytes < 512) Assert_fail)
          (pthen (eat (unat (nbytes - 1))) (pbind get_uint8 (\<lambda>c. get_op m)))))"

fun sync :: "nat \<Rightarrow> nat \<Rightarrow> unit proc" where
  "sync m 0 = Fail Stuck"
| "sync m (Suc k) = pbind (get_op m) (\<lambda>op. if op \<noteq> GET_PROG_INFO then pbind get_uint8 (\<lambda>_. sync m k) else Ret ())"

fun drain_info :: "nat \<Rightarrow> nat \<Rightarrow> u32 proc" where
  "drain_info m 0 = Fail Stuck"
| "drain_info m (Suc k) = pbind (get_op m) (\<lambda>op. if op = GET_PROG_INFO then drain_info m k else Ret op)"

fun put_code_bytes :: "u8 list \<Rightarrow> unit proc" where
  "put_code_bytes [] = Ret ()"
| "put_code_bytes (b # bs) = pthen (put_uint8 b) (put_code_bytes bs)"

text \<open>\<open>m\<close> bounds the strings printed before an opcode and \<open>k\<close> the rounds of the two waiting loops. The
  argument \<open>boot_addr\<close> is not used: the address sent is always \<open>ARMBASE\<close>.\<close>

definition simple_boot :: "nat \<Rightarrow> nat \<Rightarrow> u32 \<Rightarrow> u8 list \<Rightarrow> unit proc" where
  "simple_boot m k boot_addr buf =
     pthen (sync m k)
     (pthen (put_uint32 PUT_PROG_INFO) (pthen (put_uint32 ARMBASE)
     (pthen (put_uint32 (word_of_nat (length buf))) (pthen (put_uint32 (crc32 buf))
     (pbind (drain_info m k) (\<lambda>op.
     pthen (pcheck (op = GET_CODE) Assert_fail)
     (pbind get_uint32 (\<lambda>crc.
     pthen (pcheck (crc = crc32 buf) Assert_fail)
     (pthen (put_uint32 PUT_CODE) (pthen (put_code_bytes buf)
     (pbind (get_op m) (\<lambda>op. pcheck (op = BOOT_SUCCESS) Assert_fail))))))))))))"

section \<open>Words on the line\<close>

lemma boot_put32_sends: "boot_put32 u = sends (le_bytes u) (Ret ())"
proof -
  have "ucast (shr u k AND 0xff) = (ucast (drop_bit (unat k) u) :: u8)" for k
  proof (rule bit_word_eqI)
    fix i assume "i < LENGTH(8)"
    moreover have FF: "(0xff :: u32) = mask 8" by (simp add: mask_eq_exp_minus_1)
    ultimately show "bit (ucast (shr u k AND 0xff) :: u8) i = bit (ucast (drop_bit (unat k) u) :: u8) i"
      unfolding FF by (simp add: bits_of bit_drop_bit_eq)
  qed
  from this [of 0] this [of 8] this [of 16] this [of 24] show ?thesis
    by (simp add: boot_put32_def boot_put8_def le_bytes_eq pthen_def)
qed

lemma put_chars_sends: "put_chars cs = sends cs (Ret ())"
  by (induction cs) (simp_all add: boot_put8_def pthen_def)

lemma put_code_bytes_sends: "put_code_bytes cs = sends cs (Ret ())"
  by (induction cs) (simp_all add: put_uint8_def pthen_def)

lemma get_uint32_eq: "get_uint32 = boot_get32"
  by (simp add: get_uint32_def boot_get32_def get_uint8_def boot_get8_def)

lemma feed_word:
  "feed (pbind boot_get32 f) (a # b # c # d # xs) = feed (f (le_word a b c d)) xs"
  by (simp add: boot_get32_def boot_get8_def le_word_def shl_def)

lemma feed_get32 [simp]: "feed (pbind boot_get32 f) (le_bytes w @ xs) = feed (f w) xs"
  by (simp add: le_bytes_eq feed_word le_word_bytes)

lemma feed_get32_wait [simp]: "feed (pbind boot_get32 f) [] = (pbind boot_get32 f, [], [])"
  by (simp add: boot_get32_def boot_get8_def)

text \<open>Byte order: a word sent by either side is received unchanged by either side's reader.\<close>

theorem word_on_the_line:
  "feed (pthen (boot_put32 u) p) xs = (let (q, out, rest) = feed p xs in (q, le_bytes u @ out, rest)) \<and>
   feed (pthen (put_uint32 u) p) xs = (let (q, out, rest) = feed p xs in (q, le_bytes u @ out, rest)) \<and>
   feed (pbind boot_get32 f) (le_bytes u @ xs) = feed (f u) xs \<and>
   feed (pbind get_uint32 f) (le_bytes u @ xs) = feed (f u) xs"
  by (simp add: boot_put32_sends put_uint32_def get_uint32_eq)

lemma feed_get_op:
  "op \<noteq> PRINT_STRING \<Longrightarrow> feed (pbind (get_op (Suc m)) f) (le_bytes op @ xs) = feed (f op) xs"
  by (simp add: get_uint32_eq pbind_assoc)

lemma feed_get_op_wait: "feed (pbind (get_op (Suc m)) f) [] = (pbind (get_op (Suc m)) f, [], [])"
  by (simp add: get_uint32_eq pbind_assoc)

lemma feed_eat: "feed (pthen (eat (length bs)) p) (bs @ xs) = feed p xs"
  by (induction bs) (simp_all add: get_uint8_def pthen_def)

lemma feed_get_op_print:
  assumes "length bs = unat n" "0 < n" "n < 512"
  shows "feed (pbind (get_op (Suc m)) f) (le_bytes PRINT_STRING @ le_bytes n @ bs @ xs) = feed (pbind (get_op m) f) xs"
proof -
  have "unat (n - 1) = unat n - 1" using assms(2) by (intro unat_minus_one) auto
  moreover from assms(1,2) obtain cs c where bs: "bs = cs @ [c]"
    by (metis length_greater_0_conv rev_exhaust word_less_nat_alt unat_0 list.size(3) not_less_zero)
  ultimately have l: "unat (n - 1) = length cs" using assms(1) by simp
  have "feed (pbind (get_op (Suc m)) f) (le_bytes PRINT_STRING @ le_bytes n @ bs @ xs) =
      feed (pthen (eat (length cs)) (pbind get_uint8 (\<lambda>c. pbind (get_op m) f))) (cs @ c # xs)"
    using assms(3) by (simp add: get_uint32_eq pbind_assoc pthen_def l bs)
  also have "\<dots> = feed (pbind (get_op m) f) xs"
    by (simp add: feed_eat get_uint8_def)
  finally show ?thesis .
qed

section \<open>Copying the code\<close>

fun load :: "mem \<Rightarrow> u32 \<Rightarrow> u8 list \<Rightarrow> mem" where
  "load m a [] = m"
| "load m a (b # bs) = load (m(a := b)) (a + 1) bs"

lemma feed_copy:
  "feed (pbind (copy_code (length bs) addr i m) f) (bs @ xs) = feed (f (load m (addr + i) bs)) xs"
  by (induction bs arbitrary: i m) (simp_all add: boot_get8_def add.assoc)

lemma load_outside: "(\<And>i. i < length bs \<Longrightarrow> x \<noteq> a + word_of_nat i) \<Longrightarrow> load m a bs x = m x"
proof (induction bs arbitrary: m a)
  case Nil
  then show ?case by simp
next
  case (Cons b bs)
  have "x \<noteq> a + 1 + word_of_nat i" if "i < length bs" for i
    using Cons.prems [of "Suc i"] that by (simp add: add.assoc)
  moreover have "x \<noteq> a" using Cons.prems [of 0] by simp
  ultimately show ?case using Cons.IH [of "a + 1"] by simp
qed

lemma load_at: "i < length bs \<Longrightarrow> length bs \<le> 2 ^ 32 \<Longrightarrow> load m a bs (a + word_of_nat i) = bs ! i"
proof (induction bs arbitrary: m a i)
  case Nil
  then show ?case by simp
next
  case (Cons b bs)
  show ?case
  proof (cases i)
    case 0
    have "a \<noteq> a + 1 + word_of_nat j" if "j < length bs" for j
    proof
      assume "a = a + 1 + word_of_nat j"
      then have "(word_of_nat (Suc j) :: u32) = 0" by (simp add: add.assoc)
      then have "2 ^ 32 dvd Suc j" unfolding word_of_nat_eq_0_iff by simp
      with that Cons.prems(2) show False by (auto dest: dvd_imp_le)
    qed
    then show ?thesis using 0 load_outside [of bs a "a + 1" "m(a := b)"] by simp
  next
    case (Suc j)
    have "load (m(a := b)) (a + 1) bs (a + 1 + word_of_nat j) = bs ! j"
      by (rule Cons.IH) (use Suc Cons.prems in simp_all)
    with Suc show ?thesis by (simp add: add.assoc)
  qed
qed

lemma mem_bytes_load:
  "unat n = length bs \<Longrightarrow> mem_bytes (load m a bs) a n = bs"
proof -
  assume n: "unat n = length bs"
  then have "length bs \<le> 2 ^ 32" using unat_u32_lt [of n] by simp
  then show ?thesis using n by (intro nth_equalityI) (simp_all add: mem_bytes_def load_at)
qed

section \<open>A session\<close>

definition boot_start :: "u32 \<Rightarrow> u32 \<Rightarrow> bool list \<Rightarrow> mem \<Rightarrow> nat \<Rightarrow> nat \<Rightarrow> u32 \<Rightarrow> u8 list \<Rightarrow> (u32 \<times> mem, unit) link" where
  "boot_start pstart pend waits m j k a buf = (get_code pstart pend waits m, simple_boot j k a buf, [], [])"

definition info_requests :: "nat \<Rightarrow> u8 list" where
  "info_requests n = List.concat (replicate n (le_bytes GET_PROG_INFO))"

lemma info_requests_simps [simp]:
  "info_requests 0 = []" "info_requests (Suc n) = le_bytes GET_PROG_INFO @ info_requests n"
  by (simp_all add: info_requests_def)

lemma feed_wait:
  "feed (pthen (wait_for_data (replicate n False @ [True])) p) [] =
     (let (q, out, rest) = feed p [] in (q, info_requests (Suc n) @ out, rest))"
proof (induction n)
  case 0
  then show ?case by (simp add: boot_put32_sends pthen_def split: prod.splits)
next
  case (Suc n)
  then show ?case by (simp add: boot_put32_sends pthen_def split: prod.splits)
qed

text \<open>What the unix side does after synchronising, and after the opcode that ends the drain.\<close>

definition unix_code :: "nat \<Rightarrow> u8 list \<Rightarrow> u32 \<Rightarrow> unit proc" where
  "unix_code j buf op =
     pthen (pcheck (op = GET_CODE) Assert_fail)
     (pbind get_uint32 (\<lambda>crc.
     pthen (pcheck (crc = crc32 buf) Assert_fail)
     (pthen (put_uint32 PUT_CODE) (pthen (put_code_bytes buf)
     (pbind (get_op j) (\<lambda>op. pcheck (op = BOOT_SUCCESS) Assert_fail))))))"

lemma simple_boot_eq:
  "simple_boot j k a buf = pthen (sync j k) (sends (le_bytes PUT_PROG_INFO @ le_bytes ARMBASE @
     le_bytes (word_of_nat (length buf)) @ le_bytes (crc32 buf)) (pbind (drain_info j k) (unix_code j buf)))"
  by (simp add: simple_boot_def unix_code_def [abs_def] put_uint32_def sends_append)

lemma feed_sync:
  "feed (pthen (sync (Suc j) (Suc k)) p) (le_bytes GET_PROG_INFO @ xs) = feed p xs"
  unfolding pthen_def sync.simps pbind_assoc by (subst feed_get_op) (simp_all add: opcodes)

lemma feed_drain:
  assumes "op \<noteq> GET_PROG_INFO" "op \<noteq> PRINT_STRING" "n < k"
  shows "feed (pbind (drain_info (Suc j) k) f) (info_requests n @ le_bytes op @ xs) = feed (f op) xs"
  using assms(3)
proof (induction n arbitrary: k)
  case 0
  then obtain k' where "k = Suc k'" by (cases k) simp_all
  with assms show ?case unfolding drain_info.simps pbind_assoc by (simp add: feed_get_op pbind_assoc del: get_op.simps)
next
  case (Suc n)
  then obtain k' where k: "k = Suc k'" "n < k'" by (cases k) simp_all
  have "GET_PROG_INFO \<noteq> PRINT_STRING" by (simp add: opcodes)
  with Suc.IH [OF k(2)] k(1) show ?case
    by (simp add: feed_get_op pbind_assoc del: get_op.simps)
qed

lemma feed_drain_wait:
  "feed (pbind (drain_info (Suc j) (n + Suc k)) f) (info_requests n) = (pbind (drain_info (Suc j) (Suc k)) f, [], [])"
proof (induction n)
  case 0
  then show ?case by (simp add: pbind_assoc feed_get_op_wait del: get_op.simps)
next
  case (Suc n)
  have "GET_PROG_INFO \<noteq> PRINT_STRING" by (simp add: opcodes)
  with Suc show ?case by (simp add: pbind_assoc feed_get_op del: get_op.simps)
qed

lemmas feed_get32_last [simp] = feed_get32 [of _ _ "[]", simplified]

lemma pi_info:
  assumes "\<not> collides pstart pend a n"
  shows "feed (get_code_info pstart pend m) (le_bytes PUT_PROG_INFO @ le_bytes a @ le_bytes n @ le_bytes c) =
    (get_code_load a n c m, le_bytes GET_CODE @ le_bytes c, [])"
  using assms by (simp add: get_code_info_def get_code_load_def boot_put32_sends)

lemma pi_load:
  assumes "unat n = length buf"
  shows "feed (get_code_load a n (crc32 buf) m) (le_bytes PUT_CODE @ buf) =
    (Ret (a, load m a buf), le_bytes PRINT_STRING @ le_bytes 14 @ boot_name @ le_bytes BOOT_SUCCESS, [])"
proof -
  have "word_of_nat (length boot_name) = (14 :: u32)" by (simp add: boot_name_def)
  then show ?thesis
    using assms by (simp add: get_code_load_def feed_copy [of buf _ _ _ _ "[]", simplified] mem_bytes_load
        boot_putk_def boot_put32_sends put_chars_sends)
qed

lemma unix_info:
  "feed (simple_boot (Suc j) (r + Suc k) a buf) (info_requests (Suc r)) =
    (pbind (drain_info (Suc j) (Suc k)) (unix_code (Suc j) buf),
     le_bytes PUT_PROG_INFO @ le_bytes ARMBASE @ le_bytes (word_of_nat (length buf)) @ le_bytes (crc32 buf), [])"
  unfolding simple_boot_eq info_requests_simps add_Suc_right
  by (subst feed_sync) (simp only: feed_sends feed_drain_wait [unfolded add_Suc_right] Let_def prod.case append_Nil2 append_assoc)

lemma unix_send:
  "feed (pbind (drain_info (Suc j) (Suc k)) (unix_code (Suc j) buf)) (le_bytes GET_CODE @ le_bytes (crc32 buf)) =
    (pbind (get_op (Suc j)) (\<lambda>op. pcheck (op = BOOT_SUCCESS) Assert_fail), le_bytes PUT_CODE @ buf, [])"
proof -
  have "GET_CODE \<noteq> GET_PROG_INFO" "GET_CODE \<noteq> PRINT_STRING" by (simp_all add: opcodes)
  from feed_drain [OF this, of 0 "Suc k" j "unix_code (Suc j) buf" "le_bytes (crc32 buf)"]
  show ?thesis
    by (simp add: unix_code_def get_uint32_eq put_uint32_def put_code_bytes_sends feed_get_op_wait
        del: get_op.simps drain_info.simps)
qed

lemma unix_done:
  "feed (pbind (get_op (Suc (Suc j))) (\<lambda>op. pcheck (op = BOOT_SUCCESS) Assert_fail))
     (le_bytes PRINT_STRING @ le_bytes 14 @ boot_name @ le_bytes BOOT_SUCCESS) = (Ret (), [], [])"
proof -
  have "length boot_name = unat (14 :: u32)" by (simp add: boot_name_def)
  moreover have "BOOT_SUCCESS \<noteq> PRINT_STRING" by (simp add: opcodes)
  ultimately show ?thesis
    by (simp add: feed_get_op_print feed_get_op [of _ _ _ "[]", unfolded append_Nil2] del: get_op.simps)
qed

lemma boot_session:
  assumes "unat n = length buf" "\<not> collides pstart pend ARMBASE n"
  shows "link_step\<^sup>*\<^sup>* (boot_start pstart pend (replicate r False @ [True]) m (Suc (Suc j)) (r + Suc k) a buf)
    (Ret (ARMBASE, load m ARMBASE buf), Ret (), [], [])"
proof -
  have n: "n = word_of_nat (length buf)" by (simp add: word_unat_eq_iff unat_of_nat flip: assms(1))
  let ?P1 = "get_code_info pstart pend m" and ?P2 = "get_code_load ARMBASE n (crc32 buf) m"
  let ?U1 = "pbind (drain_info (Suc (Suc j)) (Suc k)) (unix_code (Suc (Suc j)) buf)"
  let ?U2 = "pbind (get_op (Suc (Suc j))) (\<lambda>op. pcheck (op = BOOT_SUCCESS) Assert_fail)"
  have w: "feed (get_code pstart pend (replicate r False @ [True]) m) [] = (?P1, info_requests (Suc r), [])"
    unfolding get_code_def feed_wait by (simp add: get_code_info_def)
  have "link_step\<^sup>*\<^sup>* (boot_start pstart pend (replicate r False @ [True]) m (Suc (Suc j)) (r + Suc k) a buf)
      (?P1, simple_boot (Suc (Suc j)) (r + Suc k) a buf, info_requests (Suc r), [])"
    using p_feed [OF w, where pq = "[]"] by (simp add: boot_start_def)
  also have "link_step\<^sup>*\<^sup>* \<dots> (?P1, ?U1, [], le_bytes PUT_PROG_INFO @ le_bytes ARMBASE @ le_bytes n @ le_bytes (crc32 buf))"
    using q_feed [OF unix_info, where qp = "[]"] unfolding n by (simp only: append_Nil)
  also have "link_step\<^sup>*\<^sup>* \<dots> (?P2, ?U1, le_bytes GET_CODE @ le_bytes (crc32 buf), [])"
    using p_feed [OF pi_info [OF assms(2)], where pq = "[]"] by (simp only: append_Nil)
  also have "link_step\<^sup>*\<^sup>* \<dots> (?P2, ?U2, [], le_bytes PUT_CODE @ buf)"
    using q_feed [OF unix_send, where qp = "[]"] by (simp only: append_Nil)
  also have "link_step\<^sup>*\<^sup>* \<dots> (Ret (ARMBASE, load m ARMBASE buf), ?U2,
      le_bytes PRINT_STRING @ le_bytes 14 @ boot_name @ le_bytes BOOT_SUCCESS, [])"
    using p_feed [OF pi_load [OF assms(1)], where pq = "[]"] by (simp only: append_Nil)
  also have "link_step\<^sup>*\<^sup>* \<dots> (Ret (ARMBASE, load m ARMBASE buf), Ret (), [], [])"
    using q_feed [OF unix_done, where qp = "[]"] by (simp only: append_Nil)
  finally show ?thesis .
qed

text \<open>C2. The boot protocol works in every order in which the two machines take their steps: when the
  program does not reach the bootloader, whatever they have done so far, they can go on, and the only
  end is that the unix side is done and the Pi returns the start address with the program in its
  memory at that address and nothing else changed. The Pi may have asked any number of times before
  the unix side answered (\<open>r\<close> timeouts).\<close>

theorem boot_delivers:
  assumes "length buf < 2 ^ 32" "\<not> collides pstart pend ARMBASE (word_of_nat (length buf))"
    and "link_step\<^sup>*\<^sup>* (boot_start pstart pend (replicate r False @ [True]) m (Suc (Suc j)) (r + Suc k) a buf) s"
  shows "\<exists>m'. link_step\<^sup>*\<^sup>* s (Ret (ARMBASE, m'), Ret (), [], []) \<and>
    mem_bytes m' ARMBASE (word_of_nat (length buf)) = buf \<and>
    (\<forall>x. (\<forall>i < length buf. x \<noteq> ARMBASE + word_of_nat i) \<longrightarrow> m' x = m x)"
proof (intro exI conjI)
  have n: "unat (word_of_nat (length buf) :: u32) = length buf" using assms(1) by (simp add: unat_of_nat)
  show "link_step\<^sup>*\<^sup>* s (Ret (ARMBASE, load m ARMBASE buf), Ret (), [], [])"
    by (rule link_every_order [OF boot_session [OF n assms(2)] link_done assms(3)])
  show "mem_bytes (load m ARMBASE buf) ARMBASE (word_of_nat (length buf)) = buf"
    by (rule mem_bytes_load [OF n])
  show "\<forall>x. (\<forall>i < length buf. x \<noteq> ARMBASE + word_of_nat i) \<longrightarrow> load m ARMBASE buf x = m x"
    using load_outside by blast
qed

theorem boot_delivers_witness:
  "\<exists>m'. link_step\<^sup>*\<^sup>* (boot_start 0x200000 0x300000 [False, True] (\<lambda>_. 0) (Suc (Suc 0)) (1 + Suc 0) 0 [0xAB, 0xCD])
     (Ret (ARMBASE, m'), Ret (), [], []) \<and> m' 0x8000 = 0xAB \<and> m' 0x8001 = 0xCD"
proof -
  have l: "length [0xAB, 0xCD :: u8] < 2 ^ 32" by simp
  have n: "word_of_nat (length [0xAB, 0xCD :: u8]) = (2 :: u32)" by simp
  have c: "\<not> collides 0x200000 0x300000 ARMBASE (word_of_nat (length [0xAB, 0xCD :: u8]))"
    by (simp add: collides_def ARMBASE_def)
  from boot_delivers [OF l c rtranclp.rtrancl_refl, of 1 "\<lambda>_. 0" 0 0 0] obtain m' where
    "link_step\<^sup>*\<^sup>* (boot_start 0x200000 0x300000 (replicate 1 False @ [True]) (\<lambda>_. 0) (Suc (Suc 0)) (1 + Suc 0) 0 [0xAB, 0xCD])
      (Ret (ARMBASE, m'), Ret (), [], [])" "mem_bytes m' ARMBASE 2 = [0xAB, 0xCD]"
    unfolding n by blast
  moreover have "mem_bytes m' ARMBASE 2 = [m' 0x8000, m' 0x8001]"
    by (simp add: mem_bytes_def ARMBASE_def upt_rec)
  ultimately show ?thesis by (intro exI [of _ m']) simp
qed

section \<open>Programs that reach the bootloader\<close>

lemma pi_info_collides:
  assumes "collides pstart pend a n"
  shows "feed (get_code_info pstart pend m) (le_bytes PUT_PROG_INFO @ le_bytes a @ le_bytes n @ le_bytes c) =
    (get_code_load a n c m, le_bytes BOOT_ERROR @ le_bytes GET_CODE @ le_bytes c, [])"
  using assms by (simp add: get_code_info_def get_code_load_def boot_put32_sends)

lemma unix_error:
  "feed (pbind (drain_info (Suc j) (Suc k)) (unix_code (Suc j) buf)) (le_bytes BOOT_ERROR @ xs) =
    (Fail Assert_fail, [], xs)"
proof -
  have "BOOT_ERROR \<noteq> GET_PROG_INFO" "BOOT_ERROR \<noteq> PRINT_STRING" "BOOT_ERROR \<noteq> GET_CODE" by (simp_all add: opcodes)
  with feed_drain [OF this(1,2), of 0 "Suc k" j "unix_code (Suc j) buf" xs]
  show ?thesis by (simp add: unix_code_def del: get_op.simps drain_info.simps)
qed

text \<open>C18. A program that the Pi's check finds to reach the bootloader is never started: in every order of
  steps the only end is that the unix side stops with a failed assertion and the Pi waits for code that
  does not come, so \<open>get_code\<close> does not return.\<close>

theorem boot_refuses_collision:
  assumes "collides pstart pend ARMBASE (word_of_nat (length buf))"
    and "link_step\<^sup>*\<^sup>* (boot_start pstart pend (replicate r False @ [True]) m (Suc j) (r + Suc k) a buf) s"
  shows "\<exists>f g pq. f = (Recv g, Fail Assert_fail, pq, []) \<and> link_step\<^sup>*\<^sup>* s f \<and> \<not> (\<exists>t. link_step f t)"
proof -
  let ?n = "word_of_nat (length buf) :: u32"
  let ?P1 = "get_code_info pstart pend m" and ?P2 = "get_code_load ARMBASE ?n (crc32 buf) m"
  let ?U1 = "pbind (drain_info (Suc j) (Suc k)) (unix_code (Suc j) buf)"
  have w: "feed (get_code pstart pend (replicate r False @ [True]) m) [] = (?P1, info_requests (Suc r), [])"
    unfolding get_code_def feed_wait by (simp add: get_code_info_def)
  obtain g where g: "?P2 = Recv g" by (simp add: get_code_load_def boot_get32_def boot_get8_def)
  have "link_step\<^sup>*\<^sup>* (boot_start pstart pend (replicate r False @ [True]) m (Suc j) (r + Suc k) a buf)
      (?P1, simple_boot (Suc j) (r + Suc k) a buf, info_requests (Suc r), [])"
    using p_feed [OF w, where pq = "[]"] by (simp add: boot_start_def)
  also have "link_step\<^sup>*\<^sup>* \<dots> (?P1, ?U1, [], le_bytes PUT_PROG_INFO @ le_bytes ARMBASE @ le_bytes ?n @ le_bytes (crc32 buf))"
    using q_feed [OF unix_info, where qp = "[]"] by (simp only: append_Nil)
  also have "link_step\<^sup>*\<^sup>* \<dots> (?P2, ?U1, le_bytes BOOT_ERROR @ le_bytes GET_CODE @ le_bytes (crc32 buf), [])"
    using p_feed [OF pi_info_collides [OF assms(1)], where pq = "[]"] by (simp only: append_Nil)
  also have "link_step\<^sup>*\<^sup>* \<dots> (Recv g, Fail Assert_fail, le_bytes GET_CODE @ le_bytes (crc32 buf), [])"
    using q_feed [OF unix_error, where qp = "[]"] by (simp only: append_Nil2 g)
  finally have run: "link_step\<^sup>*\<^sup>* (boot_start pstart pend (replicate r False @ [True]) m (Suc j) (r + Suc k) a buf)
      (Recv g, Fail Assert_fail, le_bytes GET_CODE @ le_bytes (crc32 buf), [])" .
  have "\<not> (\<exists>t. link_step (Recv g, Fail Assert_fail :: unit proc, pq, []) t)" for pq
    by (simp add: link_step_iff)
  note stop = this
  from link_every_order [OF run stop assms(2)] stop
  show ?thesis by blast
qed

theorem boot_refuses_collision_witness:
  "\<exists>g pq. link_step\<^sup>*\<^sup>* (boot_start 0x8001 0x300000 (replicate 0 False @ [True]) (\<lambda>_. 0) (Suc 0) (0 + Suc 0) 0 [1, 2])
     (Recv g, Fail Assert_fail, pq, [])"
proof -
  have c: "collides 0x8001 0x300000 ARMBASE (word_of_nat (length [1, 2 :: u8]))"
    by (simp add: collides_def ARMBASE_def)
  from boot_refuses_collision [OF c rtranclp.rtrancl_refl, of 0 "\<lambda>_. 0" 0 0 0] show ?thesis by blast
qed

text \<open>The check is on wrapped addresses: a length that runs over the end of memory is not found to
  reach the bootloader, although the region from \<open>ARMBASE\<close> on covers it.\<close>

theorem collision_check_wraps:
  "\<not> collides 0x200000 0x204000 ARMBASE 0xFFFFF000 \<and>
   unat ARMBASE \<le> 0x200000 \<and> 0x204000 \<le> unat ARMBASE + unat (0xFFFFF000 :: u32)"
  by (simp add: collides_def ARMBASE_def)

section \<open>Waiting with a wrapping clock\<close>

text \<open>The specification counts microseconds that have really passed since the first reading.\<close>

fun timeout_spec :: "nat \<Rightarrow> (nat \<times> bool) list \<Rightarrow> bool res" where
  "timeout_spec timeout [] = Inl Stuck"
| "timeout_spec timeout ((elapsed, data) # rounds) =
     (if data then Inr True else if timeout \<le> elapsed then Inr False else timeout_spec timeout rounds)"

text \<open>\<open>has_data_timeout\<close> measures time correctly although the 32-bit microsecond counter wraps: for any
  start \<open>t0\<close> and rounds less than 2^32 microseconds after it, it answers as the specification on the
  real elapsed times does.\<close>

theorem has_data_timeout_correct:
  assumes "\<forall>(dt, d) \<in> set rounds. dt < 2 ^ 32"
  shows "has_data_timeout timeout (word_of_nat t0)
      (List.map (\<lambda>(dt, d). (word_of_nat (t0 + dt), of_bool d)) rounds) = timeout_spec (unat timeout) rounds"
  using assms
proof (induction rounds)
  case Nil
  then show ?case by simp
next
  case (Cons r rounds)
  obtain dt d where r: "r = (dt, d)" by (cases r)
  with Cons.prems have "dt < 2 ^ 32" by simp
  then have "unat (word_of_nat dt :: u32) = dt" by (simp add: unat_of_nat)
  then have "timeout \<le> word_of_nat (t0 + dt) - word_of_nat t0 \<longleftrightarrow> unat timeout \<le> dt"
    by (simp add: word_le_nat_alt)
  with Cons r show ?case by simp
qed

theorem has_data_timeout_correct_witness:
  "has_data_timeout 300000 (word_of_nat 4294900000) [(word_of_nat (4294900000 + 200000), 0), (word_of_nat (4294900000 + 300001), 0)] = Inr False"
  using has_data_timeout_correct [of "[(200000, False), (300001, False)]" 300000 4294900000] by simp

end
