(* ===== verification/MemAttr.thy ===== *)
theory MemAttr
  imports BitSupport
begin

unbundle bit_operations_syntax

text \<open>
  Memory attributes and the map of the kernel's address space: \<open>labs/16-vm-page-table/code/mem-attr.h\<close>,
  \<open>procmap.h\<close> and the arithmetic helpers of \<open>mmu.h\<close>. The array of a \<open>procmap_t\<close> with its count \<open>n\<close> is
  the list of its first \<open>n\<close> entries. \<open>__prog_end__\<close> and the bounds of the heap are parameters.
\<close>

section \<open>Attributes\<close>

definition OneMB :: u32 where "OneMB = 1024 * 1024"

definition perm_rw_user :: u32 where "perm_rw_user = 0b011"
definition perm_ro_user :: u32 where "perm_ro_user = 0b010"
definition perm_na_user :: u32 where "perm_na_user = 0b001"
definition perm_ro_priv :: u32 where "perm_ro_priv = 0b101"
definition perm_rw_priv :: u32 where "perm_rw_priv = perm_na_user"
definition perm_na_priv :: u32 where "perm_na_priv = 0b000"

definition mem_perm_islegal :: "u32 \<Rightarrow> u32 res" where
  "mem_perm_islegal p =
     (if p = perm_rw_user \<or> p = perm_ro_user \<or> p = perm_ro_priv \<or> p = perm_rw_priv \<or> p = perm_na_priv
      then Inr 1 else Inl Panic)"

definition DOM_client :: u32 where "DOM_client = 0b01"
definition DOM_manager :: u32 where "DOM_manager = 0b11"

definition TEX_C_B :: "u32 \<Rightarrow> u32 \<Rightarrow> u32 \<Rightarrow> u32" where
  "TEX_C_B tex c b = (shl tex 2 OR shl c 1) OR b"

definition MEM_device :: u32 where "MEM_device = TEX_C_B 0b000 0 0"
definition MEM_uncached :: u32 where "MEM_uncached = TEX_C_B 0b001 0 0"
definition MEM_wb_noalloc :: u32 where "MEM_wb_noalloc = TEX_C_B 0b000 1 1"
definition MEM_wt_noalloc :: u32 where "MEM_wt_noalloc = TEX_C_B 0b000 1 0"

record pin_t =
  attr_G :: u32
  attr_asid :: u32
  attr_dom :: u32
  attr_pagesize :: u32
  attr_AP_perm :: u32
  attr_mem :: u32

definition PAGE_4K :: u32 where "PAGE_4K = 0b01"
definition PAGE_64K :: u32 where "PAGE_64K = 0b10"
definition PAGE_1MB :: u32 where "PAGE_1MB = 0b11"
definition PAGE_16MB :: u32 where "PAGE_16MB = 0b00"

definition pin_mk :: "u32 \<Rightarrow> u32 \<Rightarrow> u32 \<Rightarrow> u32 \<Rightarrow> u32 \<Rightarrow> pin_t res" where
  "pin_mk G d asid perm mem_attr =
     seq (mem_perm_islegal perm) (\<lambda>ok.
     seq (require (ok \<noteq> 0) Assert_fail) (\<lambda>_.
     seq (require (d \<le> 16) Assert_fail) (\<lambda>_.
     seq (if G \<noteq> 0 then require (asid = 0) Assert_fail
          else seq (require (asid \<noteq> 0) Assert_fail) (\<lambda>_. require (0 < asid \<and> asid < 64) Assert_fail)) (\<lambda>_.
     Inr \<lparr>attr_G = G, attr_asid = asid, attr_dom = d, attr_pagesize = 0b11, attr_AP_perm = perm,
          attr_mem = mem_attr\<rparr>))))"

definition pin_mem_attr_set :: "pin_t \<Rightarrow> u32 \<Rightarrow> pin_t" where
  "pin_mem_attr_set e mem = e\<lparr>attr_mem := mem\<rparr>"

definition pin_16mb :: "pin_t \<Rightarrow> pin_t" where
  "pin_16mb p = p\<lparr>attr_pagesize := PAGE_16MB\<rparr>"

definition pin_64k :: "pin_t \<Rightarrow> pin_t" where
  "pin_64k p = p\<lparr>attr_pagesize := PAGE_64K\<rparr>"

definition pin_nbytes :: "pin_t \<Rightarrow> u32 res" where
  "pin_nbytes attr =
     (if attr_pagesize attr = 0b01 then Inr (4 * 1024)
      else if attr_pagesize attr = 0b10 then Inr (64 * 1024)
      else if attr_pagesize attr = 0b11 then Inr (1024 * 1024)
      else if attr_pagesize attr = 0b00 then Inr (16 * (1024 * 1024))
      else Inl Panic)"

definition pin_aligned :: "u32 \<Rightarrow> pin_t \<Rightarrow> bool res" where
  "pin_aligned va attr = seq (pin_nbytes attr) (\<lambda>n. Inr (va mod n = 0))"

definition pin_mk_device :: "u32 \<Rightarrow> pin_t res" where
  "pin_mk_device d = pin_mk 1 d 0 perm_rw_priv MEM_device"

definition pin_mk_global :: "u32 \<Rightarrow> u32 \<Rightarrow> u32 \<Rightarrow> pin_t res" where
  "pin_mk_global d perm attr = pin_mk 1 d 0 perm attr"

definition pin_mk_user :: "u32 \<Rightarrow> u32 \<Rightarrow> u32 \<Rightarrow> u32 \<Rightarrow> pin_t res" where
  "pin_mk_user d asid perm attr = pin_mk 0 d asid perm attr"

subsection \<open>Helpers of \<open>mmu.h\<close>\<close>

definition mmu_sec_bits_only :: "u32 \<Rightarrow> u32" where
  "mmu_sec_bits_only u = u AND NOT (shl 1 21 - 1)"

definition mmu_sec_num :: "u32 \<Rightarrow> u32" where
  "mmu_sec_num u = shr u 20"

definition mod_pow2 :: "u32 \<Rightarrow> u32 \<Rightarrow> u32 res" where
  "mod_pow2 x n = seq (require (n < 32) Assert_fail) (\<lambda>_.
     let rem = x mod shl 1 n in if rem \<noteq> 0 then Inl Panic else Inr 1)"

section \<open>The map of the address space\<close>

datatype mem_type = MEM_DEVICE | MEM_RW | MEM_RO

record pr_ent_t =
  pr_addr :: u32
  pr_nbytes :: u32
  pr_type :: mem_type
  pr_dom :: u32

record procmap_t =
  dom_ids :: u32
  pm_map :: "pr_ent_t list"

definition MAX_ENT :: nat where "MAX_ENT = 8"

definition pr_ent_mk :: "u32 \<Rightarrow> u32 \<Rightarrow> mem_type \<Rightarrow> u32 \<Rightarrow> pr_ent_t res" where
  "pr_ent_mk a n t d =
     seq (require (n = 1024 * 1024) Assert_fail) (\<lambda>_.
     seq (require (d < 16) Assert_fail) (\<lambda>_.
     Inr \<lparr>pr_addr = a, pr_nbytes = n, pr_type = t, pr_dom = d\<rparr>))"

definition procmap_push :: "procmap_t \<Rightarrow> pr_ent_t \<Rightarrow> procmap_t res" where
  "procmap_push p e =
     seq (require (length (pm_map p) < MAX_ENT) Assert_fail) (\<lambda>_.
     seq (require (pr_dom e < 16) Assert_fail) (\<lambda>_.
     Inr (p\<lparr>dom_ids := dom_ids p OR shl 1 (pr_dom e), pm_map := pm_map p @ [e]\<rparr>)))"

fun dom_perm_loop :: "nat \<Rightarrow> u32 \<Rightarrow> u32 \<Rightarrow> u32 \<Rightarrow> u32 \<Rightarrow> u32" where
  "dom_perm_loop 0 i doms perm msk = msk"
| "dom_perm_loop (Suc n) i doms perm msk =
     dom_perm_loop n (i + 1) doms perm (if doms AND shl 1 i \<noteq> 0 then msk OR shl perm (i * 2) else msk)"

definition dom_perm :: "u32 \<Rightarrow> u32 \<Rightarrow> u32 res" where
  "dom_perm doms perm =
     seq (require (doms \<noteq> 0) Assert_fail) (\<lambda>_.
     seq (require (shr doms 16 = 0) Assert_fail) (\<lambda>_.
     seq (require (perm \<le> 0b11) Assert_fail) (\<lambda>_.
     Inr (dom_perm_loop 16 0 doms perm 0))))"

fun procmap_find :: "pr_ent_t list \<Rightarrow> u32 \<Rightarrow> pr_ent_t option" where
  "procmap_find [] a = None"
| "procmap_find (p # ps) a =
     (let s = pr_addr p; e = s + pr_nbytes p in if s \<le> a \<and> a < e then Some p else procmap_find ps a)"

definition procmap_lookup :: "procmap_t \<Rightarrow> u32 \<Rightarrow> pr_ent_t option" where
  "procmap_lookup pmap a = procmap_find (pm_map pmap) a"

definition STACK_ADDR :: u32 where "STACK_ADDR = 0x8000000"
definition INT_STACK_ADDR :: u32 where "INT_STACK_ADDR = 0x9000000"

definition push_ent :: "u32 \<Rightarrow> mem_type \<Rightarrow> u32 \<Rightarrow> procmap_t \<Rightarrow> procmap_t res" where
  "push_ent a t d p = seq (pr_ent_mk a OneMB t d) (procmap_push p)"

definition procmap_default_mk :: "u32 \<Rightarrow> u32 \<Rightarrow> u32 \<Rightarrow> u32 \<Rightarrow> procmap_t res" where
  "procmap_default_mk prog_end heap_start heap_end d =
     seq (push_ent 0x20000000 MEM_DEVICE d \<lparr>dom_ids = 0, pm_map = []\<rparr>) (\<lambda>p.
     seq (push_ent 0x20100000 MEM_DEVICE d p) (\<lambda>p.
     seq (push_ent 0x20200000 MEM_DEVICE d p) (\<lambda>p.
     seq (require (prog_end \<le> OneMB) Assert_fail) (\<lambda>_.
     seq (push_ent 0x00000000 MEM_RW d p) (\<lambda>p.
     let nbytes = heap_end - heap_start in
     seq (require (heap_start = OneMB) Panic) (\<lambda>_.
     seq (require (nbytes = OneMB) Panic) (\<lambda>_.
     seq (push_ent 0x00100000 MEM_RW d p) (\<lambda>p.
     seq (push_ent (INT_STACK_ADDR - OneMB) MEM_RW d p) (\<lambda>p.
     push_ent (STACK_ADDR - OneMB) MEM_RW d p)))))))))"

section \<open>Attributes that can be made\<close>

lemma pin_mk_ok: "pin_mk G d asid perm mem = Inr e \<Longrightarrow>
    e = \<lparr>attr_G = G, attr_asid = asid, attr_dom = d, attr_pagesize = PAGE_1MB, attr_AP_perm = perm, attr_mem = mem\<rparr> \<and>
    d \<le> 16 \<and> (if G \<noteq> 0 then asid = 0 else 0 < asid \<and> asid < 64) \<and> perm < 8"
  by (auto simp: pin_mk_def seq_eq_Inr mem_perm_islegal_def perm_rw_user_def perm_ro_user_def perm_ro_priv_def
      perm_rw_priv_def perm_na_user_def perm_na_priv_def PAGE_1MB_def split: if_splits)

text \<open>\<open>mmu_sec_bits_only\<close> claims to strip the offset within a section and leave the section bits. It
  strips 21 bits, one more than the 20 of a 1 MB section, so it maps odd sections to their neighbour.\<close>

theorem sec_bits_only_loses_a_bit:
  "mmu_sec_bits_only 0x00100000 = 0 \<and> mmu_sec_num 0x00100000 = 1 \<and>
   mmu_sec_num (mmu_sec_bits_only 0x00100000) \<noteq> mmu_sec_num 0x00100000"
  by (simp add: mmu_sec_bits_only_def mmu_sec_num_def shl_def shr_def)

lemma dom_perm_loop_bits:
  assumes "perm \<le> 3" "unat i + n = 16" "k < 16" "j < 2"
  shows "bit (dom_perm_loop n i doms perm msk) (2 * k + j) \<longleftrightarrow>
    bit msk (2 * k + j) \<or> (unat i \<le> k \<and> bit doms k \<and> bit perm j)"
  using assms(2)
proof (induction n arbitrary: i msk)
  case 0
  with assms(3) show ?case by simp
next
  case (Suc n)
  then have i: "unat i < 16" by simp
  then have i1: "unat (i + 1) = Suc (unat i)" and i2: "unat (i * 2) = 2 * unat i"
    by (simp_all add: unat_word_ariths)
  have d: "doms AND shl 1 i \<noteq> 0 \<longleftrightarrow> bit doms (unat i)"
    using i by (simp add: shl_def and_exp_eq_0_iff_not_bit push_bit_eq_mult)
  have "unat perm < 2 ^ 2" using assms(1) by (simp add: word_le_nat_alt)
  then have p: "bit perm m \<Longrightarrow> m < 2" for m by (rule small_word_bit)
  have sh: "bit (shl perm (i * 2)) (2 * k + j) \<longleftrightarrow> k = unat i \<and> bit perm j"
  proof (cases "k = unat i")
    case True
    with assms(3,4) show ?thesis by (auto simp: bits_of i2)
  next
    case False
    with assms(4) have "2 * unat i \<le> 2 * k + j \<Longrightarrow> 2 \<le> 2 * k + j - 2 * unat i" by arith
    with False p [of "2 * k + j - 2 * unat i"] show ?thesis by (auto simp: bits_of i2)
  qed
  have IH: "bit (dom_perm_loop n (i + 1) doms perm m) (2 * k + j) \<longleftrightarrow>
      bit m (2 * k + j) \<or> (Suc (unat i) \<le> k \<and> bit doms k \<and> bit perm j)" for m
    using Suc.IH [of "i + 1" m] Suc.prems i1 by simp
  have "unat i \<le> k \<longleftrightarrow> k = unat i \<or> Suc (unat i) \<le> k" by linarith
  then show ?case unfolding dom_perm_loop.simps IH d
    by (cases "bit doms (unat i)") (auto simp only: if_True if_False bit_or_iff sh)
qed

text \<open>The domain access register that \<open>dom_perm\<close> computes gives the permission to exactly the domains
  of the set: two bits per domain, 0 (no access) for every other.\<close>

theorem dom_perm_fields:
  assumes "doms \<noteq> 0" "shr doms 16 = 0" "perm \<le> 3" "k < 16"
  shows "\<exists>r. dom_perm doms perm = Inr r \<and>
    shr r (word_of_nat (2 * k)) AND 3 = (if bit doms k then perm else 0)"
proof -
  let ?r = "dom_perm_loop 16 0 doms perm 0"
  have "unat perm < 2 ^ 2" using assms(3) by (simp add: word_le_nat_alt)
  then have p: "bit perm m \<Longrightarrow> m < 2" for m by (rule small_word_bit)
  have b: "bit ?r (2 * k + j) \<longleftrightarrow> bit doms k \<and> bit perm j" if "j < 2" for j
    using dom_perm_loop_bits [OF assms(3) _ assms(4) that, of 0 16 doms 0] by simp
  have u: "unat (2 * word_of_nat k :: u32) = 2 * k" using assms(4) by (simp add: unat_of_nat unat_word_ariths)
  have three: "(3 :: u32) = mask 2" by (simp add: mask_eq_exp_minus_1)
  have "shr ?r (word_of_nat (2 * k)) AND 3 = (if bit doms k then perm else 0)"
  proof (rule u32_eqI)
    fix j :: nat
    show "bit (shr ?r (word_of_nat (2 * k)) AND 3) j = bit (if bit doms k then perm else 0) j"
      unfolding three of_nat_mult of_nat_numeral using b [of j] p [of j] by (cases "j < 2") (auto simp: bits_of u)
  qed
  then show ?thesis using assms(1-3) by (simp add: dom_perm_def)
qed

theorem dom_perm_fields_witness:
  "\<exists>r. dom_perm 0b1010 1 = Inr r \<and> shr r (word_of_nat (2 * 3)) AND 3 = 1"
  using dom_perm_fields [of "0b1010" 1 3] by (simp add: shr_def bit_numeral_rec)

end
