(* ===== verification/Cp15.thy ===== *)
theory Cp15
  imports MemAttr
begin

unbundle bit_operations_syntax

text \<open>
  The system coprocessor and the code that turns the MMU on and off and switches address spaces:
  \<open>labs/16-vm-page-table/code/your-mmu-asm.S\<close> and \<open>mmu.c\<close>. A coprocessor instruction is a \<open>cpop\<close>; the
  state holds the registers it can write and the log of the instructions executed, so that theorems can
  speak about the order of barriers. The routines that \<open>mmu.c\<close> takes from elsewhere (reading and
  writing the control register, the staff library's versions) are the fields of a parameter \<open>staff\<close>.
\<close>

section \<open>The coprocessor\<close>

datatype cpop = DSB | PREFETCH_FLUSH | FLUSH_BTB | INV_ICACHE | CLEAN_INV_DCACHE | INV_DCACHE | INV_TLB
  | TTBR0_SET u32 | TTBR1_SET u32 | TTBR_BASE_CTRL_WR u32 | ASID_SET u32 | DOMAIN_CTRL_WR u32
  | CONTROL_REG1_WR u32

record cp15 =
  ctrl1 :: u32
  dacr :: u32
  ttbr0 :: u32
  ttbr1 :: u32
  ttbr_ctrl :: u32
  context_id :: u32
  cp_log :: "cpop list"

fun cp_write :: "cpop \<Rightarrow> cp15 \<Rightarrow> cp15" where
  "cp_write (TTBR0_SET v) s = s\<lparr>ttbr0 := v\<rparr>"
| "cp_write (TTBR1_SET v) s = s\<lparr>ttbr1 := v\<rparr>"
| "cp_write (TTBR_BASE_CTRL_WR v) s = s\<lparr>ttbr_ctrl := v\<rparr>"
| "cp_write (ASID_SET v) s = s\<lparr>context_id := v\<rparr>"
| "cp_write (DOMAIN_CTRL_WR v) s = s\<lparr>dacr := v\<rparr>"
| "cp_write (CONTROL_REG1_WR v) s = s\<lparr>ctrl1 := v\<rparr>"
| "cp_write _ s = s"

definition mcr :: "cpop \<Rightarrow> cp15 \<Rightarrow> cp15" where
  "mcr c s = (cp_write c s)\<lparr>cp_log := cp_log s @ [c]\<rparr>"

definition mcrs :: "cpop list \<Rightarrow> cp15 \<Rightarrow> cp15" where
  "mcrs cs s = fold mcr cs s"

section \<open>Assembly routines\<close>

definition mmu_reset :: "cp15 \<Rightarrow> cp15" where
  "mmu_reset = mcrs [INV_TLB, INV_DCACHE, INV_ICACHE, DSB, PREFETCH_FLUSH]"

definition cp15_domain_ctrl_wr :: "u32 \<Rightarrow> cp15 \<Rightarrow> cp15" where
  "cp15_domain_ctrl_wr dom_reg = mcrs [DOMAIN_CTRL_WR dom_reg, PREFETCH_FLUSH]"

definition cp15_set_procid_ttbr0 :: "u32 \<Rightarrow> u32 \<Rightarrow> cp15 \<Rightarrow> cp15" where
  "cp15_set_procid_ttbr0 proc_and_asid pt = mcrs
     [ASID_SET 0, PREFETCH_FLUSH,
      TTBR_BASE_CTRL_WR 0, TTBR0_SET pt, TTBR1_SET 0, PREFETCH_FLUSH, FLUSH_BTB, PREFETCH_FLUSH,
      ASID_SET proc_and_asid, PREFETCH_FLUSH]"

definition mmu_disable_set_asm :: "u32 \<Rightarrow> cp15 \<Rightarrow> cp15" where
  "mmu_disable_set_asm c = mcrs
     [CLEAN_INV_DCACHE, DSB, PREFETCH_FLUSH,
      CONTROL_REG1_WR c, PREFETCH_FLUSH,
      INV_ICACHE, DSB, PREFETCH_FLUSH,
      FLUSH_BTB, PREFETCH_FLUSH]"

definition mmu_enable_set_asm :: "u32 \<Rightarrow> cp15 \<Rightarrow> cp15" where
  "mmu_enable_set_asm c s =
     (let r3 = ctrl1 s AND NOT 0x1000 in mcrs
     [CONTROL_REG1_WR r3, PREFETCH_FLUSH,
      INV_ICACHE, DSB,
      CONTROL_REG1_WR c, PREFETCH_FLUSH,
      FLUSH_BTB, PREFETCH_FLUSH] s)"

definition mmu_sync_pte_mods :: "cp15 \<Rightarrow> cp15" where
  "mmu_sync_pte_mods = mcrs
     [CLEAN_INV_DCACHE, INV_ICACHE, DSB, INV_TLB, FLUSH_BTB, DSB, PREFETCH_FLUSH]"

section \<open>The C side\<close>

record staff =
  cp15_ctrl_reg1_rd :: "cp15 \<Rightarrow> u32"
  cp15_ctrl_reg1_wr :: "u32 \<Rightarrow> cp15 \<Rightarrow> cp15"
  staff_mmu_init :: "cp15 \<Rightarrow> cp15"
  staff_domain_access_ctrl_get :: "cp15 \<Rightarrow> u32"
  staff_cp15_set_procid_ttbr0 :: "u32 \<Rightarrow> u32 \<Rightarrow> cp15 \<Rightarrow> cp15"

text \<open>Bit fields of \<open>struct control_reg1\<close> that the code uses.\<close>

definition MMU_enabled :: "u32 \<Rightarrow> bool" where "MMU_enabled c = bit c 0"
definition C_unified_enable :: "u32 \<Rightarrow> bool" where "C_unified_enable c = bit c 2"

definition mmu_is_enabled :: "staff \<Rightarrow> cp15 \<Rightarrow> bool" where
  "mmu_is_enabled S s = MMU_enabled (cp15_ctrl_reg1_rd S s)"

definition mmu_disable_set :: "staff \<Rightarrow> u32 \<Rightarrow> cp15 \<Rightarrow> cp15 res" where
  "mmu_disable_set S c s =
     seq (require (\<not> MMU_enabled c) Assert_fail) (\<lambda>_.
     let cache_on_p = C_unified_enable c; s = mmu_disable_set_asm c s in
     Inr (if cache_on_p then cp15_ctrl_reg1_wr S (set_bit 2 c) s else s))"

definition mmu_disable :: "staff \<Rightarrow> cp15 \<Rightarrow> cp15 res" where
  "mmu_disable S s =
     (let c = cp15_ctrl_reg1_rd S s in
      seq (require (MMU_enabled c) Assert_fail) (\<lambda>_. mmu_disable_set S (unset_bit 0 c) s))"

definition mmu_enable_set :: "staff \<Rightarrow> u32 \<Rightarrow> cp15 \<Rightarrow> cp15 res" where
  "mmu_enable_set S c s =
     seq (require (MMU_enabled c) Assert_fail) (\<lambda>_. Inr (mmu_enable_set_asm c s))"

definition mmu_enable :: "staff \<Rightarrow> cp15 \<Rightarrow> cp15 res" where
  "mmu_enable S s =
     (let c = cp15_ctrl_reg1_rd S s in
      seq (require (\<not> MMU_enabled c) Assert_fail) (\<lambda>_. mmu_enable_set S (set_bit 0 c) s))"

definition set_procid_ttbr0 :: "staff \<Rightarrow> u32 \<Rightarrow> u32 \<Rightarrow> u32 \<Rightarrow> cp15 \<Rightarrow> cp15 res" where
  "set_procid_ttbr0 S pid asid pt s =
     seq (require (shr pid 24 = 0) Assert_fail) (\<lambda>_.
     seq (require (64 < pid) Assert_fail) (\<lambda>_.
     seq (require (asid < 64 \<and> asid \<noteq> 0) Assert_fail) (\<lambda>_.
     Inr (staff_cp15_set_procid_ttbr0 S (shl pid 8 OR asid) pt s))))"

definition mmu_set_ctx :: "staff \<Rightarrow> u32 \<Rightarrow> u32 \<Rightarrow> u32 \<Rightarrow> cp15 \<Rightarrow> cp15 res" where
  "mmu_set_ctx S pid asid pt s =
     seq (require (asid \<noteq> 0) Assert_fail) (\<lambda>_.
     seq (require (asid < 64) Assert_fail) (\<lambda>_.
     seq (require (64 < pid) Assert_fail) (\<lambda>_. set_procid_ttbr0 S pid asid pt s)))"

text \<open>\<open>mmu_init\<close> returns after the call: the rest of its body is dead.\<close>

definition mmu_init :: "staff \<Rightarrow> cp15 \<Rightarrow> cp15" where
  "mmu_init S s = staff_mmu_init S s"

definition domain_access_ctrl_get :: "staff \<Rightarrow> cp15 \<Rightarrow> u32" where
  "domain_access_ctrl_get S s = staff_domain_access_ctrl_get S s"

definition domain_access_ctrl_set :: "staff \<Rightarrow> u32 \<Rightarrow> cp15 \<Rightarrow> cp15 res" where
  "domain_access_ctrl_set S r s =
     (let s = cp15_domain_ctrl_wr r s in
      seq (require (domain_access_ctrl_get S s = r) Assert_fail) (\<lambda>_. Inr s))"

section \<open>Order of barriers\<close>

lemma mcrs_simps [simp]: "mcrs [] s = s" "mcrs (c # cs) s = mcrs cs (mcr c s)"
  by (simp_all add: mcrs_def)

lemma mcr_log [simp]: "cp_log (mcr c s) = cp_log s @ [c]"
  by (simp add: mcr_def)

text \<open>
  What may be stale after an instruction: the prefetch buffer (first component) after every register
  write and branch target flush, the branch target buffer (second) after a write of a table base, the
  context or the control register.
\<close>

fun hazard1 :: "cpop \<Rightarrow> bool \<times> bool \<Rightarrow> bool \<times> bool" where
  "hazard1 PREFETCH_FLUSH (p, b) = (False, b)"
| "hazard1 FLUSH_BTB (p, b) = (True, False)"
| "hazard1 (TTBR0_SET v) (p, b) = (True, True)"
| "hazard1 (TTBR1_SET v) (p, b) = (True, True)"
| "hazard1 (ASID_SET v) (p, b) = (True, True)"
| "hazard1 (CONTROL_REG1_WR v) (p, b) = (True, True)"
| "hazard1 (DOMAIN_CTRL_WR v) (p, b) = (True, b)"
| "hazard1 (TTBR_BASE_CTRL_WR v) (p, b) = (True, b)"
| "hazard1 _ (p, b) = (p, b)"

definition hazard :: "cpop list \<Rightarrow> bool \<times> bool" where
  "hazard cs = fold hazard1 cs (False, False)"

lemma hazard_append: "hazard (xs @ ys) = fold hazard1 ys (hazard xs)"
  by (simp add: hazard_def)


text \<open>The header of \<open>cp15_domain_ctrl_wr\<close> asks for a flush of the branch target buffer and a data
  barrier as well; the code does neither, so a stale branch target buffer stays stale.\<close>

theorem domain_write_keeps_btb:
  "cp_log (cp15_domain_ctrl_wr d s) = cp_log s @ [DOMAIN_CTRL_WR d, PREFETCH_FLUSH] \<and>
   snd (hazard (cp_log (cp15_domain_ctrl_wr d s))) = snd (hazard (cp_log s))"
  by (cases "hazard (cp_log s)") (simp add: cp15_domain_ctrl_wr_def hazard_append)

section \<open>On and off\<close>

text \<open>The laws of the register accessors, and an instance built from the macros of the assembly file.\<close>

locale staff_regs =
  fixes S :: staff
  assumes rd: "cp15_ctrl_reg1_rd S s = ctrl1 s"
    and wr: "ctrl1 (cp15_ctrl_reg1_wr S c s) = c"
    and get: "staff_domain_access_ctrl_get S s = dacr s"
begin

lemma enabled: "mmu_is_enabled S s \<longleftrightarrow> bit (ctrl1 s) 0"
  by (simp add: mmu_is_enabled_def MMU_enabled_def rd)

lemma enable: "\<not> bit (ctrl1 s) 0 \<Longrightarrow> \<exists>s'. mmu_enable S s = Inr s' \<and> ctrl1 s' = set_bit 0 (ctrl1 s)"
  by (simp add: mmu_enable_def mmu_enable_set_def mmu_enable_set_asm_def MMU_enabled_def rd Let_def
      mcr_def bit_set_bit_iff)

lemma set_bit_same: "bit c i \<Longrightarrow> set_bit i c = (c :: u32)"
  by (rule bit_word_eqI) (auto simp: bit_set_bit_iff)

lemma disable: "bit (ctrl1 s) 0 \<Longrightarrow> \<exists>s'. mmu_disable S s = Inr s' \<and> ctrl1 s' = unset_bit 0 (ctrl1 s)"
  by (auto simp: mmu_disable_def mmu_disable_set_def mmu_disable_set_asm_def MMU_enabled_def rd Let_def
      mcr_def bit_unset_bit_iff C_unified_enable_def wr set_bit_same)

lemma domain_set: "\<exists>s'. domain_access_ctrl_set S d s = Inr s' \<and> dacr s' = d \<and> ctrl1 s' = ctrl1 s"
  by (simp add: domain_access_ctrl_set_def domain_access_ctrl_get_def get cp15_domain_ctrl_wr_def mcr_def Let_def)

end

definition asm_staff :: staff where
  "asm_staff = \<lparr>cp15_ctrl_reg1_rd = ctrl1, cp15_ctrl_reg1_wr = (\<lambda>c. mcr (CONTROL_REG1_WR c)),
     staff_mmu_init = mmu_reset, staff_domain_access_ctrl_get = dacr,
     staff_cp15_set_procid_ttbr0 = cp15_set_procid_ttbr0\<rparr>"

interpretation asm: staff_regs asm_staff
  by unfold_locales (simp_all add: asm_staff_def mcr_def)

text \<open>\<open>mmu_enable\<close> sets the MMU bit of the control register and no other, and fails when the MMU is
  on; \<open>mmu_disable\<close> is its inverse, also when the data cache is on.\<close>

theorem mmu_on_off:
  "(\<not> bit (ctrl1 s) 0 \<longrightarrow> mmu_disable asm_staff s = Inl Assert_fail \<and>
     (\<exists>s1 s2. mmu_enable asm_staff s = Inr s1 \<and> ctrl1 s1 = set_bit 0 (ctrl1 s) \<and>
       mmu_enable asm_staff s1 = Inl Assert_fail \<and> mmu_disable asm_staff s1 = Inr s2 \<and> ctrl1 s2 = ctrl1 s))"
proof
  assume off: "\<not> bit (ctrl1 s) 0"
  obtain s1 where s1: "mmu_enable asm_staff s = Inr s1" "ctrl1 s1 = set_bit 0 (ctrl1 s)"
    using asm.enable [OF off] by blast
  then have on: "bit (ctrl1 s1) 0" by (simp add: bit_set_bit_iff)
  obtain s2 where s2: "mmu_disable asm_staff s1 = Inr s2" "ctrl1 s2 = unset_bit 0 (ctrl1 s1)"
    using asm.disable [OF on] by blast
  have "unset_bit 0 (set_bit 0 (ctrl1 s)) = ctrl1 s"
    using off by (intro bit_word_eqI) (auto simp: bit_set_bit_iff bit_unset_bit_iff intro!: gr0I)
  moreover have "mmu_disable asm_staff s = Inl Assert_fail" "mmu_enable asm_staff s1 = Inl Assert_fail"
    using off on by (simp_all add: mmu_disable_def mmu_enable_def MMU_enabled_def asm.rd Let_def)
  ultimately show "mmu_disable asm_staff s = Inl Assert_fail \<and>
     (\<exists>s1 s2. mmu_enable asm_staff s = Inr s1 \<and> ctrl1 s1 = set_bit 0 (ctrl1 s) \<and>
       mmu_enable asm_staff s1 = Inl Assert_fail \<and> mmu_disable asm_staff s1 = Inr s2 \<and> ctrl1 s2 = ctrl1 s)"
    using s1 s2 by simp
qed

definition cp15_zero :: cp15 where
  "cp15_zero = \<lparr>ctrl1 = 0, dacr = 0, ttbr0 = 0, ttbr1 = 0, ttbr_ctrl = 0, context_id = 0, cp_log = []\<rparr>"

theorem mmu_on_off_witness: "\<exists>s1 s2. mmu_enable asm_staff cp15_zero = Inr s1 \<and> mmu_disable asm_staff s1 = Inr s2"
  using mmu_on_off [of cp15_zero] by (auto simp: cp15_zero_def)

text \<open>\<open>mmu_set_ctx\<close> accepts a process id above 64 of at most 24 bits and an address space id from 1 to 63
  and nothing else; then the table base is set and both ids can be read back from the context register.\<close>

theorem mmu_set_ctx_packs:
  "(if 0 < asid \<and> asid < 64 \<and> 64 < pid \<and> shr pid 24 = 0
    then \<exists>s'. mmu_set_ctx asm_staff pid asid pt s = Inr s' \<and> ttbr0 s' = pt \<and>
      shr (context_id s') 8 = pid \<and> context_id s' AND 0xFF = asid
    else mmu_set_ctx asm_staff pid asid pt s = Inl Assert_fail)"
proof (cases "0 < asid \<and> asid < 64 \<and> 64 < pid \<and> shr pid 24 = 0")
  case True
  have FF: "(0xFF :: u32) = mask 8" by (simp add: mask_eq_exp_minus_1)
  have "unat asid < 2 ^ 6" using True by (simp add: word_less_nat_alt)
  then have a: "bit asid i \<Longrightarrow> i < 6" for i by (rule small_word_bit)
  have "bit pid i \<Longrightarrow> i < 24" for i
  proof (rule ccontr)
    assume "bit pid i" "\<not> i < 24"
    then have "bit (shr pid 24) (i - 24)" by (simp add: bits_of)
    with True show False by simp
  qed
  note p = this
  have "shr (shl pid 8 OR asid) 8 = pid"
    by (rule u32_eqI) (auto simp: bits_of dest: a p)
  moreover have "(shl pid 8 OR asid) AND 0xFF = asid" unfolding FF
    by (rule u32_eqI) (auto simp: bits_of dest: a)
  ultimately show ?thesis using True
    by (simp add: mmu_set_ctx_def set_procid_ttbr0_def asm_staff_def cp15_set_procid_ttbr0_def mcr_def word_neq_0_conv)
next
  case False
  then show ?thesis
    by (auto simp: mmu_set_ctx_def set_procid_ttbr0_def require_def word_neq_0_conv)
qed

end
