(* ===== verification/PageTable.thy ===== *)
theory PageTable
  imports Cp15
begin

unbundle bit_operations_syntax

text \<open>
  The one-level page table of 1 MB sections, \<open>labs/16-vm-page-table/code/pt-vm.c\<close>. An entry is the record
  of the bit fields of \<open>fld_t\<close> (\<open>armv6-vm.h\<close>), a table is its address and its list of 4096 entries. The
  address that \<open>kmalloc\<close> returns is a parameter. A pointer to an entry is the entry; \<open>None\<close> is null.
\<close>

section \<open>Entries\<close>

record fld_t =
  tag :: "2 word"
  fld_B :: "1 word"
  fld_C :: "1 word"
  XN :: "1 word"
  fld_domain :: "4 word"
  IMP :: "1 word"
  AP :: "2 word"
  TEX :: "3 word"
  APX :: "1 word"
  fld_S :: "1 word"
  nG :: "1 word"
  super :: "1 word"
  sbz1 :: "1 word"
  sec_base_addr :: "12 word"

definition fld_zero :: fld_t where
  "fld_zero = \<lparr>tag = 0, fld_B = 0, fld_C = 0, XN = 0, fld_domain = 0, IMP = 0, AP = 0, TEX = 0, APX = 0,
     fld_S = 0, nG = 0, super = 0, sbz1 = 0, sec_base_addr = 0\<rparr>"

definition fld_mk :: fld_t where
  "fld_mk = fld_zero\<lparr>tag := 0b10\<rparr>"

definition fld_check_valid :: "fld_t \<Rightarrow> bool" where
  "fld_check_valid f \<longleftrightarrow> sbz1 f = 0 \<and> tag f = 0b10 \<and> fld_S f = 0 \<and> IMP f = 0 \<and> super f = 0"

text \<open>The word that holds an entry, with the offsets that \<open>fld_check_offsets\<close> checks.\<close>

definition fld_word :: "fld_t \<Rightarrow> u32" where
  "fld_word f = fold (OR)
     [ucast (tag f), shl (ucast (fld_B f)) 2, shl (ucast (fld_C f)) 3, shl (ucast (XN f)) 4,
      shl (ucast (fld_domain f)) 5, shl (ucast (IMP f)) 9, shl (ucast (AP f)) 10, shl (ucast (TEX f)) 12,
      shl (ucast (APX f)) 15, shl (ucast (fld_S f)) 16, shl (ucast (nG f)) 17, shl (ucast (super f)) 18,
      shl (ucast (sbz1 f)) 19, shl (ucast (sec_base_addr f)) 20] 0"

definition word_fld :: "u32 \<Rightarrow> fld_t" where
  "word_fld w = \<lparr>tag = ucast w, fld_B = ucast (shr w 2), fld_C = ucast (shr w 3), XN = ucast (shr w 4),
     fld_domain = ucast (shr w 5), IMP = ucast (shr w 9), AP = ucast (shr w 10), TEX = ucast (shr w 12),
     APX = ucast (shr w 15), fld_S = ucast (shr w 16), nG = ucast (shr w 17), super = ucast (shr w 18),
     sbz1 = ucast (shr w 19), sec_base_addr = ucast (shr w 20)\<rparr>"

section \<open>The table\<close>

record vm_pt =
  pt_addr :: u32
  pt_ents :: "fld_t list"

definition PT_LEVEL1_N :: nat where "PT_LEVEL1_N = 4096"

definition vm_pt_alloc :: "u32 \<Rightarrow> u32 \<Rightarrow> vm_pt res" where
  "vm_pt_alloc kmalloc_addr n =
     seq (require (n = 4096) Assert_fail) (\<lambda>_.
     let pt = \<lparr>pt_addr = kmalloc_addr, pt_ents = replicate 4096 fld_zero\<rparr> in
     seq (require (kmalloc_addr mod shl 1 14 = 0) Assert_fail) (\<lambda>_. Inr pt))"

definition vm_dup :: "u32 \<Rightarrow> vm_pt \<Rightarrow> vm_pt res" where
  "vm_dup kmalloc_addr pt1 =
     seq (vm_pt_alloc kmalloc_addr (word_of_nat PT_LEVEL1_N)) (\<lambda>pt2.
     Inr (pt2\<lparr>pt_ents := take PT_LEVEL1_N (pt_ents pt1)\<rparr>))"

definition vm_mmu_enable :: "staff \<Rightarrow> cp15 \<Rightarrow> cp15 res" where
  "vm_mmu_enable S s =
     seq (require (\<not> mmu_is_enabled S s) Assert_fail) (\<lambda>_.
     seq (mmu_enable S s) (\<lambda>s.
     seq (require (mmu_is_enabled S s) Assert_fail) (\<lambda>_. Inr s)))"

definition vm_mmu_disable :: "staff \<Rightarrow> cp15 \<Rightarrow> cp15 res" where
  "vm_mmu_disable S s =
     seq (require (mmu_is_enabled S s) Assert_fail) (\<lambda>_.
     seq (mmu_disable S s) (\<lambda>s.
     seq (require (\<not> mmu_is_enabled S s) Assert_fail) (\<lambda>_. Inr s)))"

definition vm_mmu_switch :: "staff \<Rightarrow> vm_pt \<Rightarrow> u32 \<Rightarrow> u32 \<Rightarrow> cp15 \<Rightarrow> cp15 res" where
  "vm_mmu_switch S pt pid asid s =
     seq (require (pt_addr pt \<noteq> 0) Assert_fail) (\<lambda>_. mmu_set_ctx S pid asid (pt_addr pt) s)"

definition vm_mmu_init :: "staff \<Rightarrow> u32 \<Rightarrow> cp15 \<Rightarrow> cp15 res" where
  "vm_mmu_init S domain_reg s = domain_access_ctrl_set S domain_reg (mmu_init S s)"

text \<open>The entry that \<open>vm_map_sec\<close> writes over \<open>pte\<close>. The mask of \<open>AP_perm\<close> is \<open>0x11\<close> in the source.\<close>

definition pte_set :: "u32 \<Rightarrow> pin_t \<Rightarrow> fld_t \<Rightarrow> fld_t" where
  "pte_set pa attr pte = pte
     \<lparr>tag := 0b10,
      fld_B := ucast (attr_mem attr AND 0x1),
      fld_C := ucast (shr (attr_mem attr) 1 AND 0x1),
      XN := 0,
      fld_domain := ucast (attr_dom attr),
      IMP := 0,
      AP := ucast (attr_AP_perm attr AND 0x11),
      TEX := ucast (shr (attr_mem attr) 2),
      APX := ucast (shr (attr_AP_perm attr) 2),
      fld_S := 0,
      nG := ucast (NOT (attr_G attr)),
      super := 0,
      sec_base_addr := ucast (shr pa 20)\<rparr>"

definition vm_map_sec :: "vm_pt \<Rightarrow> u32 \<Rightarrow> u32 \<Rightarrow> pin_t \<Rightarrow> (fld_t \<times> vm_pt) res" where
  "vm_map_sec pt va pa attr =
     seq (require (va mod OneMB = 0) Assert_fail) (\<lambda>_.
     seq (require (pa mod OneMB = 0) Assert_fail) (\<lambda>_.
     seq (require (attr_pagesize attr = PAGE_1MB) Assert_fail) (\<lambda>_.
     let index = unat (shr va 20) in
     seq (require (index < PT_LEVEL1_N) Assert_fail) (\<lambda>_.
     seq (arr_get (pt_ents pt) index) (\<lambda>pte.
     let pte = pte_set pa attr pte in
     seq (arr_set (pt_ents pt) index pte) (\<lambda>ents.
     Inr (pte, pt\<lparr>pt_ents := ents\<rparr>)))))))"

definition vm_lookup :: "vm_pt \<Rightarrow> u32 \<Rightarrow> fld_t option res" where
  "vm_lookup pt va =
     seq (arr_get (pt_ents pt) (unat (shr va 20))) (\<lambda>pte.
     Inr (if tag pte \<noteq> 0b10 then None else Some pte))"

definition vm_xlate :: "vm_pt \<Rightarrow> u32 \<Rightarrow> (u32 \<times> fld_t) option res" where
  "vm_xlate pt va =
     seq (vm_lookup pt va) (\<lambda>p. Inr (case p of None \<Rightarrow> None
       | Some pte \<Rightarrow> Some (shl (ucast (sec_base_addr pte)) 20, pte)))"

section \<open>The kernel's map\<close>

definition attr_mk :: "pr_ent_t \<Rightarrow> pin_t res" where
  "attr_mk e = (case pr_type e of
     MEM_DEVICE \<Rightarrow> pin_mk_device (pr_dom e)
   | MEM_RW \<Rightarrow> pin_mk_global (pr_dom e) perm_rw_priv MEM_uncached
   | MEM_RO \<Rightarrow> Inl Panic)"

fun map_ents :: "pr_ent_t list \<Rightarrow> vm_pt \<Rightarrow> vm_pt res" where
  "map_ents [] pt = Inr pt"
| "map_ents (e # es) pt =
     seq (attr_mk e) (\<lambda>attr.
     seq (vm_map_sec pt (pr_addr e) (pr_addr e) attr) (\<lambda>(_, pt). map_ents es pt))"

definition kern_asid :: u32 where "kern_asid = 1"
definition kern_pid :: u32 where "kern_pid = 0x140e"

definition vm_map_kernel :: "staff \<Rightarrow> u32 \<Rightarrow> procmap_t \<Rightarrow> bool \<Rightarrow> cp15 \<Rightarrow> (vm_pt \<times> cp15) res" where
  "vm_map_kernel S kmalloc_addr p enable_p s =
     seq (dom_perm (dom_ids p) DOM_client) (\<lambda>d.
     seq (vm_mmu_init S d s) (\<lambda>s.
     seq (vm_pt_alloc kmalloc_addr 4096) (\<lambda>pt.
     seq (map_ents (pm_map p) pt) (\<lambda>pt.
     seq (vm_mmu_switch S pt kern_pid kern_asid s) (\<lambda>s.
     seq (if enable_p then vm_mmu_enable S s else Inr s) (\<lambda>s.
     seq (require (pt_addr pt \<noteq> 0) Assert_fail) (\<lambda>_. Inr (pt, s))))))))"

section \<open>Bit fields\<close>

lemma bit_ucast_n: "bit (ucast (x :: 'a :: len word) :: 'b :: len word) i \<longleftrightarrow> i < LENGTH('b) \<and> bit x i"
  by (auto simp: bit_ucast_iff possible_bit_def)

lemma bit_len: "bit (x :: 'a :: len word) i \<Longrightarrow> i < LENGTH('a)"
  by (rule bit_imp_le_length)

lemma bit_shl_ucast:
  "i < 32 \<Longrightarrow> bit (shl (ucast (x :: 'a :: len word)) k) i \<longleftrightarrow> unat k \<le> i \<and> bit x (i - unat k)"
  by (auto simp: bits_of bit_ucast_n)

lemma bit_fld_word: "bit (fld_word f) i \<longleftrightarrow> i < 32 \<and> (
     bit (tag f) i \<or>
     (2 \<le> i \<and> bit (fld_B f) (i - 2)) \<or>
     (3 \<le> i \<and> bit (fld_C f) (i - 3)) \<or>
     (4 \<le> i \<and> bit (XN f) (i - 4)) \<or>
     (5 \<le> i \<and> bit (fld_domain f) (i - 5)) \<or>
     (9 \<le> i \<and> bit (IMP f) (i - 9)) \<or>
     (10 \<le> i \<and> bit (AP f) (i - 10)) \<or>
     (12 \<le> i \<and> bit (TEX f) (i - 12)) \<or>
     (15 \<le> i \<and> bit (APX f) (i - 15)) \<or>
     (16 \<le> i \<and> bit (fld_S f) (i - 16)) \<or>
     (17 \<le> i \<and> bit (nG f) (i - 17)) \<or>
     (18 \<le> i \<and> bit (super f) (i - 18)) \<or>
     (19 \<le> i \<and> bit (sbz1 f) (i - 19)) \<or>
     (20 \<le> i \<and> bit (sec_base_addr f) (i - 20)))"
proof (cases "i < 32")
  case True
  then show ?thesis
    by (simp add: fld_word_def bit_or_iff bit_shl_ucast bit_ucast_n) argo
next
  case False
  then show ?thesis by (auto dest: bit_u32_bound)
qed

lemma fld_word_field:
  fixes x :: "'a :: len word"
  assumes "\<And>j. j < LENGTH('a) \<Longrightarrow> bit (fld_word f) (unat k + j) = bit x j"
  shows "ucast (shr (fld_word f) k) = x"
  using assms by (intro bit_word_eqI) (simp add: bit_ucast_n bits_of)

text \<open>The layout of a page table entry: its fields do not overlap and cover the word, so an entry is
  recovered from the word that holds it and every word is the word of an entry.\<close>

theorem fld_layout_roundtrip: "word_fld (fld_word f) = f \<and> fld_word (word_fld w) = w"
proof
  have t: "ucast (fld_word f) = tag f"
    by (rule bit_word_eqI) (auto simp: bit_ucast_n bit_fld_word dest: bit_len)
  show "word_fld (fld_word f) = f"
    unfolding word_fld_def
    by (intro fld_t.equality; simp; (rule t)?; (rule fld_word_field)?) (auto simp: bit_fld_word dest: bit_len)
next
  show "fld_word (word_fld w) = w"
  proof (rule u32_eqI)
    fix i :: nat
    assume i: "i < 32"
    have two: "bit w (Suc (Suc 0)) = bit w 2" by (simp add: numeral_2_eq_2)
    show "bit (fld_word (word_fld w)) i = bit w i"
    proof (cases "bit w i")
      case False
      then show ?thesis by (auto simp: bit_fld_word word_fld_def bit_ucast_n bits_of two)
    next
      case True
      from i have "i < 2 \<or> i = 2 \<or> i = 3 \<or> i = 4 \<or> 5 \<le> i \<and> i < 9 \<or> i = 9 \<or> 10 \<le> i \<and> i < 12 \<or> 12 \<le> i \<and> i < 15 \<or>
          i = 15 \<or> i = 16 \<or> i = 17 \<or> i = 18 \<or> i = 19 \<or> 20 \<le> i" by arith
      with True i show ?thesis
        by (elim disjE) (auto simp: bit_fld_word word_fld_def bit_ucast_n bits_of two)
    qed
  qed
qed

section \<open>Mapping and looking up\<close>

text \<open>A table in which entries are put one at a time under a section number: what a provider promises.\<close>

fun map_all :: "('t \<Rightarrow> 'x \<Rightarrow> 't res) \<Rightarrow> 'x list \<Rightarrow> 't \<Rightarrow> 't res" where
  "map_all mp [] t = Inr t"
| "map_all mp (x # xs) t = seq (mp t x) (map_all mp xs)"

locale section_table =
  fixes inv :: "'t \<Rightarrow> bool"
    and mp :: "'t \<Rightarrow> 'x \<Rightarrow> 't res"
    and lk :: "'t \<Rightarrow> nat \<Rightarrow> 'e option"
    and key :: "'x \<Rightarrow> nat"
    and good :: "'x \<Rightarrow> 'e \<Rightarrow> bool"
  assumes mp_inv: "inv t \<Longrightarrow> mp t x = Inr t' \<Longrightarrow> inv t'"
    and mp_same: "inv t \<Longrightarrow> mp t x = Inr t' \<Longrightarrow> \<exists>e. lk t' (key x) = Some e \<and> good x e"
    and mp_other: "inv t \<Longrightarrow> mp t x = Inr t' \<Longrightarrow> k \<noteq> key x \<Longrightarrow> lk t' k = lk t k"
begin

lemma map_all_inv: "inv t \<Longrightarrow> map_all mp xs t = Inr t' \<Longrightarrow> inv t'"
  by (induction xs arbitrary: t) (auto simp: seq_eq_Inr intro: mp_inv)

lemma map_all_other:
  "inv t \<Longrightarrow> map_all mp xs t = Inr t' \<Longrightarrow> k \<notin> key ` set xs \<Longrightarrow> lk t' k = lk t k"
proof (induction xs arbitrary: t)
  case (Cons x xs)
  then obtain t1 where "mp t x = Inr t1" "map_all mp xs t1 = Inr t'" by (auto simp: seq_eq_Inr)
  with Cons show ?case using mp_other [of t x t1 k] mp_inv [of t x t1] by auto
qed simp

lemma map_all_same:
  "inv t \<Longrightarrow> map_all mp xs t = Inr t' \<Longrightarrow> distinct (map key xs) \<Longrightarrow> x \<in> set xs \<Longrightarrow>
    \<exists>e. lk t' (key x) = Some e \<and> good x e"
proof (induction xs arbitrary: t)
  case (Cons y ys)
  then obtain t1 where m: "mp t y = Inr t1" "map_all mp ys t1 = Inr t'" by (auto simp: seq_eq_Inr)
  with Cons.prems(1) have i: "inv t1" by (blast intro: mp_inv)
  show ?case
  proof (cases "x \<in> set ys")
    case True
    with Cons m i show ?thesis by auto
  next
    case False
    with Cons.prems have "x = y" "key y \<notin> key ` set ys" by auto
    with map_all_other [OF i m(2)] mp_same [OF Cons.prems(1) m(1)] show ?thesis by simp
  qed
qed simp

end

definition pt_ok :: "vm_pt \<Rightarrow> bool" where
  "pt_ok pt \<longleftrightarrow> length (pt_ents pt) = PT_LEVEL1_N"

definition sec_lookup :: "vm_pt \<Rightarrow> nat \<Rightarrow> fld_t option" where
  "sec_lookup pt k = (let pte = pt_ents pt ! k in if tag pte \<noteq> 0b10 then None else Some pte)"

lemma shr20_lt: "unat (shr (va :: u32) 20) < 4096"
proof -
  have "unat (shr va 20) = unat va div 2 ^ 20" by (simp add: shr_def drop_bit_eq_div unat_div)
  then show ?thesis using unat_u32_lt [of va] by (simp add: less_mult_imp_div_less)
qed

lemma vm_lookup_sec: "pt_ok pt \<Longrightarrow> vm_lookup pt va = Inr (sec_lookup pt (unat (shr va 20)))"
  using shr20_lt [of va] by (simp add: vm_lookup_def sec_lookup_def pt_ok_def PT_LEVEL1_N_def)

lemma vm_map_sec_ok: "pt_ok pt \<Longrightarrow> vm_map_sec pt va pa attr = Inr (pte, pt') \<Longrightarrow>
    pte = pte_set pa attr (pt_ents pt ! unat (shr va 20)) \<and>
    pt' = pt\<lparr>pt_ents := (pt_ents pt)[unat (shr va 20) := pte]\<rparr> \<and> va mod OneMB = 0 \<and> pa mod OneMB = 0"
  by (auto simp: vm_map_sec_def seq_eq_Inr Let_def pt_ok_def arr_get_def arr_set_def split: if_splits)

lemma aligned_low: "va mod OneMB = 0 \<Longrightarrow> i < 20 \<Longrightarrow> \<not> bit va i"
proof -
  assume "va mod OneMB = 0" and i: "i < 20"
  then have "take_bit 20 va = 0" by (simp add: take_bit_eq_mod OneMB_def)
  then have "\<not> bit (take_bit 20 va) i" by simp
  with i show "\<not> bit va i" by (simp only: bit_take_bit_iff) simp
qed

lemma word1_zero: "(x :: 1 word) = 0 \<longleftrightarrow> \<not> bit x 0"
  by (metis bit_0_eq bit_word_eqI bot_apply bot_bool_def less_one len_num1)

lemma pte_set_tag [simp]: "tag (pte_set pa attr pte) = 2"
  by (simp add: pte_set_def)

lemma map_sec_lookup:
  assumes "pt_ok pt" "vm_map_sec pt va pa attr = Inr (pte, pt')"
  shows "pt_ok pt'" "sec_lookup pt' (unat (shr va 20)) = Some pte"
    "k \<noteq> unat (shr va 20) \<Longrightarrow> sec_lookup pt' k = sec_lookup pt k"
  using assms vm_map_sec_ok [OF assms] shr20_lt [of va]
  by (auto simp: pt_ok_def sec_lookup_def Let_def PT_LEVEL1_N_def)


definition demo_pt :: vm_pt where
  "demo_pt = \<lparr>pt_addr = 0x4000, pt_ents = replicate PT_LEVEL1_N fld_zero\<rparr>"

lemma demo_map: "vm_map_sec demo_pt 0x00300000 0x20000000
      \<lparr>attr_G = 1, attr_asid = 0, attr_dom = 1, attr_pagesize = PAGE_1MB, attr_AP_perm = perm_rw_priv, attr_mem = MEM_device\<rparr>
    = (let e = pte_set 0x20000000 \<lparr>attr_G = 1, attr_asid = 0, attr_dom = 1, attr_pagesize = PAGE_1MB,
         attr_AP_perm = perm_rw_priv, attr_mem = MEM_device\<rparr> fld_zero
       in Inr (e, demo_pt\<lparr>pt_ents := (replicate PT_LEVEL1_N fld_zero)[3 := e]\<rparr>))"
  by (simp add: vm_map_sec_def demo_pt_def OneMB_def shr_def PT_LEVEL1_N_def Let_def)


text \<open>Permissions are lost: the mask of \<open>vm_map_sec\<close> is the hexadecimal \<open>0x11\<close>, not the binary \<open>0b11\<close>, so a
  section mapped read-write for user code gets the entry of one that only privileged code may access.\<close>

theorem user_permission_lost:
  "pte_set pa (attr\<lparr>attr_AP_perm := perm_rw_user\<rparr>) pte = pte_set pa (attr\<lparr>attr_AP_perm := perm_rw_priv\<rparr>) pte"
  by (simp add: pte_set_def perm_rw_user_def perm_rw_priv_def perm_na_user_def shr_def)

text \<open>\<open>vm_xlate\<close> does not translate an address: for every address of a mapped section it gives the
  base of the physical section, without the offset.\<close>

theorem vm_xlate_drops_offset:
  assumes "length (pt_ents pt) = PT_LEVEL1_N" "vm_map_sec pt va pa attr = Inr (pte, pt')" "off < OneMB"
  shows "vm_xlate pt' (va + off) = Inr (Some (pa, pte))"
proof -
  have ok: "pt_ok pt" using assms(1) by (simp add: pt_ok_def)
  note m = map_sec_lookup [OF ok assms(2)] vm_map_sec_ok [OF ok assms(2)]
  then have al: "va mod OneMB = 0" "pa mod OneMB = 0" by auto
  have e: "(1048576 :: u32) = 2 ^ 20" by simp
  have lo: "unat x mod 2 ^ 20 = 0" if "x mod OneMB = 0" for x :: u32
    using arg_cong [OF that, of unat] by (simp add: unat_mod OneMB_def)
  have "unat off < 2 ^ 20" using assms(3) by (simp add: word_less_nat_alt OneMB_def)
  have nowrap: "unat va + unat off < 2 ^ 32"
  proof -
    obtain k where k: "unat va = 2 ^ 20 * k" using lo [OF al(1)] by auto
    with unat_u32_lt [of va] have "k < 4096" by simp
    with k \<open>unat off < 2 ^ 20\<close> show ?thesis by simp
  qed
  have s: "unat (shr x 20) = unat x div 2 ^ 20" for x :: u32 by (simp add: shr_def drop_bit_eq_div unat_div)
  have "(unat va + unat off) div 2 ^ 20 = unat va div 2 ^ 20"
    using lo [OF al(1)] \<open>unat off < 2 ^ 20\<close> by (auto elim!: dvdE)
  with nowrap have idx: "unat (shr (va + off) 20) = unat (shr va 20)"
    unfolding s by (simp add: unat_word_ariths)
  have "shl (ucast (ucast (shr pa 20) :: 12 word)) 20 = pa"
  proof (rule u32_eqI)
    fix i :: nat assume i: "i < 32"
    with aligned_low [OF al(2), of i] show "bit (shl (ucast (ucast (shr pa 20) :: 12 word)) 20) i = bit pa i"
      by (cases "i < 20") (auto simp: bits_of bit_ucast_n)
  qed
  with m idx show ?thesis by (simp add: vm_xlate_def vm_lookup_sec pte_set_def)
qed

theorem vm_xlate_drops_offset_witness:
  "\<exists>pte pt'. vm_map_sec demo_pt 0x00300000 0x20000000
      \<lparr>attr_G = 1, attr_asid = 0, attr_dom = 1, attr_pagesize = PAGE_1MB, attr_AP_perm = perm_rw_priv, attr_mem = MEM_device\<rparr>
    = Inr (pte, pt') \<and> vm_xlate pt' (0x00300000 + 0x1234) = Inr (Some (0x20000000, pte))"
proof -
  have "length (pt_ents demo_pt) = PT_LEVEL1_N" "(0x1234 :: u32) < OneMB" by (simp_all add: demo_pt_def OneMB_def)
  from vm_xlate_drops_offset [OF this(1) demo_map [unfolded Let_def] this(2)] show ?thesis
    by (simp only: demo_map Let_def) auto
qed

section \<open>The kernel's map\<close>

definition map_ent :: "vm_pt \<Rightarrow> pr_ent_t \<Rightarrow> vm_pt res" where
  "map_ent pt e = seq (attr_mk e) (\<lambda>attr.
     seq (vm_map_sec pt (pr_addr e) (pr_addr e) attr) (\<lambda>(_, pt). Inr pt))"

definition ent_sec :: "pr_ent_t \<Rightarrow> nat" where
  "ent_sec e = unat (shr (pr_addr e) 20)"

text \<open>An identity entry for privileged read and write access, device memory or uncached memory.\<close>

definition kernel_pte :: "pr_ent_t \<Rightarrow> fld_t \<Rightarrow> bool" where
  "kernel_pte e pte \<longleftrightarrow> unat (sec_base_addr pte) = ent_sec e \<and> AP pte = 0b01 \<and> APX pte = 0 \<and> nG pte = 0 \<and>
     fld_B pte = 0 \<and> fld_C pte = 0 \<and> TEX pte = (if pr_type e = MEM_DEVICE then 0 else 1) \<and>
     fld_domain pte = ucast (pr_dom e)"

lemma map_ents_all: "map_ents es pt = map_all map_ent es pt"
  by (induction es arbitrary: pt)
    (auto simp: map_ent_def seq_def split: sum.splits prod.splits)

lemma seq_other [simp]: "seq x Inr = x"
  by (cases x) (simp_all add: seq_def)

lemma attr_mk_ok: "attr_mk e = Inr a \<Longrightarrow> pr_type e \<noteq> MEM_RO \<and>
    attr_G a = 1 \<and> attr_dom a = pr_dom e \<and> attr_AP_perm a = perm_rw_priv \<and>
    attr_mem a = (if pr_type e = MEM_DEVICE then MEM_device else MEM_uncached)"
  by (auto simp: attr_mk_def pin_mk_device_def pin_mk_global_def dest!: pin_mk_ok split: mem_type.splits)

lemma unat_ucast12: "unat (ucast (x :: u32) :: 12 word) = take_bit 12 (unat x)"
  by (simp add: unsigned_ucast_eq unsigned_take_bit_eq)

lemma kernel_pte_set: "attr_mk e = Inr a \<Longrightarrow> kernel_pte e (pte_set (pr_addr e) a pte)"
  using attr_mk_ok [of e a] shr20_lt [of "pr_addr e"]
  by (auto simp: kernel_pte_def pte_set_def ent_sec_def perm_rw_priv_def perm_na_user_def MEM_device_def
      MEM_uncached_def TEX_C_B_def shl_def shr_def unat_ucast12 take_bit_nat_eq_self word1_zero bit_ucast_n bits_of)

interpretation pt: section_table pt_ok map_ent sec_lookup ent_sec kernel_pte
proof
  fix pt pt' e
  assume ok: "pt_ok pt" and "map_ent pt e = Inr pt'"
  then obtain a pte where a: "attr_mk e = Inr a" and m: "vm_map_sec pt (pr_addr e) (pr_addr e) a = Inr (pte, pt')"
    by (auto simp: map_ent_def seq_eq_Inr)
  note l = map_sec_lookup [OF ok m]
  show "pt_ok pt'" by (rule l)
  show "\<exists>pte. sec_lookup pt' (ent_sec e) = Some pte \<and> kernel_pte e pte"
    using l vm_map_sec_ok [OF ok m] kernel_pte_set [OF a] by (simp add: ent_sec_def)
  show "sec_lookup pt' k = sec_lookup pt k" if "k \<noteq> ent_sec e" for k
    using l that by (simp add: ent_sec_def)
qed

lemma vm_pt_alloc_ok: "vm_pt_alloc ka n = Inr pt \<Longrightarrow> pt_ok pt \<and> pt_addr pt = ka \<and> (\<forall>k < 4096. sec_lookup pt k = None)"
  by (auto simp: vm_pt_alloc_def seq_eq_Inr pt_ok_def PT_LEVEL1_N_def sec_lookup_def fld_zero_def Let_def)

lemma map_ent_addr: "map_ent pt e = Inr pt' \<Longrightarrow> pt_addr pt' = pt_addr pt"
  by (auto simp: map_ent_def seq_eq_Inr vm_map_sec_def Let_def)

lemma map_all_addr: "map_all map_ent es pt = Inr pt' \<Longrightarrow> pt_addr pt' = pt_addr pt"
  by (induction es arbitrary: pt) (auto simp: seq_eq_Inr dest: map_ent_addr)

text \<open>C3. The kernel's page table is the identity map of its regions: when the regions lie in different sections,
  an address of one of them is mapped to itself with the attributes of its type and domain, and an address
  in no region is not mapped.\<close>

theorem vm_map_kernel_identity:
  assumes "vm_map_kernel S ka p enable_p s = Inr (pt, s')" "distinct (map ent_sec (pm_map p))"
  shows "pt_addr pt = ka \<and>
    (e \<in> set (pm_map p) \<and> ent_sec e = unat (shr va 20) \<longrightarrow>
       (\<exists>pte. vm_lookup pt va = Inr (Some pte) \<and> kernel_pte e pte)) \<and>
    (unat (shr va 20) \<notin> ent_sec ` set (pm_map p) \<longrightarrow> vm_lookup pt va = Inr None)"
proof -
  obtain pt0 where a: "vm_pt_alloc ka 4096 = Inr pt0" and m: "map_all map_ent (pm_map p) pt0 = Inr pt"
    using assms(1) by (auto simp: vm_map_kernel_def seq_eq_Inr map_ents_all)
  note a = vm_pt_alloc_ok [OF a]
  note lk = vm_lookup_sec [OF pt.map_all_inv [OF conjunct1 [OF a] m]]
  show ?thesis
    using pt.map_all_same [OF conjunct1 [OF a] m assms(2), of e]
      pt.map_all_other [OF conjunct1 [OF a] m, of "unat (shr va 20)"]
      map_all_addr [OF m] a shr20_lt [of va]
    by (auto simp: lk)
qed

definition demo_map_p :: procmap_t where
  "demo_map_p = \<lparr>dom_ids = 2, pm_map = [\<lparr>pr_addr = 0x20000000, pr_nbytes = OneMB, pr_type = MEM_DEVICE, pr_dom = 1\<rparr>]\<rparr>"

theorem vm_map_kernel_identity_witness:
  "\<exists>pt s' pte. vm_map_kernel asm_staff 0x4000 demo_map_p False cp15_zero = Inr (pt, s') \<and>
     vm_lookup pt 0x20000034 = Inr (Some pte) \<and> unat (sec_base_addr pte) = 0x200 \<and> vm_lookup pt 0 = Inr None"
proof -
  let ?e = "hd (pm_map demo_map_p)"
  obtain d where d: "dom_perm 2 DOM_client = Inr d" by (simp add: dom_perm_def DOM_client_def shr_def)
  obtain s1 where s1: "domain_access_ctrl_set asm_staff d (mmu_init asm_staff cp15_zero) = Inr s1"
    using asm.domain_set by blast
  obtain pt where pt: "map_ents (pm_map demo_map_p) \<lparr>pt_addr = 0x4000, pt_ents = replicate 4096 fld_zero\<rparr> = Inr pt"
    and ad: "pt_addr pt = 0x4000"
    by (simp add: demo_map_p_def attr_mk_def pin_mk_device_def pin_mk_def mem_perm_islegal_def vm_map_sec_def
        OneMB_def PAGE_1MB_def PT_LEVEL1_N_def Let_def shr_def)
  obtain s2 where s2: "vm_mmu_switch asm_staff pt kern_pid kern_asid s1 = Inr s2"
    by (simp add: vm_mmu_switch_def ad mmu_set_ctx_def set_procid_ttbr0_def kern_pid_def kern_asid_def shr_def)
  have k: "vm_map_kernel asm_staff 0x4000 demo_map_p False cp15_zero = Inr (pt, s2)"
    using d s1 pt s2 ad by (simp add: vm_map_kernel_def vm_mmu_init_def vm_pt_alloc_def demo_map_p_def shl_def)
  have dist: "distinct (map ent_sec (pm_map demo_map_p))" by (simp add: demo_map_p_def)
  show ?thesis
    using k vm_map_kernel_identity [OF k dist, of ?e "0x20000034"] vm_map_kernel_identity [OF k dist, of ?e 0]
    by (auto simp: demo_map_p_def ent_sec_def shr_def kernel_pte_def)
qed

text \<open>A copy of a page table made by \<open>vm_dup\<close> is at its own address and translates every address as
  the original does.\<close>

theorem vm_dup_same_lookup:
  assumes "length (pt_ents pt) = PT_LEVEL1_N" "ka mod shl 1 14 = 0"
  shows "\<exists>pt2. vm_dup ka pt = Inr pt2 \<and> pt_addr pt2 = ka \<and> vm_lookup pt2 va = vm_lookup pt va"
  using assms by (simp add: vm_dup_def vm_pt_alloc_def PT_LEVEL1_N_def vm_lookup_def)

theorem vm_dup_same_lookup_witness:
  "\<exists>pt2. vm_dup 0x8000 demo_pt = Inr pt2 \<and> pt_addr pt2 = 0x8000"
  using vm_dup_same_lookup [of demo_pt "0x8000"] by (auto simp: demo_pt_def shl_def)

end
