(* ===== verification/LibC.thy ===== *)
theory LibC
  imports Prelude
begin

unbundle bit_operations_syntax

text \<open>
  The string and memory functions of \<open>libpi/libc\<close>. The machine has one flat address space of bytes, so
  memory is a function from addresses to bytes and every access is defined. A loop that looks for a
  terminating zero may not end: these functions are \<open>partial_function (option)\<close> and \<open>None\<close> is a run
  that does not return. \<open>char\<close> is unsigned, as on the ARM.
\<close>

type_synonym ram = "u32 \<Rightarrow> u8"

section \<open>Blocks of memory\<close>

definition ld :: "nat \<Rightarrow> ram \<Rightarrow> u32 \<Rightarrow> u8 list" where
  "ld k m a = map (\<lambda>i. m (a + word_of_nat i)) [0..<k]"

fun st :: "ram \<Rightarrow> u32 \<Rightarrow> u8 list \<Rightarrow> ram" where
  "st m a [] = m"
| "st m a (b # bs) = st (m(a := b)) (a + 1) bs"

text \<open>\<open>for(i = 0; i < n; i++) d[i] = s[i]\<close> with elements of \<open>k\<close> bytes.\<close>

fun copy_elems :: "nat \<Rightarrow> nat \<Rightarrow> u32 \<Rightarrow> u32 \<Rightarrow> ram \<Rightarrow> ram" where
  "copy_elems k 0 d s m = m"
| "copy_elems k (Suc n) d s m =
     copy_elems k n (d + word_of_nat k) (s + word_of_nat k) (st m d (ld k m s))"

definition memcpy :: "u32 \<Rightarrow> u32 \<Rightarrow> u32 \<Rightarrow> ram \<Rightarrow> u32 \<times> ram" where
  "memcpy dst src nbytes m =
     (dst,
      if dst mod 8 = 0 \<and> src mod 8 = 0 \<and> nbytes mod 8 = 0 then copy_elems 8 (unat (nbytes div 8)) dst src m
      else if dst mod 4 = 0 \<and> src mod 4 = 0 \<and> nbytes mod 4 = 0 then copy_elems 4 (unat (nbytes div 4)) dst src m
      else copy_elems 1 (unat nbytes) dst src m)"

fun move_down :: "nat \<Rightarrow> u32 \<Rightarrow> u32 \<Rightarrow> ram \<Rightarrow> ram" where
  "move_down 0 a b m = m"
| "move_down (Suc n) a b m = move_down n (a - 1) (b - 1) (m(a := m b))"

fun move_up :: "nat \<Rightarrow> u32 \<Rightarrow> u32 \<Rightarrow> ram \<Rightarrow> ram" where
  "move_up 0 a b m = m"
| "move_up (Suc n) a b m = move_up n (a + 1) (b + 1) (m(a := m b))"

definition memmove :: "u32 \<Rightarrow> u32 \<Rightarrow> u32 \<Rightarrow> ram \<Rightarrow> u32 \<times> ram" where
  "memmove dst src count m =
     (dst,
      if src = dst then m
      else if dst < src then move_up (unat count) dst src m
      else move_down (unat count) (dst + (count - 1)) (src + (count - 1)) m)"

text \<open>The pointer that \<open>memset\<close> returns is the one its loops have advanced.\<close>

fun fill :: "nat \<Rightarrow> nat \<Rightarrow> u8 \<Rightarrow> u32 \<Rightarrow> ram \<Rightarrow> u32 \<times> ram" where
  "fill k 0 c p m = (p, m)"
| "fill k (Suc n) c p m = fill k n c (p + word_of_nat k) (st m p (replicate k c))"

definition memset :: "u32 \<Rightarrow> u32 \<Rightarrow> u32 \<Rightarrow> ram \<Rightarrow> u32 \<times> ram" where
  "memset dst c n m =
     (if n = 0 then (dst, m)
      else if c = 0 \<and> dst mod 8 = 0 \<and> n mod 8 = 0 then fill 8 (unat (n div 8)) 0 dst m
      else if c = 0 \<and> dst mod 4 = 0 \<and> n mod 4 = 0 then fill 4 (unat (n div 4)) 0 dst m
      else if dst < dst + n then fill 1 (unat n) (ucast c) dst m
      else (dst, m))"

fun memcmp_loop :: "nat \<Rightarrow> u32 \<Rightarrow> u32 \<Rightarrow> ram \<Rightarrow> int" where
  "memcmp_loop 0 s1 s2 m = 0"
| "memcmp_loop (Suc n) s1 s2 m =
     (let v = uint (m s1) - uint (m s2) in if v \<noteq> 0 then v else memcmp_loop n (s1 + 1) (s2 + 1) m)"

definition memcmp :: "u32 \<Rightarrow> u32 \<Rightarrow> u32 \<Rightarrow> ram \<Rightarrow> int" where
  "memcmp s1 s2 nbytes m = memcmp_loop (unat nbytes) s1 s2 m"

fun memiszero_loop :: "nat \<Rightarrow> u32 \<Rightarrow> ram \<Rightarrow> bool" where
  "memiszero_loop 0 p m = True"
| "memiszero_loop (Suc n) p m = (if m p \<noteq> 0 then False else memiszero_loop n (p + 1) m)"

definition memiszero :: "u32 \<Rightarrow> u32 \<Rightarrow> ram \<Rightarrow> bool" where
  "memiszero p n m = memiszero_loop (unat n) p m"

section \<open>Strings\<close>

partial_function (option) strlen_loop :: "u32 \<Rightarrow> u32 \<Rightarrow> ram \<Rightarrow> u32 option" where
  "strlen_loop p r m = (if m (p + r) \<noteq> 0 then strlen_loop p (r + 1) m else Some r)"

definition strlen :: "u32 \<Rightarrow> ram \<Rightarrow> u32 option" where
  "strlen p m = strlen_loop p 0 m"

partial_function (option) strcpy_loop :: "u32 \<Rightarrow> u32 \<Rightarrow> ram \<Rightarrow> ram option" where
  "strcpy_loop s s2 m =
     (let c = m s2; m' = m(s := c) in if c \<noteq> 0 then strcpy_loop (s + 1) (s2 + 1) m' else Some m')"

definition strcpy :: "u32 \<Rightarrow> u32 \<Rightarrow> ram \<Rightarrow> (u32 \<times> ram) option" where
  "strcpy s1 s2 m = map_option (\<lambda>m'. (s1, m')) (strcpy_loop s1 s2 m)"

text \<open>The first loop of \<open>strcat\<close> leaves \<open>s1\<close> one past the terminator of \<open>dest\<close>; then \<open>s1\<close> is moved to the
  last byte before it and the second loop stores at \<open>*++s1\<close>.\<close>

partial_function (option) strcat_end :: "u32 \<Rightarrow> ram \<Rightarrow> u32 option" where
  "strcat_end s1 m = (if m s1 \<noteq> 0 then strcat_end (s1 + 1) m else Some (s1 + 1))"

partial_function (option) strcat_loop :: "u32 \<Rightarrow> u32 \<Rightarrow> ram \<Rightarrow> ram option" where
  "strcat_loop s1 s2 m =
     (let c = m s2; m' = m(s1 + 1 := c) in if c \<noteq> 0 then strcat_loop (s1 + 1) (s2 + 1) m' else Some m')"

definition strcat :: "u32 \<Rightarrow> u32 \<Rightarrow> ram \<Rightarrow> (u32 \<times> ram) option" where
  "strcat dest src m =
     (case strcat_end dest m of None \<Rightarrow> None
      | Some s1 \<Rightarrow> map_option (\<lambda>m'. (dest, m')) (strcat_loop (s1 - 2) src m))"

partial_function (option) strcmp :: "u32 \<Rightarrow> u32 \<Rightarrow> ram \<Rightarrow> int option" where
  "strcmp a b m =
     (if m a \<noteq> 0 \<and> m a = m b then strcmp (a + 1) (b + 1) m else Some (uint (m a) - uint (m b)))"

fun strncmp_loop :: "nat \<Rightarrow> u32 \<Rightarrow> u32 \<Rightarrow> ram \<Rightarrow> int" where
  "strncmp_loop 0 s1 s2 m = 0"
| "strncmp_loop (Suc n) s1 s2 m =
     (if m s1 \<noteq> m s2 then uint (m s1) - uint (m s2) else strncmp_loop n (s1 + 1) (s2 + 1) m)"

definition strncmp :: "u32 \<Rightarrow> u32 \<Rightarrow> u32 \<Rightarrow> ram \<Rightarrow> int" where
  "strncmp s1 s2 n m = strncmp_loop (unat n) s1 s2 m"

text \<open>The null pointer is \<open>0\<close>.\<close>

partial_function (option) strchr :: "u32 \<Rightarrow> u8 \<Rightarrow> ram \<Rightarrow> u32 option" where
  "strchr s c m = (if m s = c then Some s else if m s \<noteq> 0 then strchr (s + 1) c m else Some 0)"

section \<open>The hash of the equivalence checks\<close>

definition get16bits :: "u8 \<Rightarrow> u8 \<Rightarrow> u32" where
  "get16bits p0 p1 = shl (ucast p1) 8 OR ucast p0"

fun fast_hash_main :: "u8 list \<Rightarrow> u32 \<Rightarrow> u32 \<times> u8 list" where
  "fast_hash_main (a # b # c # d # data) hash =
     (let hash = hash + get16bits a b;
          tmp = shl (get16bits c d) 11 XOR hash;
          hash = shl hash 16 XOR tmp
      in fast_hash_main data (hash + shr hash 11))"
| "fast_hash_main data hash = (hash, data)"

definition fast_hash_end :: "u8 list \<Rightarrow> u32 \<Rightarrow> u32" where
  "fast_hash_end data hash = (case data of
     [a, b, c] \<Rightarrow>
       let hash = hash + get16bits a b;
           hash = hash XOR shl hash 16;
           hash = hash XOR shl (scast c) 18
       in hash + shr hash 11
   | [a, b] \<Rightarrow>
       let hash = hash + get16bits a b;
           hash = hash XOR shl hash 11
       in hash + shr hash 17
   | [a] \<Rightarrow>
       let hash = hash + scast a;
           hash = hash XOR shl hash 10
       in hash + shr hash 1
   | _ \<Rightarrow> hash)"

definition fast_hash_avalanche :: "u32 \<Rightarrow> u32" where
  "fast_hash_avalanche hash =
     (let hash = hash XOR shl hash 3;
          hash = hash + shr hash 5;
          hash = hash XOR shl hash 4;
          hash = hash + shr hash 17;
          hash = hash XOR shl hash 25
      in hash + shr hash 6)"

text \<open>The data of length \<open>len\<close> at the pointer is the list of its bytes.\<close>

definition fast_hash_inc32 :: "u8 list \<Rightarrow> u32 \<Rightarrow> u32" where
  "fast_hash_inc32 data hash =
     (if data = [] then 0
      else let (hash, rest) = fast_hash_main data hash in fast_hash_avalanche (fast_hash_end rest hash))"

definition fast_hash32 :: "u8 list \<Rightarrow> u32" where
  "fast_hash32 data = fast_hash_inc32 data (word_of_nat (length data))"

section \<open>Copying\<close>

text \<open>The specification of a copy: \<open>N\<close> bytes at \<open>d\<close> are those that were at \<open>s\<close>, the rest is unchanged.\<close>

definition blit :: "ram \<Rightarrow> u32 \<Rightarrow> u32 \<Rightarrow> nat \<Rightarrow> ram" where
  "blit m d s N = (\<lambda>a. if unat (a - d) < N then m (s + (a - d)) else m a)"

lemma unat_sub_u32:
  "unat (x - y :: u32) = (if unat y \<le> unat x then unat x - unat y else unat x + 4294967296 - unat y)"
  by (simp add: unat_sub_if_size word_size)

lemma unat_of_small: "k < 4294967296 \<Longrightarrow> unat (word_of_nat k :: u32) = k"
  by (simp add: unat_of_nat)

lemma blit_0 [simp]: "blit m d s 0 = m"
  by (simp add: blit_def)

lemma st_at: "st m a bs x = (if unat (x - a) < length bs then bs ! unat (x - a) else m x)"
  if "length bs \<le> 4294967296"
  using that
proof (induction m a bs rule: st.induct)
  case (2 m a b bs)
  have IH: "st (m(a := b)) (a + 1) bs x =
      (if unat (x - (a + 1)) < length bs then bs ! unat (x - (a + 1)) else (m(a := b)) x)"
    by (rule 2(1)) (use 2(2) in simp)
  show ?case
  proof (cases "x = a")
    case True
    then have "\<not> unat (x - (a + 1)) < length bs"
      using 2(2) by (simp add: unsigned_minus_1_eq_mask mask_eq_exp_minus_1)
    with True show ?thesis unfolding st.simps IH by simp
  next
    case False
    then have "x - a \<noteq> 0" by simp
    then have "unat (x - (a + 1)) = unat (x - a) - 1" "0 < unat (x - a)"
      unfolding diff_diff_eq [symmetric] by (simp_all add: unat_minus_one unat_gt_0)
    with False show ?thesis unfolding st.simps IH by (auto simp: nth_Cons')
  qed
qed simp

lemma st_ld: "k \<le> 4294967296 \<Longrightarrow> st m d (ld k m s) = blit m d s k"
  by (rule ext) (simp add: st_at blit_def ld_def)

lemma blit_blit:
  assumes "d = s \<or> k + j \<le> unat (d - s)" "k + j \<le> 4294967296" "0 < j"
  shows "blit (blit m d s k) (d + word_of_nat k) (s + word_of_nat k) j = blit m d s (k + j)"
proof
  fix a
  let ?x = "a - d"
  have k: "unat (word_of_nat k :: u32) = k" using assms(2,3) by (simp add: unat_of_small)
  have x: "a - (d + word_of_nat k) = ?x - word_of_nat k" by simp
  have x': "s + word_of_nat k + (?x - word_of_nat k) = s + ?x" by simp
  show "blit (blit m d s k) (d + word_of_nat k) (s + word_of_nat k) j a = blit m d s (k + j) a"
  proof (cases "k \<le> unat ?x")
    case False
    then have "\<not> unat (?x - word_of_nat k) < j" "unat ?x < k"
      using assms(2) unat_sub_u32 [of ?x "word_of_nat k"] k by auto
    then show ?thesis unfolding blit_def [of "blit m d s k"] x by (simp add: blit_def)
  next
    case True
    then have u: "unat (?x - word_of_nat k) = unat ?x - k" using unat_sub_u32 [of ?x "word_of_nat k"] k by simp
    have "blit m d s k (s + ?x) = m (s + ?x)" if "unat ?x < k + j"
      using assms(1)
    proof
      assume "d = s"
      then show ?thesis by (simp add: blit_def)
    next
      assume y: "k + j \<le> unat (d - s)"
      have "s + ?x - d = ?x - (d - s)" by simp
      moreover have "unat (?x - (d - s)) = unat ?x + 4294967296 - unat (d - s)"
        using unat_sub_u32 [of ?x "d - s"] that y by simp
      ultimately have "unat (s + ?x - d) = unat ?x + 4294967296 - unat (d - s)" by (simp only:)
      moreover have "unat (d - s) < 4294967296" by simp
      ultimately have "k \<le> unat (s + ?x - d)" using True by linarith
      then show ?thesis by (simp add: blit_def)
    qed
    then show ?thesis
      unfolding blit_def [of "blit m d s k"] x x' using u True by (auto simp: blit_def)
  qed
qed

lemma copy_elems_blit:
  assumes "0 < k" "d = s \<or> k * n \<le> unat (d - s)" "k * n \<le> 4294967296"
  shows "copy_elems k n d s m = blit m d s (k * n)"
  using assms(2,3)
proof (induction n arbitrary: d s m)
  case (Suc n)
  show ?case
  proof (cases n)
    case 0
    then show ?thesis using Suc.prems by (simp add: st_ld)
  next
    case (Suc n')
    have d: "d + word_of_nat k - (s + word_of_nat k) = d - s" by simp
    have "copy_elems k n (d + word_of_nat k) (s + word_of_nat k) (blit m d s k) =
        blit (blit m d s k) (d + word_of_nat k) (s + word_of_nat k) (k * n)"
      using Suc.prems by (intro Suc.IH) (auto simp only: d, auto)
    also have "\<dots> = blit m d s (k + k * n)"
      using Suc.prems assms(1) Suc by (intro blit_blit) auto
    finally show ?thesis using Suc.prems by (simp add: st_ld)
  qed
qed simp

lemma move_up_copy: "move_up n d s m = copy_elems 1 n d s m"
  by (induction n arbitrary: d s m) (simp_all add: ld_def)

lemma move_down_blit:
  assumes "d = s \<or> n \<le> unat (s - d)" "n \<le> 4294967296"
  shows "move_down n (d + (word_of_nat n - 1)) (s + (word_of_nat n - 1)) m = blit m d s n"
  using assms
proof (induction n arbitrary: m)
  case (Suc n)
  let ?n = "word_of_nat n :: u32"
  let ?m = "m(d + ?n := m (s + ?n))"
  have n: "unat ?n = n" using Suc.prems(2) by (simp add: unat_of_small)
  have "move_down (Suc n) (d + (word_of_nat (Suc n) - 1)) (s + (word_of_nat (Suc n) - 1)) m =
      move_down n (d + (?n - 1)) (s + (?n - 1)) ?m" by (simp add: algebra_simps)
  also have "\<dots> = blit ?m d s n" using Suc.prems by (intro Suc.IH) auto
  also have "\<dots> = blit m d s (Suc n)"
  proof
    fix a
    let ?x = "a - d"
    consider "unat ?x < n" | "unat ?x = n" | "n < unat ?x" by linarith
    then show "blit ?m d s n a = blit m d s (Suc n) a"
    proof cases
      case 1
      have "d = s \<or> s + ?x \<noteq> d + ?n"
      proof (rule disjCI)
        assume "\<not> s + ?x \<noteq> d + ?n"
        then have "s - d = ?n - ?x" by (simp add: algebra_simps)
        moreover have "unat (?n - ?x) = n - unat ?x" using 1 n unat_sub_u32 [of ?n ?x] by simp
        ultimately have "unat (s - d) < Suc n" by (simp only:)
        with Suc.prems(1) show "d = s" by auto
      qed
      with 1 show ?thesis by (auto simp: blit_def)
    next
      case 2
      then have "?x = ?n" using n by (metis word_unat_eq_iff)
      then have "a = d + ?n" by (simp add: algebra_simps)
      with 2 n show ?thesis by (simp add: blit_def)
    next
      case 3
      then have "a \<noteq> d + ?n" using n by auto
      with 3 show ?thesis by (simp add: blit_def)
    qed
  qed
  finally show ?case .
qed simp

lemma unat_div_exact: "n mod k = 0 \<Longrightarrow> unat (k :: u32) * unat (n div k) = unat n"
  by (metis add.right_neutral mult.commute mult_div_mod_eq unat_0 unat_div unat_mod)

text \<open>C22. \<open>memmove\<close> copies a block whose source and destination lie in the address space, also when the two
  overlap: the destination holds the bytes the source had, the rest of memory is unchanged, and the
  result is the destination.\<close>

theorem memmove_copies:
  assumes "unat dst + unat count \<le> 4294967296" "unat src + unat count \<le> 4294967296"
  shows "memmove dst src count m = (dst, blit m dst src (unat count))"
proof -
  consider "src = dst" | "dst < src" | "src < dst" by (metis linorder_less_linear)
  then show ?thesis
  proof cases
    case 1
    then show ?thesis by (simp add: memmove_def blit_def fun_eq_iff)
  next
    case 2
    then have "unat count \<le> unat (dst - src)"
      using assms(2) unat_sub_u32 [of dst src] by (simp add: word_less_nat_alt)
    with 2 show ?thesis
      using copy_elems_blit [of 1 dst src "unat count" m] unat_u32_lt [of count]
      by (auto simp: memmove_def move_up_copy simp del: unat_u32_lt)
  next
    case 3
    then have "unat count \<le> unat (src - dst)"
      using assms(1) unat_sub_u32 [of src dst] by (simp add: word_less_nat_alt)
    with 3 show ?thesis
      using move_down_blit [of dst src "unat count" m] unat_u32_lt [of count]
      by (auto simp: memmove_def simp del: unat_u32_lt)
  qed
qed

theorem memmove_copies_witness:
  "memmove 0x102 0x100 5 (\<lambda>a. ucast a) = (0x102, blit (\<lambda>a. ucast a) 0x102 0x100 5)"
  using memmove_copies [of "0x102" 5 "0x100"] by simp

text \<open>Copying by words of eight or four bytes when pointers and length are aligned, and by bytes
  otherwise, is the same copy of bytes: every choice of \<open>memcpy\<close> gives the destination the bytes of the source
  when the two do not overlap.\<close>

theorem memcpy_copies:
  assumes "dst = src \<or> unat nbytes \<le> unat (dst - src)"
  shows "memcpy dst src nbytes m = (dst, blit m dst src (unat nbytes))"
proof -
  have n: "unat nbytes \<le> 4294967296" using unat_u32_lt [of nbytes] by linarith
  have "copy_elems (unat (k :: u32)) (unat (nbytes div k)) dst src m = blit m dst src (unat nbytes)"
    if "nbytes mod k = 0" "0 < unat k" for k
    using copy_elems_blit [OF that(2), of dst src "unat (nbytes div k)" m] assms n
    unfolding unat_div_exact [OF that(1)] by blast
  from this [of 8] this [of 4] this [of 1] show ?thesis by (simp add: memcpy_def)
qed

theorem memcpy_copies_witness:
  "memcpy 0x2001 0x1000 7 (\<lambda>a. ucast a) = (0x2001, blit (\<lambda>a. ucast a) 0x2001 0x1000 7)"
  using memcpy_copies [of "0x2001" "0x1000" 7 "\<lambda>a. ucast a"] by simp

lemma fill_at:
  assumes "0 < k" "k * n \<le> 4294967296"
  shows "fill k n c p m = (p + word_of_nat (k * n), \<lambda>a. if unat (a - p) < k * n then c else m a)"
  using assms(2)
proof (induction n arbitrary: p m)
  case (Suc n)
  let ?k = "word_of_nat k :: u32"
  let ?m = "st m p (replicate k c)"
  have IH: "fill k n c (p + ?k) ?m =
      (p + ?k + word_of_nat (k * n), \<lambda>a. if unat (a - (p + ?k)) < k * n then c else ?m a)"
    using Suc by simp
  have "(if unat (a - (p + ?k)) < k * n then c else ?m a) = (if unat (a - p) < k * Suc n then c else m a)" for a
  proof (cases "n = 0")
    case True
    with Suc.prems show ?thesis by (simp add: st_at)
  next
    case False
    with assms(1) have "0 < k * n" by simp
    moreover have "k + k * n \<le> 4294967296" using Suc.prems by simp
    ultimately have "k < 4294967296" by linarith
    then have k: "unat ?k = k" by (rule unat_of_small)
    have "unat (a - (p + ?k)) = (if k \<le> unat (a - p) then unat (a - p) - k else unat (a - p) + 4294967296 - k)"
      unfolding diff_diff_eq [symmetric] unat_sub_u32 [of "a - p" ?k] k ..
    with Suc.prems show ?thesis by (auto simp: st_at)
  qed
  then show ?case unfolding fill.simps IH by (simp add: algebra_simps)
qed simp

text \<open>\<open>memset\<close> sets the bytes of its block and nothing else, whichever of its three loops runs. Its result
  is not the destination, as the standard asks, but the address behind the block.\<close>

theorem memset_fills:
  assumes "n \<noteq> 0" "unat dst + unat n < 4294967296"
  shows "memset dst c n m = (dst + n, \<lambda>a. if unat (a - dst) < unat n then ucast c else m a)"
proof -
  have n: "unat n \<le> 4294967296" using unat_u32_lt [of n] by linarith
  have lt: "dst < dst + n" using assms
    by (simp add: word_less_nat_alt unat_word_ariths unat_gt_0 flip: unat_gt_0)
  have f: "fill (unat (k :: u32)) (unat (n div k)) v dst m = (dst + n, \<lambda>a. if unat (a - dst) < unat n then v else m a)"
    if "n mod k = 0" "0 < unat k" for k v
    using fill_at [OF that(2), of "unat (n div k)" v dst m] n unfolding unat_div_exact [OF that(1)] by simp
  have u: "(ucast (0 :: u32) :: u8) = 0" by simp
  show ?thesis
  proof (cases "c = 0")
    case True
    from f [of 8 0] f [of 4 0] f [of 1 0] assms(1) lt show ?thesis unfolding True u by (simp add: memset_def)
  next
    case False
    with f [of 1 "ucast c"] assms(1) lt show ?thesis by (simp add: memset_def)
  qed
qed

theorem memset_fills_witness: "fst (memset 0x1000 0 12 (\<lambda>_. 7)) = 0x100c"
  using memset_fills [of 12 "0x1000" 0 "\<lambda>_. 7"] by simp

section \<open>Strings\<close>

text \<open>A string of \<open>n\<close> characters at \<open>p\<close>.\<close>

definition cstr :: "ram \<Rightarrow> u32 \<Rightarrow> nat \<Rightarrow> bool" where
  "cstr m p n \<longleftrightarrow> (\<forall>i < n. m (p + word_of_nat i) \<noteq> 0) \<and> m (p + word_of_nat n) = 0"

lemma cstr_0 [simp]: "cstr m p 0 \<longleftrightarrow> m p = 0"
  by (simp add: cstr_def)

lemma cstr_Suc: "cstr m p (Suc n) \<longleftrightarrow> m p \<noteq> 0 \<and> cstr m (p + 1) n"
  by (auto simp: cstr_def less_Suc_eq_0_disj add.assoc)

lemma strlen_loop_cstr: "cstr m (p + r) n \<Longrightarrow> strlen_loop p r m = Some (r + word_of_nat n)"
proof (induction n arbitrary: r)
  case (Suc n)
  then have "m (p + r) \<noteq> 0" "cstr m (p + (r + 1)) n" by (simp_all add: cstr_Suc add.assoc)
  with Suc.IH [of "r + 1"] show ?case by (subst strlen_loop.simps) (simp add: algebra_simps)
qed (subst strlen_loop.simps, simp)

lemma strlen_cstr: "cstr m p n \<Longrightarrow> strlen p m = Some (word_of_nat n)"
  using strlen_loop_cstr [of m p 0 n] by (simp add: strlen_def)

lemma apart: "n < unat (d - s) \<Longrightarrow> i \<le> n \<Longrightarrow> s + word_of_nat i \<noteq> (d :: u32)"
proof
  assume n: "n < unat (d - s)" and i: "i \<le> n" and "s + word_of_nat i = d"
  then have "d - s = word_of_nat i" by (simp add: algebra_simps)
  with n i unat_u32_lt [of "d - s"] show False by (simp add: unat_of_nat)
qed

lemma cstr_upd: "n < unat (d - s) \<Longrightarrow> cstr (m(d := b)) s n \<longleftrightarrow> cstr m s n"
  using apart [of n d s] by (auto simp: cstr_def)

lemma strcpy_loop_cstr:
  "cstr m s2 n \<Longrightarrow> n < unat (s - s2) \<Longrightarrow> strcpy_loop s s2 m = Some (copy_elems 1 (Suc n) s s2 m)"
proof (induction n arbitrary: s s2 m)
  case 0
  then show ?case by (subst strcpy_loop.simps) (simp add: ld_def)
next
  case (Suc n)
  have "unat (s - (s2 + 1)) = unat (s - s2) - 1"
    unfolding diff_diff_eq [symmetric] using Suc.prems(2) by (intro unat_minus_one) auto
  then have n: "n < unat (s - (s2 + 1))" using Suc.prems(2) by simp
  moreover have "s + 1 - (s2 + 1) = s - s2" by simp
  ultimately have "strcpy_loop (s + 1) (s2 + 1) (m(s := m s2)) =
      Some (copy_elems 1 (Suc n) (s + 1) (s2 + 1) (m(s := m s2)))"
    using Suc.prems by (intro Suc.IH) (simp_all add: cstr_Suc cstr_upd del: fun_upd_apply)
  with Suc.prems show ?case by (subst strcpy_loop.simps) (simp add: cstr_Suc ld_def Let_def)
qed

lemma strcat_loop_strcpy:
  "cstr m s2 n \<Longrightarrow> n < unat (s1 + 1 - s2) \<Longrightarrow> strcat_loop s1 s2 m = strcpy_loop (s1 + 1) s2 m"
proof (induction n arbitrary: s1 s2 m)
  case 0
  then show ?case by (subst strcat_loop.simps, subst strcpy_loop.simps) simp
next
  case (Suc n)
  have "unat (s1 + 1 - (s2 + 1)) = unat (s1 + 1 - s2) - 1"
    unfolding diff_diff_eq [of "s1 + 1" s2 1, symmetric] using Suc.prems(2) by (intro unat_minus_one) auto
  then have "n < unat (s1 + 1 - (s2 + 1))" using Suc.prems(2) by simp
  then have c: "cstr (m(s1 + 1 := m s2)) (s2 + 1) n" using Suc.prems(1) by (simp only: cstr_upd cstr_Suc)
  have e: "s1 + 1 + 1 - (s2 + 1) = s1 + 1 - s2" by simp
  have "strcat_loop (s1 + 1) (s2 + 1) (m(s1 + 1 := m s2)) =
      strcpy_loop (s1 + 1 + 1) (s2 + 1) (m(s1 + 1 := m s2))"
    using Suc.prems(2) by (intro Suc.IH [OF c], unfold e) simp
  then show ?case by (subst strcat_loop.simps, subst strcpy_loop.simps) (simp add: Let_def)
qed

lemma strcat_end_cstr: "cstr m p n \<Longrightarrow> strcat_end p m = Some (p + word_of_nat n + 1)"
proof (induction n arbitrary: p)
  case (Suc n)
  with Suc.IH [of "p + 1"] show ?case by (subst strcat_end.simps) (simp add: cstr_Suc algebra_simps)
qed (subst strcat_end.simps, simp)

text \<open>\<open>strcat\<close> appends: when the strings end and the source does not overlap the place behind the
  destination string, the loops return, the characters of the source with their zero are there, and
  nothing else has changed. The result is a string of the two lengths together.\<close>

theorem strcat_appends:
  assumes "cstr m dest k" "cstr m src n" "n < unat (dest + word_of_nat k - src)"
    "k + n < 4294967296" "k \<le> unat (src - dest)"
  shows "strcat dest src m = Some (dest, blit m (dest + word_of_nat k) src (Suc n)) \<and>
    cstr (blit m (dest + word_of_nat k) src (Suc n)) dest (k + n)"
proof
  let ?d = "dest + word_of_nat k"
  have e: "strcat_end dest m = Some (?d + 1)" using strcat_end_cstr [OF assms(1)] by simp
  have "strcat_loop (?d + 1 - 2) src m = strcpy_loop (?d + 1 - 2 + 1) src m"
    by (rule strcat_loop_strcpy [OF assms(2)]) (use assms(3) in \<open>simp add: algebra_simps\<close>)
  also have "?d + 1 - 2 + 1 = ?d" by simp
  also have "strcpy_loop ?d src m = Some (copy_elems 1 (Suc n) ?d src m)" by (rule strcpy_loop_cstr [OF assms(2,3)])
  also have "copy_elems 1 (Suc n) ?d src m = blit m ?d src (Suc n)"
    using copy_elems_blit [of 1 ?d src "Suc n" m] assms(3) unat_u32_lt [of "?d - src"] by (simp del: unat_u32_lt)
  finally show "strcat dest src m = Some (dest, blit m ?d src (Suc n))" by (simp add: strcat_def e)
  have low: "blit m ?d src (Suc n) (dest + word_of_nat i) = m (dest + word_of_nat i)" if "i < k" for i
  proof -
    define w :: u32 where "w = word_of_nat (k - i)"
    have "unat w = k - i" using assms(4) unfolding w_def by (intro unat_of_small) simp
    moreover have "dest + word_of_nat i - ?d = 0 - w" using that by (simp add: w_def of_nat_diff)
    ultimately have "\<not> unat (dest + word_of_nat i - ?d) < Suc n"
      using assms(4) that unat_sub_u32 [of 0 w] by simp
    then show ?thesis by (simp add: blit_def)
  qed
  have high: "blit m ?d src (Suc n) (dest + word_of_nat (k + i)) = m (src + word_of_nat i)" if "i \<le> n" for i
    using that assms(4) by (simp add: blit_def unat_of_small)
  show "cstr (blit m ?d src (Suc n)) dest (k + n)"
    unfolding cstr_def
  proof (intro conjI allI impI)
    fix i assume "i < k + n"
    then consider "i < k" | j where "i = k + j" "j < n" by (metis add_less_cancel_left le_iff_add not_less)
    then show "blit m ?d src (Suc n) (dest + word_of_nat i) \<noteq> 0"
      using assms(1,2) by cases (simp_all only: low high less_imp_le cstr_def, auto)
  qed (use high [of n] assms(2) in \<open>simp add: cstr_def\<close>)
qed

definition demo_ram :: ram where
  "demo_ram = (\<lambda>_. 0)(0x100 := 0x61, 0x200 := 0x62, 0x202 := 0x63, 0x210 := 0x62, 0x212 := 0x64)"

theorem strcat_appends_witness:
  "\<exists>m. strcat 0x100 0x200 demo_ram = Some (0x100, m) \<and> cstr m 0x100 (1 + 1)"
proof -
  have "cstr demo_ram 0x100 1" "cstr demo_ram 0x200 1" by (simp_all add: cstr_def demo_ram_def)
  from strcat_appends [OF this] show ?thesis by (auto simp: unat_sub_u32)
qed

lemma strcmp_cstr:
  "cstr m a n \<Longrightarrow> \<exists>v. strcmp a b m = Some v \<and> (v = 0 \<longleftrightarrow> (\<forall>i \<le> n. m (b + word_of_nat i) = m (a + word_of_nat i)))"
proof (induction n arbitrary: a b)
  case 0
  then show ?case by (subst strcmp.simps) (auto simp: uint_0_iff)
next
  case (Suc n)
  then have a: "m a \<noteq> 0" and c: "cstr m (a + 1) n" by (simp_all add: cstr_Suc)
  obtain v where v: "strcmp (a + 1) (b + 1) m = Some v"
    "v = 0 \<longleftrightarrow> (\<forall>i \<le> n. m (b + 1 + word_of_nat i) = m (a + 1 + word_of_nat i))"
    using Suc.IH [OF c, of "b + 1"] by blast
  have split: "(\<forall>i \<le> Suc n. P i) \<longleftrightarrow> P 0 \<and> (\<forall>i \<le> n. P (Suc i))" for P
    by (metis Suc_le_mono le0 not0_implies_Suc)
  show ?case
    unfolding split
    using v a by (subst strcmp.simps) (auto simp: add.assoc simp flip: word_uint_eq_iff)
qed

text \<open>\<open>strncmp\<close> does not stop at the end of the strings: for two equal strings it goes on with the bytes
  behind them and finds a difference there, where \<open>strcmp\<close> finds none.\<close>

theorem strncmp_reads_on:
  "strcmp 0x200 0x210 demo_ram = Some 0 \<and> strncmp 0x200 0x210 3 demo_ram = -1"
proof -
  have "strcmp 0x200 0x210 demo_ram = Some 0"
    by (subst strcmp.simps, subst strcmp.simps) (simp add: demo_ram_def)
  moreover have "unat (3 :: u32) = Suc (Suc (Suc 0))" by simp
  then have "strncmp 0x200 0x210 3 demo_ram = -1"
    unfolding strncmp_def by (simp only: strncmp_loop.simps) (simp add: demo_ram_def)
  ultimately show ?thesis ..
qed

end
