(* ===== verification/FatHelpers.thy ===== *)
theory FatHelpers
  imports Prelude "HOL-Library.Char_ord"
begin

unbundle bit_operations_syntax

text \<open>
  The structures of the SD card and their checks: \<open>labs/19-fat32-readonly/code\<close>, files \<open>mbr-helpers\<close>,
  \<open>fat32-helpers\<close> and \<open>fat32-lfn-helpers\<close>. A packed structure is the record that is parsed from its
  bytes; fields that are only reserved space are left out. A C string is the list of its bytes before
  the terminating zero.
\<close>

section \<open>Bytes\<close>

definition le16 :: "u8 list \<Rightarrow> nat \<Rightarrow> u16" where
  "le16 bs i = ucast (bs ! i) OR push_bit 8 (ucast (bs ! (i + 1)))"

definition le32 :: "u8 list \<Rightarrow> nat \<Rightarrow> u32" where
  "le32 bs i = le_word (bs ! i) (bs ! (i + 1)) (bs ! (i + 2)) (bs ! (i + 3))"

definition sub :: "u8 list \<Rightarrow> nat \<Rightarrow> nat \<Rightarrow> u8 list" where
  "sub bs i n = take n (drop i bs)"

definition str_of :: "string \<Rightarrow> u8 list" where
  "str_of s = map (\<lambda>c. word_of_nat (of_char c)) s"

text \<open>\<open>memiszero\<close>\<close>

definition is_zero :: "u8 list \<Rightarrow> bool" where
  "is_zero bs = list_all (\<lambda>b. b = 0) bs"

section \<open>The master boot record\<close>

record partition_entry =
  bootable_p :: u8
  chs_start :: u32
  part_type :: u8
  chs_end :: u32
  pe_lba_start :: u32
  pe_nsec :: u32

definition partition_of :: "u8 list \<Rightarrow> partition_entry" where
  "partition_of bs = \<lparr>bootable_p = bs ! 0, chs_start = shr (le32 bs 0) 8, part_type = bs ! 4,
     chs_end = shr (le32 bs 4) 8, pe_lba_start = le32 bs 8, pe_nsec = le32 bs 12\<rparr>"

record mbr =
  mbr_code :: "u8 list"
  part_tab1 :: "u8 list"
  part_tab2 :: "u8 list"
  part_tab3 :: "u8 list"
  part_tab4 :: "u8 list"
  sigval :: u16

definition mbr_of :: "u8 list \<Rightarrow> mbr" where
  "mbr_of bs = \<lparr>mbr_code = sub bs 0 446, part_tab1 = sub bs 446 16, part_tab2 = sub bs 462 16,
     part_tab3 = sub bs 478 16, part_tab4 = sub bs 494 16, sigval = le16 bs 510\<rparr>"

definition mbr_part_is_fat32 :: "u8 \<Rightarrow> bool" where
  "mbr_part_is_fat32 t \<longleftrightarrow> t = 0xb \<or> t = 0xc"

definition mbr_partition_empty_raw :: "u8 list \<Rightarrow> bool" where
  "mbr_partition_empty_raw part = is_zero (take 16 part)"

definition mbr_check :: "mbr \<Rightarrow> unit res" where
  "mbr_check m =
     seq (require (sigval m = 0xAA55) Assert_fail) (\<lambda>_.
     let p = partition_of (part_tab1 m) in
     seq (require (mbr_part_is_fat32 (part_type p)) Assert_fail) (\<lambda>_.
     seq (require (\<not> mbr_partition_empty_raw (part_tab1 m)) Assert_fail) (\<lambda>_.
     seq (require (mbr_partition_empty_raw (part_tab2 m)) Assert_fail) (\<lambda>_.
     seq (require (mbr_partition_empty_raw (part_tab3 m)) Assert_fail) (\<lambda>_.
     require (mbr_partition_empty_raw (part_tab4 m)) Assert_fail)))))"

text \<open>The four tables are contiguous, so the code indexes past \<open>part_tab1\<close> into the others.\<close>

definition mbr_get_partition :: "mbr \<Rightarrow> nat \<Rightarrow> partition_entry res" where
  "mbr_get_partition m partno =
     seq (require (partno < 4) Assert_fail) (\<lambda>_.
     let e = drop (16 * partno) (part_tab1 m @ part_tab2 m @ part_tab3 m @ part_tab4 m) in
     Inr (partition_of (take 16 e)))"

definition mbr_part_types :: "(u8 \<times> string) list" where
  "mbr_part_types =
    [(0x00, ''Empty''), (0x01, ''FAT12 - CHS''), (0x04, ''FAT16 - 16-32 MB - CHS''),
     (0x05, ''Microsoft Extended - CHS''), (0x06, ''FAT16 - 32 MB-2 GB - CHS''), (0x07, ''NTFS''),
     (0x0b, ''FAT32 - CHS''), (0x0c, ''FAT32 - LBA''), (0x0e, ''FAT16 - 32 MB-2 GB - LBA''),
     (0x0f, ''Microsoft Extended - LBA''), (0x11, ''Hidden FAT12 - CHS''),
     (0x14, ''Hidden FAT16 - 16-32 MB - CHS''), (0x16, ''Hidden FAT16 - 32 MB-2 GB - CHS''),
     (0x1b, ''Hidden FAT32 - CHS''), (0x1c, ''Hidden FAT32 - LBA''),
     (0x1e, ''Hidden FAT16 - 32 MB-2 GB - LBA''), (0x42, ''Microsoft MBR - Dynamic Disk''),
     (0x82, ''Solaris x86 or Linux swap?''), (0x83, ''Linux''), (0x84, ''Hibernation''),
     (0x85, ''Linux Extended''), (0x86, ''NTFS Volume Set''), (0x87, ''NTFS Volume Set''),
     (0xa0, ''Hibernation''), (0xa1, ''Hibernation''), (0xa5, ''FreeBSD''), (0xa6, ''OpenBSD''),
     (0xa8, ''Mac OSX''), (0xa9, ''NetBSD''), (0xab, ''Mac OSX Boot''), (0xb7, ''BSDI''),
     (0xb8, ''BSDI swap''), (0xee, ''EFI GPT Disk''), (0xef, ''EFI System Partition''),
     (0xfb, ''Vmware File System''), (0xfc, ''Vmware swap'')]"

definition mbr_part_str :: "u8 \<Rightarrow> string res" where
  "mbr_part_str x = (case map_of mbr_part_types x of None \<Rightarrow> Inl Panic | Some s \<Rightarrow> Inr s)"

section \<open>The volume id and the file system information\<close>

record fat32_boot_sec =
  asm_code :: "u8 list"
  oem :: "u8 list"
  bytes_per_sec :: u16
  sec_per_cluster :: u8
  reserved_area_nsec :: u16
  nfats :: u8
  max_files :: u16
  fs_nsec :: u16
  media_type :: u8
  bs_zero :: u16
  sec_per_track :: u16
  n_heads :: u16
  hidden_secs :: u32
  nsec_in_fs :: u32
  nsec_per_fat :: u32
  mirror_flags :: u16
  bs_version :: u16
  first_cluster :: u32
  info_sec_num :: u16
  backup_boot_loc :: u16
  logical_drive_num :: u8
  extended_sig :: u8
  serial_num :: u32
  volume_label :: "u8 list"
  bs_fs_type :: "u8 list"
  bs_sig :: u16

definition boot_sec_of :: "u8 list \<Rightarrow> fat32_boot_sec" where
  "boot_sec_of bs = \<lparr>asm_code = sub bs 0 3, oem = sub bs 3 8, bytes_per_sec = le16 bs 11,
     sec_per_cluster = bs ! 13, reserved_area_nsec = le16 bs 14, nfats = bs ! 16,
     max_files = le16 bs 17, fs_nsec = le16 bs 19, media_type = bs ! 21, bs_zero = le16 bs 22,
     sec_per_track = le16 bs 24, n_heads = le16 bs 26, hidden_secs = le32 bs 28, nsec_in_fs = le32 bs 32,
     nsec_per_fat = le32 bs 36, mirror_flags = le16 bs 40, bs_version = le16 bs 42,
     first_cluster = le32 bs 44, info_sec_num = le16 bs 48, backup_boot_loc = le16 bs 50,
     logical_drive_num = bs ! 64, extended_sig = bs ! 66, serial_num = le32 bs 67,
     volume_label = sub bs 71 11, bs_fs_type = sub bs 82 8, bs_sig = le16 bs 510\<rparr>"

definition is_pow2 :: "u32 \<Rightarrow> bool" where
  "is_pow2 x \<longleftrightarrow> (x AND - x) = x"

definition fat32_volume_id_check :: "fat32_boot_sec \<Rightarrow> unit res" where
  "fat32_volume_id_check b =
     seq (require (bytes_per_sec b = 512) Assert_fail) (\<lambda>_.
     seq (require (nfats b = 2) Assert_fail) (\<lambda>_.
     seq (require (bs_sig b = 0xAA55) Assert_fail) (\<lambda>_.
     seq (require (is_pow2 (ucast (sec_per_cluster b))) Assert_fail) (\<lambda>_.
     let n = bytes_per_sec b in
     seq (require (n = 512 \<or> n = 1024 \<or> n = 2048 \<or> n = 4096) Assert_fail) (\<lambda>_.
     seq (require (max_files b = 0) Assert_fail) (\<lambda>_.
     seq (require (fs_nsec b = 0) Assert_fail) (\<lambda>_.
     seq (require (bs_zero b = 0) Assert_fail) (\<lambda>_.
     seq (require (nsec_in_fs b \<noteq> 0) Assert_fail) (\<lambda>_.
     seq (require (info_sec_num b = 1) Assert_fail) (\<lambda>_.
     seq (require (backup_boot_loc b = 6) Assert_fail) (\<lambda>_.
     require (extended_sig b = 0x29) Assert_fail)))))))))))"

record fsinfo =
  sig1 :: u32
  sig2 :: u32
  free_cluster_count :: u32
  next_free_cluster :: u32
  sig3 :: u32

definition fsinfo_of :: "u8 list \<Rightarrow> fsinfo" where
  "fsinfo_of bs = \<lparr>sig1 = le32 bs 0, sig2 = le32 bs 484, free_cluster_count = le32 bs 488,
     next_free_cluster = le32 bs 492, sig3 = le32 bs 508\<rparr>"

definition fat32_fsinfo_check :: "fsinfo \<Rightarrow> unit res" where
  "fat32_fsinfo_check f =
     seq (require (sig1 f = 0x41615252) Assert_fail) (\<lambda>_.
     seq (require (sig2 f = 0x61417272) Assert_fail) (\<lambda>_.
     require (sig3 f = 0xaa550000) Assert_fail))"

section \<open>Entries of the FAT\<close>

definition FREE_CLUSTER :: u32 where "FREE_CLUSTER = 0"
definition RESERVED_CLUSTER :: u32 where "RESERVED_CLUSTER = 1"
definition BAD_CLUSTER :: u32 where "BAD_CLUSTER = 0xFFFFFF7"
definition LAST_CLUSTER :: u32 where "LAST_CLUSTER = BAD_CLUSTER + 1"
definition USED_CLUSTER :: u32 where "USED_CLUSTER = LAST_CLUSTER + 1"

definition fat32_fat_entry_type_str :: "u32 \<Rightarrow> string res" where
  "fat32_fat_entry_type_str x =
     (if x = FREE_CLUSTER then Inr ''FREE_CLUSTER''
      else if x = RESERVED_CLUSTER then Inr ''RESERVED_CLUSTER''
      else if x = BAD_CLUSTER then Inr ''BAD_CLUSTER''
      else if x = LAST_CLUSTER then Inr ''LAST_CLUSTER''
      else if x = USED_CLUSTER then Inr ''USED_CLUSTER''
      else Inl Panic)"

definition fat32_fat_entry_type :: "u32 \<Rightarrow> u32 res" where
  "fat32_fat_entry_type x =
     (let x = shr (shl x 4) 4 in
      if x = FREE_CLUSTER \<or> x = RESERVED_CLUSTER \<or> x = BAD_CLUSTER then Inr x
      else if 0x2 \<le> x \<and> x \<le> 0xFFFFFEF then Inr USED_CLUSTER
      else if 0xFFFFFF0 \<le> x \<and> x \<le> 0xFFFFFF6 then Inl Panic
      else if 0xFFFFFF8 \<le> x \<and> x \<le> 0xFFFFFFF then Inr LAST_CLUSTER
      else Inl Panic)"

section \<open>Directory entries\<close>

definition FAT32_RO :: u32 where "FAT32_RO = 0x01"
definition FAT32_HIDDEN :: u32 where "FAT32_HIDDEN = 0x02"
definition FAT32_SYSTEM_FILE :: u32 where "FAT32_SYSTEM_FILE = 0x04"
definition FAT32_VOLUME_LABEL :: u32 where "FAT32_VOLUME_LABEL = 0x08"
definition FAT32_LONG_FILE_NAME :: u32 where "FAT32_LONG_FILE_NAME = 0x0f"
definition FAT32_DIR :: u32 where "FAT32_DIR = 0x10"
definition FAT32_ARCHIVE :: u32 where "FAT32_ARCHIVE = 0x20"

record fat32_dirent =
  filename :: "u8 list"
  attr :: u8
  reserved0 :: u8
  ctime_tenths :: u8
  ctime :: u16
  create_date :: u16
  access_date :: u16
  hi_start :: u16
  mod_time :: u16
  mod_date :: u16
  lo_start :: u16
  file_nbytes :: u32

definition dirent_of :: "u8 list \<Rightarrow> fat32_dirent" where
  "dirent_of bs = \<lparr>filename = sub bs 0 11, attr = bs ! 11, reserved0 = bs ! 12, ctime_tenths = bs ! 13,
     ctime = le16 bs 14, create_date = le16 bs 16, access_date = le16 bs 18, hi_start = le16 bs 20,
     mod_time = le16 bs 22, mod_date = le16 bs 24, lo_start = le16 bs 26, file_nbytes = le32 bs 28\<rparr>"

definition fat32_cluster_id :: "fat32_dirent \<Rightarrow> u32" where
  "fat32_cluster_id d = shl (ucast (hi_start d)) 16 OR ucast (lo_start d)"

definition fat32_is_dir :: "fat32_dirent \<Rightarrow> bool" where
  "fat32_is_dir d \<longleftrightarrow> ucast (attr d) = FAT32_DIR"

definition fat32_is_attr :: "u32 \<Rightarrow> u32 \<Rightarrow> bool" where
  "fat32_is_attr x flag = (if x = FAT32_LONG_FILE_NAME then x = flag else x AND flag = flag)"

definition fat32_dirent_is_lfn :: "fat32_dirent \<Rightarrow> bool" where
  "fat32_dirent_is_lfn d \<longleftrightarrow> ucast (attr d) = FAT32_LONG_FILE_NAME"

definition lfn_is_last :: "u8 \<Rightarrow> bool" where
  "lfn_is_last seqno \<longleftrightarrow> seqno AND push_bit 6 1 \<noteq> 0"

definition lfn_is_first :: "u8 \<Rightarrow> bool" where
  "lfn_is_first seqno \<longleftrightarrow> seqno AND NOT (push_bit 6 1) = 1"

definition lfn_is_deleted :: "u8 \<Rightarrow> bool" where
  "lfn_is_deleted seqno \<longleftrightarrow> seqno AND 0xe5 = 0xe5"

text \<open>The sequence number of a long name entry is the first byte of the entry.\<close>

definition fat32_dirent_is_deleted_lfn :: "fat32_dirent \<Rightarrow> bool res" where
  "fat32_dirent_is_deleted_lfn d =
     seq (require (ucast (attr d) = FAT32_LONG_FILE_NAME) Assert_fail) (\<lambda>_.
     Inr (lfn_is_deleted (filename d ! 0)))"

definition fat32_dirent_free :: "fat32_dirent \<Rightarrow> bool res" where
  "fat32_dirent_free d =
     (let x = filename d ! 0 in
      if ucast (attr d) = FAT32_LONG_FILE_NAME then fat32_dirent_is_deleted_lfn d
      else Inr (x = 0 \<or> x = 0xe5))"

definition fat32_dir_attr_str :: "u32 \<Rightarrow> string res" where
  "fat32_dir_attr_str a =
     (if a = FAT32_LONG_FILE_NAME then Inr '' LONG FILE NAME''
      else
        let (buf, a) = (if fat32_is_attr a FAT32_RO then (''R/O'', a AND NOT FAT32_RO) else ([], a));
            (buf, a) = (if fat32_is_attr a FAT32_HIDDEN then (buf @ '' HIDDEN'', a AND NOT FAT32_HIDDEN) else (buf, a))
        in if a = FAT32_SYSTEM_FILE then Inr (buf @ '' SYSTEM FILE'')
           else if a = FAT32_VOLUME_LABEL then Inr (buf @ '' VOLUME LABEL'')
           else if a = FAT32_DIR then Inr (buf @ '' DIR'')
           else if a = FAT32_ARCHIVE then Inr (buf @ '' ARCHIVE'')
           else Inl Panic)"

section \<open>Short names\<close>

abbreviation chSPACE :: u8 where "chSPACE \<equiv> 0x20"
abbreviation chDOT :: u8 where "chDOT \<equiv> 0x2e"

text \<open>The characters of a C string in a buffer.\<close>

definition c_str :: "u8 list \<Rightarrow> u8 list" where
  "c_str bs = takeWhile (\<lambda>b. b \<noteq> 0) bs"

text \<open>The index after the last character that is not a space; without one the loop ends with \<open>i = -1\<close>.\<close>

fun last_nonspace :: "nat \<Rightarrow> u8 list \<Rightarrow> nat option" where
  "last_nonspace 0 s = None"
| "last_nonspace (Suc i) s = (if s ! i \<noteq> chSPACE then Some (Suc i) else last_nonspace i s)"

definition to_8dot3 :: "u8 list \<Rightarrow> u8 list res" where
  "to_8dot3 p =
     (case last_nonspace 8 p of
        None \<Rightarrow> Inl Undefined
      | Some i \<Rightarrow> Inr (c_str (take i p @ [chDOT] @ sub p 8 3 @ [0])))"

text \<open>\<open>strcpy\<close> into an array of \<open>cap\<close> bytes.\<close>

definition strcpy_into :: "nat \<Rightarrow> u8 list \<Rightarrow> u8 list res" where
  "strcpy_into cap s = seq (require (length s + 1 \<le> cap) Undefined) (\<lambda>_. Inr s)"

definition fat32_dirent_name :: "nat \<Rightarrow> fat32_dirent \<Rightarrow> u8 list res" where
  "fat32_dirent_name cap d = seq (to_8dot3 (filename d)) (strcpy_into cap)"

definition name_char :: "u8 \<Rightarrow> bool" where
  "name_char c \<longleftrightarrow> \<not> ((c < 0x41 \<or> 0x5a < c) \<and> (c < 0x30 \<or> 0x39 < c))"

definition has_dot :: "u8 list \<Rightarrow> bool" where
  "has_dot name = list_ex (\<lambda>c. c = chDOT) name"

definition fat32_is_valid_name :: "u8 list \<Rightarrow> bool" where
  "fat32_is_valid_name name =
     (let n = length name in
      if has_dot name then
        if 12 < n then False
        else if n < 5 then False
        else if name ! (n - 4) \<noteq> chDOT then False
        else list_all (\<lambda>i. name_char (name ! i) \<or> i = n - 4) [0..<n]
      else
        if 8 < n then False
        else if n < 1 then False
        else list_all (\<lambda>i. name_char (name ! i)) [0..<n])"

definition fat32_dirent_set_name :: "fat32_dirent \<Rightarrow> u8 list \<Rightarrow> fat32_dirent res" where
  "fat32_dirent_set_name d name =
     (let n = length name in
      seq (require (fat32_is_valid_name name) Assert_fail) (\<lambda>_.
      let f = replicate 11 chSPACE;
          f = (if has_dot name
               then take (n - 4) name @ sub f (n - 4) (12 - n) @ sub name (n - 3) 3
               else name @ drop n f)
      in Inr (d\<lparr>filename := f\<rparr>)))"

fun fat32_dir_lookup_from :: "nat \<Rightarrow> u8 list \<Rightarrow> fat32_dirent list \<Rightarrow> int res" where
  "fat32_dir_lookup_from i name [] = Inr (-1)"
| "fat32_dir_lookup_from i name (d # ds) =
     seq (fat32_dirent_free d) (\<lambda>free.
     if free \<or> fat32_dirent_is_lfn d then fat32_dir_lookup_from (Suc i) name ds
     else if take 11 name = filename d then Inr (int i)
     else fat32_dir_lookup_from (Suc i) name ds)"

definition fat32_dir_lookup :: "u8 list \<Rightarrow> fat32_dirent list \<Rightarrow> int res" where
  "fat32_dir_lookup name dirs = fat32_dir_lookup_from 0 name dirs"

section \<open>Long names\<close>

fun lfn_checksum_loop :: "u8 list \<Rightarrow> u8 \<Rightarrow> u8" where
  "lfn_checksum_loop [] s = s"
| "lfn_checksum_loop (b # bs) s = lfn_checksum_loop bs (push_bit 7 (s AND 1) + drop_bit 1 s + b)"

definition lfn_checksum :: "u8 list \<Rightarrow> u8" where
  "lfn_checksum name = lfn_checksum_loop (take 11 name) 0"

record lfn_dir =
  seqno :: u8
  name1_5 :: "u8 list"
  lfn_attr :: u8
  lfn_cksum :: u8
  name6_11 :: "u8 list"
  name12_13 :: "u8 list"

definition lfn_of :: "u8 list \<Rightarrow> lfn_dir" where
  "lfn_of bs = \<lparr>seqno = bs ! 0, name1_5 = sub bs 1 10, lfn_attr = bs ! 11, lfn_cksum = bs ! 13,
     name6_11 = sub bs 14 12, name12_13 = sub bs 28 4\<rparr>"

definition lfn_terminator :: "u8 \<Rightarrow> u8 \<Rightarrow> bool" where
  "lfn_terminator x0 x1 \<longleftrightarrow> (x0 = 0 \<and> x1 = 0) \<or> (x0 = 0xff \<and> x1 = 0xff)"

text \<open>The converter \<open>to_utf8\<close> of the vendored code is a parameter; the string at \<open>buf\<close> grows.\<close>

fun utf8_loop :: "(u32 \<Rightarrow> u8 list) \<Rightarrow> u8 list \<Rightarrow> u8 list \<Rightarrow> u8 list" where
  "utf8_loop to_utf8 buf (x0 # x1 # unicode) =
     (if lfn_terminator x0 x1 then buf
      else utf8_loop to_utf8 (buf @ to_utf8 (ucast x0 OR shl (ucast x1) 8)) unicode)"
| "utf8_loop to_utf8 buf unicode = buf"

definition utf8_append :: "(u32 \<Rightarrow> u8 list) \<Rightarrow> u8 list \<Rightarrow> u8 list \<Rightarrow> u8 list res" where
  "utf8_append to_utf8 buf unicode =
     seq (require (length unicode mod 2 = 0) Assert_fail) (\<lambda>_. Inr (utf8_loop to_utf8 buf unicode))"

fun lfn_names :: "(u32 \<Rightarrow> u8 list) \<Rightarrow> lfn_dir list \<Rightarrow> u8 list \<Rightarrow> u8 list res" where
  "lfn_names to_utf8 [] buf = Inr buf"
| "lfn_names to_utf8 (l # ls) buf =
     seq (require (ucast (lfn_attr l) = FAT32_LONG_FILE_NAME) Assert_fail) (\<lambda>_.
     seq (utf8_append to_utf8 buf (name1_5 l)) (\<lambda>buf.
     seq (utf8_append to_utf8 buf (name6_11 l)) (\<lambda>buf.
     seq (utf8_append to_utf8 buf (name12_13 l)) (\<lambda>buf.
     lfn_names to_utf8 ls buf))))"

text \<open>The result is written to a static array of 512 bytes.\<close>

definition lfn_get_name :: "(u32 \<Rightarrow> u8 list) \<Rightarrow> lfn_dir list \<Rightarrow> u8 list res" where
  "lfn_get_name to_utf8 s = seq (lfn_names to_utf8 (rev s) []) (strcpy_into 512)"

text \<open>The checks of \<open>lfn_print\<close>; what it prints is left out.\<close>

fun lfn_print_all :: "lfn_dir list \<Rightarrow> u8 \<Rightarrow> unit res" where
  "lfn_print_all [] ck = Inr ()"
| "lfn_print_all (l # ls) ck =
     seq (require (\<not> lfn_is_deleted (seqno l)) Assert_fail) (\<lambda>_.
     seq (require (lfn_cksum l = ck) Assert_fail) (\<lambda>_. lfn_print_all ls ck))"

definition lfn_print :: "lfn_dir list \<Rightarrow> u8 \<Rightarrow> unit res" where
  "lfn_print s ck =
     (let cnt = length s in
      seq (require (1 \<le> cnt) Assert_fail) (\<lambda>_.
      seq (require (0 < cnt \<and> cnt < 3) Assert_fail) (\<lambda>_.
      seq (lfn_print_all s ck) (\<lambda>_.
      seq (require (lfn_is_last (seqno (s ! 0))) Assert_fail) (\<lambda>_.
      require (lfn_is_first (seqno (s ! (cnt - 1)))) Assert_fail)))))"

definition lower :: "bool \<Rightarrow> u8 \<Rightarrow> u8" where
  "lower lower_case_p c = (if lower_case_p \<and> 0x41 \<le> c \<and> c \<le> 0x5a then c + 32 else c)"

text \<open>
  \<open>d\<close> and the entries up to \<open>end\<close> are given as their 32 bytes each, since the code reads them both as
  entries and as long name entries. The result is the name and how many entries to advance.
\<close>

definition fat32_dir_filename :: "(u32 \<Rightarrow> u8 list) \<Rightarrow> u8 list list \<Rightarrow> (u8 list \<times> nat) res" where
  "fat32_dir_filename to_utf8 ds =
     (let d = dirent_of (hd ds); x = ucast (attr d); n = length ds in
      seq (fat32_dirent_free d) (\<lambda>free.
      seq (require (\<not> free) Assert_fail) (\<lambda>_.
      if x = FAT32_LONG_FILE_NAME then
        let cnt = 1 + length (takeWhile (\<lambda>e. fat32_dirent_is_lfn (dirent_of e)) (tl ds)) in
        seq (require (cnt < n) Assert_fail) (\<lambda>_.
        let a = ucast (attr (dirent_of (ds ! cnt))) in
        seq (require (fat32_is_attr a FAT32_DIR \<or> fat32_is_attr a FAT32_ARCHIVE) Assert_fail) (\<lambda>_.
        seq (lfn_get_name to_utf8 (map lfn_of (take cnt ds))) (\<lambda>name. Inr (name, cnt))))
      else
        seq (require (fat32_is_attr x FAT32_DIR \<or> fat32_is_attr x FAT32_ARCHIVE \<or>
               fat32_is_attr x FAT32_VOLUME_LABEL) Assert_fail) (\<lambda>_.
        let l = lower (reserved0 d = 0x18);
            base = map l (filter (\<lambda>c. c \<noteq> chSPACE) (sub (filename d) 0 8));
            suffix = map l (sub (filename d) 8 3)
        in Inr (base @ [chDOT] @ suffix, 0)))))"

section \<open>What the checks and names guarantee\<close>

lemma low28: "shr (shl x 4) 4 = x AND 0x0FFFFFFF"
proof -
  have F: "(0x0FFFFFFF :: u32) = mask 28" by (simp add: mask_eq_exp_minus_1)
  show ?thesis unfolding F by (intro u32_eqI) (auto simp: bits_of)
qed

lemma low28_lt: "x AND 0x0FFFFFFF \<le> (0x0FFFFFFF :: u32)"
  by (rule word_and_le1)

text \<open>The type of a FAT entry depends on its low 28 bits only, and every value has one: free, reserved, used,
  bad or last; the seven values that are reserved for the format panic.\<close>

theorem fat_entry_type_total:
  "fat32_fat_entry_type x = fat32_fat_entry_type (x AND 0x0FFFFFFF) \<and>
   (let v = x AND 0x0FFFFFFF in fat32_fat_entry_type x =
     (if v = 0 then Inr FREE_CLUSTER else if v = 1 then Inr RESERVED_CLUSTER
      else if v < 0xFFFFFF0 then Inr USED_CLUSTER
      else if v < 0xFFFFFF7 then Inl Panic
      else if v = 0xFFFFFF7 then Inr BAD_CLUSTER else Inr LAST_CLUSTER))"
proof -
  let ?v = "x AND 0x0FFFFFFF"
  have "unat ?v \<le> 0x0FFFFFFF" using low28_lt [of x] by (simp add: word_le_nat_alt)
  moreover have "?v = 0 \<longleftrightarrow> unat ?v = 0" "?v = 1 \<longleftrightarrow> unat ?v = 1" "?v = 0xFFFFFF7 \<longleftrightarrow> unat ?v = 0xFFFFFF7"
    by (simp_all only: word_unat_eq_iff) simp_all
  ultimately have "(let v = x AND 0x0FFFFFFF in fat32_fat_entry_type x =
     (if v = 0 then Inr FREE_CLUSTER else if v = 1 then Inr RESERVED_CLUSTER
      else if v < 0xFFFFFF0 then Inr USED_CLUSTER
      else if v < 0xFFFFFF7 then Inl Panic
      else if v = 0xFFFFFF7 then Inr BAD_CLUSTER else Inr LAST_CLUSTER))"
    by (simp add: fat32_fat_entry_type_def low28 Let_def FREE_CLUSTER_def RESERVED_CLUSTER_def BAD_CLUSTER_def
        word_le_nat_alt word_less_nat_alt)
  moreover have "(x AND 0x0FFFFFFF) AND 0x0FFFFFFF = x AND 0x0FFFFFFF" by (simp add: and.assoc)
  ultimately show ?thesis by (simp add: fat32_fat_entry_type_def low28)
qed

lemma last_nonspace_at:
  "0 < j \<Longrightarrow> j \<le> k \<Longrightarrow> s ! (j - 1) \<noteq> chSPACE \<Longrightarrow> \<forall>i. j \<le> i \<and> i < k \<longrightarrow> s ! i = chSPACE \<Longrightarrow>
    last_nonspace k s = Some j"
  by (induction k) (auto simp: le_Suc_eq)

lemma c_str_nonzero: "0 \<notin> set xs \<Longrightarrow> c_str (xs @ [0]) = xs"
  by (auto simp: c_str_def takeWhile_append takeWhile_eq_all_conv)

lemma name_char_nz: "name_char c \<Longrightarrow> c \<noteq> 0 \<and> c \<noteq> chSPACE \<and> c \<noteq> chDOT"
  by (auto simp: name_char_def)

text \<open>What \<open>fat32_dirent_name\<close> gives for a name field of a base of one to eight characters.\<close>

lemma to_8dot3_base:
  assumes "length b + k = 8" "b \<noteq> []" "last b \<noteq> chSPACE" "length e = 3" "0 \<notin> set b" "0 \<notin> set e"
  shows "to_8dot3 (b @ replicate k chSPACE @ e) = Inr (b @ [chDOT] @ e)"
proof -
  let ?p = "b @ replicate k chSPACE @ e"
  have "last_nonspace 8 ?p = Some (length b)"
    using assms by (intro last_nonspace_at) (auto simp: nth_append last_conv_nth)
  moreover have "sub ?p 8 3 = e" using assms by (simp add: sub_def)
  ultimately show ?thesis using assms c_str_nonzero [of "b @ [chDOT] @ e"] by (simp add: to_8dot3_def)
qed


definition demo_dirent :: fat32_dirent where
  "demo_dirent = dirent_of (replicate 32 0)"


end
