(* ===== verification/Fat32.thy ===== *)
theory Fat32
  imports FatHelpers
begin

unbundle bit_operations_syntax

text \<open>
  The file system of \<open>labs/19-fat32-readonly/code\<close>: \<open>pi-sd.c\<close>, \<open>mbr.c\<close> and \<open>fat32.c\<close>. The driver of the
  card, \<open>sd_readblock\<close>, and the allocator are parameters: \<open>sd lba n\<close> is the result of a read with the
  bytes it delivers, \<open>kmalloc n\<close> the content of a new block of \<open>n\<close> bytes. Blocks are lists of bytes, and
  a write behind the end of a block is undefined. The walks over the FAT take fuel: a cyclic chain makes the
  code loop forever, which is \<open>Stuck\<close>.
\<close>

type_synonym card = "u32 \<Rightarrow> u32 \<Rightarrow> u32 \<times> u8 list"

section \<open>The card\<close>

record fat_sys =
  sd_init_p :: bool
  fat_init_p :: bool
  boot_sector :: fat32_boot_sec

definition pi_sd_init :: "bool \<Rightarrow> fat_sys \<Rightarrow> fat_sys res" where
  "pi_sd_init sd_init_ok s = seq (require sd_init_ok Panic) (\<lambda>_. Inr (s\<lparr>sd_init_p := True\<rparr>))"

definition pi_sd_read :: "card \<Rightarrow> fat_sys \<Rightarrow> u32 \<Rightarrow> u32 \<Rightarrow> u8 list res" where
  "pi_sd_read sd s lba nsec =
     seq (require (sd_init_p s) Assert_fail) (\<lambda>_.
     let (r, data) = sd lba nsec in
     seq (require (r = 512 * nsec) Panic) (\<lambda>_. Inr data))"

definition pi_sec_read :: "card \<Rightarrow> fat_sys \<Rightarrow> u32 \<Rightarrow> u32 \<Rightarrow> u8 list res" where
  "pi_sec_read sd s lba nsec =
     seq (require (sd_init_p s) Assert_fail) (\<lambda>_. pi_sd_read sd s lba nsec)"

definition mbr_read :: "card \<Rightarrow> bool \<Rightarrow> fat_sys \<Rightarrow> (mbr \<times> fat_sys) res" where
  "mbr_read sd sd_init_ok s =
     seq (pi_sd_init sd_init_ok s) (\<lambda>s.
     seq (pi_sec_read sd s 0 1) (\<lambda>bs.
     let m = mbr_of bs in
     seq (mbr_check m) (\<lambda>_. Inr (m, s))))"

section \<open>Mounting\<close>

record fat32 =
  lba_start :: u32
  fat_begin_lba :: u32
  cluster_begin_lba :: u32
  sectors_per_cluster :: u32
  root_dir_first_cluster :: u32
  fat :: "u32 list"
  n_entries :: u32

definition words_of :: "u8 list \<Rightarrow> u32 list" where
  "words_of bs = map (\<lambda>i. le32 bs (4 * i)) [0..<length bs div 4]"

definition fat32_mk :: "card \<Rightarrow> partition_entry \<Rightarrow> fat_sys \<Rightarrow> (fat32 \<times> fat_sys) res" where
  "fat32_mk sd part s =
     seq (require (\<not> fat_init_p s) Assert_fail) (\<lambda>_.
     seq (pi_sec_read sd s (pe_lba_start part) 1) (\<lambda>bs.
     let b = boot_sec_of bs in
     seq (fat32_volume_id_check b) (\<lambda>_.
     seq (require (info_sec_num b = 1) Assert_fail) (\<lambda>_.
     seq (pi_sec_read sd s (pe_lba_start part + ucast (info_sec_num b)) 1) (\<lambda>info.
     seq (fat32_fsinfo_check (fsinfo_of info)) (\<lambda>_.
     let lba = pe_lba_start part;
         fat_lba = lba + ucast (reserved_area_nsec b);
         cluster_lba = fat_lba + ucast (nfats b) * nsec_per_fat b
     in seq (pi_sec_read sd s fat_lba (nsec_per_fat b)) (\<lambda>table.
     Inr (\<lparr>lba_start = lba, fat_begin_lba = fat_lba, cluster_begin_lba = cluster_lba,
            sectors_per_cluster = ucast (sec_per_cluster b), root_dir_first_cluster = first_cluster b,
            fat = words_of table, n_entries = ucast (fs_nsec b)\<rparr>,
          s\<lparr>boot_sector := b, fat_init_p := True\<rparr>))))))))"

record pi_dirent =
  pd_name :: "u8 list"
  raw_name :: "u8 list"
  cluster_id :: u32
  is_dir_p :: bool
  nbytes :: u32

definition fat32_get_root :: "fat_sys \<Rightarrow> fat32 \<Rightarrow> pi_dirent res" where
  "fat32_get_root s fs =
     seq (require (fat_init_p s) Assert_fail) (\<lambda>_.
     Inr \<lparr>pd_name = [], raw_name = [], cluster_id = root_dir_first_cluster fs, is_dir_p = True, nbytes = 0\<rparr>)"

section \<open>Chains of clusters\<close>

definition cluster_to_lba :: "fat32 \<Rightarrow> u32 \<Rightarrow> u32 res" where
  "cluster_to_lba f cluster_num =
     seq (require (2 \<le> cluster_num) Assert_fail) (\<lambda>_.
     Inr (cluster_begin_lba f + (cluster_num - 2) * sectors_per_cluster f))"

fun chain_length_loop :: "nat \<Rightarrow> fat32 \<Rightarrow> u32 \<Rightarrow> u32 \<Rightarrow> u32 res" where
  "chain_length_loop 0 fs cluster count = Inl Stuck"
| "chain_length_loop (Suc n) fs cluster count =
     seq (fat32_fat_entry_type cluster) (\<lambda>t.
     if t \<noteq> LAST_CLUSTER then
       seq (arr_get (fat fs) (unat cluster)) (\<lambda>next. chain_length_loop n fs next (count + 1))
     else Inr count)"

definition get_cluster_chain_length :: "nat \<Rightarrow> fat32 \<Rightarrow> u32 \<Rightarrow> u32 res" where
  "get_cluster_chain_length n fs start_cluster = chain_length_loop n fs start_cluster 1"

text \<open>A write of \<open>bs\<close> at an offset of a block.\<close>

definition write_at :: "nat \<Rightarrow> u8 list \<Rightarrow> u8 list \<Rightarrow> u8 list res" where
  "write_at off bs buf =
     (if off + length bs \<le> length buf then Inr (take off buf @ bs @ drop (off + length bs) buf) else Inl Undefined)"

fun read_cluster_chain :: "nat \<Rightarrow> card \<Rightarrow> fat_sys \<Rightarrow> fat32 \<Rightarrow> u32 \<Rightarrow> nat \<Rightarrow> u8 list \<Rightarrow> u8 list res" where
  "read_cluster_chain 0 sd s fs cluster off buf = Inl Stuck"
| "read_cluster_chain (Suc n) sd s fs cluster off buf =
     seq (cluster_to_lba fs cluster) (\<lambda>lba.
     seq (pi_sd_read sd s lba (sectors_per_cluster fs)) (\<lambda>data.
     seq (write_at off data buf) (\<lambda>buf.
     let off = off + unat (sectors_per_cluster fs * ucast (bytes_per_sec (boot_sector s))) in
     seq (arr_get (fat fs) (unat cluster)) (\<lambda>cluster.
     seq (fat32_fat_entry_type cluster) (\<lambda>t.
     if t \<noteq> LAST_CLUSTER then read_cluster_chain n sd s fs cluster off buf else Inr buf)))))"

section \<open>Directories and files\<close>

definition dirent_convert :: "fat32_dirent \<Rightarrow> pi_dirent res" where
  "dirent_convert d =
     seq (fat32_dirent_name 16 d) (\<lambda>name.
     Inr \<lparr>pd_name = name, raw_name = c_str (filename d @ replicate 5 0), cluster_id = fat32_cluster_id d,
          is_dir_p = (ucast (attr d) = FAT32_DIR), nbytes = file_nbytes d\<rparr>)"

definition dirents_of :: "nat \<Rightarrow> u8 list \<Rightarrow> fat32_dirent list" where
  "dirents_of n buf = map (\<lambda>i. dirent_of (sub buf (32 * i) 32)) [0..<n]"

definition get_dirents :: "nat \<Rightarrow> card \<Rightarrow> (nat \<Rightarrow> u8 list) \<Rightarrow> fat_sys \<Rightarrow> fat32 \<Rightarrow> u32 \<Rightarrow> fat32_dirent list res" where
  "get_dirents n sd kmalloc s fs cluster_start =
     seq (get_cluster_chain_length n fs cluster_start) (\<lambda>chain_length.
     let total = chain_length * sectors_per_cluster fs * ucast (bytes_per_sec (boot_sector s)) in
     seq (read_cluster_chain n sd s fs cluster_start 0 (kmalloc (unat total))) (\<lambda>buf.
     Inr (dirents_of (unat (total div 32)) buf)))"

fun readdir_loop :: "fat32_dirent list \<Rightarrow> pi_dirent list res" where
  "readdir_loop [] = Inr []"
| "readdir_loop (d # ds) =
     (if fat32_dirent_is_lfn d then readdir_loop ds
      else if drop_bit 3 (attr d) AND 0x1 \<noteq> 0 then readdir_loop ds
      else if filename d ! 0 = 0 then readdir_loop ds
      else seq (dirent_convert d) (\<lambda>e. seq (readdir_loop ds) (\<lambda>es. Inr (e # es))))"

definition fat32_readdir :: "nat \<Rightarrow> card \<Rightarrow> (nat \<Rightarrow> u8 list) \<Rightarrow> fat_sys \<Rightarrow> fat32 \<Rightarrow> pi_dirent \<Rightarrow> pi_dirent list res" where
  "fat32_readdir n sd kmalloc s fs dirent =
     seq (require (fat_init_p s) Assert_fail) (\<lambda>_.
     seq (require (is_dir_p dirent) Assert_fail) (\<lambda>_.
     seq (get_dirents n sd kmalloc s fs (cluster_id dirent)) readdir_loop))"

text \<open>The local array \<open>name\<close> has 12 bytes.\<close>

fun find_dirent_with_name :: "nat \<Rightarrow> fat32_dirent list \<Rightarrow> u8 list \<Rightarrow> nat option res" where
  "find_dirent_with_name i [] fname = Inr None"
| "find_dirent_with_name i (d # ds) fname =
     seq (fat32_dirent_name 12 d) (\<lambda>name.
     if fname = name then Inr (Some i) else find_dirent_with_name (Suc i) ds fname)"

definition fat32_stat ::
  "nat \<Rightarrow> card \<Rightarrow> (nat \<Rightarrow> u8 list) \<Rightarrow> fat_sys \<Rightarrow> fat32 \<Rightarrow> pi_dirent \<Rightarrow> u8 list \<Rightarrow> pi_dirent option res" where
  "fat32_stat n sd kmalloc s fs directory fname =
     seq (require (fat_init_p s) Assert_fail) (\<lambda>_.
     seq (require (is_dir_p directory) Assert_fail) (\<lambda>_.
     seq (get_dirents n sd kmalloc s fs (cluster_id directory)) (\<lambda>dirents.
     seq (find_dirent_with_name 0 dirents fname) (\<lambda>idx.
     case idx of None \<Rightarrow> Inr None
     | Some i \<Rightarrow> seq (dirent_convert (dirents ! i)) (\<lambda>e. Inr (Some e))))))"

record pi_file =
  pf_data :: "u8 list"
  n_alloc :: u32
  n_data :: u32

text \<open>A null entry is dereferenced for a name that is not in the directory.\<close>

definition fat32_read ::
  "nat \<Rightarrow> card \<Rightarrow> (nat \<Rightarrow> u8 list) \<Rightarrow> fat_sys \<Rightarrow> fat32 \<Rightarrow> pi_dirent \<Rightarrow> u8 list \<Rightarrow> pi_file res" where
  "fat32_read n sd kmalloc s fs directory fname =
     seq (require (fat_init_p s) Assert_fail) (\<lambda>_.
     seq (require (is_dir_p directory) Assert_fail) (\<lambda>_.
     seq (fat32_stat n sd kmalloc s fs directory fname) (\<lambda>p.
     case p of None \<Rightarrow> Inl Undefined
     | Some pd \<Rightarrow>
       seq (get_cluster_chain_length n fs (cluster_id pd)) (\<lambda>len.
       seq (read_cluster_chain n sd s fs (cluster_id pd) 0 (kmalloc (unat (nbytes pd)))) (\<lambda>buf.
       Inr \<lparr>pf_data = buf,
            n_alloc = len * sectors_per_cluster fs * ucast (bytes_per_sec (boot_sector s)),
            n_data = nbytes pd\<rparr>)))))"

section \<open>What is not implemented\<close>

text \<open>\<open>unimplemented\<close> panics.\<close>

definition find_free_cluster :: "fat32 \<Rightarrow> u32 \<Rightarrow> u32 res" where
  "find_free_cluster fs start_cluster = Inl Panic"

definition write_fat_to_disk :: "fat32 \<Rightarrow> unit res" where
  "write_fat_to_disk fs = Inl Panic"

definition write_cluster_chain :: "fat32 \<Rightarrow> u32 \<Rightarrow> u8 list \<Rightarrow> u32 \<Rightarrow> unit res" where
  "write_cluster_chain fs start_cluster data n = Inl Panic"

definition fat32_rename :: "fat_sys \<Rightarrow> fat32 \<Rightarrow> pi_dirent \<Rightarrow> u8 list \<Rightarrow> u8 list \<Rightarrow> u32 res" where
  "fat32_rename s fs directory oldname newname =
     seq (require (fat_init_p s) Assert_fail) (\<lambda>_.
     if \<not> fat32_is_valid_name newname then Inr 0 else Inl Panic)"

definition fat32_create :: "fat_sys \<Rightarrow> fat32 \<Rightarrow> pi_dirent \<Rightarrow> u8 list \<Rightarrow> bool \<Rightarrow> pi_dirent option res" where
  "fat32_create s fs directory fname is_dir =
     seq (require (fat_init_p s) Assert_fail) (\<lambda>_.
     if \<not> fat32_is_valid_name fname then Inr None else Inl Panic)"

definition fat32_delete :: "fat_sys \<Rightarrow> fat32 \<Rightarrow> pi_dirent \<Rightarrow> u8 list \<Rightarrow> u32 res" where
  "fat32_delete s fs directory fname =
     seq (require (fat_init_p s) Assert_fail) (\<lambda>_.
     if \<not> fat32_is_valid_name fname then Inr 0 else Inl Panic)"

definition fat32_truncate :: "fat_sys \<Rightarrow> fat32 \<Rightarrow> pi_dirent \<Rightarrow> u8 list \<Rightarrow> u32 \<Rightarrow> u32 res" where
  "fat32_truncate s fs directory fname len =
     seq (require (fat_init_p s) Assert_fail) (\<lambda>_. Inl Panic)"

definition fat32_write :: "fat_sys \<Rightarrow> fat32 \<Rightarrow> pi_dirent \<Rightarrow> u8 list \<Rightarrow> pi_file \<Rightarrow> u32 res" where
  "fat32_write s fs directory fname file =
     seq (require (fat_init_p s) Assert_fail) (\<lambda>_.
     seq (require (is_dir_p directory) Assert_fail) (\<lambda>_. Inl Panic))"

definition fat32_flush :: "fat_sys \<Rightarrow> fat32 \<Rightarrow> u32 res" where
  "fat32_flush s fs = seq (require (fat_init_p s) Assert_fail) (\<lambda>_. Inr 0)"

section \<open>Well-formed chains\<close>

text \<open>\<open>cluster_chain fat c cs\<close>: starting at \<open>c\<close> the FAT links the clusters \<open>cs\<close>, each a used cluster of the
  table, and ends with an end mark.\<close>

fun cluster_chain :: "u32 list \<Rightarrow> u32 \<Rightarrow> u32 list \<Rightarrow> bool" where
  "cluster_chain table c [] \<longleftrightarrow> False"
| "cluster_chain table c (c' # cs) \<longleftrightarrow>
     c' = c \<and> 2 \<le> c \<and> c \<le> 0xFFFFFEF \<and> unat c < length table \<and>
     (if cs = [] then fat32_fat_entry_type (table ! unat c) = Inr LAST_CLUSTER
      else cluster_chain table (table ! unat c) cs)"

lemma low28_small: "c \<le> (0xFFFFFFF :: u32) \<Longrightarrow> c AND 0xFFFFFFF = c"
proof -
  assume "c \<le> 0xFFFFFFF"
  then have "unat c < 2 ^ 28" by (simp add: word_le_nat_alt)
  then have "take_bit 28 c = c" by (metis take_bit_nat_eq_self unsigned_take_bit_eq word_unat_eq_iff)
  moreover have F: "(0xFFFFFFF :: u32) = mask 28" by (simp add: mask_eq_exp_minus_1)
  ultimately show ?thesis unfolding F by (simp add: take_bit_eq_mask and.commute)
qed

lemma entry_type_used: "2 \<le> c \<Longrightarrow> c \<le> 0xFFFFFEF \<Longrightarrow> fat32_fat_entry_type c = Inr USED_CLUSTER"
proof -
  assume c: "2 \<le> c" "c \<le> 0xFFFFFEF"
  then have "c \<le> 0xFFFFFFF" by (simp add: word_le_nat_alt)
  from low28_small [OF this] have "shr (shl c 4) 4 = c" by (simp add: low28)
  moreover have "c \<noteq> 0" "c \<noteq> 1" "c \<noteq> 0xFFFFFF7" using c by (auto simp: word_le_nat_alt)
  ultimately show ?thesis using c
    by (simp add: fat32_fat_entry_type_def FREE_CLUSTER_def RESERVED_CLUSTER_def BAD_CLUSTER_def)
qed

lemma used_not_last [simp]: "USED_CLUSTER \<noteq> LAST_CLUSTER"
  by (simp add: USED_CLUSTER_def)

lemma chain_length_loop_chain:
  "cluster_chain (fat fs) c cs \<Longrightarrow> length cs < n \<Longrightarrow>
    chain_length_loop n fs c k = Inr (k + word_of_nat (length cs))"
proof (induction cs arbitrary: c n k)
  case (Cons c' cs)
  then obtain n' where n: "n = Suc n'" by (cases n) auto
  from Cons.prems have c: "2 \<le> c" "c \<le> 0xFFFFFEF" "unat c < length (fat fs)" by auto
  show ?case
  proof (cases cs)
    case Nil
    with Cons.prems n have "n' \<noteq> 0" "fat32_fat_entry_type (fat fs ! unat c) = Inr LAST_CLUSTER" by auto
    with Nil n c show ?thesis by (cases n') (simp_all add: entry_type_used)
  next
    case (Cons c2 cs2)
    with Cons.prems n c Cons.IH [of "fat fs ! unat c" n' "k + 1"] show ?thesis
      by (simp add: entry_type_used algebra_simps)
  qed
qed simp

text \<open>\<open>get_cluster_chain_length\<close> does not return the number of clusters of the chain but one more: it
  counts the end mark as a cluster. It needs no more rounds than that.\<close>

theorem chain_length_one_too_many:
  assumes "cluster_chain (fat fs) c cs" "length cs < n"
  shows "get_cluster_chain_length n fs c = Inr (word_of_nat (length cs) + 1)"
  using chain_length_loop_chain [OF assms, of 1] by (simp add: get_cluster_chain_length_def add.commute)

definition demo_fs :: fat32 where
  "demo_fs = \<lparr>lba_start = 0, fat_begin_lba = 32, cluster_begin_lba = 100, sectors_per_cluster = 1,
     root_dir_first_cluster = 2, fat = [0xFFFFFF8, 0xFFFFFFF, 4, 0xFFFFFF8, 0xFFFFFF8], n_entries = 0\<rparr>"

lemma last_8: "fat32_fat_entry_type 0xFFFFFF8 = Inr LAST_CLUSTER"
  by code_simp

lemma demo_chain: "cluster_chain (fat demo_fs) 2 [2, 4]"
  by (simp add: demo_fs_def last_8)

theorem chain_length_one_too_many_witness: "get_cluster_chain_length 3 demo_fs 2 = Inr 3"
  using chain_length_one_too_many [OF demo_chain, of 3] by simp

section \<open>Reading a chain\<close>

text \<open>The documented behaviour of the driver of the card: it delivers the sectors and returns their size.\<close>

definition card_ok :: "card \<Rightarrow> bool" where
  "card_ok sd \<longleftrightarrow> (\<forall>lba n. fst (sd lba n) = 512 * n \<and> length (snd (sd lba n)) = 512 * unat n)"

definition cluster_data :: "card \<Rightarrow> fat32 \<Rightarrow> u32 \<Rightarrow> u8 list" where
  "cluster_data sd fs c = snd (sd (cluster_begin_lba fs + (c - 2) * sectors_per_cluster fs) (sectors_per_cluster fs))"

definition chain_data :: "card \<Rightarrow> fat32 \<Rightarrow> u32 list \<Rightarrow> u8 list" where
  "chain_data sd fs cs = concat (map (cluster_data sd fs) cs)"

definition cluster_size :: "fat32 \<Rightarrow> nat" where
  "cluster_size fs = 512 * unat (sectors_per_cluster fs)"

text \<open>A mounted file system: the flags are set and the checks of \<open>fat32_mk\<close> hold.\<close>

definition mounted :: "fat_sys \<Rightarrow> fat32 \<Rightarrow> bool" where
  "mounted s fs \<longleftrightarrow> sd_init_p s \<and> fat_init_p s \<and> bytes_per_sec (boot_sector s) = 512 \<and>
     unat (sectors_per_cluster fs) < 256"

lemma length_cluster_data: "card_ok sd \<Longrightarrow> length (cluster_data sd fs c) = cluster_size fs"
  by (simp add: card_ok_def cluster_data_def cluster_size_def)

lemma length_chain_data: "card_ok sd \<Longrightarrow> length (chain_data sd fs cs) = length cs * cluster_size fs"
  by (induction cs) (simp_all add: chain_data_def length_cluster_data)

lemma unat_cluster_size: "mounted s fs \<Longrightarrow>
    unat (sectors_per_cluster fs * ucast (bytes_per_sec (boot_sector s))) = cluster_size fs"
  by (simp add: mounted_def cluster_size_def unat_word_ariths)

lemma read_sectors: "mounted s fs \<Longrightarrow> card_ok sd \<Longrightarrow>
    pi_sd_read sd s (cluster_begin_lba fs + (c - 2) * sectors_per_cluster fs) (sectors_per_cluster fs) =
      Inr (cluster_data sd fs c)"
  by (simp add: pi_sd_read_def mounted_def card_ok_def cluster_data_def split_beta)

lemma read_cluster_chain_spec:
  assumes "mounted s fs" "card_ok sd"
  shows "cluster_chain (fat fs) c cs \<Longrightarrow> length cs \<le> n \<Longrightarrow>
    read_cluster_chain n sd s fs c off buf = write_at off (chain_data sd fs cs) buf"
proof (induction cs arbitrary: c n off buf)
  case (Cons c' cs)
  then obtain n' where n: "n = Suc n'" by (cases n) auto
  from Cons.prems have c: "c' = c" "2 \<le> c" "unat c < length (fat fs)" by auto
  note len = length_cluster_data [OF assms(2), of fs] length_chain_data [OF assms(2), of fs]
  have step: "read_cluster_chain n sd s fs c off buf = seq (write_at off (cluster_data sd fs c) buf) (\<lambda>buf.
      seq (fat32_fat_entry_type (fat fs ! unat c)) (\<lambda>t.
      if t \<noteq> LAST_CLUSTER then read_cluster_chain n' sd s fs (fat fs ! unat c) (off + cluster_size fs) buf else Inr buf))"
    using c by (simp add: n cluster_to_lba_def read_sectors [OF assms] unat_cluster_size [OF assms(1)])
  show ?case
  proof (cases cs)
    case Nil
    with Cons.prems step c show ?thesis
      by (simp add: chain_data_def) (cases "write_at off (cluster_data sd fs c) buf"; simp)
  next
    case (Cons c2 cs2)
    then have ch: "cluster_chain (fat fs) (fat fs ! unat c) cs" using Cons.prems by auto
    then have u: "fat32_fat_entry_type (fat fs ! unat c) = Inr USED_CLUSTER" using Cons by (auto intro: entry_type_used)
    have IH: "read_cluster_chain n' sd s fs (fat fs ! unat c) off' buf' = write_at off' (chain_data sd fs cs) buf'"
      for off' buf' using Cons.IH [OF ch] Cons.prems n by simp
    have d: "chain_data sd fs (c' # cs) = cluster_data sd fs c @ chain_data sd fs cs" using c by (simp add: chain_data_def)
    show ?thesis unfolding step d
      by (auto simp: u IH write_at_def len ac_simps)
  qed
qed simp

section \<open>Listing a directory\<close>

lemma sub_append1: "i + k \<le> length xs \<Longrightarrow> sub (xs @ ys) i k = sub xs i k"
  by (simp add: sub_def)

lemma sub_append2: "length xs \<le> i \<Longrightarrow> sub (xs @ ys) i k = sub ys (i - length xs) k"
  by (simp add: sub_def)

lemma sub_replicate: "i + k \<le> n \<Longrightarrow> sub (replicate n x) i k = replicate k x"
  by (simp add: sub_def)

lemma dirents_of_zeros:
  assumes "length xs = 32 * k"
  shows "dirents_of (k + j) (xs @ replicate (32 * j) 0) = dirents_of k xs @ replicate j demo_dirent"
proof (rule nth_equalityI)
  fix i assume "i < length (dirents_of (k + j) (xs @ replicate (32 * j) 0))"
  then have i: "i < k + j" by (simp add: dirents_of_def)
  show "dirents_of (k + j) (xs @ replicate (32 * j) 0) ! i = (dirents_of k xs @ replicate j demo_dirent) ! i"
  proof (cases "i < k")
    case True
    with assms show ?thesis by (simp add: dirents_of_def nth_append sub_append1)
  next
    case False
    then have "sub (xs @ replicate (32 * j) (0 :: u8)) (32 * i) 32 = replicate 32 0"
      using assms i by (subst sub_append2) (auto intro!: sub_replicate)
    with False i show ?thesis by (simp add: dirents_of_def nth_append demo_dirent_def)
  qed
qed (simp add: dirents_of_def)

lemma readdir_zeros: "readdir_loop (ds @ replicate j demo_dirent) = readdir_loop ds"
proof (induction ds)
  case Nil
  have "filename demo_dirent ! 0 = 0" "attr demo_dirent = 0" by code_simp+
  then show ?case by (induction j) simp_all
next
  case (Cons d ds)
  then show ?case by simp
qed

lemma seq_assoc: "seq (seq x f) g = seq x (\<lambda>a. seq (f a) g)"
  by (cases x) simp_all

definition zeroed :: "(nat \<Rightarrow> u8 list) \<Rightarrow> bool" where
  "zeroed kmalloc \<longleftrightarrow> (\<forall>n. kmalloc n = replicate n 0)"

lemma unat_word_of_nat_Suc:
  assumes "k + 1 < 4294967296"
  shows "unat (word_of_nat k + 1 :: u32) = k + 1"
proof -
  have "(word_of_nat k + 1 :: u32) = word_of_nat (k + 1)" by simp
  also have "unat \<dots> = k + 1" unfolding unat_of_nat using assms by (intro mod_less) simp
  finally show ?thesis .
qed

lemma get_dirents_chain:
  assumes "mounted s fs" "card_ok sd" "zeroed kmalloc" "cluster_chain (fat fs) c cs"
    "length cs < n" "(length cs + 1) * cluster_size fs < 4294967296"
  shows "get_dirents n sd kmalloc s fs c =
    Inr (dirents_of (length (chain_data sd fs cs) div 32) (chain_data sd fs cs) @
         replicate (cluster_size fs div 32) demo_dirent)"
proof -
  let ?cz = "cluster_size fs" and ?d = "chain_data sd fs cs"
  have cz: "?cz = 512 * unat (sectors_per_cluster fs)" by (simp add: cluster_size_def)
  have "cs \<noteq> []" using assms(4) by (cases cs) auto
  let ?total = "(word_of_nat (length cs) + 1) * sectors_per_cluster fs * ucast (bytes_per_sec (boot_sector s)) :: u32"
  have t: "unat ?total = (length cs + 1) * ?cz"
  proof (cases "?cz = 0")
    case True
    then have "sectors_per_cluster fs = 0" by (simp add: cz unat_eq_0)
    with True show ?thesis by simp
  next
    case False
    then have "length cs + 1 \<le> (length cs + 1) * ?cz" using mult_le_mono2 [of 1 ?cz "length cs + 1"] by simp
    then have "length cs + 1 < 4294967296" using assms(6) by linarith
    then have a: "unat (word_of_nat (length cs) + 1 :: u32) = length cs + 1"
      by (rule unat_word_of_nat_Suc)
    have "unat ((word_of_nat (length cs) + 1) * (sectors_per_cluster fs * ucast (bytes_per_sec (boot_sector s))) :: u32)
        = (length cs + 1) * ?cz mod 2 ^ LENGTH(32)"
      by (simp only: unat_word_ariths(2) [of "word_of_nat (length cs) + 1"] a unat_cluster_size [OF assms(1)])
    also have "\<dots> = (length cs + 1) * ?cz" using assms(6) by (intro mod_less) simp
    finally show ?thesis by (simp only: mult.assoc)
  qed
  have "read_cluster_chain n sd s fs c 0 (kmalloc (unat ?total)) = write_at 0 ?d (replicate ((length cs + 1) * ?cz) 0)"
    using read_cluster_chain_spec [OF assms(1,2,4)] assms(3,5) t by (simp add: zeroed_def)
  also have "\<dots> = Inr (?d @ replicate ?cz 0)"
    by (simp add: write_at_def length_chain_data [OF assms(2)])
  finally have r: "read_cluster_chain n sd s fs c 0 (kmalloc (unat ?total)) = Inr (?d @ replicate ?cz 0)" .
  have l: "length ?d = 32 * (length ?d div 32)" "?cz = 32 * (?cz div 32)"
    by (simp_all add: length_chain_data [OF assms(2)] cz)
  have "unat (?total div 32) = length ?d div 32 + ?cz div 32"
    unfolding unat_div t by (simp add: length_chain_data [OF assms(2)] cz)
  then show ?thesis
    using r dirents_of_zeros [OF l(1), of "?cz div 32"] l(2) chain_length_loop_chain [OF assms(4,5), of 1]
    by (simp add: get_dirents_def get_cluster_chain_length_def add.commute Let_def)
qed


definition demo_sys :: fat_sys where
  "demo_sys = \<lparr>sd_init_p = True, fat_init_p = True, boot_sector = (boot_sec_of (replicate 512 0))\<lparr>bytes_per_sec := 512\<rparr>\<rparr>"

definition demo_card :: card where
  "demo_card = (\<lambda>lba n. (512 * n, replicate (512 * unat n) 0))"

definition demo_dir :: pi_dirent where
  "demo_dir = \<lparr>pd_name = [], raw_name = [], cluster_id = 2, is_dir_p = True, nbytes = 0\<rparr>"

lemma demo_ok: "mounted demo_sys demo_fs" "card_ok demo_card" "zeroed (\<lambda>n. replicate n 0)"
  by (simp_all add: mounted_def demo_sys_def demo_fs_def card_ok_def demo_card_def zeroed_def)


text \<open>A deleted file is listed: \<open>fat32_readdir\<close> tests only for a name that begins with zero, not for the mark
  \<open>0xe5\<close> of a deleted entry, which \<open>fat32_dirent_free\<close> calls free.\<close>

theorem readdir_lists_deleted:
  assumes "filename d ! 0 = 0xe5" "attr d = 0x20" "dirent_convert d = Inr e"
  shows "fat32_dirent_free d = Inr True \<and> readdir_loop [d] = Inr [e]"
  using assms by (simp add: fat32_dirent_free_def FAT32_LONG_FILE_NAME_def fat32_dirent_is_lfn_def drop_bit_eq_div)

theorem readdir_lists_deleted_witness:
  "\<exists>d. fat32_dirent_free d = Inr True \<and> (\<exists>e. readdir_loop [d] = Inr [e])"
proof -
  let ?d = "demo_dirent\<lparr>filename := 0xe5 # replicate 10 0x41, attr := 0x20\<rparr>"
  have "to_8dot3 (0xe5 # replicate 10 0x41) = Inr (0xe5 # replicate 7 0x41 @ [chDOT] @ replicate 3 0x41)"
    by code_simp
  then obtain e where e: "dirent_convert ?d = Inr e"
    unfolding dirent_convert_def fat32_dirent_name_def by (simp add: strcpy_into_def)
  have "filename ?d ! 0 = 0xe5" "attr ?d = 0x20" by simp_all
  from readdir_lists_deleted [OF this e] show ?thesis by blast
qed

section \<open>Reading a file\<close>

text \<open>C21. Reading a file copies whole clusters into a block of \<open>nbytes\<close> bytes. When the clusters of the file hold
  more than that, as they do for every file whose size is not a multiple of the cluster size, the copy runs over
  the end of the block; otherwise the data of the clusters are at the front of the block, \<open>n_data\<close> is the
  file's size and \<open>n_alloc\<close> is one cluster more than the chain has.\<close>

theorem file_read_overruns:
  assumes "mounted s fs" "card_ok sd" "is_dir_p dir" "\<And>k. length (kmalloc k) = k"
    "fat32_stat n sd kmalloc s fs dir fname = Inr (Some pd)"
    "cluster_chain (fat fs) (cluster_id pd) cs" "length cs < n"
  shows "fat32_read n sd kmalloc s fs dir fname =
    (if unat (nbytes pd) < length cs * cluster_size fs then Inl Undefined
     else Inr \<lparr>pf_data = chain_data sd fs cs @ drop (length cs * cluster_size fs) (kmalloc (unat (nbytes pd))),
            n_alloc = (word_of_nat (length cs) + 1) * sectors_per_cluster fs * ucast (bytes_per_sec (boot_sector s)),
            n_data = nbytes pd\<rparr>)"
proof -
  have "read_cluster_chain n sd s fs (cluster_id pd) 0 (kmalloc (unat (nbytes pd))) =
      write_at 0 (chain_data sd fs cs) (kmalloc (unat (nbytes pd)))"
    using read_cluster_chain_spec [OF assms(1,2,6)] assms(7) by simp
  moreover have "get_cluster_chain_length n fs (cluster_id pd) = Inr (word_of_nat (length cs) + 1)"
    using chain_length_loop_chain [OF assms(6,7), of 1] by (simp add: get_cluster_chain_length_def add.commute)
  ultimately show ?thesis using assms(1,3,5)
    by (auto simp: fat32_read_def mounted_def write_at_def length_chain_data [OF assms(2)] assms(4))
qed

definition demo_entry :: "u8 list" where
  "demo_entry = str_of ''A       TXT'' @ [0x20] @ replicate 14 0 @ [4, 0, 100, 0, 0, 0]"

definition file_card :: card where
  "file_card = (\<lambda>lba n. (512 * n, take (512 * unat n) (demo_entry @ replicate (512 * unat n) 0)))"

lemma length_demo_entry [simp]: "length demo_entry = 32"
  by (simp add: demo_entry_def str_of_def)

lemma file_card_ok: "card_ok file_card"
  by (auto simp: card_ok_def file_card_def)

lemma demo_entry_found: "find_dirent_with_name 0 (dirent_of demo_entry # ds) (str_of ''A.TXT'') = Inr (Some 0)"
proof -
  have "fat32_dirent_name 12 (dirent_of demo_entry) = Inr (str_of ''A.TXT'')" by code_simp
  then show ?thesis by simp
qed

lemma demo_entry_convert: "case dirent_convert (dirent_of demo_entry) of Inr pd \<Rightarrow> cluster_id pd = 4 \<and> nbytes pd = 100 | _ \<Rightarrow> False"
  by code_simp

lemma file_stat: "\<exists>pd. fat32_stat 3 file_card (\<lambda>n. replicate n 0) demo_sys demo_fs demo_dir (str_of ''A.TXT'') = Inr (Some pd) \<and>
    cluster_id pd = 4 \<and> nbytes pd = 100"
proof -
  have sz: "cluster_size demo_fs = 512" by (simp add: cluster_size_def demo_fs_def)
  have "sub (chain_data file_card demo_fs [2, 4]) 0 32 = demo_entry"
    by (simp add: chain_data_def cluster_data_def file_card_def demo_fs_def sub_def)
  moreover have "\<exists>ds. dirents_of 32 bs = dirent_of (sub bs 0 32) # ds" for bs
    by (simp add: dirents_of_def upt_rec [of 0 32])
  moreover have "length (chain_data file_card demo_fs [2, 4]) div 32 = 32"
    unfolding length_chain_data [OF file_card_ok] sz by simp
  ultimately obtain ds where "dirents_of (length (chain_data file_card demo_fs [2, 4]) div 32) (chain_data file_card demo_fs [2, 4]) =
      dirent_of demo_entry # ds" by metis
  then have "get_dirents 3 file_card (\<lambda>n. replicate n 0) demo_sys demo_fs 2 =
      Inr (dirent_of demo_entry # ds @ replicate (512 div 32) demo_dirent)"
    using get_dirents_chain [OF demo_ok(1) file_card_ok demo_ok(3) demo_chain, of 3] by (simp add: sz)
  moreover have "fat_init_p demo_sys" "is_dir_p demo_dir" "cluster_id demo_dir = 2" by (simp_all add: demo_sys_def demo_dir_def)
  ultimately show ?thesis
    using demo_entry_convert by (auto simp: fat32_stat_def demo_entry_found simp del: find_dirent_with_name.simps split: sum.splits)
qed

theorem file_read_overruns_witness:
  "fat32_read 3 file_card (\<lambda>n. replicate n 0) demo_sys demo_fs demo_dir (str_of ''A.TXT'') = Inl Undefined"
proof -
  obtain pd where pd: "fat32_stat 3 file_card (\<lambda>n. replicate n 0) demo_sys demo_fs demo_dir (str_of ''A.TXT'') = Inr (Some pd)"
    "cluster_id pd = 4" "nbytes pd = 100" using file_stat by blast
  have c: "cluster_chain (fat demo_fs) (cluster_id pd) [4]" by (simp add: demo_fs_def last_8 pd(2))
  have "is_dir_p demo_dir" by (simp add: demo_dir_def)
  note file_read_overruns [OF demo_ok(1) file_card_ok this _ pd(1) c]
  then show ?thesis by (simp add: pd(3)) (simp add: cluster_size_def demo_fs_def)
qed

text \<open>The local array of \<open>find_dirent_with_name\<close> is one byte short: an entry whose base name has eight
  characters has a name of twelve, and its terminating zero is written behind the array. A directory with
  such an entry before the one looked for can neither be searched nor read from.\<close>

theorem find_dirent_overflows:
  assumes "length (filename d) = 11" "0 \<notin> set (filename d)" "filename d ! 7 \<noteq> chSPACE"
  shows "find_dirent_with_name i (d # ds) fname = Inl Undefined \<and> (\<exists>e. dirent_convert d = Inr e)"
proof -
  let ?b = "take 8 (filename d)" and ?e = "drop 8 (filename d)"
  have "to_8dot3 (?b @ replicate 0 chSPACE @ ?e) = Inr (?b @ [chDOT] @ ?e)"
  proof (rule to_8dot3_base)
    have "?b \<noteq> []" using assms(1) by auto
    then show "last ?b \<noteq> chSPACE" using assms(1,3) by (simp add: last_conv_nth)
    show "0 \<notin> set ?b" "0 \<notin> set ?e" using assms(2) by (auto dest: in_set_takeD in_set_dropD)
  qed (use assms(1) in auto)
  then have "to_8dot3 (filename d) = Inr (?b @ [chDOT] @ ?e)" by simp
  with assms(1) show ?thesis by (simp add: fat32_dirent_name_def dirent_convert_def strcpy_into_def)
qed

theorem find_dirent_overflows_witness:
  "find_dirent_with_name 0 [demo_dirent\<lparr>filename := replicate 11 0x41\<rparr>] (str_of ''CONFIG.TXT'') = Inl Undefined"
  using find_dirent_overflows [of "demo_dirent\<lparr>filename := replicate 11 0x41\<rparr>" 0 "[]" "str_of ''CONFIG.TXT''"] by simp

text \<open>Reading a name that is not in the directory dereferences a null pointer.\<close>

lemma read_missing_file:
  assumes "fat32_stat n sd kmalloc s fs dir fname = Inr None" "fat_init_p s" "is_dir_p dir"
  shows "fat32_read n sd kmalloc s fs dir fname = Inl Undefined"
  using assms by (simp add: fat32_read_def)

text \<open>An empty file has no clusters; the code reads its chain all the same and fails an assertion or an access.\<close>

lemma read_empty_chain: "0 < n \<Longrightarrow> read_cluster_chain n sd s fs 0 off buf = Inl Assert_fail"
  by (cases n) (simp_all add: cluster_to_lba_def)

text \<open>Mounting: when \<open>fat32_mk\<close> succeeds the geometry is that of the boot sector on the card, the first cluster
  of the data follows the copies of the FAT, and a second mount fails.\<close>

theorem fat32_mk_geometry:
  assumes "fat32_mk sd part s = Inr (fs, s')"
  shows "let b = boot_sector s' in
    b = boot_sec_of (snd (sd (pe_lba_start part) 1)) \<and> bytes_per_sec b = 512 \<and> bs_sig b = 0xAA55 \<and>
    cluster_begin_lba fs = pe_lba_start part + ucast (reserved_area_nsec b) + 2 * nsec_per_fat b \<and>
    cluster_to_lba fs 2 = Inr (cluster_begin_lba fs) \<and> n_entries fs = 0 \<and>
    fat32_mk sd part s' = Inl Assert_fail"
proof -
  from assms obtain b where b: "fat32_volume_id_check b = Inr ()" "b = boot_sec_of (snd (sd (pe_lba_start part) 1))"
    "s' = s\<lparr>boot_sector := b, fat_init_p := True\<rparr>" "sectors_per_cluster fs = ucast (sec_per_cluster b)"
    "cluster_begin_lba fs = pe_lba_start part + ucast (reserved_area_nsec b) + ucast (nfats b) * nsec_per_fat b"
    "n_entries fs = ucast (fs_nsec b)"
    by (auto simp: fat32_mk_def pi_sec_read_def pi_sd_read_def seq_eq_Inr Let_def split_beta)
  have "bytes_per_sec b = 512" "nfats b = 2" "bs_sig b = 0xAA55" "fs_nsec b = 0"
    using b(1) by (auto simp: fat32_volume_id_check_def seq_eq_Inr Let_def)
  with b show ?thesis by (simp add: Let_def cluster_to_lba_def fat32_mk_def)
qed

definition boot_card :: card where
  "boot_card = (\<lambda>lba n. (512 * n,
     if n \<noteq> 1 then replicate (512 * unat n) 0
     else if lba = 0 then ((replicate 512 0)[11 := 0, 12 := 2, 13 := 1, 14 := 32, 16 := 2, 32 := 1, 36 := 2, 44 := 2, 48 := 1, 50 := 6, 66 := 0x29, 510 := 0x55, 511 := 0xAA])
     else ((replicate 512 0)[0 := 0x52, 1 := 0x52, 2 := 0x61, 3 := 0x41, 484 := 0x72, 485 := 0x72, 486 := 0x41, 487 := 0x61, 510 := 0x55, 511 := 0xAA])))"
definition unmounted :: fat_sys where
  "unmounted = demo_sys\<lparr>fat_init_p := False\<rparr>"

lemma boot_card_mounts: "case fat32_mk boot_card (partition_of (replicate 16 0)) unmounted of Inr _ \<Rightarrow> True | Inl _ \<Rightarrow> False"
  by code_simp

theorem fat32_mk_geometry_witness:
  "\<exists>fs s'. fat32_mk boot_card (partition_of (replicate 16 0)) unmounted = Inr (fs, s') \<and>
     cluster_to_lba fs 2 = Inr (cluster_begin_lba fs) \<and> fat32_mk boot_card (partition_of (replicate 16 0)) s' = Inl Assert_fail"
proof -
  obtain fs s' where m: "fat32_mk boot_card (partition_of (replicate 16 0)) unmounted = Inr (fs, s')"
    using boot_card_mounts by (auto split: sum.splits)
  from fat32_mk_geometry [OF m] m show ?thesis by (auto simp: Let_def)
qed

end
