(* ===== verification/Timer.thy ===== *)
theory Timer
  imports Mmio
begin

unbundle bit_operations_syntax

text \<open>
  Time: the microsecond counter and the delays of \<open>libpi/staff-src/timer.c\<close>, the timeouts of
  \<open>libpi/include/timeout.h\<close>, the printing helpers \<open>pretty-time.h\<close> and \<open>time-print.h\<close>, and
  \<open>delay-ncycles.c\<close>. The counter has 32 bits and wraps after 71 minutes. A clock is a bus whose counter
  shows the lower bits of a time that passes; delays take fuel for their rounds.
\<close>

section \<open>The code\<close>

definition timer_get_usec_raw :: "'d bus \<Rightarrow> ('d, u32) io" where
  "timer_get_usec_raw B = GET32 B 0x20003004"

definition timer_get_usec :: "'d bus \<Rightarrow> ('d, u32) io" where
  "timer_get_usec B = thn (dev_barrier B) (bnd (timer_get_usec_raw B) (\<lambda>u. thn (dev_barrier B) (ret u)))"

fun delay_loop :: "'d bus \<Rightarrow> nat \<Rightarrow> u32 \<Rightarrow> u32 \<Rightarrow> ('d, unit) io" where
  "delay_loop B 0 s us = fails Stuck"
| "delay_loop B (Suc n) s us =
     bnd (timer_get_usec B) (\<lambda>e. if us \<le> e - s then ret () else delay_loop B n s us)"

definition delay_us :: "'d bus \<Rightarrow> nat \<Rightarrow> u32 \<Rightarrow> ('d, unit) io" where
  "delay_us B n us = bnd (timer_get_usec B) (\<lambda>s. delay_loop B n s us)"

definition delay_ms :: "'d bus \<Rightarrow> nat \<Rightarrow> u32 \<Rightarrow> ('d, unit) io" where
  "delay_ms B n ms = delay_us B n (ms * 1000)"

definition delay_sec :: "'d bus \<Rightarrow> nat \<Rightarrow> u32 \<Rightarrow> ('d, unit) io" where
  "delay_sec B n sec = delay_ms B n (sec * 1000)"

text \<open>\<open>while(ticks-- > 0)\<close> counts down to zero: the number of its rounds.\<close>

fun delay_cycles :: "nat \<Rightarrow> nat" where
  "delay_cycles 0 = 0"
| "delay_cycles (Suc ticks) = Suc (delay_cycles ticks)"

subsection \<open>Timeouts\<close>

record timeout_t =
  time_last :: u32
  time_usecs :: u64

definition timeout_start :: "'d bus \<Rightarrow> ('d, timeout_t) io" where
  "timeout_start B = bnd (timer_get_usec B) (\<lambda>now. ret \<lparr>time_last = now, time_usecs = 0\<rparr>)"

definition timeout_get_usec :: "'d bus \<Rightarrow> timeout_t \<Rightarrow> ('d, u64 \<times> timeout_t) io" where
  "timeout_get_usec B t =
     bnd (timer_get_usec B) (\<lambda>now.
     let t = t\<lparr>time_usecs := time_usecs t + ucast (now - time_last t), time_last := now\<rparr>
     in ret (time_usecs t, t))"

definition timeout_usec :: "'d bus \<Rightarrow> timeout_t \<Rightarrow> u64 \<Rightarrow> ('d, bool \<times> timeout_t) io" where
  "timeout_usec B t max_usec = bnd (timeout_get_usec B t) (\<lambda>(u, t). ret (max_usec \<le> u, t))"

definition timeout_msec :: "'d bus \<Rightarrow> timeout_t \<Rightarrow> u64 \<Rightarrow> ('d, bool \<times> timeout_t) io" where
  "timeout_msec B t max_msec = timeout_usec B t (max_msec * 1000)"

definition timeout_sec :: "'d bus \<Rightarrow> timeout_t \<Rightarrow> u64 \<Rightarrow> ('d, bool \<times> timeout_t) io" where
  "timeout_sec B t max_sec = timeout_msec B t (max_sec * 1000)"

subsection \<open>Seconds, milliseconds, microseconds\<close>

definition usec_to_sec :: "u32 \<Rightarrow> u32" where
  "usec_to_sec tot_usec = tot_usec div (1000 * 1000)"

definition usec_to_msec :: "u32 \<Rightarrow> u32" where
  "usec_to_msec tot_usec = (tot_usec mod (1000 * 1000)) div 1000"

definition usec_to_usec :: "u32 \<Rightarrow> u32" where
  "usec_to_usec tot_usec = tot_usec mod 1000"

record pretty_time_t =
  pt_sec :: u32
  pt_msec :: u32
  pt_usec :: u32

definition pretty_time_mk :: "'d bus \<Rightarrow> u32 \<Rightarrow> ('d, pretty_time_t) io" where
  "pretty_time_mk B start_usec =
     bnd (timer_get_usec B) (\<lambda>now. let tot_usec = now - start_usec in
     ret \<lparr>pt_sec = usec_to_sec tot_usec, pt_msec = usec_to_msec tot_usec, pt_usec = usec_to_usec tot_usec\<rparr>)"

definition time_to_sec :: "u32 \<Rightarrow> u32" where
  "time_to_sec tot = tot div (1000 * 1000)"

definition time_to_msec :: "u32 \<Rightarrow> u32" where
  "time_to_msec tot = (let ms = tot mod (1000 * 1000) in ms div 1000)"

definition time_to_usec :: "u32 \<Rightarrow> u32" where
  "time_to_usec tot = tot mod 1000"

section \<open>Clocks\<close>

text \<open>A clock: each reading of the counter takes between one and \<open>g\<close> microseconds of the time \<open>clk\<close> and
  returns its lower 32 bits.\<close>

definition clock_ok :: "'d bus \<Rightarrow> ('d \<Rightarrow> nat) \<Rightarrow> nat \<Rightarrow> bool" where
  "clock_ok B clk g \<longleftrightarrow> (\<forall>d. \<exists>d'. timer_get_usec B d = Inr (word_of_nat (clk d'), d') \<and>
     clk d < clk d' \<and> clk d' \<le> clk d + g)"

lemma clock_read:
  assumes "clock_ok B clk g"
  obtains d' where "timer_get_usec B d = Inr (word_of_nat (clk d'), d')" "clk d < clk d'" "clk d' \<le> clk d + g"
  using assms by (auto simp: clock_ok_def)

lemma unat_nat_u32: "k < 4294967296 \<Longrightarrow> unat (word_of_nat k :: u32) = k"
  by (simp add: unat_of_nat)

lemma elapsed_word: "t0 \<le> t \<Longrightarrow> t - t0 < 4294967296 \<Longrightarrow> unat (word_of_nat t - word_of_nat t0 :: u32) = t - t0"
proof -
  assume "t0 \<le> t" "t - t0 < 4294967296"
  moreover from \<open>t0 \<le> t\<close> have "word_of_nat t - word_of_nat t0 = (word_of_nat (t - t0) :: u32)"
    by (simp add: of_nat_diff)
  ultimately show ?thesis using unat_nat_u32 [of "t - t0"] by simp
qed

lemma delay_loop_ends:
  assumes c: "clock_ok B clk g" and g: "unat us + g < 4294967296"
  shows "t0 \<le> clk d \<Longrightarrow> clk d < t0 + unat us \<or> clk d = t0 \<Longrightarrow> t0 + unat us < clk d + n \<Longrightarrow>
    \<exists>d'. delay_loop B n (word_of_nat t0) us d = Inr ((), d') \<and> t0 + unat us \<le> clk d' \<and> clk d' \<le> t0 + unat us + g"
proof (induction n arbitrary: d)
  case (Suc n)
  obtain d' where d': "timer_get_usec B d = Inr (word_of_nat (clk d'), d')" "clk d < clk d'" "clk d' \<le> clk d + g"
    using clock_read [OF c] by blast
  have "unat us < 4294967296" by simp
  with d' Suc.prems g have e: "unat (word_of_nat (clk d') - word_of_nat t0 :: u32) = clk d' - t0"
    by (intro elapsed_word) linarith+
  show ?case
  proof (cases "t0 + unat us \<le> clk d'")
    case True
    with e have "us \<le> word_of_nat (clk d') - word_of_nat t0" by (simp add: word_le_nat_alt)
    with d' True Suc.prems show ?thesis by auto
  next
    case False
    with e d' Suc.prems have "\<not> us \<le> word_of_nat (clk d') - word_of_nat t0" by (simp add: word_le_nat_alt)
    moreover obtain d'' where "delay_loop B n (word_of_nat t0) us d' = Inr ((), d'')"
      "t0 + unat us \<le> clk d''" "clk d'' \<le> t0 + unat us + g"
      using Suc.IH [of d'] d' False Suc.prems by auto
    ultimately show ?thesis using d' by auto
  qed
qed auto

text \<open>C25. \<open>delay_us\<close> waits as long as it is asked to: it ends, the time that has passed is at least \<open>us\<close>, and at
  most two readings of the counter more, also when the counter wraps around in between. The readings must not be
  so far apart that the loop can miss the window between \<open>us\<close> and the wrap-around.\<close>

theorem delay_us_waits:
  assumes "clock_ok B clk g" "unat us + g < 4294967296" "unat us < n"
  shows "\<exists>d'. delay_us B n us d = Inr ((), d') \<and> clk d + unat us \<le> clk d' \<and> clk d' \<le> clk d + unat us + 2 * g"
proof -
  obtain d1 where d1: "timer_get_usec B d = Inr (word_of_nat (clk d1), d1)" "clk d < clk d1" "clk d1 \<le> clk d + g"
    using clock_read [OF assms(1)] by blast
  obtain d' where "delay_loop B n (word_of_nat (clk d1)) us d1 = Inr ((), d')"
    "clk d1 + unat us \<le> clk d'" "clk d' \<le> clk d1 + unat us + g"
    using delay_loop_ends [OF assms(1,2), of "clk d1" d1 n] assms(3) by auto
  with d1 show ?thesis by (auto simp: delay_us_def)
qed

text \<open>A device that is only a clock, one microsecond for each reading.\<close>

definition tick_bus :: "nat bus" where
  "tick_bus = \<lparr>GET32 = (\<lambda>a t. Inr (word_of_nat (Suc t), Suc t)), PUT32 = (\<lambda>a v t. Inr ((), t)),
     dev_barrier = (\<lambda>t. Inr ((), t)), DEV_VAL32 = (\<lambda>v t. Inr (v, t))\<rparr>"

lemma tick_clock: "clock_ok tick_bus id 1"
  by (simp add: clock_ok_def tick_bus_def timer_get_usec_def timer_get_usec_raw_def del: of_nat_Suc)

theorem delay_us_waits_witness:
  "\<exists>t. delay_us tick_bus 101 100 0xfffffff0 = Inr ((), t) \<and> 0xfffffff0 + 100 \<le> t"
  using delay_us_waits [OF tick_clock, of 100 101 "0xfffffff0"] by auto

text \<open>The delay in seconds is computed modulo \<open>2 ^ 32\<close> microseconds: 4295 seconds are a third of a second.\<close>

lemma delay_sec_wraps: "delay_sec B n 4295 = delay_us B n 32704"
proof -
  have "4295 * 1000 * 1000 = (32704 :: u32)" by simp
  then show ?thesis by (simp only: delay_sec_def delay_ms_def)
qed

section \<open>Timeouts\<close>

text \<open>Timeouts outlive the counter: as long as it is read once in \<open>2 ^ 32\<close> microseconds, the 64-bit sum is the
  time that has passed since the start.\<close>

definition timeout_inv :: "('d \<Rightarrow> nat) \<Rightarrow> nat \<Rightarrow> timeout_t \<Rightarrow> 'd \<Rightarrow> bool" where
  "timeout_inv clk t0 t d \<longleftrightarrow> (\<exists>l. t0 \<le> l \<and> l \<le> clk d \<and> time_last t = word_of_nat l \<and> time_usecs t = word_of_nat (l - t0) \<and>
     clk d - l < 2147483648)"

lemma u64_of_u32: "k < 4294967296 \<Longrightarrow> ucast (word_of_nat k :: u32) = (word_of_nat k :: u64)"
  by (rule word_unat_eq_iff [THEN iffD2]) (simp add: unsigned_ucast_eq unat_of_nat take_bit_eq_mod)

text \<open>A timeout counts the time that has passed since its start, far beyond the range of the counter, when no
  two readings are more than 35 minutes apart.\<close>

theorem timeout_counts:
  assumes "clock_ok B clk g" "g \<le> 2147483648" "timeout_inv clk t0 t d"
  shows "\<exists>d' t'. timeout_get_usec B t d = Inr ((word_of_nat (clk d' - t0), t'), d') \<and>
    timeout_inv clk t0 t' d' \<and> clk d < clk d' \<and> clk d' \<le> clk d + g"
proof -
  obtain d' where d': "timer_get_usec B d = Inr (word_of_nat (clk d'), d')" "clk d < clk d'" "clk d' \<le> clk d + g"
    using clock_read [OF assms(1)] by blast
  from assms(3) obtain l where l: "t0 \<le> l" "l \<le> clk d" "time_last t = word_of_nat l" "time_usecs t = word_of_nat (l - t0)"
    "clk d - l < 2147483648" by (auto simp: timeout_inv_def)
  have "word_of_nat (clk d') - word_of_nat l = (word_of_nat (clk d' - l) :: u32)"
    using l d' by (simp add: of_nat_diff)
  moreover have "clk d' - l < 4294967296" using l d' assms(2) by linarith
  ultimately have "ucast (word_of_nat (clk d') - word_of_nat l :: u32) = (word_of_nat (clk d' - l) :: u64)"
    by (simp only: u64_of_u32)
  moreover have "word_of_nat (l - t0) + word_of_nat (clk d' - l) = (word_of_nat (clk d' - t0) :: u64)"
    using l d' by (simp flip: of_nat_add)
  ultimately have "timeout_get_usec B t d = Inr ((word_of_nat (clk d' - t0),
      \<lparr>time_last = word_of_nat (clk d'), time_usecs = word_of_nat (clk d' - t0)\<rparr>), d')"
    using d' l by (simp add: timeout_get_usec_def)
  moreover have "timeout_inv clk t0 \<lparr>time_last = word_of_nat (clk d'), time_usecs = word_of_nat (clk d' - t0)\<rparr> d'"
    using d' l unfolding timeout_inv_def by (intro exI [of _ "clk d'"]) simp
  ultimately show ?thesis using d' by blast
qed

theorem timeout_counts_witness:
  "\<exists>d t. timeout_get_usec tick_bus \<lparr>time_last = 0xfffffff0, time_usecs = 0\<rparr> 0xfffffff5 = Inr ((6, t), d)"
proof -
  have "timeout_inv id 0xfffffff0 \<lparr>time_last = 0xfffffff0, time_usecs = 0\<rparr> 0xfffffff5"
    unfolding timeout_inv_def by (intro exI [of _ "0xfffffff0"]) simp
  from timeout_counts [OF tick_clock _ this] show ?thesis
    by (auto simp: timeout_get_usec_def timer_get_usec_def timer_get_usec_raw_def tick_bus_def)
qed

lemma timeout_starts:
  assumes "clock_ok B clk g"
  shows "\<exists>d' t. timeout_start B d = Inr (t, d') \<and> timeout_inv clk (clk d') t d'"
proof -
  obtain d' where "timer_get_usec B d = Inr (word_of_nat (clk d'), d')"
    using clock_read [OF assms] by blast
  then show ?thesis by (auto simp: timeout_start_def timeout_inv_def)
qed

text \<open>The parts of a time add up to it, and the smaller ones are below a thousand.\<close>

lemma time_parts: "usec_to_sec t * 1000000 + usec_to_msec t * 1000 + usec_to_usec t = t \<and>
    usec_to_msec t < 1000 \<and> usec_to_usec t < 1000"
proof -
  have "(t div 1000000) * 1000000 + t mod 1000000 = t" by (simp add: word_mod_div_equality)
  moreover have "(t mod 1000000) div 1000 * 1000 + (t mod 1000000) mod 1000 = t mod 1000000"
    by (simp add: word_mod_div_equality)
  ultimately have "t div 1000000 * 1000000 + (t mod 1000000 div 1000 * 1000 + (t mod 1000000) mod 1000) = t"
    by (simp only:)
  moreover have "(t mod 1000000) mod 1000 = t mod 1000"
    by (simp add: word_unat_eq_iff unat_mod mod_mod_cancel)
  moreover have "(t mod 1000000) div 1000 < 1000" "t mod 1000 < 1000"
    by (simp_all add: word_less_nat_alt unat_div unat_mod)
  ultimately show ?thesis by (simp add: usec_to_sec_def usec_to_msec_def usec_to_usec_def add.assoc)
qed

lemma delay_cycles_rounds: "delay_cycles ticks = ticks"
  by (induction ticks) simp_all

end
