(* ===== verification/Watchdog.thy ===== *)
theory Watchdog
  imports Timer Uart
begin

unbundle bit_operations_syntax

text \<open>
  The watchdog timer \<open>libpi/staff-src/watchdog.c\<close>, the timer interrupt \<open>timer-interrupt.c\<close> with the
  registers of \<open>libpi/include/rpi-armtimer.h\<close> and \<open>rpi-interrupts.h\<close>, the interrupt controller
  \<open>interrupts-c.c\<close>, and the reboot of \<open>reboot.c\<close> and \<open>clean-reboot.c\<close>. The static variable \<open>heartbeat\<close> is
  passed in and returned where it changes. The processor status word is a parameter of the reboot.
\<close>

section \<open>The watchdog\<close>

definition PM_RSTC :: u32 where "PM_RSTC = 0x2010001c"
definition PM_RSTS :: u32 where "PM_RSTS = 0x20100020"
definition PM_WDOG :: u32 where "PM_WDOG = 0x20100024"
definition PM_PASSWORD :: u32 where "PM_PASSWORD = 0x5a000000"
definition PM_RSTC_WRCFG_FULL_RESET :: u32 where "PM_RSTC_WRCFG_FULL_RESET = 0x00000020"
definition PM_RSTC_RESET :: u32 where "PM_RSTC_RESET = 0x00000102"
definition PM_RSTS_RASPBERRYPI_HALT :: u32 where "PM_RSTS_RASPBERRYPI_HALT = 0x555"

definition watchdog_start_ticks :: "'d bus \<Rightarrow> u32 \<Rightarrow> ('d, u32) io" where
  "watchdog_start_ticks B ticks =
     (let heartbeat = ticks in
      thn (PUT32 B PM_WDOG (PM_PASSWORD OR (0xffffff AND heartbeat)))
      (thn (PUT32 B PM_RSTC (PM_PASSWORD OR PM_RSTC_WRCFG_FULL_RESET)) (ret heartbeat)))"

definition watchdog_start_us :: "'d bus \<Rightarrow> u32 \<Rightarrow> ('d, u32) io" where
  "watchdog_start_us B us = watchdog_start_ticks B (us div 16)"

definition watchdog_start_ms :: "'d bus \<Rightarrow> u32 \<Rightarrow> ('d, u32) io" where
  "watchdog_start_ms B ms = watchdog_start_us B (ms * 1000)"

definition watchdog_start_sec :: "'d bus \<Rightarrow> u32 \<Rightarrow> ('d, u32) io" where
  "watchdog_start_sec B sec = watchdog_start_ms B (sec * 1000)"

definition watchdog_is_running :: "'d bus \<Rightarrow> ('d, u32) io" where
  "watchdog_is_running B = bnd (GET32 B PM_RSTC) (\<lambda>v. ret (v AND PM_RSTC_WRCFG_FULL_RESET))"

definition watchdog_stop :: "'d bus \<Rightarrow> ('d, unit) io" where
  "watchdog_stop B = PUT32 B PM_RSTC (PM_PASSWORD OR PM_RSTC_RESET)"

definition watchdog_resume :: "'d bus \<Rightarrow> ('d, unit) io" where
  "watchdog_resume B = PUT32 B PM_RSTC (PM_PASSWORD OR PM_RSTC_WRCFG_FULL_RESET)"

definition watchdog_get_time_left_ticks :: "'d bus \<Rightarrow> ('d, u32) io" where
  "watchdog_get_time_left_ticks B = bnd (GET32 B PM_WDOG) (\<lambda>v. ret (v AND 0xffffff))"

definition watchdog_get_time_left_us :: "'d bus \<Rightarrow> ('d, u32) io" where
  "watchdog_get_time_left_us B = bnd (watchdog_get_time_left_ticks B) (\<lambda>v. ret (v * 16))"

definition watchdog_get_time_left_ms :: "'d bus \<Rightarrow> ('d, u32) io" where
  "watchdog_get_time_left_ms B = bnd (watchdog_get_time_left_us B) (\<lambda>v. ret (v div 1000))"

definition watchdog_get_time_left_sec :: "'d bus \<Rightarrow> ('d, u32) io" where
  "watchdog_get_time_left_sec B = bnd (watchdog_get_time_left_ms B) (\<lambda>v. ret (v div 1000))"

definition watchdog_reboot :: "'d bus \<Rightarrow> ('d, u32) io" where
  "watchdog_reboot B = watchdog_start_ticks B 1"

text \<open>The closing parenthesis of \<open>GET32\<close> is behind the two constants.\<close>

definition watchdog_shutdown :: "'d bus \<Rightarrow> ('d, u32) io" where
  "watchdog_shutdown B =
     bnd (GET32 B (PM_RSTS OR PM_PASSWORD OR PM_RSTS_RASPBERRYPI_HALT)) (\<lambda>v.
     thn (PUT32 B PM_RSTS v) (watchdog_reboot B))"

definition watchdog_feed :: "'d bus \<Rightarrow> u32 \<Rightarrow> ('d, u32) io" where
  "watchdog_feed B heartbeat =
     thn (check (heartbeat \<noteq> 0) Assert_fail) (watchdog_start_ticks B heartbeat)"

section \<open>Interrupts\<close>

definition IRQ_Base :: u32 where "IRQ_Base = 0x2000b200"
definition Enable_Basic_IRQs :: u32 where "Enable_Basic_IRQs = IRQ_Base + 0x18"
definition Disable_IRQs_1 :: u32 where "Disable_IRQs_1 = IRQ_Base + 0x1c"
definition Disable_IRQs_2 :: u32 where "Disable_IRQs_2 = IRQ_Base + 0x20"
definition RPI_BASIC_ARM_TIMER_IRQ :: u32 where "RPI_BASIC_ARM_TIMER_IRQ = shl 1 0"

definition arm_timer_Base :: u32 where "arm_timer_Base = 0x2000B400"
definition arm_timer_Load :: u32 where "arm_timer_Load = arm_timer_Base + 0"
definition arm_timer_Control :: u32 where "arm_timer_Control = arm_timer_Base + 8"
definition RPI_ARMTIMER_CTRL_32BIT :: u32 where "RPI_ARMTIMER_CTRL_32BIT = shl 1 1"
definition RPI_ARMTIMER_CTRL_PRESCALE_1 :: u32 where "RPI_ARMTIMER_CTRL_PRESCALE_1 = shl 0 2"
definition RPI_ARMTIMER_CTRL_INT_ENABLE :: u32 where "RPI_ARMTIMER_CTRL_INT_ENABLE = shl 1 5"
definition RPI_ARMTIMER_CTRL_ENABLE :: u32 where "RPI_ARMTIMER_CTRL_ENABLE = shl 1 7"

text \<open>\<open>rpi_arm_timer_ctrl_t\<close> as a list of the widths of its fields from bit 0 on; \<open>check_bitfield\<close> asks for
  the offset and width of the named ones.\<close>

definition rpi_arm_timer_ctrl_t :: "(string \<times> nat) list" where
  "rpi_arm_timer_ctrl_t =
     [('''', 1), (''use_32bit_counter'', 1), (''prescaler'', 2), ('''', 1), (''int_enabled'', 1), ('''', 1),
      (''timer_enabled'', 1), ('''', 1), (''counter_enabled'', 1), ('''', 6), (''counter_prescaler'', 7)]"

fun field_at :: "string \<Rightarrow> nat \<Rightarrow> (string \<times> nat) list \<Rightarrow> (nat \<times> nat) option" where
  "field_at f off [] = None"
| "field_at f off ((g, w) # fs) = (if f = g then Some (off, w) else field_at f (off + w) fs)"

definition check_bitfield :: "string \<Rightarrow> nat \<Rightarrow> nat \<Rightarrow> ('d, unit) io" where
  "check_bitfield f off nbits = check (field_at f 0 rpi_arm_timer_ctrl_t = Some (off, nbits)) Panic"

definition timer_check_offsets :: "('d, unit) io" where
  "timer_check_offsets = run_all
     [check_bitfield ''use_32bit_counter'' 1 1, check_bitfield ''prescaler'' 2 2,
      check_bitfield ''int_enabled'' 5 1, check_bitfield ''timer_enabled'' 7 1,
      check_bitfield ''counter_enabled'' 9 1, check_bitfield ''counter_prescaler'' 16 7]"

definition timer_interrupt_init :: "'d bus \<Rightarrow> u32 \<Rightarrow> ('d, unit) io" where
  "timer_interrupt_init B ncycles = run_all
     [timer_check_offsets,
      dev_barrier B, PUT32 B Enable_Basic_IRQs RPI_BASIC_ARM_TIMER_IRQ, dev_barrier B,
      PUT32 B arm_timer_Load ncycles,
      PUT32 B arm_timer_Control (RPI_ARMTIMER_CTRL_32BIT OR RPI_ARMTIMER_CTRL_ENABLE OR
        RPI_ARMTIMER_CTRL_INT_ENABLE OR RPI_ARMTIMER_CTRL_PRESCALE_1)]"

definition bcm_set_interrupts_off :: "'d bus \<Rightarrow> ('d, unit) io" where
  "bcm_set_interrupts_off B = run_all
     [dev_barrier B, PUT32 B Disable_IRQs_1 0xffffffff, PUT32 B Disable_IRQs_2 0xffffffff, dev_barrier B]"

text \<open>The vector table is copied word by word to address 0. Memory is a map of words.\<close>

fun copy_words :: "u32 list \<Rightarrow> u32 \<Rightarrow> (u32 \<Rightarrow> u32) \<Rightarrow> (u32 \<Rightarrow> u32)" where
  "copy_words [] dst m = m"
| "copy_words (w # ws) dst m = copy_words ws (dst + 4) (m(dst := w))"

definition int_init_vec :: "'d bus \<Rightarrow> u32 list \<Rightarrow> (u32 \<Rightarrow> u32) \<Rightarrow> ('d, u32 \<Rightarrow> u32) io" where
  "int_init_vec B vec m =
     thn (PUT32 B Disable_IRQs_1 0xffffffff) (thn (PUT32 B Disable_IRQs_2 0xffffffff) (thn (dev_barrier B)
     (ret (copy_words vec 0 m))))"

section \<open>Reboot\<close>

definition user_level :: u32 where "user_level = 0b10000"

definition at_user_level :: "u32 \<Rightarrow> bool" where
  "at_user_level cpsr \<longleftrightarrow> cpsr AND 0b11111 = user_level"

definition set_user_level :: "u32 \<Rightarrow> u32" where
  "set_user_level cpsr = (cpsr AND NOT 0b11111) OR user_level"

definition reboot_level :: "u32 \<Rightarrow> u32" where
  "reboot_level cpsr = (if at_user_level cpsr then set_user_level cpsr else cpsr)"

text \<open>\<open>callout\<close> is \<open>reboot_callout\<close>, which a client may replace; the final \<open>while(1)\<close> is the reboot.\<close>

definition rpi_reboot_to :: "'d bus \<Rightarrow> nat \<Rightarrow> ('d, unit) io \<Rightarrow> ('d, 'a) io" where
  "rpi_reboot_to B n callout =
     thn callout (thn (uart_flush_tx B n) (thn (delay_ms B n 10)
     (thn (PUT32 B PM_WDOG (PM_PASSWORD OR 1))
     (thn (PUT32 B PM_RSTC (PM_PASSWORD OR PM_RSTC_WRCFG_FULL_RESET)) (fails Rebooted)))))"

definition done_msg :: "u8 list" where
  "done_msg = [0x44, 0x4F, 0x4E, 0x45, 0x21, 0x21, 0x21, 0x0A]"

fun uart_puts :: "'d bus \<Rightarrow> nat \<Rightarrow> u8 list \<Rightarrow> ('d, unit) io" where
  "uart_puts B n [] = ret ()"
| "uart_puts B n (c # cs) = thn (uart_put8 B n c) (uart_puts B n cs)"

definition clean_reboot :: "'d bus \<Rightarrow> nat \<Rightarrow> ('d, unit) io \<Rightarrow> ('d, 'a) io" where
  "clean_reboot B n callout =
     thn (uart_puts B n done_msg) (thn (uart_flush_tx B n) (thn (delay_ms B n 10) (rpi_reboot_to B n callout)))"

section \<open>What they do\<close>

text \<open>Shutting down does not set the halt bits: the misplaced parenthesis makes the code read the address
  \<open>PM_RSTS | PM_PASSWORD | PM_RSTS_RASPBERRYPI_HALT\<close>, which is no register of the power manager, and write what
  it finds there into \<open>PM_RSTS\<close> without the password.\<close>

theorem shutdown_reads_wrong_address:
  "watchdog_shutdown script_bus \<lparr>replies = [v], log = []\<rparr> = Inr (1, \<lparr>replies = [],
     log = [Rd 0x7A100575 v, Wr PM_RSTS v, Wr PM_WDOG 0x5A000001, Wr PM_RSTC 0x5A000020]\<rparr>)"
  by (simp add: watchdog_shutdown_def watchdog_reboot_def watchdog_start_ticks_def PM_RSTS_def PM_PASSWORD_def
      PM_RSTS_RASPBERRYPI_HALT_def PM_RSTC_WRCFG_FULL_RESET_def)

lemma low24_lt: "unat (x AND 0xffffff :: u32) = unat x mod 16777216"
proof -
  have F: "(0xffffff :: u32) = mask 24" by (simp add: mask_eq_exp_minus_1)
  show ?thesis unfolding F by (simp add: take_bit_eq_mask [symmetric] unsigned_take_bit_eq take_bit_eq_mod unat_mod)
qed

text \<open>The interval of the watchdog has 24 bits of 16 microseconds, 268 seconds: starting it computes the ticks
  modulo that, so a longer interval is cut without an error. \<open>watchdog_feed\<close> starts it again with the same
  interval and fails only if it was never started or started with 0.\<close>

theorem watchdog_interval:
  "watchdog_start_ms script_bus ms \<lparr>replies = [], log = []\<rparr> =
     Inr (ms * 1000 div 16, \<lparr>replies = [], log = [Wr PM_WDOG (PM_PASSWORD OR (0xffffff AND (ms * 1000 div 16))),
       Wr PM_RSTC 0x5A000020]\<rparr>) \<and>
   unat (0xffffff AND (ms * 1000 div 16)) = unat ms * 1000 mod 4294967296 div 16 mod 16777216 \<and>
   watchdog_feed B h d = (if h = 0 then Inl Assert_fail else watchdog_start_ticks B h d)"
proof -
  have "unat (ms * 1000 div 16) = unat ms * 1000 mod 4294967296 div 16"
    by (simp add: unat_div unat_word_ariths)
  then have "unat (0xffffff AND (ms * 1000 div 16)) = unat ms * 1000 mod 4294967296 div 16 mod 16777216"
    using low24_lt [of "ms * 1000 div 16"] by (simp add: and.commute)
  moreover have "watchdog_feed B h d = (if h = 0 then Inl Assert_fail else watchdog_start_ticks B h d)"
    by (cases "h = 0") (simp_all add: watchdog_feed_def)
  ultimately show ?thesis
    by (simp add: watchdog_start_ms_def watchdog_start_us_def watchdog_start_ticks_def PM_PASSWORD_def
        PM_RSTC_WRCFG_FULL_RESET_def Let_def)
qed

text \<open>Setting up the timer interrupt makes the documented accesses: the layout of the control register that the
  code checks at run time holds, the interrupt of the ARM timer is enabled between barriers, and the timer gets the
  load value and counts with 32 bits, no prescaler and its interrupt on.\<close>

theorem timer_interrupt_init_accesses:
  "timer_interrupt_init script_bus ncycles \<lparr>replies = [], log = []\<rparr> = Inr ((), \<lparr>replies = [],
     log = [Bar, Wr 0x2000B218 1, Bar, Wr 0x2000B400 ncycles, Wr 0x2000B408 0xA2]\<rparr>)"
  by (simp add: timer_interrupt_init_def timer_check_offsets_def check_bitfield_def rpi_arm_timer_ctrl_t_def
      Enable_Basic_IRQs_def IRQ_Base_def RPI_BASIC_ARM_TIMER_IRQ_def arm_timer_Load_def arm_timer_Base_def
      arm_timer_Control_def RPI_ARMTIMER_CTRL_32BIT_def RPI_ARMTIMER_CTRL_ENABLE_def
      RPI_ARMTIMER_CTRL_INT_ENABLE_def RPI_ARMTIMER_CTRL_PRESCALE_1_def shl_def push_bit_eq_mult)

text \<open>Interrupts drop no privileges before a reboot, although the comment says so: the level is changed only
  when it is the user level already, so it never changes.\<close>

theorem reboot_level_unchanged: "at_user_level (reboot_level cpsr) = at_user_level cpsr \<and>
    (reboot_level cpsr = cpsr)"
proof -
  have "(cpsr AND NOT m) OR (cpsr AND m) = cpsr" for m
    by (rule u32_eqI) (auto simp: bits_of)
  from this [of "0b11111"] have "set_user_level cpsr = cpsr" if "at_user_level cpsr"
    using that unfolding set_user_level_def at_user_level_def by simp
  then show ?thesis by (simp add: reboot_level_def)
qed

lemma copy_words_spec:
  "(\<And>i. i < length ws \<Longrightarrow> a \<noteq> dst + word_of_nat (4 * i)) \<Longrightarrow> copy_words ws dst m a = m a"
proof (induction ws arbitrary: dst m)
  case (Cons w ws)
  have "a \<noteq> dst + 4 + word_of_nat (4 * i)" if "i < length ws" for i
    using Cons.prems [of "Suc i"] that by (simp add: algebra_simps)
  then have "copy_words ws (dst + 4) (m(dst := w)) a = (m(dst := w)) a" by (rule Cons.IH)
  with Cons.prems [of 0] show ?case by simp
qed simp

lemma copy_words_at:
  "i < length ws \<Longrightarrow> length ws < 1073741824 \<Longrightarrow> copy_words ws dst m (dst + word_of_nat (4 * i)) = ws ! i"
proof (induction ws arbitrary: dst m i)
  case (Cons w ws)
  show ?case
  proof (cases i)
    case 0
    have "dst \<noteq> dst + 4 + word_of_nat (4 * j)" if "j < length ws" for j
    proof
      assume "dst = dst + 4 + word_of_nat (4 * j)"
      then have "(word_of_nat (4 * j + 4) :: u32) = 0" by (simp add: algebra_simps)
      then have "unat (word_of_nat (4 * j + 4) :: u32) = 0" by simp
      with that Cons.prems unat_nat_u32 [of "4 * j + 4"] show False by simp
    qed
    with 0 show ?thesis by (simp add: copy_words_spec)
  next
    case (Suc k)
    have "copy_words ws (dst + 4) (m(dst := w)) (dst + 4 + word_of_nat (4 * k)) = ws ! k"
      by (rule Cons.IH) (use Suc Cons.prems in auto)
    with Suc show ?thesis by (simp add: algebra_simps)
  qed
qed simp

text \<open>Installing a vector table masks the interrupts of both banks and puts the table at address 0, word for
  word.\<close>

theorem int_init_vec_installs:
  assumes "length vec < 1073741824"
  shows "\<exists>m'. int_init_vec script_bus vec m \<lparr>replies = [], log = []\<rparr> =
      Inr (m', \<lparr>replies = [], log = [Wr Disable_IRQs_1 0xffffffff, Wr Disable_IRQs_2 0xffffffff, Bar]\<rparr>) \<and>
    (\<forall>i < length vec. m' (word_of_nat (4 * i)) = vec ! i)"
  using copy_words_at [OF _ assms, of _ 0 m] by (simp add: int_init_vec_def)

theorem int_init_vec_installs_witness:
  "\<exists>m'. int_init_vec script_bus [0xE59FF018, 0xE59FF018] (\<lambda>_. 0) \<lparr>replies = [], log = []\<rparr> =
      Inr (m', \<lparr>replies = [], log = [Wr Disable_IRQs_1 0xffffffff, Wr Disable_IRQs_2 0xffffffff, Bar]\<rparr>) \<and>
    (\<forall>i < length [0xE59FF018, 0xE59FF018 :: u32]. m' (word_of_nat (4 * i)) = [0xE59FF018, 0xE59FF018] ! i)"
  by (rule int_init_vec_installs) simp

end
