(* ===== verification/Wp.thy ===== *)
theory Wp
  imports Mmio
begin

text \<open>
  Weakest preconditions for programs on a device state. A device is seen through a projection \<open>st\<close> of its state:
  \<open>wp st m Q E s\<close> says that from every device state with projection \<open>s\<close> the program \<open>m\<close> either ends with a value
  and a projection that satisfy \<open>Q\<close>, or stops with an error in \<open>E\<close>. With \<open>E\<close> empty this is total correctness.
  The collection \<open>wp_rules\<close> holds an introduction rule for every primitive; the theories of the drivers add theirs.
\<close>

definition wp :: "('d \<Rightarrow> 's) \<Rightarrow> ('d, 'a) io \<Rightarrow> ('a \<Rightarrow> 's \<Rightarrow> bool) \<Rightarrow> (err \<Rightarrow> bool) \<Rightarrow> 's \<Rightarrow> bool" where
  "wp st m Q E s \<longleftrightarrow> (\<forall>d. st d = s \<longrightarrow> (case m d of Inl e \<Rightarrow> E e | Inr (x, d') \<Rightarrow> Q x (st d')))"

abbreviation never :: "err \<Rightarrow> bool" where
  "never \<equiv> \<lambda>_. False"

definition lft :: "'a res \<Rightarrow> ('d, 'a) io" where
  "lft r d = seq r (\<lambda>x. Inr (x, d))"

definition void :: "('d, 'a) io \<Rightarrow> ('d, unit) io" where
  "void m = bnd m (\<lambda>_. ret ())"

definition asserts :: "('d, bool) io \<Rightarrow> ('d, unit) io" where
  "asserts m = bnd m (\<lambda>b. check b Assert_fail)"

definition negated :: "('d, bool) io \<Rightarrow> ('d, bool) io" where
  "negated m = bnd m (\<lambda>b. ret (\<not> b))"

lemma lft_simps [simp]: "lft (Inr x) = ret x" "lft (Inl e) = fails e"
  by (simp_all add: lft_def ret_def fails_def fun_eq_iff)

text \<open>Laws of composition.\<close>

lemma thn_ret_unit: "thn m (ret ()) = (m :: ('d, unit) io)"
  by (rule ext) (auto simp: thn_def bnd_def seq_def split: sum.splits)

lemma ret_thn: "thn (ret x) m = m"
  by (rule ext) (simp add: thn_def bnd_def)

lemma thn_assoc: "thn (thn a b) c = thn a (thn b c)"
  by (simp add: thn_def bnd_assoc)

lemma ret_bnd: "bnd (ret x) f = f x"
  by (rule ext) (simp add: bnd_def)

named_theorems wp_rules \<comment> \<open>preconditions of programs\<close>

lemma wp_bnd [wp_rules]: "wp st m (\<lambda>x. wp st (f x) Q E) E s \<Longrightarrow> wp st (bnd m f) Q E s"
proof -
  assume w: "wp st m (\<lambda>x. wp st (f x) Q E) E s"
  have "case bnd m f d of Inl e \<Rightarrow> E e | Inr (x, d') \<Rightarrow> Q x (st d')" if "st d = s" for d
  proof (cases "m d")
    case (Inl e)
    with w that show ?thesis by (auto simp: wp_def)
  next
    case (Inr p)
    obtain x d' where p: "p = (x, d')" by (cases p)
    with w that Inr have "wp st (f x) Q E (st d')" by (auto simp: wp_def)
    with p Inr show ?thesis by (simp add: wp_def)
  qed
  then show ?thesis by (simp add: wp_def)
qed

lemma wp_thn [wp_rules]: "wp st m (\<lambda>_. wp st m' Q E) E s \<Longrightarrow> wp st (thn m m') Q E s"
  unfolding thn_def by (rule wp_bnd)

lemma wp_ret [wp_rules]: "Q x s \<Longrightarrow> wp st (ret x) Q E s"
  by (auto simp: wp_def)

lemma wp_lft: "r = Inr x \<Longrightarrow> Q x s \<Longrightarrow> wp st (lft r) Q E s"
  by (simp add: wp_ret)

lemma wp_fails [wp_rules]: "E e \<Longrightarrow> wp st (fails e) Q E s"
  by (simp add: wp_def)

lemma wp_check [wp_rules]: "(b \<Longrightarrow> Q () s) \<Longrightarrow> (\<not> b \<Longrightarrow> E e) \<Longrightarrow> wp st (check b e) Q E s"
  by (cases b) (auto simp: wp_def)

lemma wp_conseq: "wp st m Q E s \<Longrightarrow> (\<And>x s. Q x s \<Longrightarrow> Q' x s) \<Longrightarrow> (\<And>e. E e \<Longrightarrow> E' e) \<Longrightarrow> wp st m Q' E' s"
  by (auto simp: wp_def split: sum.splits prod.splits)

lemma wp_void [wp_rules]: "wp st m (\<lambda>_. Q ()) E s \<Longrightarrow> wp st (void m) Q E s"
  unfolding void_def by (rule wp_bnd) (erule wp_conseq, auto intro: wp_ret)

lemma wp_asserts [wp_rules]: "wp st m (\<lambda>b s. b \<and> Q () s) E s \<Longrightarrow> wp st (asserts m) Q E s"
  unfolding asserts_def by (rule wp_bnd) (erule wp_conseq, auto intro: wp_ret)

lemma wp_negated [wp_rules]: "wp st m (\<lambda>b. Q (\<not> b)) E s \<Longrightarrow> wp st (negated m) Q E s"
  unfolding negated_def by (rule wp_bnd) (erule wp_conseq, auto intro: wp_ret)

lemma wp_run_all_Nil [wp_rules]: "Q () s \<Longrightarrow> wp st (run_all []) Q E s"
  by (auto simp: wp_def)

lemma wp_run_all_Cons [wp_rules]: "wp st m (\<lambda>_. wp st (run_all ms) Q E) E s \<Longrightarrow> wp st (run_all (m # ms)) Q E s"
  by (simp add: wp_thn)

lemma wp_if [wp_rules]: "(b \<Longrightarrow> wp st m Q E s) \<Longrightarrow> (\<not> b \<Longrightarrow> wp st m' Q E s) \<Longrightarrow> wp st (if b then m else m') Q E s"
  by simp

lemma wp_total: "wp st m Q never (st d) \<Longrightarrow> \<exists>x d'. m d = Inr (x, d') \<and> Q x (st d')"
  by (cases "m d") (auto simp: wp_def)

lemma wp_partial: "wp st m Q E (st d) \<Longrightarrow> m d = Inr (x, d') \<Longrightarrow> Q x (st d')"
  by (force simp: wp_def)

text \<open>An operation that always returns a value of the state and changes the state as a function says.\<close>

definition acts :: "('d \<Rightarrow> 's) \<Rightarrow> ('d, 'a) io \<Rightarrow> ('s \<Rightarrow> 'a) \<Rightarrow> ('s \<Rightarrow> 's) \<Rightarrow> bool" where
  "acts st m v g \<longleftrightarrow> (\<forall>d. \<exists>d'. m d = Inr (v (st d), d') \<and> st d' = g (st d))"

lemma wp_acts: "acts st m v g \<Longrightarrow> Q (v s) (g s) \<Longrightarrow> wp st m Q E s"
  unfolding acts_def wp_def by (metis (mono_tags, lifting) case_prod_conv sum.case(2))

lemma wp_step: "(\<And>d. st d = s \<Longrightarrow> \<exists>d'. m d = Inr (v, d') \<and> st d' = s') \<Longrightarrow> Q v s' \<Longrightarrow> wp st m Q E s"
  unfolding wp_def by (metis (mono_tags, lifting) case_prod_conv sum.case(2))

text \<open>A program that steps the device by \<open>g\<close> and returns a value that agrees with the new state.\<close>

definition yields :: "('d \<Rightarrow> 's) \<Rightarrow> ('d, 'a) io \<Rightarrow> ('a \<Rightarrow> 's \<Rightarrow> bool) \<Rightarrow> ('s \<Rightarrow> 's) \<Rightarrow> bool" where
  "yields st m P g \<longleftrightarrow> (\<forall>d. \<exists>v d'. m d = Inr (v, d') \<and> P v (g (st d)) \<and> st d' = g (st d))"

lemma wp_yields: "yields st m P g \<Longrightarrow> (\<And>v. P v (g s) \<Longrightarrow> Q v (g s)) \<Longrightarrow> wp st m Q E s"
  unfolding yields_def wp_def by (metis (mono_tags, lifting) case_prod_conv sum.case(2))

lemma wp_poll_once: "0 < k \<Longrightarrow> wp st c (\<lambda>b R'. b \<and> Q () R') E R \<Longrightarrow> wp st (poll k c) Q E R"
  by (cases k) (auto intro!: wp_bnd wp_ret elim: wp_conseq)

text \<open>A poll that may take one round more.\<close>

lemma wp_poll_step:
  "wp st c (\<lambda>b R'. if b then Q () R' else wp st (poll k c) Q E R') E R \<Longrightarrow> wp st (poll (Suc k) c) Q E R"
  by (auto intro!: wp_bnd wp_ret elim: wp_conseq split: if_splits)

text \<open>A program that does not change the projection.\<close>

definition keeps :: "('d \<Rightarrow> 's) \<Rightarrow> ('d, 'a) io \<Rightarrow> bool" where
  "keeps st m \<longleftrightarrow> (\<forall>d. \<exists>x d'. m d = Inr (x, d') \<and> st d' = st d)"

lemma wp_keeps: "keeps st m \<Longrightarrow> (\<And>x. Q x s) \<Longrightarrow> wp st m Q E s"
  unfolding keeps_def wp_def by (metis (mono_tags, lifting) case_prod_conv sum.case(2))

lemma keeps_bnd: "keeps st m \<Longrightarrow> (\<And>x. keeps st (f x)) \<Longrightarrow> keeps st (bnd m f)"
  unfolding keeps_def by (metis bnd_Inr)

lemma keeps_thn: "keeps st m \<Longrightarrow> keeps st m' \<Longrightarrow> keeps st (thn m m')"
  unfolding thn_def by (rule keeps_bnd)

lemma keeps_ret: "keeps st (ret x)"
  by (simp add: keeps_def)

lemmas keeps_intros = keeps_bnd keeps_thn keeps_ret

end
