(* ===== verification/Nrf.thy ===== *)
theory Nrf
  imports Wp Circular Gpio Timer
begin

unbundle bit_operations_syntax

text \<open>
  The access to the radio NRF24L01+: \<open>nrf-hw-support.h\<close>, \<open>nrf-hw-support.c\<close>, \<open>nrf.h\<close> and
  \<open>nrf-default-values.h\<close> of \<open>labs/17-nrf-networking/code\<close>. The SPI driver is not part of the repository:
  \<open>spi_n_transfer\<close> takes the bytes to send and returns those received. Printing is left out; the accesses
  and assertions of \<open>nrf_dump\<close> are kept, since a failing \<open>nrf_assert\<close> runs it.
\<close>

section \<open>Types\<close>

record spi_t =
  spi_chip_n :: u32
  spi_div :: u32

record 'd hw =
  hw_bus :: "'d bus"
  spi_n_transfer :: "spi_t \<Rightarrow> u8 list \<Rightarrow> ('d, u8 list) io"
  spi_n_init :: "u32 \<Rightarrow> u32 \<Rightarrow> ('d, spi_t) io"
  gpio_set_pulldown :: "u32 \<Rightarrow> ('d, unit) io"
  rounds :: nat

definition NRF_PKT_MAX :: nat where "NRF_PKT_MAX = 32"

record nrf_conf_t =
  spi_chip :: u8
  ce_pin :: u8
  int_pin :: u8
  nbytes :: u8
  channel :: u8

record nrf_t =
  config :: nrf_conf_t
  spi :: spi_t
  rxaddr :: u32
  recvq :: "u8 cq"
  start_usec :: u32
  tot_sent_msgs :: u32
  tot_sent_bytes :: u32
  tot_retrans :: u32
  tot_lost :: u32
  tot_recv_msgs :: u32
  tot_recv_bytes :: u32

definition nrf_stat_start :: "'d hw \<Rightarrow> nrf_t \<Rightarrow> ('d, nrf_t) io" where
  "nrf_stat_start H nic =
     bnd (timer_get_usec (hw_bus H)) (\<lambda>now. ret (nic\<lparr>start_usec := now, tot_sent_msgs := 0, tot_sent_bytes := 0,
       tot_retrans := 0, tot_lost := 0, tot_recv_msgs := 0, tot_recv_bytes := 0\<rparr>))"

definition RF_DR_HI :: "u32 \<Rightarrow> u32" where "RF_DR_HI x = shl x 3"
definition RF_DR_LO :: "u32 \<Rightarrow> u32" where "RF_DR_LO x = shl x 5"
definition nrf_2Mbps :: u32 where "nrf_2Mbps = RF_DR_HI 1"
definition dBm_0 :: u32 where "dBm_0 = shl 0b11 1"

definition nrf_default_channel :: u32 where "nrf_default_channel = 113"
definition nrf_default_data_rate :: u32 where "nrf_default_data_rate = nrf_2Mbps"
definition nrf_default_db :: u32 where "nrf_default_db = dBm_0"
definition nrf_default_retran_attempts :: u32 where "nrf_default_retran_attempts = 6"
definition nrf_default_retran_delay :: u32 where "nrf_default_retran_delay = 2000"
definition nrf_default_addr_nbytes :: u32 where "nrf_default_addr_nbytes = 3"

definition nrf_legal_Mhz :: "u32 \<Rightarrow> bool" where "nrf_legal_Mhz d \<longleftrightarrow> d < shl 1 8"
definition nrf_legal_nbytes :: "u32 \<Rightarrow> bool" where "nrf_legal_nbytes nb \<longleftrightarrow> 0 < nb \<and> nb \<le> 32"
definition nrf_get_addr_nbytes :: "nrf_t \<Rightarrow> u32" where "nrf_get_addr_nbytes nic = nrf_default_addr_nbytes"

definition nrf_conf_mk :: "u32 \<Rightarrow> u32 \<Rightarrow> nrf_conf_t res" where
  "nrf_conf_mk nb ch =
     seq (require (nrf_legal_Mhz ch) Assert_fail) (\<lambda>_.
     seq (require (nrf_legal_nbytes nb) Assert_fail) (\<lambda>_.
     Inr \<lparr>spi_chip = 0, ce_pin = 0, int_pin = 0, nbytes = ucast nb, channel = ucast ch\<rparr>))"

section \<open>Registers and commands\<close>

definition NRF_CONFIG :: u8 where "NRF_CONFIG = 0x0"
definition NRF_EN_AA :: u8 where "NRF_EN_AA = 0x1"
definition NRF_EN_RXADDR :: u8 where "NRF_EN_RXADDR = 0x2"
definition NRF_SETUP_AW :: u8 where "NRF_SETUP_AW = 0x3"
definition NRF_SETUP_RETR :: u8 where "NRF_SETUP_RETR = 0x4"
definition NRF_RF_CH :: u8 where "NRF_RF_CH = 0x5"
definition NRF_RF_SETUP :: u8 where "NRF_RF_SETUP = 0x6"
definition NRF_STATUS :: u8 where "NRF_STATUS = 0x7"
definition NRF_RX_ADDR_P0 :: u8 where "NRF_RX_ADDR_P0 = 0xa"
definition NRF_RX_ADDR_P1 :: u8 where "NRF_RX_ADDR_P1 = 0xb"
definition NRF_TX_ADDR :: u8 where "NRF_TX_ADDR = 0x10"
definition NRF_RX_PW_P0 :: u8 where "NRF_RX_PW_P0 = 0x11"
definition NRF_RX_PW_P1 :: u8 where "NRF_RX_PW_P1 = 0x12"
definition NRF_RX_PW_P2 :: u8 where "NRF_RX_PW_P2 = 0x13"
definition NRF_RX_PW_P3 :: u8 where "NRF_RX_PW_P3 = 0x14"
definition NRF_RX_PW_P4 :: u8 where "NRF_RX_PW_P4 = 0x15"
definition NRF_RX_PW_P5 :: u8 where "NRF_RX_PW_P5 = 0x16"
definition NRF_FIFO_STATUS :: u8 where "NRF_FIFO_STATUS = 0x17"
definition NRF_DYNPD :: u8 where "NRF_DYNPD = 0x1c"
definition NRF_FEATURE :: u8 where "NRF_FEATURE = 0x1d"

definition NRF_WR_REG :: u8 where "NRF_WR_REG = 0b00100000"
definition NRF_R_RX_PAYLOAD :: u8 where "NRF_R_RX_PAYLOAD = 0b01100001"
definition NRF_W_TX_PAYLOAD :: u8 where "NRF_W_TX_PAYLOAD = 0b10100000"
definition FLUSH_TX :: u8 where "FLUSH_TX = 0b11100001"
definition FLUSH_RX :: u8 where "FLUSH_RX = 0b11100010"
definition NRF_NOP :: u8 where "NRF_NOP = 0b11111111"

section \<open>Access over SPI\<close>

definition nrf_spi_init :: "'d hw \<Rightarrow> u32 \<Rightarrow> u32 \<Rightarrow> ('d, spi_t) io" where
  "nrf_spi_init H ce chip =
     (let B = hw_bus H in
      thn (delay_ms B (rounds H) 100) (thn (check (chip = 0 \<or> chip = 1) Assert_fail)
      (bnd (spi_n_init H chip 20) (\<lambda>s. thn (check (spi_chip_n s = chip) Assert_fail)
      (thn (run_all [delay_ms B (rounds H) 100, dev_barrier B, gpio_set_output B ce, gpio_set_pulldown H ce,
                     gpio_set_off B ce, dev_barrier B])
      (ret s))))))"

definition nrf_get8 :: "'d hw \<Rightarrow> nrf_t \<Rightarrow> u8 \<Rightarrow> ('d, u8) io" where
  "nrf_get8 H n reg = bnd (spi_n_transfer H (spi n) [reg, NRF_NOP]) (\<lambda>rx. lft (arr_get rx 1))"

definition nrf_put8 :: "'d hw \<Rightarrow> nrf_t \<Rightarrow> u8 \<Rightarrow> u8 \<Rightarrow> ('d, u8) io" where
  "nrf_put8 H n reg v = bnd (spi_n_transfer H (spi n) [NRF_WR_REG OR reg, v]) (\<lambda>rx. lft (arr_get rx 0))"

definition nrf_put8_chk :: "'d hw \<Rightarrow> nrf_t \<Rightarrow> u8 \<Rightarrow> u8 \<Rightarrow> ('d, u8) io" where
  "nrf_put8_chk H nic reg v =
     bnd (nrf_put8 H nic reg v) (\<lambda>status.
     bnd (nrf_get8 H nic reg) (\<lambda>x. if x \<noteq> v then fails Panic else ret status))"

text \<open>The two arrays have 64 bytes, and the assertion lets 64 bytes behind the command pass.\<close>

definition nrf_getn :: "'d hw \<Rightarrow> nrf_t \<Rightarrow> u8 \<Rightarrow> nat \<Rightarrow> ('d, u8 \<times> u8 list) io" where
  "nrf_getn H nic cmd nb =
     thn (check (nb < 64 + 1) Assert_fail) (thn (check (0 < nb) Assert_fail) (thn (check (1 + nb \<le> 64) Undefined)
     (bnd (spi_n_transfer H (spi nic) (cmd # replicate nb NRF_NOP)) (\<lambda>rx.
     bnd (lft (arr_get rx 0)) (\<lambda>st. ret (st, take nb (drop 1 rx)))))))"

definition nrf_putn :: "'d hw \<Rightarrow> nrf_t \<Rightarrow> u8 \<Rightarrow> u8 list \<Rightarrow> ('d, u8) io" where
  "nrf_putn H nic cmd bytes =
     thn (check (length bytes < 64 + 1) Assert_fail) (thn (check (0 < length bytes) Assert_fail)
     (thn (check (1 + length bytes \<le> 64) Undefined)
     (bnd (spi_n_transfer H (spi nic) (cmd # bytes)) (\<lambda>rx. lft (arr_get rx 0)))))"

definition nrf_or8 :: "'d hw \<Rightarrow> nrf_t \<Rightarrow> u8 \<Rightarrow> u8 \<Rightarrow> ('d, u8) io" where
  "nrf_or8 H n reg v = bnd (nrf_get8 H n reg) (\<lambda>x. nrf_put8 H n reg (x OR v))"

definition nrf_bit_clr :: "'d hw \<Rightarrow> nrf_t \<Rightarrow> u8 \<Rightarrow> u32 \<Rightarrow> ('d, unit) io" where
  "nrf_bit_clr H n reg b =
     thn (check (b < 8) Assert_fail) (bnd (nrf_get8 H n reg) (\<lambda>x.
     bnd (lft (bit_clr (ucast x) b)) (\<lambda>y. void (nrf_put8_chk H n reg (ucast y)))))"

definition nrf_bit_set :: "'d hw \<Rightarrow> nrf_t \<Rightarrow> u8 \<Rightarrow> u32 \<Rightarrow> ('d, unit) io" where
  "nrf_bit_set H n reg b =
     thn (check (b < 8) Assert_fail) (bnd (nrf_get8 H n reg) (\<lambda>x.
     bnd (lft (bit_set (ucast x) b)) (\<lambda>y. void (nrf_put8_chk H n reg (ucast y)))))"

definition nrf_bit_isset :: "'d hw \<Rightarrow> nrf_t \<Rightarrow> u8 \<Rightarrow> u8 \<Rightarrow> ('d, bool) io" where
  "nrf_bit_isset H n reg b =
     thn (check (b < 8) Assert_fail) (bnd (nrf_get8 H n reg) (\<lambda>x.
     bnd (lft (bit_is_on (ucast x) (ucast b))) (\<lambda>v. ret (v = 1))))"

definition nrf_tx_flush :: "'d hw \<Rightarrow> nrf_t \<Rightarrow> ('d, u8) io" where
  "nrf_tx_flush H n = bnd (spi_n_transfer H (spi n) [FLUSH_TX]) (\<lambda>rx. lft (arr_get rx 0))"

definition nrf_rx_flush :: "'d hw \<Rightarrow> nrf_t \<Rightarrow> ('d, u8) io" where
  "nrf_rx_flush H n = bnd (spi_n_transfer H (spi n) [FLUSH_RX]) (\<lambda>rx. lft (arr_get rx 0))"

section \<open>Accessors\<close>

definition PWR_UP_BIT :: u32 where "PWR_UP_BIT = 1"
definition PRIM_RX :: u32 where "PRIM_RX = 0"
definition MAX_RT :: u8 where "MAX_RT = 4"
definition TX_DS :: u8 where "TX_DS = 5"
definition RX_DR :: u8 where "RX_DR = 6"

text \<open>\<open>bit_isset(nrf_get8(nic, reg), b)\<close>.\<close>

definition reg_bit :: "'d hw \<Rightarrow> nrf_t \<Rightarrow> u8 \<Rightarrow> u32 \<Rightarrow> ('d, bool) io" where
  "reg_bit H n reg b = bnd (nrf_get8 H n reg) (\<lambda>x. bnd (lft (bit_is_on (ucast x) b)) (\<lambda>v. ret (v = 1)))"

definition nrf_is_pwrup :: "'d hw \<Rightarrow> nrf_t \<Rightarrow> ('d, bool) io" where
  "nrf_is_pwrup H n = reg_bit H n NRF_CONFIG PWR_UP_BIT"

definition nrf_set_pwrup_off :: "'d hw \<Rightarrow> nrf_t \<Rightarrow> ('d, unit) io" where
  "nrf_set_pwrup_off H n = thn (nrf_bit_clr H n NRF_CONFIG PWR_UP_BIT) (asserts (negated (nrf_is_pwrup H n)))"

definition nrf_set_pwrup_on :: "'d hw \<Rightarrow> nrf_t \<Rightarrow> ('d, unit) io" where
  "nrf_set_pwrup_on H n = thn (nrf_bit_set H n NRF_CONFIG PWR_UP_BIT) (asserts (nrf_is_pwrup H n))"

definition nrf_is_rx :: "'d hw \<Rightarrow> nrf_t \<Rightarrow> ('d, bool) io" where
  "nrf_is_rx H n = reg_bit H n NRF_CONFIG PRIM_RX"

definition nrf_is_tx :: "'d hw \<Rightarrow> nrf_t \<Rightarrow> ('d, bool) io" where
  "nrf_is_tx H n = negated (nrf_is_rx H n)"

definition nrf_pipe_is_acked :: "'d hw \<Rightarrow> nrf_t \<Rightarrow> u32 \<Rightarrow> ('d, bool) io" where
  "nrf_pipe_is_acked H n p = reg_bit H n NRF_EN_AA p"

definition nrf_pipe_is_enabled :: "'d hw \<Rightarrow> nrf_t \<Rightarrow> u32 \<Rightarrow> ('d, bool) io" where
  "nrf_pipe_is_enabled H n p = reg_bit H n NRF_EN_RXADDR p"

definition pipeid_empty :: "u32 \<Rightarrow> bool" where "pipeid_empty pipeid \<longleftrightarrow> pipeid = 0b111"

definition pipeid_get :: "u8 \<Rightarrow> u32 res" where "pipeid_get status = bits_get (ucast status) 1 3"

definition nrf_rx_get_pipeid :: "'d hw \<Rightarrow> nrf_t \<Rightarrow> ('d, u32) io" where
  "nrf_rx_get_pipeid H n = bnd (nrf_get8 H n NRF_STATUS) (\<lambda>s. lft (pipeid_get s))"

definition nrf_has_max_rt_intr :: "'d hw \<Rightarrow> nrf_t \<Rightarrow> ('d, bool) io" where
  "nrf_has_max_rt_intr H n = nrf_bit_isset H n NRF_STATUS MAX_RT"

definition nrf_rt_intr_clr :: "'d hw \<Rightarrow> nrf_t \<Rightarrow> ('d, unit) io" where
  "nrf_rt_intr_clr H n = void (nrf_put8 H n NRF_STATUS (push_bit 4 1))"

definition nrf_has_tx_intr :: "'d hw \<Rightarrow> nrf_t \<Rightarrow> ('d, bool) io" where
  "nrf_has_tx_intr H n = nrf_bit_isset H n NRF_STATUS TX_DS"

definition nrf_tx_intr_clr :: "'d hw \<Rightarrow> nrf_t \<Rightarrow> ('d, unit) io" where
  "nrf_tx_intr_clr H n = void (nrf_put8 H n NRF_STATUS (push_bit 5 1))"

definition nrf_has_rx_intr :: "'d hw \<Rightarrow> nrf_t \<Rightarrow> ('d, bool) io" where
  "nrf_has_rx_intr H n = nrf_bit_isset H n NRF_STATUS RX_DR"

definition nrf_rx_intr_clr :: "'d hw \<Rightarrow> nrf_t \<Rightarrow> ('d, unit) io" where
  "nrf_rx_intr_clr H n = void (nrf_put8 H n NRF_STATUS (push_bit 6 1))"

definition nrf_rx_fifo_empty :: "'d hw \<Rightarrow> nrf_t \<Rightarrow> ('d, bool) io" where
  "nrf_rx_fifo_empty H n = nrf_bit_isset H n NRF_FIFO_STATUS 0"

definition nrf_rx_has_packet :: "'d hw \<Rightarrow> nrf_t \<Rightarrow> ('d, bool) io" where
  "nrf_rx_has_packet H n = negated (nrf_rx_fifo_empty H n)"

definition nrf_rx_fifo_full :: "'d hw \<Rightarrow> nrf_t \<Rightarrow> ('d, bool) io" where
  "nrf_rx_fifo_full H n = nrf_bit_isset H n NRF_FIFO_STATUS 1"

definition nrf_tx_fifo_empty :: "'d hw \<Rightarrow> nrf_t \<Rightarrow> ('d, bool) io" where
  "nrf_tx_fifo_empty H n = nrf_bit_isset H n NRF_FIFO_STATUS 4"

definition nrf_tx_fifo_full :: "'d hw \<Rightarrow> nrf_t \<Rightarrow> ('d, bool) io" where
  "nrf_tx_fifo_full H n = nrf_bit_isset H n NRF_FIFO_STATUS 5"

definition nrf_ce_val :: "'d hw \<Rightarrow> nrf_t \<Rightarrow> ('d, u32) io" where
  "nrf_ce_val H n = gpio_read (hw_bus H) (ucast (ce_pin (config n)))"

definition nrf_is_standbyI :: "'d hw \<Rightarrow> nrf_t \<Rightarrow> ('d, bool) io" where
  "nrf_is_standbyI H n =
     bnd (nrf_is_pwrup H n) (\<lambda>p. if p then bnd (nrf_ce_val H n) (\<lambda>v. ret (v = 0)) else ret False)"

definition nrf_is_pwrdown :: "'d hw \<Rightarrow> nrf_t \<Rightarrow> ('d, bool) io" where
  "nrf_is_pwrdown H n = negated (nrf_is_pwrup H n)"

section \<open>Dumping the configuration\<close>

fun dump_pipes :: "'d hw \<Rightarrow> nrf_t \<Rightarrow> u8 \<Rightarrow> u32 list \<Rightarrow> ('d, unit) io" where
  "dump_pipes H n pipes_en [] = ret ()"
| "dump_pipes H n pipes_en (i # is) =
     bnd (lft (bit_is_on (ucast pipes_en) i)) (\<lambda>on.
     thn (if on = 0 then ret ()
          else thn (void (nrf_getn H n (NRF_RX_ADDR_P0 + ucast i) (unat (nrf_get_addr_nbytes n))))
                   (void (nrf_get8 H n (NRF_RX_PW_P0 + ucast i))))
     (dump_pipes H n pipes_en is))"

definition nrf_dump :: "'d hw \<Rightarrow> nrf_t \<Rightarrow> ('d, unit) io" where
  "nrf_dump H n = run_all
     [void (nrf_get8 H n NRF_CONFIG),
      void (nrf_get8 H n NRF_EN_AA),
      void (nrf_get8 H n NRF_EN_RXADDR),
      bnd (nrf_get8 H n NRF_SETUP_AW) (\<lambda>x. thn (check (1 \<le> x \<and> x \<le> 3) Assert_fail)
        (check (nrf_get_addr_nbytes n = ucast x + 2) Assert_fail)),
      void (nrf_get8 H n NRF_SETUP_RETR),
      void (nrf_get8 H n NRF_RF_CH),
      bnd (nrf_get8 H n NRF_RF_SETUP) (\<lambda>x. check (\<not> bit x 5) Assert_fail),
      void (nrf_get8 H n NRF_STATUS),
      void (nrf_getn H n NRF_TX_ADDR (unat (nrf_get_addr_nbytes n))),
      bnd (nrf_get8 H n NRF_EN_RXADDR) (\<lambda>pipes_en. dump_pipes H n pipes_en [0, 1, 2, 3, 4, 5]),
      void (nrf_get8 H n NRF_FIFO_STATUS),
      bnd (nrf_get8 H n NRF_FEATURE) (\<lambda>x. check (x = 0) Assert_fail),
      bnd (nrf_get8 H n NRF_DYNPD) (\<lambda>x. check (x = 0) Assert_fail)]"

definition nrf_assert :: "'d hw \<Rightarrow> nrf_t \<Rightarrow> ('d, bool) io \<Rightarrow> ('d, unit) io" where
  "nrf_assert H n c = bnd c (\<lambda>b. if b then ret () else thn (nrf_dump H n) (fails Panic))"

definition opt_check_p :: bool where "opt_check_p = True"

definition nrf_opt_assert :: "'d hw \<Rightarrow> nrf_t \<Rightarrow> ('d, bool) io \<Rightarrow> ('d, unit) io" where
  "nrf_opt_assert H n c = (if opt_check_p then nrf_assert H n c else ret ())"

subsection \<open>Addresses\<close>

text \<open>The bytes are read into the front of a \<open>uint32_t\<close> that is 0.\<close>

definition nrf_get_addr :: "'d hw \<Rightarrow> nrf_t \<Rightarrow> u8 \<Rightarrow> u32 \<Rightarrow> ('d, u32) io" where
  "nrf_get_addr H n reg nb =
     thn (check (nb = 4 \<or> nb = 3) Assert_fail) (thn (check (nb = nrf_default_addr_nbytes) Assert_fail)
     (bnd (nrf_getn H n reg (unat nb)) (\<lambda>(st, bs). ret (word_of_bytes (take 4 (bs @ replicate 4 0))))))"

definition nrf_set_addr :: "'d hw \<Rightarrow> nrf_t \<Rightarrow> u8 \<Rightarrow> u32 \<Rightarrow> u32 \<Rightarrow> ('d, unit) io" where
  "nrf_set_addr H n reg addr nb =
     thn (check (nb = nrf_default_addr_nbytes) Assert_fail) (thn (check (nb = 4 \<or> nb = 3) Assert_fail)
     (thn (void (nrf_putn H n (reg OR NRF_WR_REG) (take (unat nb) (le_bytes addr))))
     (nrf_opt_assert H n (bnd (nrf_get_addr H n reg nb) (\<lambda>a. ret (a = addr))))))"

section \<open>Statistics\<close>

definition kbytes_per_sec :: "u32 \<Rightarrow> u32 \<Rightarrow> (u32 \<times> u32) res" where
  "kbytes_per_sec tot_bytes tot_usec =
     (let tot_ms = tot_usec div 1000 in
      seq (require (tot_ms \<noteq> 0) Undefined) (\<lambda>_.
      let b = (1000 * tot_bytes) div tot_ms in Inr (b div 1000, b mod 1000)))"

definition nrf_stat_print :: "'d hw \<Rightarrow> nrf_t \<Rightarrow> ('d, unit) io" where
  "nrf_stat_print H n =
     bnd (timer_get_usec (hw_bus H)) (\<lambda>now. let tot_usec = now - start_usec n in
     bnd (pretty_time_mk (hw_bus H) (start_usec n)) (\<lambda>_.
     thn (if tot_sent_bytes n \<noteq> 0 then void (lft (kbytes_per_sec (tot_sent_bytes n) tot_usec)) else ret ())
         (if tot_recv_bytes n \<noteq> 0 then void (lft (kbytes_per_sec (tot_recv_bytes n) tot_usec)) else ret ())))"

end
