(* ===== verification/NrfDriver.thy ===== *)
theory NrfDriver
  imports Nrf
begin

unbundle bit_operations_syntax

text \<open>
  The driver of the radio, \<open>nrf-driver.c\<close> and \<open>nrf-public.c\<close> of \<open>labs/17-nrf-networking/code\<close>. The structure
  \<open>nrf_t\<close> is passed in and returned where it changes. Loops that wait for the radio take their bound from the
  environment. The radio is described by what the driver sees of it: registers, addresses, interrupt flags and the
  two FIFOs; the laws are those of its data sheet that the code relies on.
\<close>

section \<open>The code\<close>

definition tx_config :: u8 where
  "tx_config = push_bit 3 1 OR push_bit 2 1 OR push_bit 1 1 OR push_bit 6 1 OR push_bit 5 1 OR push_bit 4 1"

definition rx_config :: u8 where "rx_config = tx_config OR push_bit 0 1"

definition ce_lo :: "'d hw \<Rightarrow> u8 \<Rightarrow> ('d, unit) io" where
  "ce_lo H ce =
     thn (check (ce = 6 \<or> ce = 5) Panic) (thn (dev_barrier (hw_bus H)) (gpio_write (hw_bus H) (ucast ce) 0))"

definition ce_hi :: "'d hw \<Rightarrow> u8 \<Rightarrow> ('d, unit) io" where
  "ce_hi H ce =
     thn (check (ce = 6 \<or> ce = 5) Panic) (thn (dev_barrier (hw_bus H)) (gpio_write (hw_bus H) (ucast ce) 1))"

definition put_chk :: "'d hw \<Rightarrow> nrf_t \<Rightarrow> u8 \<Rightarrow> u8 \<Rightarrow> ('d, unit) io" where
  "put_chk H n reg v = void (nrf_put8_chk H n reg v)"

definition init_pipes :: "'d hw \<Rightarrow> nrf_t \<Rightarrow> bool \<Rightarrow> ('d, unit) io" where
  "init_pipes H n acked_p =
     (if \<not> acked_p then run_all
        [put_chk H n NRF_EN_AA 0, put_chk H n NRF_SETUP_RETR 0, put_chk H n NRF_EN_RXADDR (push_bit 1 1),
         asserts (nrf_pipe_is_enabled H n 1), asserts (negated (nrf_pipe_is_acked H n 1)),
         asserts (negated (nrf_pipe_is_enabled H n 0))]
      else run_all
        [put_chk H n NRF_EN_AA 0b11, put_chk H n NRF_EN_RXADDR 0b11,
         (let delay = ucast (nrf_default_retran_delay div 250 - 1) :: u8
          in put_chk H n NRF_SETUP_RETR (push_bit 4 delay OR ucast nrf_default_retran_attempts)),
         asserts (nrf_pipe_is_enabled H n 0), asserts (nrf_pipe_is_enabled H n 1),
         asserts (nrf_pipe_is_acked H n 1), asserts (nrf_pipe_is_acked H n 0)])"

definition init_addrs :: "'d hw \<Rightarrow> nrf_t \<Rightarrow> ('d, unit) io" where
  "init_addrs H n = run_all
     [put_chk H n NRF_RX_PW_P0 (nbytes (config n)),
      nrf_set_addr H n NRF_RX_ADDR_P0 (rxaddr n) nrf_default_addr_nbytes,
      put_chk H n NRF_RX_PW_P1 (nbytes (config n)),
      nrf_set_addr H n NRF_RX_ADDR_P1 (rxaddr n) nrf_default_addr_nbytes,
      put_chk H n NRF_SETUP_AW (ucast (nrf_default_addr_nbytes - 2)),
      nrf_set_addr H n NRF_TX_ADDR 0 nrf_default_addr_nbytes,
      put_chk H n NRF_RX_PW_P2 0, put_chk H n NRF_RX_PW_P3 0,
      put_chk H n NRF_RX_PW_P4 0, put_chk H n NRF_RX_PW_P5 0]"

definition init_radio :: "'d hw \<Rightarrow> nrf_t \<Rightarrow> ('d, unit) io" where
  "init_radio H n = run_all
     [put_chk H n NRF_RF_CH (ucast nrf_default_channel),
      put_chk H n NRF_RF_SETUP (ucast (nrf_default_data_rate OR nrf_default_db)),
      put_chk H n NRF_STATUS (push_bit 1 0b111),
      asserts (nrf_tx_fifo_empty H n), asserts (nrf_rx_fifo_empty H n),
      void (nrf_rx_flush H n), void (nrf_tx_flush H n)]"

definition init_on :: "'d hw \<Rightarrow> nrf_t \<Rightarrow> ('d, unit) io" where
  "init_on H n = run_all
     [nrf_set_pwrup_on H n, delay_ms (hw_bus H) (rounds H) 2,
      put_chk H n NRF_CONFIG rx_config, gpio_set_on (hw_bus H) (ucast (ce_pin (config n))),
      delay_us (hw_bus H) (rounds H) 130]"

definition in_rx_config :: "'d hw \<Rightarrow> nrf_t \<Rightarrow> ('d, bool) io" where
  "in_rx_config H n = bnd (nrf_get8 H n NRF_CONFIG) (\<lambda>x. ret (x = rx_config))"

definition acked_state :: "'d hw \<Rightarrow> nrf_t \<Rightarrow> ('d, unit) io" where
  "acked_state H n = run_all
     [nrf_opt_assert H n (in_rx_config H n),
      nrf_opt_assert H n (nrf_pipe_is_enabled H n 0), nrf_opt_assert H n (nrf_pipe_is_enabled H n 1),
      nrf_opt_assert H n (nrf_pipe_is_acked H n 0), nrf_opt_assert H n (nrf_pipe_is_acked H n 1),
      nrf_opt_assert H n (nrf_tx_fifo_empty H n)]"

definition noack_state :: "'d hw \<Rightarrow> nrf_t \<Rightarrow> ('d, unit) io" where
  "noack_state H n = run_all
     [nrf_opt_assert H n (in_rx_config H n),
      nrf_opt_assert H n (negated (nrf_pipe_is_enabled H n 0)), nrf_opt_assert H n (nrf_pipe_is_enabled H n 1),
      nrf_opt_assert H n (negated (nrf_pipe_is_acked H n 1)), nrf_opt_assert H n (nrf_tx_fifo_empty H n)]"

text \<open>\<open>kmalloc\<close> returns zeroed memory.\<close>

definition nrf_zero :: "nrf_conf_t \<Rightarrow> nrf_t" where
  "nrf_zero c = \<lparr>config = c, spi = \<lparr>spi_chip_n = 0, spi_div = 0\<rparr>, rxaddr = 0,
     recvq = \<lparr>c_buf = replicate (unat CQ_N) 0, fence = 0, head = 0, tail = 0, overflow = 0, errors_fatal_p = False\<rparr>,
     start_usec = 0, tot_sent_msgs = 0, tot_sent_bytes = 0, tot_retrans = 0, tot_lost = 0,
     tot_recv_msgs = 0, tot_recv_bytes = 0\<rparr>"

definition nrf_init :: "'d hw \<Rightarrow> nrf_conf_t \<Rightarrow> u32 \<Rightarrow> bool \<Rightarrow> ('d, nrf_t) io" where
  "nrf_init H c addr acked_p =
     bnd (nrf_stat_start H (nrf_zero c)) (\<lambda>n.
     bnd (nrf_spi_init H (ucast (ce_pin c)) (ucast (spi_chip c))) (\<lambda>s.
     bnd (lft (cq_init CQ_N 0 True)) (\<lambda>q.
     let n = n\<lparr>spi := s, rxaddr := addr, recvq := q\<rparr> in
     thn (run_all
       [put_chk H n NRF_CONFIG 0, asserts (negated (nrf_is_pwrup H n)), put_chk H n NRF_EN_RXADDR 0,
        init_pipes H n acked_p, init_addrs H n, init_radio H n, init_on H n,
        if acked_p then acked_state H n else noack_state H n])
     (ret n))))"

definition nrf_rx_mode :: "'d hw \<Rightarrow> nrf_t \<Rightarrow> ('d, unit) io" where
  "nrf_rx_mode H n = run_all
     [ce_lo H (ce_pin (config n)), delay_us (hw_bus H) (rounds H) 10, put_chk H n NRF_CONFIG rx_config,
      ce_hi H (ce_pin (config n)), delay_us (hw_bus H) (rounds H) 130, nrf_opt_assert H n (nrf_is_rx H n)]"

definition nrf_tx_mode :: "'d hw \<Rightarrow> nrf_t \<Rightarrow> ('d, unit) io" where
  "nrf_tx_mode H n = run_all
     [ce_lo H (ce_pin (config n)), delay_us (hw_bus H) (rounds H) 10, put_chk H n NRF_CONFIG tx_config,
      ce_hi H (ce_pin (config n)), delay_us (hw_bus H) (rounds H) 10, delay_us (hw_bus H) (rounds H) 130,
      nrf_opt_assert H n (nrf_is_tx H n)]"

text \<open>The buffer \<open>buf\<close> of \<open>nrf_get_pkts\<close> has 32 bytes.\<close>

fun get_pkts_loop :: "nat \<Rightarrow> 'd hw \<Rightarrow> nrf_t \<Rightarrow> u32 \<Rightarrow> ('d, u32 \<times> nrf_t) io" where
  "get_pkts_loop 0 H n res = fails Stuck"
| "get_pkts_loop (Suc k) H n res =
     bnd (nrf_getn H n NRF_R_RX_PAYLOAD (unat (nbytes (config n)))) (\<lambda>(status, buf).
     thn (check (length buf \<le> 32) Undefined)
     (bnd (lft (cq_push_n CQ_N (recvq n) buf)) (\<lambda>(ok, q).
     let n = n\<lparr>recvq := q\<rparr> in
     if \<not> ok then fails Panic
     else thn (nrf_rx_intr_clr H n) (bnd (nrf_rx_fifo_empty H n) (\<lambda>e.
          if e then ret (res + 1, n) else get_pkts_loop k H n (res + 1))))))"

definition nrf_get_pkts :: "'d hw \<Rightarrow> nrf_t \<Rightarrow> ('d, u32 \<times> nrf_t) io" where
  "nrf_get_pkts H n =
     thn (nrf_opt_assert H n (in_rx_config H n))
     (bnd (nrf_rx_has_packet H n) (\<lambda>p.
     if \<not> p then ret (0, n)
     else bnd (get_pkts_loop (rounds H) H n 0) (\<lambda>(res, n).
          thn (nrf_opt_assert H n (in_rx_config H n)) (ret (res, n)))))"

text \<open>\<open>while(nrf_get_pkts(n));\<close>\<close>

fun get_all_pkts :: "nat \<Rightarrow> 'd hw \<Rightarrow> nrf_t \<Rightarrow> ('d, nrf_t) io" where
  "get_all_pkts 0 H n = fails Stuck"
| "get_all_pkts (Suc k) H n =
     bnd (nrf_get_pkts H n) (\<lambda>(res, n). if res = 0 then ret n else get_all_pkts k H n)"

definition nrf_tx_send_ack :: "'d hw \<Rightarrow> nrf_t \<Rightarrow> u32 \<Rightarrow> u8 list \<Rightarrow> ('d, u32 \<times> nrf_t) io" where
  "nrf_tx_send_ack H n txaddr msg =
     thn (acked_state H n) (bnd (get_all_pkts (rounds H) H n) (\<lambda>n.
     thn (run_all
       [nrf_set_addr H n NRF_RX_ADDR_P0 txaddr nrf_default_addr_nbytes,
        nrf_set_addr H n NRF_TX_ADDR txaddr nrf_default_addr_nbytes,
        void (nrf_putn H n NRF_W_TX_PAYLOAD msg),
        nrf_tx_mode H n,
        poll (rounds H) (nrf_tx_fifo_empty H n),
        bnd (nrf_has_max_rt_intr H n) (\<lambda>b. check (\<not> b) Panic),
        nrf_tx_intr_clr H n,
        nrf_rx_mode H n,
        nrf_opt_assert H n (negated (nrf_has_tx_intr H n)),
        nrf_opt_assert H n (in_rx_config H n)])
     (ret (word_of_nat (length msg), n))))"

definition nrf_tx_send_noack :: "'d hw \<Rightarrow> nrf_t \<Rightarrow> u32 \<Rightarrow> u8 list \<Rightarrow> ('d, u32 \<times> nrf_t) io" where
  "nrf_tx_send_noack H n txaddr msg =
     thn (noack_state H n) (bnd (get_all_pkts (rounds H) H n) (\<lambda>n.
     thn (run_all
       [nrf_set_addr H n NRF_TX_ADDR txaddr nrf_default_addr_nbytes,
        void (nrf_putn H n NRF_W_TX_PAYLOAD msg),
        nrf_tx_mode H n,
        poll (rounds H) (nrf_tx_fifo_empty H n),
        nrf_tx_intr_clr H n,
        nrf_rx_mode H n,
        nrf_opt_assert H n (negated (nrf_has_tx_intr H n)),
        nrf_opt_assert H n (in_rx_config H n)])
     (ret (word_of_nat (length msg), n))))"

subsection \<open>The public interface\<close>

definition nrf_nbytes_avail :: "'d hw \<Rightarrow> nrf_t \<Rightarrow> ('d, u32 \<times> nrf_t) io" where
  "nrf_nbytes_avail H n = bnd (get_all_pkts (rounds H) H n) (\<lambda>n. ret (cq_nelem CQ_N (recvq n), n))"

text \<open>\<open>None\<close> is the return value 0, \<open>Some msg\<close> the value \<open>nb\<close> with the bytes in \<open>msg\<close>. There are enough bytes for
  the pop, so it does not spin.\<close>

definition nrf_read_exact_noblk :: "'d hw \<Rightarrow> nrf_t \<Rightarrow> u32 \<Rightarrow> ('d, u8 list option \<times> nrf_t) io" where
  "nrf_read_exact_noblk H n nb =
     thn (check (0 < nb) Assert_fail) (bnd (nrf_nbytes_avail H n) (\<lambda>(avail, n).
     if avail < nb then ret (None, n)
     else bnd (lft (cq_pop_n CQ_N False [] (recvq n) (unat nb))) (\<lambda>(msg, irqs, q).
          ret (Some msg, n\<lparr>recvq := q\<rparr>))))"

fun read_exact_loop :: "nat \<Rightarrow> 'd hw \<Rightarrow> nrf_t \<Rightarrow> u32 \<Rightarrow> u32 \<Rightarrow> timeout_t \<Rightarrow> ('d, u8 list option \<times> nrf_t) io" where
  "read_exact_loop 0 H n nb usec t = fails Stuck"
| "read_exact_loop (Suc k) H n nb usec t =
     bnd (nrf_read_exact_noblk H n nb) (\<lambda>(r, n).
     case r of Some msg \<Rightarrow> ret (Some msg, n)
     | None \<Rightarrow> bnd (timeout_usec (hw_bus H) t (ucast usec)) (\<lambda>(late, t).
         if late then ret (None, n) else read_exact_loop k H n nb usec t))"

definition nrf_read_exact_timeout :: "'d hw \<Rightarrow> nrf_t \<Rightarrow> u32 \<Rightarrow> u32 \<Rightarrow> ('d, u8 list option \<times> nrf_t) io" where
  "nrf_read_exact_timeout H n nb usec =
     bnd (timeout_start (hw_bus H)) (\<lambda>t. read_exact_loop (rounds H) H n nb usec t)"

definition NRF_TIMEOUT :: u32 where "NRF_TIMEOUT = 10"

text \<open>The \<open>int\<close> -1 of a timeout is compared with the \<open>unsigned\<close> number of bytes.\<close>

definition nrf_read_exact :: "'d hw \<Rightarrow> nrf_t \<Rightarrow> u32 \<Rightarrow> ('d, u8 list option \<times> nrf_t) io" where
  "nrf_read_exact H n nb =
     bnd (nrf_read_exact_timeout H n nb (NRF_TIMEOUT * 1000 * 1000)) (\<lambda>(r, n).
     if (case r of Some msg \<Rightarrow> nb | None \<Rightarrow> - 1) = nb then ret (r, n) else fails Panic)"

definition nrf_send_ack :: "'d hw \<Rightarrow> nrf_t \<Rightarrow> u32 \<Rightarrow> u8 list \<Rightarrow> ('d, u32 \<times> nrf_t) io" where
  "nrf_send_ack H nic txaddr msg = nrf_tx_send_ack H nic txaddr msg"

definition nrf_send_noack :: "'d hw \<Rightarrow> nrf_t \<Rightarrow> u32 \<Rightarrow> u8 list \<Rightarrow> ('d, u32 \<times> nrf_t) io" where
  "nrf_send_noack H nic txaddr msg = nrf_tx_send_noack H nic txaddr msg"

end
