(* ===== verification/Radio.thy ===== *)
theory Radio
  imports NrfDriver
begin

unbundle bit_operations_syntax

text \<open>
  What the radio driver guarantees, on every radio that behaves as the data sheet says. \<open>radio\<close> is the part of the
  radio's state that the driver sees; \<open>radio_ok H st rel\<close> are the laws: registers and addresses read back what was
  written, the status bits of the FIFOs, reading a payload takes the oldest packet, flushing empties. After each
  transfer the radio may change by itself, as \<open>rel\<close> says: packets arrive, a packet is sent, a flag is raised. The
  registers and addresses change only when they are written.
\<close>

section \<open>The radio\<close>

record radio =
  rreg :: "u8 \<Rightarrow> u8"
  raddr :: "u8 \<Rightarrow> u8 list"
  rirq :: u8
  rxf :: "u8 list list"
  txf :: "u8 list list"
  sent :: "u8 list list"

definition cfg_reg :: "u8 \<Rightarrow> bool" where
  "cfg_reg r \<longleftrightarrow> r \<in> set [0, 1, 2, 3, 4, 5, 6, 0x11, 0x12, 0x13, 0x14, 0x15, 0x16, 0x1c, 0x1d]"

definition addr_reg :: "u8 \<Rightarrow> bool" where
  "addr_reg r \<longleftrightarrow> r = 0xa \<or> r = 0xb \<or> r = 0x10"

definition arrive :: "u8 list list \<Rightarrow> radio \<Rightarrow> radio" where
  "arrive ps R = R\<lparr>rxf := rxf R @ ps\<rparr>"

lemma arrive_simps [simp]: "arrive [] R = R" "rreg (arrive ps R) = rreg R" "raddr (arrive ps R) = raddr R"
    "rirq (arrive ps R) = rirq R" "rxf (arrive ps R) = rxf R @ ps" "txf (arrive ps R) = txf R"
  by (simp_all add: arrive_def)

text \<open>A transfer of \<open>tx\<close> is answered with a status byte and \<open>rest\<close> and takes the radio from \<open>R\<close> to \<open>R'\<close>, and
  then to what it becomes by itself.\<close>

type_synonym evolution = "radio \<Rightarrow> radio \<Rightarrow> bool"

definition answers :: "'d hw \<Rightarrow> ('d \<Rightarrow> radio) \<Rightarrow> evolution \<Rightarrow> u8 list \<Rightarrow> radio \<Rightarrow> (u8 list \<Rightarrow> bool) \<Rightarrow> radio \<Rightarrow> bool" where
  "answers H st rel tx R P R' \<longleftrightarrow> (\<forall>s d. st d = R \<longrightarrow>
     (\<exists>a rest d'. spi_n_transfer H s tx d = Inr (a # rest, d') \<and> P rest \<and> rel R' (st d')))"

definition fifo_status :: "radio \<Rightarrow> u8 \<Rightarrow> bool" where
  "fifo_status R v \<longleftrightarrow> (bit v 0 \<longleftrightarrow> rxf R = []) \<and> (bit v 4 \<longleftrightarrow> txf R = [])"

definition radio_ok :: "'d hw \<Rightarrow> ('d \<Rightarrow> radio) \<Rightarrow> evolution \<Rightarrow> bool" where
  "radio_ok H st rel \<longleftrightarrow>
     (\<forall>R R'. rel R R' \<longrightarrow> rreg R' = rreg R \<and> raddr R' = raddr R) \<and>
     (\<forall>R r. cfg_reg r \<longrightarrow> answers H st rel [r, 0xFF] R (\<lambda>rest. rest = [rreg R r]) R) \<and>
     (\<forall>R r v. cfg_reg r \<longrightarrow> answers H st rel [0x20 OR r, v] R (\<lambda>_. True) (R\<lparr>rreg := (rreg R)(r := v)\<rparr>)) \<and>
     (\<forall>R. answers H st rel [0x17, 0xFF] R (\<lambda>rest. \<exists>v. rest = [v] \<and> fifo_status R v) R) \<and>
     (\<forall>R. answers H st rel [0x07, 0xFF] R (\<lambda>rest. \<exists>v. rest = [v] \<and> v AND 0x70 = rirq R AND 0x70 \<and>
        (rxf R = [] \<and> txf R = [] \<longrightarrow> v AND 0x0F = 0x0E) \<and> \<not> bit v 7) R) \<and>
     (\<forall>R v. answers H st rel [0x27, v] R (\<lambda>_. True) (R\<lparr>rirq := rirq R AND NOT v\<rparr>)) \<and>
     (\<forall>R r. addr_reg r \<and> length (raddr R r) = 3 \<longrightarrow> answers H st rel (r # replicate 3 0xFF) R (\<lambda>rest. rest = raddr R r) R) \<and>
     (\<forall>R r a. addr_reg r \<and> length a = 3 \<longrightarrow>
        answers H st rel ((r OR 0x20) # a) R (\<lambda>_. True) (R\<lparr>raddr := (raddr R)(r := a)\<rparr>)) \<and>
     (\<forall>R p ps. rxf R = p # ps \<longrightarrow> answers H st rel (0x61 # replicate (length p) 0xFF) R (\<lambda>rest. rest = p) (R\<lparr>rxf := ps\<rparr>)) \<and>
     (\<forall>R p. p \<noteq> [] \<and> length p \<le> 32 \<longrightarrow> answers H st rel (0xA0 # p) R (\<lambda>_. True) (R\<lparr>txf := txf R @ [p]\<rparr>)) \<and>
     (\<forall>R. answers H st rel [0xE1] R (\<lambda>_. True) (R\<lparr>txf := []\<rparr>)) \<and>
     (\<forall>R. answers H st rel [0xE2] R (\<lambda>_. True) (R\<lparr>rxf := []\<rparr>))"

text \<open>The pins and the timer are other devices, and delays of up to 100 milliseconds end; the SPI driver returns the chip it was asked for.\<close>

definition env_ok :: "'d hw \<Rightarrow> ('d \<Rightarrow> radio) \<Rightarrow> bool" where
  "env_ok H st \<longleftrightarrow> (\<forall>a. keeps st (GET32 (hw_bus H) a)) \<and> (\<forall>a v. keeps st (PUT32 (hw_bus H) a v)) \<and>
     keeps st (dev_barrier (hw_bus H)) \<and> (\<forall>p. keeps st (gpio_set_pulldown H p)) \<and>
     (\<forall>us. us \<le> 100000 \<longrightarrow> keeps st (delay_us (hw_bus H) (rounds H) us)) \<and>
     (\<forall>c dv d. \<exists>s d'. spi_n_init H c dv d = Inr (s, d') \<and> spi_chip_n s = c \<and> st d' = st d)"

section \<open>Preconditions of the accesses\<close>

lemma wp_transfer:
  assumes "answers H st rel tx R P R'" "\<And>a rest R''. P rest \<Longrightarrow> rel R' R'' \<Longrightarrow> Q (a # rest) R''"
  shows "wp st (spi_n_transfer H s tx) Q E R"
  unfolding wp_def
proof (intro allI impI)
  fix d assume "st d = R"
  with assms(1) obtain a rest d' where "spi_n_transfer H s tx d = Inr (a # rest, d')" "P rest" "rel R' (st d')"
    unfolding answers_def by blast
  with assms(2) show "case spi_n_transfer H s tx d of Inl e \<Rightarrow> E e | Inr (x, d') \<Rightarrow> Q x (st d')" by simp
qed

lemma ok_step: "radio_ok H st rel \<Longrightarrow> rel R R' \<Longrightarrow> rreg R' = rreg R \<and> raddr R' = raddr R"
  by (simp add: radio_ok_def)

lemma ok_read: "radio_ok H st rel \<Longrightarrow> cfg_reg r \<Longrightarrow> answers H st rel [r, 0xFF] R (\<lambda>rest. rest = [rreg R r]) R"
  by (simp add: radio_ok_def)

lemma ok_write: "radio_ok H st rel \<Longrightarrow> cfg_reg r \<Longrightarrow>
    answers H st rel [0x20 OR r, v] R (\<lambda>_. True) (R\<lparr>rreg := (rreg R)(r := v)\<rparr>)"
  by (simp add: radio_ok_def)

lemma ok_fifo: "radio_ok H st rel \<Longrightarrow> answers H st rel [0x17, 0xFF] R (\<lambda>rest. \<exists>v. rest = [v] \<and> fifo_status R v) R"
  by (simp add: radio_ok_def)

lemma ok_status: "radio_ok H st rel \<Longrightarrow> answers H st rel [0x07, 0xFF] R (\<lambda>rest. \<exists>v. rest = [v] \<and>
    v AND 0x70 = rirq R AND 0x70 \<and> (rxf R = [] \<and> txf R = [] \<longrightarrow> v AND 0x0F = 0x0E) \<and> \<not> bit v 7) R"
  by (simp add: radio_ok_def)

lemma ok_clear: "radio_ok H st rel \<Longrightarrow> answers H st rel [0x27, v] R (\<lambda>_. True) (R\<lparr>rirq := rirq R AND NOT v\<rparr>)"
  by (simp add: radio_ok_def)

lemma ok_get_addr: "radio_ok H st rel \<Longrightarrow> addr_reg r \<Longrightarrow> length (raddr R r) = 3 \<Longrightarrow>
    answers H st rel (r # replicate 3 0xFF) R (\<lambda>rest. rest = raddr R r) R"
  by (simp add: radio_ok_def)

lemma ok_set_addr: "radio_ok H st rel \<Longrightarrow> addr_reg r \<Longrightarrow> length a = 3 \<Longrightarrow>
    answers H st rel ((r OR 0x20) # a) R (\<lambda>_. True) (R\<lparr>raddr := (raddr R)(r := a)\<rparr>)"
  by (simp add: radio_ok_def)

lemma ok_payload: "radio_ok H st rel \<Longrightarrow> rxf R = p # ps \<Longrightarrow>
    answers H st rel (0x61 # replicate (length p) 0xFF) R (\<lambda>rest. rest = p) (R\<lparr>rxf := ps\<rparr>)"
  by (simp add: radio_ok_def)

lemma ok_send: "radio_ok H st rel \<Longrightarrow> p \<noteq> [] \<Longrightarrow> length p \<le> 32 \<Longrightarrow>
    answers H st rel (0xA0 # p) R (\<lambda>_. True) (R\<lparr>txf := txf R @ [p]\<rparr>)"
  by (simp add: radio_ok_def)

lemma ok_flush: "radio_ok H st rel \<Longrightarrow> answers H st rel [0xE1] R (\<lambda>_. True) (R\<lparr>txf := []\<rparr>)"
    "radio_ok H st rel \<Longrightarrow> answers H st rel [0xE2] R (\<lambda>_. True) (R\<lparr>rxf := []\<rparr>)"
  by (simp_all add: radio_ok_def)

lemma wp_get8:
  assumes "radio_ok H st rel" "cfg_reg r" "\<And>R'. rel R R' \<Longrightarrow> Q (rreg R r) R'"
  shows "wp st (nrf_get8 H n r) Q E R"
  unfolding nrf_get8_def NRF_NOP_def
  by (rule wp_bnd, rule wp_transfer [OF ok_read [OF assms(1,2)]]) (auto intro: wp_ret assms(3))

lemma wp_put_chk:
  assumes "radio_ok H st rel" "cfg_reg r"
    "\<And>R1 R2. rel (R\<lparr>rreg := (rreg R)(r := v)\<rparr>) R1 \<Longrightarrow> rel R1 R2 \<Longrightarrow> Q () R2"
  shows "wp st (put_chk H n r v) Q E R"
proof -
  have "wp st (nrf_put8 H n r v) (\<lambda>a R1. rel (R\<lparr>rreg := (rreg R)(r := v)\<rparr>) R1) E R"
    unfolding nrf_put8_def NRF_WR_REG_def
    by (rule wp_bnd, rule wp_transfer [OF ok_write [OF assms(1,2)]]) (auto intro: wp_ret)
  moreover have "wp st (bnd (nrf_get8 H n r) (\<lambda>x. if x \<noteq> v then fails Panic else ret a)) (\<lambda>_. Q ()) E R1"
    if "rel (R\<lparr>rreg := (rreg R)(r := v)\<rparr>) R1" for a R1
  proof -
    have "rreg R1 r = v" using ok_step [OF assms(1) that] by simp
    then show ?thesis
      by (intro wp_bnd wp_get8 [OF assms(1,2)]) (auto intro!: wp_ret assms(3) [OF that])
  qed
  ultimately show ?thesis
    unfolding put_chk_def nrf_put8_chk_def by (intro wp_void wp_bnd) (auto elim!: wp_conseq)
qed

lemma bit_ucast_8: "bit (ucast (x :: u8) :: u32) i \<longleftrightarrow> bit x i"
  by (auto simp: bits_of dest: bit_imp_le_length)

lemma wp_reg_bit:
  assumes "radio_ok H st rel" "cfg_reg r" "b < 32" "\<And>R'. rel R R' \<Longrightarrow> Q (bit (rreg R r) (unat b)) R'"
  shows "wp st (reg_bit H n r b) Q E R"
  unfolding reg_bit_def
  by (intro wp_bnd wp_get8 [OF assms(1,2)])
    (use assms(3) in \<open>auto simp: bit_is_on_ok u32_less_32 bit_ucast_8 intro!: wp_ret wp_bnd dest: assms(4)\<close>)

lemma wp_bit_isset:
  assumes "answers H st rel [r, 0xFF] R (\<lambda>rest. \<exists>v. rest = [v] \<and> P v) R" "b < 8"
    "\<And>v R'. P v \<Longrightarrow> rel R R' \<Longrightarrow> Q (bit v (unat b)) R'"
  shows "wp st (nrf_bit_isset H n r b) Q E R"
proof -
  have b: "unat b < 8" "unat (ucast b :: u32) = unat b"
    using assms(2) by (simp_all add: word_less_nat_alt unsigned_ucast_eq take_bit_eq_mod)
  then have on: "bit_is_on (ucast x) (ucast b) = Inr (of_bool (bit x (unat b)))" for x :: u8
    by (subst bit_is_on_ok) (simp_all add: bit_ucast_8)
  have "wp st (nrf_get8 H n r) (\<lambda>v R'. P v \<and> rel R R') E R"
    unfolding nrf_get8_def NRF_NOP_def
    by (rule wp_bnd, rule wp_transfer [OF assms(1)]) (auto intro: wp_ret)
  then show ?thesis
    unfolding nrf_bit_isset_def using assms(2)
    by (intro wp_thn wp_bnd wp_check)
      (auto elim!: wp_conseq simp: on intro!: wp_ret wp_bnd assms(3))
qed

lemma wp_rx_fifo_empty:
  assumes "radio_ok H st rel" "\<And>R'. rel R R' \<Longrightarrow> Q (rxf R = []) R'"
  shows "wp st (nrf_rx_fifo_empty H n) Q E R"
  unfolding nrf_rx_fifo_empty_def NRF_FIFO_STATUS_def
  by (rule wp_bit_isset [OF ok_fifo [OF assms(1)]]) (auto simp: fifo_status_def dest: assms(2))

lemma wp_tx_fifo_empty:
  assumes "radio_ok H st rel" "\<And>R'. rel R R' \<Longrightarrow> Q (txf R = []) R'"
  shows "wp st (nrf_tx_fifo_empty H n) Q E R"
  unfolding nrf_tx_fifo_empty_def NRF_FIFO_STATUS_def
  by (rule wp_bit_isset [OF ok_fifo [OF assms(1)]]) (auto simp: fifo_status_def dest: assms(2))

lemma wp_opt_assert:
  "wp st c (\<lambda>b R'. b \<and> Q () R') E R \<Longrightarrow> wp st (nrf_opt_assert H n c) Q E R"
  unfolding nrf_opt_assert_def nrf_assert_def opt_check_p_def if_True
  by (rule wp_bnd, erule wp_conseq) (auto intro: wp_ret)

subsection \<open>Addresses\<close>

lemma word_of_le_bytes: "unat a < 16777216 \<Longrightarrow> word_of_bytes (take 4 (take 3 (le_bytes a) @ replicate 4 0)) = a"
proof -
  assume "unat a < 16777216"
  then have "drop_bit 24 a = 0" by (simp add: word_unat_eq_iff drop_bit_eq_div unat_div)
  then have "le_word (ucast a) (ucast (drop_bit 8 a)) (ucast (drop_bit 16 a)) 0 = a"
    using le_word_bytes [of a] by simp
  then show ?thesis by (simp add: le_bytes_eq numeral_2_eq_2 numeral_3_eq_3)
qed

lemma wp_set_addr:
  assumes "radio_ok H st rel" "addr_reg r" "unat a < 16777216"
    "\<And>R1 R2. rel (R\<lparr>raddr := (raddr R)(r := take 3 (le_bytes a))\<rparr>) R1 \<Longrightarrow> rel R1 R2 \<Longrightarrow> Q () R2"
  shows "wp st (nrf_set_addr H n r a nrf_default_addr_nbytes) Q E R"
proof -
  let ?R = "R\<lparr>raddr := (raddr R)(r := take 3 (le_bytes a))\<rparr>"
  have three: "unat (3 :: u32) = 3" by simp
  have "wp st (nrf_putn H n (r OR NRF_WR_REG) (take 3 (le_bytes a))) (\<lambda>_. rel ?R) E R"
    unfolding nrf_putn_def NRF_WR_REG_def
    by (intro wp_thn wp_check wp_bnd wp_transfer [OF ok_set_addr [OF assms(1,2)]]) (auto intro: wp_ret)
  moreover have "wp st (nrf_opt_assert H n (bnd (nrf_get_addr H n r 3) (\<lambda>x. ret (x = a)))) Q E R1" if "rel ?R R1" for R1
  proof -
    have b: "raddr R1 r = take 3 (le_bytes a)" using ok_step [OF assms(1) that] by simp
    then have "wp st (nrf_getn H n r 3) (\<lambda>(x, bs) R2. bs = take 3 (le_bytes a) \<and> rel R1 R2) E R1"
      unfolding nrf_getn_def NRF_NOP_def
      by (intro wp_thn wp_check wp_bnd wp_transfer [OF ok_get_addr [OF assms(1,2)]]) (auto intro!: wp_ret wp_bnd)
    then have "wp st (nrf_get_addr H n r 3) (\<lambda>x R2. x = a \<and> rel R1 R2) E R1"
      unfolding nrf_get_addr_def nrf_default_addr_nbytes_def three
      by (intro wp_thn wp_check wp_bnd)
        (auto elim!: wp_conseq intro!: wp_ret simp: word_of_le_bytes [OF assms(3), simplified])
    then show ?thesis
      by (intro wp_opt_assert wp_bnd) (auto elim!: wp_conseq intro!: wp_ret assms(4) [OF that])
  qed
  ultimately show ?thesis
    unfolding nrf_set_addr_def nrf_default_addr_nbytes_def three
    by (intro wp_thn wp_check wp_void) (auto elim!: wp_conseq)
qed

subsection \<open>Status\<close>

lemma wp_has_max_rt:
  assumes "radio_ok H st rel" "\<And>R'. rel R R' \<Longrightarrow> Q (bit (rirq R) 4) R'"
  shows "wp st (nrf_has_max_rt_intr H n) Q E R"
proof -
  have b: "bit v 4 = bit (rirq R) 4" if "v AND 0x70 = rirq R AND 0x70" for v
    using arg_cong [OF that, of "\<lambda>x. bit x 4"] by (simp add: bit_and_iff)
  show ?thesis
    unfolding nrf_has_max_rt_intr_def NRF_STATUS_def
  proof (rule wp_bit_isset [OF ok_status [OF assms(1)]])
    fix v R' assume "v AND 0x70 = rirq R AND 0x70 \<and> (rxf R = [] \<and> txf R = [] \<longrightarrow> v AND 0x0F = 0x0E) \<and> \<not> bit v 7" "rel R R'"
    with assms(2) [of R'] b [of v] show "Q (bit v (unat MAX_RT)) R'" by (simp add: MAX_RT_def)
  qed (simp add: MAX_RT_def)
qed

lemma wp_has_tx:
  assumes "radio_ok H st rel" "\<And>R'. rel R R' \<Longrightarrow> Q (bit (rirq R) 5) R'"
  shows "wp st (nrf_has_tx_intr H n) Q E R"
proof -
  have b: "bit v 5 = bit (rirq R) 5" if "v AND 0x70 = rirq R AND 0x70" for v
    using arg_cong [OF that, of "\<lambda>x. bit x 5"] by (simp add: bit_and_iff)
  show ?thesis
    unfolding nrf_has_tx_intr_def NRF_STATUS_def
  proof (rule wp_bit_isset [OF ok_status [OF assms(1)]])
    fix v R' assume "v AND 0x70 = rirq R AND 0x70 \<and> (rxf R = [] \<and> txf R = [] \<longrightarrow> v AND 0x0F = 0x0E) \<and> \<not> bit v 7" "rel R R'"
    with assms(2) [of R'] b [of v] show "Q (bit v (unat TX_DS)) R'" by (simp add: TX_DS_def)
  qed (simp add: TX_DS_def)
qed

lemma wp_status_put:
  assumes "radio_ok H st rel" "\<And>R'. rel (R\<lparr>rirq := rirq R AND NOT v\<rparr>) R' \<Longrightarrow> Q () R'"
  shows "wp st (void (nrf_put8 H n NRF_STATUS v)) Q E R"
proof -
  have "(0x20 OR 7 :: u8) = 0x27" by simp
  then have "wp st (spi_n_transfer H (spi n) [NRF_WR_REG OR NRF_STATUS, v])
      (\<lambda>rx R'. rx \<noteq> [] \<and> rel (R\<lparr>rirq := rirq R AND NOT v\<rparr>) R') E R"
    unfolding NRF_WR_REG_def NRF_STATUS_def by (simp add: wp_transfer [OF ok_clear [OF assms(1)]])
  then show ?thesis
    unfolding nrf_put8_def
    by (intro wp_void wp_bnd) (auto elim!: wp_conseq intro!: wp_ret assms(2) simp: arr_get_def)
qed

lemma status_0x0E: "v AND 0x70 = 0 \<Longrightarrow> v AND 0x0F = 0x0E \<Longrightarrow> \<not> bit v 7 \<Longrightarrow> v = (0x0E :: u8)"
proof (rule bit_word_eqI)
  fix i assume v: "v AND 0x70 = 0" "v AND 0x0F = 0x0E" "\<not> bit v 7" and i: "i < LENGTH(8)"
  have "bit (v AND 0x70) i = bit (0 :: u8) i" "bit (v AND 0x0F) i = bit (0x0E :: u8) i" using v by simp_all
  moreover from i have "i \<in> {0, 1, 2, 3, 4, 5, 6, 7}" by auto
  ultimately show "bit v i = bit (0x0E :: u8) i" using v(3) by (auto simp: bit_and_iff)
qed

lemma wp_put_chk_status:
  assumes "radio_ok H st (=)" "rirq R AND 0x70 = 0" "rxf R = []" "txf R = []"
    "Q () (R\<lparr>rirq := rirq R AND NOT 0x0E\<rparr>)"
  shows "wp st (put_chk H n NRF_STATUS 0x0E) Q E R"
proof -
  let ?R = "R\<lparr>rirq := rirq R AND NOT 0x0E\<rparr>"
  have "(0x20 OR 7 :: u8) = 0x27" by simp
  then have 1: "wp st (nrf_put8 H n NRF_STATUS 0x0E) (\<lambda>_. (=) ?R) E R"
    unfolding nrf_put8_def NRF_WR_REG_def NRF_STATUS_def
    by (simp, intro wp_bnd wp_transfer [OF ok_clear [OF assms(1)]]) (auto intro: wp_ret)
  have "rirq ?R AND 0x70 = (rirq R AND 0x70) AND NOT 0x0E" by (simp add: ac_simps)
  then have "rirq ?R AND 0x70 = 0" by (simp add: assms(2))
  then have 2: "wp st (nrf_get8 H n NRF_STATUS) (\<lambda>v R'. v = 0x0E \<and> R' = ?R) E ?R"
    unfolding nrf_get8_def NRF_NOP_def NRF_STATUS_def
    by (intro wp_bnd wp_transfer [OF ok_status [OF assms(1)]]) (auto intro!: wp_ret status_0x0E simp: assms(3,4))
  have "wp st (bnd (nrf_get8 H n NRF_STATUS) (\<lambda>x. if x \<noteq> 0x0E then fails Panic else ret a)) (\<lambda>_. Q ()) E ?R" for a
    by (rule wp_bnd, rule wp_conseq [OF 2]) (use assms(5) in \<open>auto intro!: wp_ret\<close>)
  then show ?thesis
    unfolding put_chk_def nrf_put8_chk_def by - (intro wp_void, rule wp_bnd, rule wp_conseq [OF 1], auto)
qed

subsection \<open>The other devices\<close>

lemma keeps_env:
  assumes "env_ok H st"
  shows "keeps st (GET32 (hw_bus H) a)" "keeps st (PUT32 (hw_bus H) a v)" "keeps st (dev_barrier (hw_bus H))"
    "keeps st (gpio_set_pulldown H p)" "us \<le> 100000 \<Longrightarrow> keeps st (delay_us (hw_bus H) (rounds H) us)"
    "ms * 1000 \<le> 100000 \<Longrightarrow> keeps st (delay_ms (hw_bus H) (rounds H) ms)" "keeps st (timer_get_usec (hw_bus H))"
  using assms by (auto simp: env_ok_def delay_ms_def timer_get_usec_def timer_get_usec_raw_def intro!: keeps_intros)

lemma keeps_gpio:
  assumes "env_ok H st"
  shows "keeps st (gpio_set_on (hw_bus H) p)" "keeps st (gpio_set_off (hw_bus H) p)"
    "keeps st (gpio_write (hw_bus H) p v32)" "keeps st (gpio_set_output (hw_bus H) p)"
  using keeps_env [OF assms]
  by (auto simp: gpio_set_on_def gpio_set_off_def gpio_write_def gpio_set_output_def gpio_set_function_def
      Let_def intro!: keeps_intros)

lemma wp_delay:
  assumes "env_ok H st" "us \<le> 100000" "\<And>x. Q x R"
  shows "wp st (delay_us (hw_bus H) (rounds H) us) Q E R"
  by (rule wp_keeps [OF keeps_env(5) [OF assms(1,2)]]) (rule assms(3))

lemma wp_delay_ms:
  assumes "env_ok H st" "ms * 1000 \<le> 100000" "\<And>x. Q x R"
  shows "wp st (delay_ms (hw_bus H) (rounds H) ms) Q E R"
  by (rule wp_keeps [OF keeps_env(6) [OF assms(1,2)]]) (rule assms(3))

lemmas wp_env = keeps_env(1,2,3,4,7) [THEN wp_keeps] keeps_gpio [THEN wp_keeps] wp_delay wp_delay_ms

lemma wp_spi_init:
  assumes "env_ok H st" "c = 0 \<or> c = 1" "\<And>s. Q s R"
  shows "wp st (nrf_spi_init H ce c) Q E R"
proof -
  have "wp st (spi_n_init H c 20) (\<lambda>s R'. spi_chip_n s = c \<and> R' = R) E R"
    unfolding wp_def
  proof (intro allI impI)
    fix d assume "st d = R"
    moreover obtain s d' where "spi_n_init H c 20 d = Inr (s, d')" "spi_chip_n s = c" "st d' = st d"
      using assms(1) unfolding env_ok_def by blast
    ultimately show "case spi_n_init H c 20 d of Inl e \<Rightarrow> E e | Inr (s, d') \<Rightarrow> spi_chip_n s = c \<and> st d' = R" by simp
  qed
  then show ?thesis
    unfolding nrf_spi_init_def Let_def using assms(2)
    by (intro wp_thn wp_env [OF assms(1)] wp_check wp_bnd)
      (auto elim!: wp_conseq intro!: wp_rules wp_env [OF assms(1)] assms(3))
qed

section \<open>Setting up\<close>

text \<open>On a radio that does not change by itself the rules of the accesses are assignments.\<close>

lemma idle_put: "radio_ok H st (=) \<Longrightarrow> cfg_reg r \<Longrightarrow> Q () (R\<lparr>rreg := (rreg R)(r := v)\<rparr>) \<Longrightarrow> wp st (put_chk H n r v) Q E R"
  by (rule wp_put_chk [where rel = "(=)"]) auto

lemma idle_bit: "radio_ok H st (=) \<Longrightarrow> cfg_reg r \<Longrightarrow> b < 32 \<Longrightarrow> Q (bit (rreg R r) (unat b)) R \<Longrightarrow> wp st (reg_bit H n r b) Q E R"
  by (rule wp_reg_bit [where rel = "(=)"]) auto

lemma idle_get: "radio_ok H st (=) \<Longrightarrow> cfg_reg r \<Longrightarrow> Q (rreg R r) R \<Longrightarrow> wp st (nrf_get8 H n r) Q E R"
  by (rule wp_get8 [where rel = "(=)"]) auto

lemma idle_addr: "radio_ok H st (=) \<Longrightarrow> addr_reg r \<Longrightarrow> unat a < 16777216 \<Longrightarrow>
    Q () (R\<lparr>raddr := (raddr R)(r := take 3 (le_bytes a))\<rparr>) \<Longrightarrow> wp st (nrf_set_addr H n r a nrf_default_addr_nbytes) Q E R"
  by (rule wp_set_addr [where rel = "(=)"]) auto

lemma idle_fifo: "radio_ok H st (=) \<Longrightarrow> Q (rxf R = []) R \<Longrightarrow> wp st (nrf_rx_fifo_empty H n) Q E R"
    "radio_ok H st (=) \<Longrightarrow> Q (txf R = []) R \<Longrightarrow> wp st (nrf_tx_fifo_empty H n) Q E R"
  by (rule wp_rx_fifo_empty [where rel = "(=)"], auto) (rule wp_tx_fifo_empty [where rel = "(=)"], auto)

lemma idle_flush:
  assumes "radio_ok H st (=)"
  shows "(\<And>a. Q a (R\<lparr>txf := []\<rparr>)) \<Longrightarrow> wp st (nrf_tx_flush H n) Q E R"
    "(\<And>a. Q a (R\<lparr>rxf := []\<rparr>)) \<Longrightarrow> wp st (nrf_rx_flush H n) Q E R"
  unfolding nrf_tx_flush_def nrf_rx_flush_def FLUSH_TX_def FLUSH_RX_def
  by (rule wp_bnd, rule wp_transfer [OF ok_flush(1) [OF assms]], auto intro: wp_ret)
    (rule wp_bnd, rule wp_transfer [OF ok_flush(2) [OF assms]], auto intro: wp_ret)

lemmas idle_rules = idle_put idle_bit idle_addr idle_fifo idle_flush idle_get

named_theorems nrf_regs \<comment> \<open>numbers of registers\<close>
declare NRF_CONFIG_def [nrf_regs] NRF_EN_AA_def [nrf_regs] NRF_EN_RXADDR_def [nrf_regs] NRF_SETUP_AW_def [nrf_regs]
  NRF_SETUP_RETR_def [nrf_regs] NRF_RF_CH_def [nrf_regs] NRF_RF_SETUP_def [nrf_regs] NRF_RX_ADDR_P0_def [nrf_regs]
  NRF_RX_ADDR_P1_def [nrf_regs] NRF_TX_ADDR_def [nrf_regs] NRF_RX_PW_P0_def [nrf_regs] NRF_RX_PW_P1_def [nrf_regs]
  NRF_RX_PW_P2_def [nrf_regs] NRF_RX_PW_P3_def [nrf_regs] NRF_RX_PW_P4_def [nrf_regs] NRF_RX_PW_P5_def [nrf_regs]

lemma cfg_regs [simp]: "cfg_reg NRF_CONFIG" "cfg_reg NRF_EN_AA" "cfg_reg NRF_EN_RXADDR" "cfg_reg NRF_SETUP_AW"
    "cfg_reg NRF_SETUP_RETR" "cfg_reg NRF_RF_CH" "cfg_reg NRF_RF_SETUP" "cfg_reg NRF_RX_PW_P0" "cfg_reg NRF_RX_PW_P1"
    "cfg_reg NRF_RX_PW_P2" "cfg_reg NRF_RX_PW_P3" "cfg_reg NRF_RX_PW_P4" "cfg_reg NRF_RX_PW_P5"
    "addr_reg NRF_RX_ADDR_P0" "addr_reg NRF_RX_ADDR_P1" "addr_reg NRF_TX_ADDR"
  by (simp_all add: cfg_reg_def addr_reg_def nrf_regs)

definition pipes_of :: "bool \<Rightarrow> radio \<Rightarrow> radio" where
  "pipes_of acked_p R = R\<lparr>rreg := (if acked_p
     then (rreg R)(NRF_EN_AA := 3, NRF_EN_RXADDR := 3, NRF_SETUP_RETR := 0x76)
     else (rreg R)(NRF_EN_AA := 0, NRF_SETUP_RETR := 0, NRF_EN_RXADDR := 2))\<rparr>"

lemma wp_init_pipes:
  assumes "radio_ok H st (=)" "Q () (pipes_of acked_p R)"
  shows "wp st (init_pipes H n acked_p) Q E R"
proof -
  have retr: "push_bit 4 (ucast (nrf_default_retran_delay div 250 - 1) :: u8) OR ucast nrf_default_retran_attempts = 0x76"
    by (simp add: nrf_default_retran_delay_def nrf_default_retran_attempts_def)
  have two: "push_bit 1 1 = (2 :: u8)" by simp
  show ?thesis
    unfolding init_pipes_def retr two Let_def nrf_pipe_is_acked_def nrf_pipe_is_enabled_def
    by (intro wp_rules conjI idle_rules [OF assms(1)])
      (use assms(2) in \<open>simp_all add: pipes_of_def nrf_regs cfg_reg_def bit_1_iff\<close>)
qed

definition addrs_of :: "u8 \<Rightarrow> u32 \<Rightarrow> radio \<Rightarrow> radio" where
  "addrs_of nb a R = R\<lparr>raddr := (raddr R)(NRF_RX_ADDR_P0 := take 3 (le_bytes a),
       NRF_RX_ADDR_P1 := take 3 (le_bytes a), NRF_TX_ADDR := take 3 (le_bytes 0)),
     rreg := (rreg R)(NRF_RX_PW_P0 := nb, NRF_RX_PW_P1 := nb, NRF_SETUP_AW := 1,
       NRF_RX_PW_P2 := 0, NRF_RX_PW_P3 := 0, NRF_RX_PW_P4 := 0, NRF_RX_PW_P5 := 0)\<rparr>"

lemma wp_init_addrs:
  assumes "radio_ok H st (=)" "unat (rxaddr n) < 16777216" "Q () (addrs_of (nbytes (config n)) (rxaddr n) R)"
  shows "wp st (init_addrs H n) Q E R"
proof -
  have aw: "(ucast (nrf_default_addr_nbytes - 2) :: u8) = 1" by (simp add: nrf_default_addr_nbytes_def)
  show ?thesis
    unfolding init_addrs_def aw
    by (intro wp_rules conjI idle_rules [OF assms(1)]) (use assms(2,3) in \<open>simp_all add: addrs_of_def\<close>)
qed

definition radio_set :: "radio \<Rightarrow> radio" where
  "radio_set R = R\<lparr>rreg := (rreg R)(NRF_RF_CH := 113, NRF_RF_SETUP := 0x0E), rirq := rirq R AND NOT 0x0E,
     rxf := [], txf := []\<rparr>"

lemma wp_init_radio:
  assumes "radio_ok H st (=)" "rirq R AND 0x70 = 0" "rxf R = []" "txf R = []" "Q () (radio_set R)"
  shows "wp st (init_radio H n) Q E R"
proof -
  have v: "(ucast nrf_default_channel :: u8) = 113" "(ucast (nrf_default_data_rate OR nrf_default_db) :: u8) = 0x0E"
    "push_bit 1 7 = (0x0E :: u8)"
    by (simp_all add: nrf_default_channel_def nrf_default_data_rate_def nrf_default_db_def nrf_2Mbps_def dBm_0_def
        RF_DR_HI_def shl_def)
  show ?thesis
    unfolding init_radio_def v
    by (rule wp_run_all_Cons, rule idle_put [OF assms(1)], simp, rule wp_run_all_Cons, rule idle_put [OF assms(1)], simp)
      (intro wp_rules conjI wp_put_chk_status [OF assms(1)] idle_fifo [OF assms(1)] idle_flush [OF assms(1)],
        use assms(2-5) in \<open>simp_all add: radio_set_def\<close>)
qed

lemma wp_set_pwrup:
  assumes "radio_ok H st (=)" "Q () (R\<lparr>rreg := (rreg R)(NRF_CONFIG := rreg R NRF_CONFIG OR 2)\<rparr>)"
  shows "wp st (nrf_set_pwrup_on H n) Q E R"
proof -
  have on: "bit_set (ucast x) 1 = Inr (ucast x OR 2)" for x :: u8
    by (simp add: bit_set_def shl_def)
  have low: "ucast (ucast x OR 2 :: u32) = (x OR 2 :: u8)" for x
    by (rule bit_word_eqI) (auto simp: bit_ucast_iff bit_or_iff possible_bit_def dest: bit_imp_le_length)
  have two: "bit (2 :: u8) (Suc 0)" by (simp add: bit_iff_odd)
  show ?thesis
    unfolding nrf_set_pwrup_on_def nrf_bit_set_def nrf_is_pwrup_def PWR_UP_BIT_def put_chk_def [symmetric]
    by (intro wp_thn wp_check wp_bnd idle_get [OF assms(1)], simp_all add: on low)
      (intro wp_rules conjI idle_rules [OF assms(1)], use assms(2) in \<open>simp_all add: low bit_or_iff two\<close>)
qed

lemma wp_init_on:
  assumes "radio_ok H st (=)" "env_ok H st" "Q () (R\<lparr>rreg := (rreg R)(NRF_CONFIG := rx_config)\<rparr>)"
  shows "wp st (init_on H n) Q E R"
  unfolding init_on_def
  by (intro wp_run_all_Nil wp_run_all_Cons wp_set_pwrup [OF assms(1)] idle_put [OF assms(1)] wp_env [OF assms(2)])
    (use assms(3) in simp_all)

lemma wp_acked_state:
  assumes "radio_ok H st (=)" "rreg R NRF_CONFIG = rx_config" "rreg R NRF_EN_AA = 3" "rreg R NRF_EN_RXADDR = 3"
    "txf R = []" "Q () R"
  shows "wp st (acked_state H n) Q E R"
  unfolding acked_state_def in_rx_config_def nrf_pipe_is_acked_def nrf_pipe_is_enabled_def
  by (intro wp_rules wp_opt_assert conjI idle_rules [OF assms(1)]) (use assms(2-6) in \<open>simp_all add: bit_iff_odd\<close>)

lemma wp_noack_state:
  assumes "radio_ok H st (=)" "rreg R NRF_CONFIG = rx_config" "rreg R NRF_EN_AA = 0" "rreg R NRF_EN_RXADDR = 2"
    "txf R = []" "Q () R"
  shows "wp st (noack_state H n) Q E R"
  unfolding noack_state_def in_rx_config_def nrf_pipe_is_acked_def nrf_pipe_is_enabled_def
  by (intro wp_rules wp_opt_assert conjI idle_rules [OF assms(1)]) (use assms(2-6) in \<open>simp_all add: bit_iff_odd\<close>)

definition radio_init :: "nrf_conf_t \<Rightarrow> u32 \<Rightarrow> bool \<Rightarrow> radio \<Rightarrow> radio" where
  "radio_init c a acked_p R =
     (let R = radio_set (addrs_of (nbytes c) a (pipes_of acked_p
       (R\<lparr>rreg := (rreg R)(NRF_CONFIG := 0, NRF_EN_RXADDR := 0)\<rparr>)))
      in R\<lparr>rreg := (rreg R)(NRF_CONFIG := rx_config)\<rparr>)"

lemma wp_nrf_init:
  assumes "radio_ok H st (=)" "env_ok H st" "spi_chip c = 0 \<or> spi_chip c = 1" "unat a < 16777216"
    "rirq R AND 0x70 = 0" "rxf R = []" "txf R = []"
  shows "wp st (nrf_init H c a acked_p) (\<lambda>n R'. R' = radio_init c a acked_p R \<and> config n = c \<and> rxaddr n = a \<and>
    cq_inv CQ_N (recvq n) \<and> cq_items (recvq n) = []) E R"
proof -
  obtain q :: "u8 cq" where q: "cq_init CQ_N 0 True = Inr q" "cq_inv CQ_N q" "cq_items q = []"
    using cq_init_ok [OF size_ok_CQ_N, of "0 :: u8" True] by auto
  have chip: "ucast (spi_chip c) = (0 :: u32) \<or> ucast (spi_chip c) = (1 :: u32)"
    using assms(3) by auto
  show ?thesis
    unfolding nrf_init_def nrf_stat_start_def q(1) lft_simps nrf_is_pwrup_def Let_def
    by (intro wp_bnd wp_env [OF assms(2)] wp_ret wp_spi_init [OF assms(2) chip] wp_thn wp_run_all_Cons wp_run_all_Nil
          wp_asserts wp_negated conjI idle_put [OF assms(1)] idle_bit [OF assms(1)] wp_init_pipes [OF assms(1)]
          wp_init_addrs [OF assms(1)] wp_init_radio [OF assms(1)] wp_init_on [OF assms(1,2)] wp_if
          wp_acked_state [OF assms(1)] wp_noack_state [OF assms(1)])
      (use assms(4-7) q in \<open>simp_all add: radio_init_def radio_set_def addrs_of_def pipes_of_def nrf_regs cfg_reg_def PWR_UP_BIT_def nrf_zero_def\<close>)
qed

text \<open>Setting up the radio: on an idle radio with empty FIFOs \<open>nrf_init\<close> returns, none of its assertions and
  read-back checks fails, and it leaves the radio in receive mode with the documented configuration: pipes 0 and 1
  acknowledged with six attempts every 2000 microseconds, or pipe 1 alone without acknowledgements; both pipes with the
  packet size of the configuration and the lower 24 bits of the address; the default channel, whatever channel the
  configuration asks for; and an empty receive queue.\<close>

theorem nrf_init_configures:
  assumes "radio_ok H st (=)" "env_ok H st" "spi_chip c = 0 \<or> spi_chip c = 1" "unat a < 16777216"
    "rirq (st d) AND 0x70 = 0" "rxf (st d) = []" "txf (st d) = []"
  shows "\<exists>n d'. nrf_init H c a acked_p d = Inr (n, d') \<and> config n = c \<and> cq_items (recvq n) = [] \<and>
    rreg (st d') NRF_CONFIG = rx_config \<and>
    rreg (st d') NRF_EN_AA = (if acked_p then 0b11 else 0) \<and>
    rreg (st d') NRF_EN_RXADDR = (if acked_p then 0b11 else 0b10) \<and>
    rreg (st d') NRF_SETUP_RETR = (if acked_p then push_bit 4 7 OR 6 else 0) \<and>
    rreg (st d') NRF_RX_PW_P0 = nbytes c \<and> rreg (st d') NRF_RX_PW_P1 = nbytes c \<and>
    raddr (st d') NRF_RX_ADDR_P0 = take 3 (le_bytes a) \<and> raddr (st d') NRF_RX_ADDR_P1 = take 3 (le_bytes a) \<and>
    rreg (st d') NRF_RF_CH = 113 \<and> rxf (st d') = [] \<and> txf (st d') = []"
proof -
  from wp_total [OF wp_nrf_init [OF assms]] obtain n d' where
    "nrf_init H c a acked_p d = Inr (n, d')" "st d' = radio_init c a acked_p (st d)" "config n = c" "cq_items (recvq n) = []"
    by blast
  then show ?thesis
    by (auto simp: radio_init_def radio_set_def addrs_of_def pipes_of_def nrf_regs Let_def)
qed

subsection \<open>A simulated radio\<close>

definition sim_radio :: "u8 list \<Rightarrow> radio \<Rightarrow> u8 list \<times> radio" where
  "sim_radio tx R =
     (let r = hd tx; v = tl tx; w = r AND 0x1F in
      if r = 0xE1 then ([0], R\<lparr>txf := []\<rparr>)
      else if r = 0xE2 then ([0], R\<lparr>rxf := []\<rparr>)
      else if r = 0x61 then (0 # hd (rxf R), R\<lparr>rxf := tl (rxf R)\<rparr>)
      else if r = 0xA0 then (0 # v, R\<lparr>txf := txf R @ [v]\<rparr>)
      else if r = 0x17 then ([0, (if rxf R = [] then 1 else 0) OR (if txf R = [] then 0x10 else 0)], R)
      else if r = 0x07 then ([0, (rirq R AND 0x70) OR 0x0E], R)
      else if r = 0x27 then ([0, 0], R\<lparr>rirq := rirq R AND NOT (hd v)\<rparr>)
      else if cfg_reg r then ([0, rreg R r], R)
      else if addr_reg r then (0 # raddr R r, R)
      else if cfg_reg w then ([0, 0], R\<lparr>rreg := (rreg R)(w := hd v)\<rparr>)
      else (0 # v, R\<lparr>raddr := (raddr R)(w := v)\<rparr>))"

text \<open>Its environment: a microsecond passes at each read of a register. The parameter \<open>g\<close> is what the radio does by
  itself after each transfer.\<close>

definition sim_hw :: "(radio \<Rightarrow> radio) \<Rightarrow> (nat \<times> radio) hw" where
  "sim_hw g = \<lparr>hw_bus = \<lparr>GET32 = (\<lambda>a (t, R). Inr (word_of_nat (Suc t), (Suc t, R))), PUT32 = (\<lambda>a v d. Inr ((), d)),
       dev_barrier = (\<lambda>d. Inr ((), d)), DEV_VAL32 = (\<lambda>v d. Inr (v, d))\<rparr>,
     spi_n_transfer = (\<lambda>s tx (t, R). let (rx, R') = sim_radio tx R in Inr (rx, (t, g R'))),
     spi_n_init = (\<lambda>c dv d. Inr (\<lparr>spi_chip_n = c, spi_div = dv\<rparr>, d)),
     gpio_set_pulldown = (\<lambda>p d. Inr ((), d)), rounds = 100001\<rparr>"

lemma sim_answers:
  assumes "\<And>R. rel R (g R)" "sim_radio tx R = (a # rest, R')" "P rest"
  shows "answers (sim_hw g) snd rel tx R P R'"
  using assms by (auto simp: answers_def sim_hw_def)

definition special :: "u8 \<Rightarrow> bool" where
  "special r \<longleftrightarrow> r \<in> set [0xE1, 0xE2, 0x61, 0xA0, 0x17, 0x07, 0x27]"

lemma cfg_not_special: "cfg_reg r \<Longrightarrow> \<not> special r"
  unfolding cfg_reg_def special_def set_simps insert_iff empty_iff by (elim disjE) simp_all

lemma addr_not_special: "addr_reg r \<Longrightarrow> \<not> special r \<and> \<not> cfg_reg r"
  unfolding addr_reg_def special_def cfg_reg_def set_simps insert_iff empty_iff by (elim disjE) simp_all

lemma cfg_write: "cfg_reg r \<Longrightarrow> \<not> special (0x20 OR r) \<and> \<not> cfg_reg (0x20 OR r) \<and> \<not> addr_reg (0x20 OR r) \<and> (0x20 OR r) AND 0x1F = r"
  unfolding special_def cfg_reg_def addr_reg_def set_simps insert_iff empty_iff by (elim disjE) simp_all

lemma addr_write: "addr_reg r \<Longrightarrow> \<not> special (r OR 0x20) \<and> \<not> cfg_reg (r OR 0x20) \<and> \<not> addr_reg (r OR 0x20) \<and>
    (r OR 0x20) AND 0x1F = r \<and> \<not> cfg_reg r"
  unfolding special_def cfg_reg_def addr_reg_def set_simps insert_iff empty_iff by (elim disjE) simp_all

lemma sim_special: "\<not> special r \<Longrightarrow> sim_radio (r # v) R =
    (if cfg_reg r then ([0, rreg R r], R) else if addr_reg r then (0 # raddr R r, R)
     else if cfg_reg (r AND 0x1F) then ([0, 0], R\<lparr>rreg := (rreg R)(r AND 0x1F := hd v)\<rparr>)
     else (0 # v, R\<lparr>raddr := (raddr R)(r AND 0x1F := v)\<rparr>))"
  unfolding special_def set_simps insert_iff empty_iff de_Morgan_disj by (simp add: sim_radio_def)

lemma sim_radio_ok:
  assumes "\<And>R. rel R (g R)" "\<And>R R'. rel R R' \<Longrightarrow> rreg R' = rreg R \<and> raddr R' = raddr R"
  shows "radio_ok (sim_hw g) snd rel"
  unfolding radio_ok_def
proof (intro conjI allI impI)
  fix R :: radio and r assume "cfg_reg r"
  then show "answers (sim_hw g) snd rel [r, 0xFF] R (\<lambda>rest. rest = [rreg R r]) R"
    by (intro sim_answers [where rel = rel and g = g and a = 0, OF assms(1)]) (simp_all add: sim_special cfg_not_special)
next
  fix R :: radio and r v assume "cfg_reg r"
  then show "answers (sim_hw g) snd rel [0x20 OR r, v] R (\<lambda>_. True) (R\<lparr>rreg := (rreg R)(r := v)\<rparr>)"
    by (intro sim_answers [where rel = rel and g = g and a = 0 and rest = "[0]", OF assms(1)])
      (simp_all add: sim_special cfg_write)
next
  fix R :: radio
  show "answers (sim_hw g) snd rel [0x17, 0xFF] R (\<lambda>rest. \<exists>v. rest = [v] \<and> fifo_status R v) R"
    by (rule sim_answers [where rel = rel and g = g and a = 0, OF assms(1)]) (auto simp: sim_radio_def fifo_status_def bit_iff_odd)
next
  fix R :: radio
  have "((rirq R AND 0x70) OR 0x0E) AND 0x70 = rirq R AND 0x70" "((rirq R AND 0x70) OR 0x0E) AND 0x0F = 0x0E"
    "\<not> bit ((rirq R AND 0x70) OR 0x0E) 7"
    by (simp_all add: bit.conj_disj_distrib2 and.assoc bit_and_iff bit_or_iff)
  then show "answers (sim_hw g) snd rel [0x07, 0xFF] R (\<lambda>rest. \<exists>v. rest = [v] \<and> v AND 0x70 = rirq R AND 0x70 \<and>
        (rxf R = [] \<and> txf R = [] \<longrightarrow> v AND 0x0F = 0x0E) \<and> \<not> bit v 7) R"
    by (intro sim_answers [where rel = rel and g = g and a = 0, OF assms(1)]) (auto simp: sim_radio_def)
next
  fix R :: radio and r assume "addr_reg r \<and> length (raddr R r) = 3"
  then show "answers (sim_hw g) snd rel (r # replicate 3 0xFF) R (\<lambda>rest. rest = raddr R r) R"
    by (intro sim_answers [where rel = rel and g = g and a = 0, OF assms(1)]) (simp_all add: sim_special addr_not_special)
next
  fix R :: radio and r and a :: "u8 list" assume "addr_reg r \<and> length a = 3"
  then show "answers (sim_hw g) snd rel ((r OR 0x20) # a) R (\<lambda>_. True) (R\<lparr>raddr := (raddr R)(r := a)\<rparr>)"
    by (intro sim_answers [where rel = rel and g = g and a = 0, OF assms(1)]) (simp_all add: sim_special addr_write)
next
  fix R :: radio and p ps assume "rxf R = p # ps"
  then show "answers (sim_hw g) snd rel (0x61 # replicate (length p) 0xFF) R (\<lambda>rest. rest = p) (R\<lparr>rxf := ps\<rparr>)"
    by (intro sim_answers [where rel = rel and g = g and a = 0, OF assms(1)]) (auto simp: sim_radio_def)
qed (auto simp: sim_radio_def intro!: sim_answers [where rel = rel and g = g and a = 0, OF assms(1)] dest: assms(2))

lemma sim_env_ok: "env_ok (sim_hw g) snd"
proof -
  have "clock_ok (hw_bus (sim_hw g)) fst 1"
    by (auto simp: clock_ok_def sim_hw_def timer_get_usec_def timer_get_usec_raw_def bnd_def thn_def simp del: of_nat_Suc)
  then have "\<exists>d'. delay_us (hw_bus (sim_hw g)) (rounds (sim_hw g)) us d = Inr ((), d')" if "us \<le> 100000" for us d
    using delay_us_waits [of _ fst 1 us 100001 d] that by (simp add: sim_hw_def word_le_nat_alt) blast
  moreover have get: "timer_get_usec (hw_bus (sim_hw g)) d = Inr (word_of_nat (Suc (fst d)), (Suc (fst d), snd d))" for d
    by (cases d) (simp add: sim_hw_def timer_get_usec_def timer_get_usec_raw_def)
  have loop: "delay_loop (hw_bus (sim_hw g)) n s us d = Inr ((), d') \<Longrightarrow> snd d' = snd d" for n s us d d'
    by (induction n arbitrary: d) (auto simp: bnd_eq_Inr get split: if_splits simp del: of_nat_Suc)
  then have "delay_us (hw_bus (sim_hw g)) n us d = Inr ((), d') \<Longrightarrow> snd d' = snd d" for n us d d'
    by (auto simp: delay_us_def bnd_eq_Inr get simp del: of_nat_Suc dest: loop)
  ultimately have "keeps snd (delay_us (hw_bus (sim_hw g)) (rounds (sim_hw g)) us)" if "us \<le> 100000" for us
    using that unfolding keeps_def by blast
  then show ?thesis by (auto simp: env_ok_def) (auto simp: keeps_def sim_hw_def)
qed

definition radio_off :: radio where
  "radio_off = \<lparr>rreg = (\<lambda>r. 0), raddr = (\<lambda>r. [0, 0, 0]), rirq = 0, rxf = [], txf = [], sent = []\<rparr>"

definition demo_conf :: nrf_conf_t where
  "demo_conf = \<lparr>spi_chip = 0, ce_pin = 6, int_pin = 22, nbytes = 4, channel = 113\<rparr>"

lemma sim_idle: "radio_ok (sim_hw id) snd (=)"
  by (rule sim_radio_ok) auto

theorem nrf_init_configures_witness:
  "\<exists>n d'. nrf_init (sim_hw id) demo_conf 0xe5e5e5 True (0, radio_off) = Inr (n, d') \<and>
    rreg (snd d') NRF_CONFIG = rx_config \<and> raddr (snd d') NRF_RX_ADDR_P1 = [0xe5, 0xe5, 0xe5]"
proof -
  have a: "take 3 (le_bytes 0xe5e5e5) = [0xe5, 0xe5, 0xe5]" by (simp add: le_bytes_eq drop_bit_eq_div)
  have "spi_chip demo_conf = 0" by (simp add: demo_conf_def)
  then show ?thesis
    using nrf_init_configures [OF sim_idle sim_env_ok, of demo_conf "0xe5e5e5" "(0, radio_off)" True] a
    by (auto simp: radio_off_def)
qed

end
