(* ===== verification/RadioTraffic.thy ===== *)
theory RadioTraffic
  imports Radio
begin

unbundle bit_operations_syntax

text \<open>
  Packets through the radio driver: receiving into the queue while more packets arrive, reading exactly so many
  bytes, and sending to a peer that listens or does not.
\<close>

section \<open>Receiving\<close>

text \<open>Packets from \<open>A\<close> may arrive at any time.\<close>

definition arrivals :: "u8 list set \<Rightarrow> evolution" where
  "arrivals A R R' \<longleftrightarrow> (\<exists>ps. set ps \<subseteq> A \<and> R' = arrive ps R)"

lemma wp_payload:
  assumes "radio_ok H st rel" "rxf R = p # ps" "length p = nb" "0 < nb" "nb \<le> 32"
    "\<And>a R'. rel (R\<lparr>rxf := ps\<rparr>) R' \<Longrightarrow> Q (a, p) R'"
  shows "wp st (nrf_getn H n NRF_R_RX_PAYLOAD nb) Q E R"
proof -
  have "(0b01100001 :: u8) = 0x61" by simp
  then have a: "answers H st rel (0b01100001 # replicate nb 0b11111111) R (\<lambda>rest. rest = p) (R\<lparr>rxf := ps\<rparr>)"
    using ok_payload [OF assms(1,2)] assms(3) by simp
  show ?thesis
    unfolding nrf_getn_def NRF_R_RX_PAYLOAD_def NRF_NOP_def
    by (intro wp_thn wp_check wp_bnd wp_transfer [OF a]) (use assms(3-5) in \<open>auto intro!: wp_ret wp_bnd assms(6)\<close>)
qed

text \<open>What the driver keeps: the bytes in the queue followed by those in the FIFO are the stream \<open>T\<close> and what has
  arrived since.\<close>

definition stream :: "u8 list set \<Rightarrow> nrf_conf_t \<Rightarrow> u8 list \<Rightarrow> nrf_t \<Rightarrow> radio \<Rightarrow> bool" where
  "stream A c T n R \<longleftrightarrow> rreg R NRF_CONFIG = rx_config \<and> config n = c \<and> cq_inv CQ_N (recvq n) \<and> (\<forall>p \<in> set (rxf R). length p = unat (nbytes c)) \<and>
     (\<exists>ps. set ps \<subseteq> A \<and> cq_items (recvq n) @ concat (rxf R) = T @ concat ps)"

lemma stream_arrivals:
  assumes "stream A c T n R" "arrivals A R R'" "\<forall>p \<in> A. length p = unat (nbytes c)"
  shows "stream A c T n R'"
proof -
  obtain ps where ps: "set ps \<subseteq> A" "R' = arrive ps R" using assms(2) by (auto simp: arrivals_def)
  obtain qs where qs: "set qs \<subseteq> A" "cq_items (recvq n) @ concat (rxf R) = T @ concat qs"
    using assms(1) by (auto simp: stream_def)
  have "set (qs @ ps) \<subseteq> A" "cq_items (recvq n) @ concat (rxf R') = T @ concat (qs @ ps)"
    using ps qs by simp_all
  moreover have "\<forall>p \<in> set (rxf R'). length p = unat (nbytes c)"
    using assms(1,3) ps by (auto simp: stream_def)
  moreover have "rreg R' NRF_CONFIG = rx_config" using assms(1) ps by (simp add: stream_def)
  moreover have "config n = c" "cq_inv CQ_N (recvq n)" using assms(1) by (simp_all add: stream_def)
  ultimately show ?thesis unfolding stream_def by blast
qed

lemma stream_same_rxf: "stream A c T n R \<Longrightarrow> rxf R' = rxf R \<Longrightarrow> rreg R' = rreg R \<Longrightarrow> stream A c T n R'"
  by (simp add: stream_def)

lemma stream_push:
  assumes "stream A c T n R" "rxf R = p # ps" "0 < unat (nbytes c)" "cq_push_n CQ_N (recvq n) p = Inr (ok, q)"
  shows "if ok then stream A c T (n\<lparr>recvq := q\<rparr>) (R\<lparr>rxf := ps\<rparr>) else q = recvq n"
proof -
  have p: "length p = unat (nbytes c)" "p \<noteq> []" using assms(1,2,3) by (auto simp: stream_def)
  have "unat (nbytes c) < 2 ^ 8" using unsigned_less [of "nbytes c"] by simp
  with p have "length p < 2 ^ 32" by simp
  from cq_push_n_spec [OF size_ok_CQ_N _ p(2) this, of "recvq n"] assms show ?thesis
    by (cases ok) (auto simp: stream_def split: if_splits)
qed

lemma push_returns:
  assumes "cq_inv CQ_N q" "p \<noteq> []" "length p < 2 ^ 32"
  shows "\<exists>ok q'. cq_push_n CQ_N q p = Inr (ok, q')"
  using cq_push_n_spec [OF size_ok_CQ_N assms] by (auto split: if_splits)

definition stuck_or_panic :: "err \<Rightarrow> bool" where
  "stuck_or_panic e \<longleftrightarrow> e = Stuck \<or> e = Panic"

lemma errors_allowed [simp]: "stuck_or_panic Stuck" "stuck_or_panic Panic"
  by (simp_all add: stuck_or_panic_def)

lemma wp_rx_clr:
  assumes "radio_ok H st rel" "\<And>R'. rel (R\<lparr>rirq := rirq R AND NOT (push_bit 6 1)\<rparr>) R' \<Longrightarrow> Q () R'"
  shows "wp st (nrf_rx_intr_clr H n) Q E R"
  unfolding nrf_rx_intr_clr_def by (rule wp_status_put [OF assms(1)]) (rule assms(2))

lemma get_pkts_loop_stream:
  assumes ok: "radio_ok H st (arrivals A)" and A: "\<forall>p \<in> A. length p = unat (nbytes c)"
    and nb: "0 < unat (nbytes c)" "unat (nbytes c) \<le> 32"
  shows "stream A c T n R \<Longrightarrow> rxf R \<noteq> [] \<Longrightarrow>
    wp st (get_pkts_loop k H n res) (\<lambda>(res', n') R'. stream A c T n' R') stuck_or_panic R"
proof (induction k arbitrary: n R res)
  case 0
  show ?case unfolding get_pkts_loop.simps by (rule wp_fails) simp
next
  case (Suc k)
  then obtain p ps where R: "rxf R = p # ps" by (cases "rxf R") auto
  have c: "config n = c" "length p = unat (nbytes c)" "cq_inv CQ_N (recvq n)" using Suc.prems(1) R by (auto simp: stream_def)
  with nb have "p \<noteq> []" "length p < 2 ^ 32" by auto
  from push_returns [OF c(3) this] obtain ok' q where q: "cq_push_n CQ_N (recvq n) p = Inr (ok', q)" by blast
  have more: "wp st (thn (nrf_rx_intr_clr H (n\<lparr>recvq := q\<rparr>)) (bnd (nrf_rx_fifo_empty H (n\<lparr>recvq := q\<rparr>)) (\<lambda>e.
      if e then ret (res + 1, n\<lparr>recvq := q\<rparr>) else get_pkts_loop k H (n\<lparr>recvq := q\<rparr>) (res + 1))))
      (\<lambda>(res', n') R'. stream A c T n' R') stuck_or_panic R1"
    if "ok'" and R1: "arrivals A (R\<lparr>rxf := ps\<rparr>) R1" for R1
  proof (intro wp_thn wp_bnd wp_rx_clr [OF ok] wp_rx_fifo_empty [OF ok])
    fix R2 R3 assume 2: "arrivals A (R1\<lparr>rirq := rirq R1 AND NOT (push_bit 6 1)\<rparr>) R2" and 3: "arrivals A R2 R3"
    have "stream A c T (n\<lparr>recvq := q\<rparr>) (R\<lparr>rxf := ps\<rparr>)"
      using stream_push [OF Suc.prems(1) R nb(1) q] that(1) by simp
    from stream_arrivals [OF this R1 A] have "stream A c T (n\<lparr>recvq := q\<rparr>) (R1\<lparr>rirq := rirq R1 AND NOT (push_bit 6 1)\<rparr>)"
      by (rule stream_same_rxf) simp_all
    from stream_arrivals [OF stream_arrivals [OF this 2 A] 3 A] have s: "stream A c T (n\<lparr>recvq := q\<rparr>) R3" .
    show "wp st (if rxf R2 = [] then ret (res + 1, n\<lparr>recvq := q\<rparr>) else get_pkts_loop k H (n\<lparr>recvq := q\<rparr>) (res + 1))
        (\<lambda>(res', n') R'. stream A c T n' R') stuck_or_panic R3"
    proof (cases "rxf R2 = []")
      case True
      with s show ?thesis by (simp add: wp_ret)
    next
      case False
      with 3 have "rxf R3 \<noteq> []" by (auto simp: arrivals_def)
      with False Suc.IH [OF s this] show ?thesis by simp
    qed
  qed
  show ?case
    unfolding get_pkts_loop.simps c(1)
    by (intro wp_bnd wp_payload [OF ok R c(2) nb])
      (use q c nb more in \<open>auto intro!: wp_thn wp_check wp_fails wp_bnd wp_ret simp: Let_def\<close>)
qed

lemma wp_in_rx_config:
  assumes "radio_ok H st rel" "rreg R NRF_CONFIG = rx_config" "\<And>R'. rel R R' \<Longrightarrow> Q () R'"
  shows "wp st (nrf_opt_assert H n (in_rx_config H n)) Q E R"
  unfolding in_rx_config_def
  by (intro wp_opt_assert wp_bnd wp_get8 [OF assms(1)]) (use assms(2) in \<open>auto intro!: wp_ret assms(3)\<close>)

lemma get_pkts_stream:
  assumes ok: "radio_ok H st (arrivals A)" and A: "\<forall>p \<in> A. length p = unat (nbytes c)"
    and nb: "0 < unat (nbytes c)" "unat (nbytes c) \<le> 32" and s: "stream A c T n R"
  shows "wp st (nrf_get_pkts H n) (\<lambda>(res, n') R'. stream A c T n' R') stuck_or_panic R"
proof -
  note arr = stream_arrivals [OF _ _ A]
  have cfg: "wp st (nrf_opt_assert H n (in_rx_config H n)) Q stuck_or_panic R1"
    if "stream A c T n R1" "\<And>R2. stream A c T n R2 \<Longrightarrow> Q () R2" for n R1 Q
    using that by (intro wp_in_rx_config [OF ok]) (auto simp: stream_def [of _ _ _ n R1] intro!: that(2) arr [OF that(1)])
  have read: "wp st (bnd (get_pkts_loop (rounds H) H n 0) (\<lambda>(res, n). thn (nrf_opt_assert H n (in_rx_config H n)) (ret (res, n))))
      (\<lambda>(res, n') R'. stream A c T n' R') stuck_or_panic R2" if "stream A c T n R2" "rxf R2 \<noteq> []" for R2
    by (intro wp_bnd, rule wp_conseq [OF get_pkts_loop_stream [OF ok A nb that]])
      (auto intro!: wp_thn cfg wp_ret)
  show ?thesis
    unfolding nrf_get_pkts_def nrf_rx_has_packet_def
  proof (intro wp_thn wp_bnd wp_negated cfg [OF s] wp_rx_fifo_empty [OF ok])
    fix R2 R3 assume s2: "stream A c T n R2" and a: "arrivals A R2 R3"
    then have s3: "stream A c T n R3" by (rule arr)
    have "rxf R3 \<noteq> []" if "rxf R2 \<noteq> []" using a that by (auto simp: arrivals_def)
    then show "wp st (if \<not> rxf R2 \<noteq> [] then ret (0, n) else bnd (get_pkts_loop (rounds H) H n 0)
        (\<lambda>(res, n). thn (nrf_opt_assert H n (in_rx_config H n)) (ret (res, n))))
        (\<lambda>(res, n') R'. stream A c T n' R') stuck_or_panic R3"
      using s3 by (intro wp_if read) (auto intro: wp_ret)
  qed
qed

text \<open>C8. Receiving loses, duplicates and reorders nothing: when \<open>nrf_get_pkts\<close> returns, the bytes in the receive
  queue followed by the packets still in the radio are those that were there before, in order, followed by the
  packets that arrived meanwhile, however many and whenever they arrived. It can only fail with a panic, when the
  queue is full, or keep reading as long as packets arrive faster than it reads them.\<close>

theorem nrf_get_pkts_stream:
  assumes "radio_ok H st (arrivals A)" "\<forall>p \<in> A. length p = unat (nbytes (config n))"
    "0 < unat (nbytes (config n))" "unat (nbytes (config n)) \<le> 32" "cq_inv CQ_N (recvq n)"
    "\<forall>p \<in> set (rxf (st d)). length p = unat (nbytes (config n))" "rreg (st d) NRF_CONFIG = rx_config"
  shows "case nrf_get_pkts H n d of
      Inl e \<Rightarrow> e = Stuck \<or> e = Panic
    | Inr ((res, n'), d') \<Rightarrow> \<exists>ps. set ps \<subseteq> A \<and>
        cq_items (recvq n') @ concat (rxf (st d')) = cq_items (recvq n) @ concat (rxf (st d)) @ concat ps"
proof -
  let ?T = "cq_items (recvq n) @ concat (rxf (st d))"
  have "cq_items (recvq n) @ concat (rxf (st d)) = ?T @ concat []" by simp
  then have "stream A (config n) ?T n (st d)"
    using assms(5-7) unfolding stream_def by (metis empty_set empty_subsetI)
  from get_pkts_stream [OF assms(1-4) this] have w: "wp st (nrf_get_pkts H n)
    (\<lambda>(res, n') R'. stream A (config n) ?T n' R') stuck_or_panic (st d)" .
  show ?thesis
  proof (cases "nrf_get_pkts H n d")
    case (Inl e)
    with w show ?thesis by (auto simp: wp_def stuck_or_panic_def)
  next
    case (Inr x)
    obtain r n' d' where "x = ((r, n'), d')" by (cases x) auto
    with w Inr show ?thesis by (auto simp: wp_def stream_def)
  qed
qed

definition demo_nic :: nrf_t where
  "demo_nic = (nrf_zero demo_conf)\<lparr>spi := \<lparr>spi_chip_n = 0, spi_div = 20\<rparr>, rxaddr := 0xe5e5e5\<rparr>"

definition radio_two :: radio where
  "radio_two = radio_off\<lparr>rreg := (\<lambda>r. 0)(NRF_CONFIG := rx_config), rxf := [[1, 2, 3, 4], [5, 6, 7, 8]]\<rparr>"

lemma demo_nic_queue: "cq_inv CQ_N (recvq demo_nic)" "cq_cnt (recvq demo_nic) = 0" "cq_items (recvq demo_nic) = []"
    "config demo_nic = demo_conf" "nbytes demo_conf = 4"
  by (simp_all add: demo_nic_def nrf_zero_def cq_inv_def CQ_N_def cq_cnt_def ring_cnt_def cq_items_def ring_list_def demo_conf_def)

theorem nrf_get_pkts_stream_witness:
  "case nrf_get_pkts (sim_hw id) demo_nic (0, radio_two) of
      Inl e \<Rightarrow> e = Stuck \<or> e = Panic
    | Inr ((res, n'), d') \<Rightarrow> cq_items (recvq n') @ concat (rxf (snd d')) = [1, 2, 3, 4, 5, 6, 7, 8]"
proof -
  have "radio_ok (sim_hw id) snd (arrivals {})" by (rule sim_radio_ok) (auto simp: arrivals_def)
  from nrf_get_pkts_stream [OF this, of demo_nic "(0, radio_two)"] demo_nic_queue
  show ?thesis by (auto simp: radio_two_def split: sum.splits)
qed

section \<open>Reading\<close>

text \<open>On a radio where nothing arrives meanwhile, reading ends with the FIFO drained.\<close>

definition drained :: "nrf_conf_t \<Rightarrow> u8 list \<Rightarrow> nrf_t \<Rightarrow> radio \<Rightarrow> bool" where
  "drained c T n R \<longleftrightarrow> rreg R NRF_CONFIG = rx_config \<and> config n = c \<and> cq_inv CQ_N (recvq n) \<and>
     cq_items (recvq n) = T \<and> rxf R = []"

lemma get_pkts_loop_drains:
  assumes ok: "radio_ok H st (=)" and c: "0 < unat (nbytes c)" "unat (nbytes c) \<le> 32"
  shows "rxf R = p # ps \<Longrightarrow> \<forall>p \<in> set (rxf R). length p = unat (nbytes c) \<Longrightarrow> length ps < k \<Longrightarrow>
    rreg R NRF_CONFIG = rx_config \<Longrightarrow> config n = c \<Longrightarrow> cq_inv CQ_N (recvq n) \<Longrightarrow>
    cq_cnt (recvq n) + length (concat (rxf R)) \<le> 8191 \<Longrightarrow>
    wp st (get_pkts_loop k H n res) (\<lambda>(res', n') R'. res' = res + word_of_nat (length (rxf R)) \<and>
      drained c (cq_items (recvq n) @ concat (rxf R)) n' R') never R"
proof (induction ps arbitrary: p k n R res)
  case (Nil p)
  then obtain k' where k: "k = Suc k'" by (cases k) auto
  from Nil c have p: "length p = unat (nbytes c)" "p \<noteq> []" "length p < 2 ^ 32" by auto
  from cq_push_n_spec [OF size_ok_CQ_N Nil(6) p(2,3)] Nil(1,7) obtain q where
    q: "cq_push_n CQ_N (recvq n) p = Inr (True, q)" "cq_inv CQ_N q" "cq_items q = cq_items (recvq n) @ p"
    by (auto simp: CQ_N_def split: if_splits)
  show ?case
    unfolding k get_pkts_loop.simps Nil(5)
    by (intro wp_bnd wp_payload [OF ok Nil(1) p(1) c])
      (use p c q Nil in \<open>auto intro!: wp_thn wp_check wp_bnd wp_ret wp_if wp_rx_clr [OF ok] idle_fifo [OF ok]
        simp: Let_def drained_def\<close>)
next
  case (Cons p2 ps p)
  then obtain k' where k: "k = Suc k'" by (cases k) auto
  from Cons.prems c have p: "length p = unat (nbytes c)" "p \<noteq> []" "length p < 2 ^ 32" by auto
  from cq_push_n_spec [OF size_ok_CQ_N Cons.prems(6) p(2,3)] Cons.prems(1,7) obtain q where
    q: "cq_push_n CQ_N (recvq n) p = Inr (True, q)" "cq_inv CQ_N q" "cq_items q = cq_items (recvq n) @ p"
    by (auto simp: CQ_N_def split: if_splits)
  let ?R = "R\<lparr>rxf := p2 # ps, rirq := rirq R AND - 65\<rparr>" and ?n = "n\<lparr>recvq := q\<rparr>"
  have cnt: "cq_cnt q + length (concat (p2 # ps)) \<le> 8191"
    using length_cq_items [of q] length_cq_items [of "recvq n"] q(3) Cons.prems(1,7) by simp
  have IH: "wp st (get_pkts_loop k' H ?n (res + 1)) (\<lambda>(res', n') R'. res' = res + 1 + word_of_nat (length (p2 # ps)) \<and>
      drained c (cq_items q @ concat (p2 # ps)) n' R') never ?R"
    using Cons.IH [of ?R p2 k' ?n "res + 1"] Cons.prems q k cnt by simp
  have IH': "wp st (get_pkts_loop k' H ?n (res + 1)) (\<lambda>(res', n') R'. res' = res + (2 + word_of_nat (length ps)) \<and>
      drained c (cq_items (recvq n) @ p @ p2 @ concat ps) n' R') never ?R"
    by (rule wp_conseq [OF IH]) (auto simp: q(3))
  show ?case
    unfolding k get_pkts_loop.simps Cons.prems(5)
    by (intro wp_bnd wp_payload [OF ok Cons.prems(1) p(1) c])
      (use p c q in \<open>auto intro!: wp_thn wp_check wp_bnd wp_ret wp_if wp_rx_clr [OF ok] idle_fifo [OF ok]
        IH' simp: Let_def Cons.prems(1)\<close>)
qed

lemma get_pkts_drains:
  assumes ok: "radio_ok H st (=)" and c: "0 < unat (nbytes c)" "unat (nbytes c) \<le> 32"
    and R: "\<forall>p \<in> set (rxf R). length p = unat (nbytes c)" "length (rxf R) \<le> rounds H"
      "rreg R NRF_CONFIG = rx_config"
    and n: "config n = c" "cq_inv CQ_N (recvq n)" "cq_cnt (recvq n) + length (concat (rxf R)) \<le> 8191"
  shows "wp st (nrf_get_pkts H n) (\<lambda>(res, n') R'. res = word_of_nat (length (rxf R)) \<and>
    drained c (cq_items (recvq n) @ concat (rxf R)) n' R' \<and> (rxf R = [] \<longrightarrow> n' = n)) never R"
proof (cases "rxf R")
  case Nil
  with R n show ?thesis
    unfolding nrf_get_pkts_def nrf_rx_has_packet_def in_rx_config_def
    by (intro wp_rules wp_opt_assert idle_get [OF ok] idle_fifo [OF ok] conjI) (simp_all add: cfg_regs drained_def)
next
  case (Cons p ps)
  have "length ps < rounds H" using R(2) Cons by simp
  note loop = get_pkts_loop_drains [OF ok c Cons R(1) this R(3) n]
  show ?thesis
    unfolding nrf_get_pkts_def nrf_rx_has_packet_def in_rx_config_def
    by (intro wp_thn wp_bnd wp_negated wp_opt_assert idle_get [OF ok] idle_fifo [OF ok] wp_ret conjI)
      (use R n in \<open>auto simp: Cons drained_def intro!: wp_if wp_bnd wp_thn wp_ret wp_opt_assert idle_get [OF ok]
        wp_conseq [OF loop]\<close>)
qed

lemma word_of_nat_0_iff: "k < 4294967296 \<Longrightarrow> (word_of_nat k :: u32) = 0 \<longleftrightarrow> k = 0"
  using unat_nat_u32 [of k] by (simp only: unat_eq_0 [symmetric])

lemma packets_few: "\<forall>p \<in> set ps. length p = k \<Longrightarrow> 0 < k \<Longrightarrow> length ps \<le> length (concat ps)"
  by (induction ps) auto

lemma get_all_pkts_drains:
  assumes ok: "radio_ok H st (=)" and c: "0 < unat (nbytes c)" "unat (nbytes c) \<le> 32"
    and R: "\<forall>p \<in> set (rxf R). length p = unat (nbytes c)" "length (rxf R) \<le> rounds H"
      "rreg R NRF_CONFIG = rx_config"
    and n: "config n = c" "cq_inv CQ_N (recvq n)" "cq_cnt (recvq n) + length (concat (rxf R)) \<le> 8191" "1 < k"
  shows "wp st (get_all_pkts k H n) (\<lambda>n' R'. drained c (cq_items (recvq n) @ concat (rxf R)) n' R') never R"
proof -
  obtain k' where k: "k = Suc (Suc k')" using n(4) by (auto simp: less_iff_Suc_add)
  have few: "length (rxf R) < 4294967296" using packets_few [OF R(1) c(1)] n(3) by linarith
  have again: "wp st (get_all_pkts (Suc k') H n') (\<lambda>n' R'. drained c T n' R') never R'" if d: "drained c T n' R'" for T n' R'
  proof -
    have "cq_cnt (recvq n') \<le> 8191" using cq_cnt_less [of CQ_N "recvq n'"] d by (simp add: drained_def CQ_N_def)
    then have "wp st (nrf_get_pkts H n') (\<lambda>(res, n'') R''. res = word_of_nat (length (rxf R')) \<and>
        drained c (cq_items (recvq n') @ concat (rxf R')) n'' R'' \<and> (rxf R' = [] \<longrightarrow> n'' = n')) never R'"
      using d by (intro get_pkts_drains [OF ok c]) (simp_all add: drained_def)
    then show ?thesis
      using d unfolding get_all_pkts.simps
      by (intro wp_bnd, elim wp_conseq) (auto intro!: wp_ret simp: drained_def)
  qed
  show ?thesis
    unfolding k get_all_pkts.simps(2) [of "Suc k'"]
    by (intro wp_bnd, rule wp_conseq [OF get_pkts_drains [OF ok c R n(1-3)]])
      (auto intro!: wp_if wp_ret again)
qed

text \<open>Reading exactly \<open>nb\<close> bytes: with \<open>nb\<close> bytes in the queue and the radio together the call takes the oldest
  \<open>nb\<close> of them, in order, and keeps the others; with fewer it returns 0 and keeps them all. It ends, fails no
  assertion, and empties the radio's FIFO.\<close>

theorem nrf_read_exact_takes_oldest:
  assumes "radio_ok H st (=)" "0 < unat (nbytes (config n))" "unat (nbytes (config n)) \<le> 32"
    "\<forall>p \<in> set (rxf (st d)). length p = unat (nbytes (config n))" "length (rxf (st d)) \<le> rounds H" "1 < rounds H"
    "rreg (st d) NRF_CONFIG = rx_config" "cq_inv CQ_N (recvq n)"
    "cq_cnt (recvq n) + length (concat (rxf (st d))) \<le> 8191" "0 < nb"
  shows "\<exists>r n' d'. nrf_read_exact_noblk H n nb d = Inr ((r, n'), d') \<and> rxf (st d') = [] \<and>
    (let T = cq_items (recvq n) @ concat (rxf (st d)) in
     if unat nb \<le> length T then r = Some (take (unat nb) T) \<and> cq_items (recvq n') = drop (unat nb) T
     else r = None \<and> cq_items (recvq n') = T)"
proof -
  let ?T = "cq_items (recvq n) @ concat (rxf (st d))"
  have pop: "wp st (if cq_nelem CQ_N (recvq n1) < nb then ret (None, n1)
      else bnd (lft (cq_pop_n CQ_N False [] (recvq n1) (unat nb))) (\<lambda>(msg, irqs, q). ret (Some msg, n1\<lparr>recvq := q\<rparr>)))
      (\<lambda>(r, n') R'. rxf R' = [] \<and> (if unat nb \<le> length ?T then r = Some (take (unat nb) ?T) \<and>
         cq_items (recvq n') = drop (unat nb) ?T else r = None \<and> cq_items (recvq n') = ?T)) never R1"
    if d1: "drained (config n) ?T n1 R1" for n1 R1
  proof -
    have q: "cq_inv CQ_N (recvq n1)" "cq_items (recvq n1) = ?T" "rxf R1 = []" using d1 by (simp_all add: drained_def)
    have len: "unat (cq_nelem CQ_N (recvq n1)) = length ?T" "cq_cnt (recvq n1) = length ?T"
      using cq_nelem_eq [OF size_ok_CQ_N q(1)] length_cq_items [of "recvq n1"] q(2) by simp_all
    show ?thesis
    proof (cases "unat nb \<le> length ?T")
      case True
      with len have "\<not> cq_nelem CQ_N (recvq n1) < nb" by (simp add: word_less_nat_alt)
      moreover obtain q' where "cq_pop_n_noblk CQ_N False [] (recvq n1) nb = Inr (Some (take (unat nb) ?T), [], q')"
        "cq_items q' = drop (unat nb) ?T"
        using cq_pop_n_noblk_spec [OF size_ok_CQ_N q(1), of nb False "[]"] True len(2) q(2) by auto
      ultimately have "cq_pop_n CQ_N False [] (recvq n1) (unat nb) = Inr (take (unat nb) ?T, [], q')"
        by (auto simp: cq_pop_n_noblk_def seq_eq_Inr)
      with \<open>\<not> cq_nelem CQ_N (recvq n1) < nb\<close> \<open>cq_items q' = drop (unat nb) ?T\<close> True q(3) show ?thesis
        by (auto intro!: wp_bnd wp_ret)
    next
      case False
      with len q show ?thesis by (auto simp: word_less_nat_alt intro!: wp_ret)
    qed
  qed
  have avail: "wp st (nrf_nbytes_avail H n) (\<lambda>(avail, n1) R1. avail = cq_nelem CQ_N (recvq n1) \<and>
      drained (config n) ?T n1 R1) never (st d)"
    unfolding nrf_nbytes_avail_def
    by (intro wp_bnd, rule wp_conseq [OF get_all_pkts_drains [OF assms(1-5,7) refl assms(8,9,6)]])
      (auto intro: wp_ret)
  have "wp st (nrf_read_exact_noblk H n nb) (\<lambda>(r, n') R'. rxf R' = [] \<and>
      (if unat nb \<le> length ?T then r = Some (take (unat nb) ?T) \<and> cq_items (recvq n') = drop (unat nb) ?T
       else r = None \<and> cq_items (recvq n') = ?T)) never (st d)" (is "wp st _ ?P never _")
    unfolding nrf_read_exact_noblk_def
  proof (intro wp_thn wp_check wp_bnd, rule wp_conseq [OF avail])
    fix x R1
    assume x: "(case x of (avail, n1) \<Rightarrow> \<lambda>R1. avail = cq_nelem CQ_N (recvq n1) \<and> drained (config n) ?T n1 R1) R1"
    show "wp st (case x of (avail, n1) \<Rightarrow> if avail < nb then ret (None, n1)
        else bnd (lft (cq_pop_n CQ_N False [] (recvq n1) (unat nb))) (\<lambda>(msg, irqs, q). ret (Some msg, n1\<lparr>recvq := q\<rparr>)))
        ?P never R1"
    proof (cases x)
      case (Pair avail n1)
      with x have "drained (config n) ?T n1 R1" "avail = cq_nelem CQ_N (recvq n1)" by auto
      with pop [OF this(1)] Pair show ?thesis by simp
    qed
  qed (use assms(10) in auto)
  from wp_total [OF this] show ?thesis by (auto simp: Let_def)
qed

theorem nrf_read_exact_takes_oldest_witness:
  "\<exists>n' d'. nrf_read_exact_noblk (sim_hw id) demo_nic 6 (0, radio_two) = Inr ((Some [1, 2, 3, 4, 5, 6], n'), d') \<and>
    cq_items (recvq n') = [7, 8]"
proof -
  have "rounds (sim_hw id) = 100001" by (simp add: sim_hw_def)
  with nrf_read_exact_takes_oldest [OF sim_idle, of demo_nic "(0, radio_two)" 6] demo_nic_queue show ?thesis
    by (auto simp: radio_two_def Let_def)
qed

section \<open>Sending\<close>

text \<open>A radio that changes by itself as a function \<open>f\<close> says.\<close>

definition evolves :: "(radio \<Rightarrow> radio) \<Rightarrow> evolution" where
  "evolves f R R' \<longleftrightarrow> R' = f R"

lemma det_put: "radio_ok H st (evolves f) \<Longrightarrow> cfg_reg r \<Longrightarrow> Q () (f (f (R\<lparr>rreg := (rreg R)(r := v)\<rparr>))) \<Longrightarrow> wp st (put_chk H n r v) Q E R"
  by (rule wp_put_chk [where rel = "evolves f"]) (auto simp: evolves_def)

lemma det_bit: "radio_ok H st (evolves f) \<Longrightarrow> cfg_reg r \<Longrightarrow> b < 32 \<Longrightarrow> Q (bit (rreg R r) (unat b)) (f R) \<Longrightarrow> wp st (reg_bit H n r b) Q E R"
  by (rule wp_reg_bit [where rel = "evolves f"]) (auto simp: evolves_def)

lemma det_get: "radio_ok H st (evolves f) \<Longrightarrow> cfg_reg r \<Longrightarrow> Q (rreg R r) (f R) \<Longrightarrow> wp st (nrf_get8 H n r) Q E R"
  by (rule wp_get8 [where rel = "evolves f"]) (auto simp: evolves_def)

lemma det_addr: "radio_ok H st (evolves f) \<Longrightarrow> addr_reg r \<Longrightarrow> unat a < 16777216 \<Longrightarrow>
    Q () (f (f (R\<lparr>raddr := (raddr R)(r := take 3 (le_bytes a))\<rparr>))) \<Longrightarrow> wp st (nrf_set_addr H n r a nrf_default_addr_nbytes) Q E R"
  by (rule wp_set_addr [where rel = "evolves f"]) (auto simp: evolves_def)

lemma det_fifo: "radio_ok H st (evolves f) \<Longrightarrow> Q (rxf R = []) (f R) \<Longrightarrow> wp st (nrf_rx_fifo_empty H n) Q E R"
    "radio_ok H st (evolves f) \<Longrightarrow> Q (txf R = []) (f R) \<Longrightarrow> wp st (nrf_tx_fifo_empty H n) Q E R"
  by (rule wp_rx_fifo_empty [where rel = "evolves f"], auto simp: evolves_def)
    (rule wp_tx_fifo_empty [where rel = "evolves f"], auto simp: evolves_def)

lemma det_irq: "radio_ok H st (evolves f) \<Longrightarrow> Q (bit (rirq R) 4) (f R) \<Longrightarrow> wp st (nrf_has_max_rt_intr H n) Q E R"
    "radio_ok H st (evolves f) \<Longrightarrow> Q (bit (rirq R) 5) (f R) \<Longrightarrow> wp st (nrf_has_tx_intr H n) Q E R"
  by (rule wp_has_max_rt [where rel = "evolves f"], auto simp: evolves_def)
    (rule wp_has_tx [where rel = "evolves f"], auto simp: evolves_def)

lemma det_clr: "radio_ok H st (evolves f) \<Longrightarrow> Q () (f (R\<lparr>rirq := rirq R AND NOT (push_bit 5 1)\<rparr>)) \<Longrightarrow> wp st (nrf_tx_intr_clr H n) Q E R"
  unfolding nrf_tx_intr_clr_def by (rule wp_status_put [where rel = "evolves f"]) (auto simp: evolves_def)

lemma det_send:
  assumes "radio_ok H st (evolves f)" "msg \<noteq> []" "length msg \<le> 32" "\<And>a. Q a (f (R\<lparr>txf := txf R @ [msg]\<rparr>))"
  shows "wp st (nrf_putn H n NRF_W_TX_PAYLOAD msg) Q E R"
proof -
  have "(0b10100000 :: u8) = 0xA0" by simp
  then have a: "answers H st (evolves f) (0b10100000 # msg) R (\<lambda>_. True) (R\<lparr>txf := txf R @ [msg]\<rparr>)"
    using ok_send [OF assms(1-3)] by simp
  show ?thesis
    unfolding nrf_putn_def NRF_W_TX_PAYLOAD_def
    by (intro wp_thn wp_check wp_bnd wp_transfer [OF a]) (use assms(2-4) in \<open>auto intro!: wp_ret simp: evolves_def\<close>)
qed

lemmas det_rules = det_put det_bit det_addr det_fifo det_irq det_clr det_get

lemma wp_ce:
  assumes "env_ok H st" "ce = 6 \<or> ce = 5" "\<And>x. Q x R"
  shows "wp st (ce_lo H ce) Q E R" "wp st (ce_hi H ce) Q E R"
  unfolding ce_lo_def ce_hi_def
  by (intro wp_thn wp_check wp_env [OF assms(1)]; use assms(2,3) in simp)
    (intro wp_thn wp_check wp_env [OF assms(1)]; use assms(2,3) in simp)

text \<open>The radio sends what is in its FIFO as soon as it is in transmit mode: to a peer that acknowledges, or to one that
  does not, in which case it raises \<open>MAX_RT\<close> and keeps the packet.\<close>

definition to_peer :: "radio \<Rightarrow> radio" where
  "to_peer R = (if txf R \<noteq> [] \<and> rreg R NRF_CONFIG = tx_config
     then R\<lparr>sent := sent R @ txf R, txf := [], rirq := rirq R OR 0x20\<rparr> else R)"

definition to_nobody :: "radio \<Rightarrow> radio" where
  "to_nobody R = (if txf R \<noteq> [] \<and> rreg R NRF_CONFIG = tx_config then R\<lparr>rirq := rirq R OR 0x10\<rparr> else R)"

lemma to_nobody_keeps [simp]: "rreg (to_nobody R) = rreg R" "raddr (to_nobody R) = raddr R" "txf (to_nobody R) = txf R"
    "rxf (to_nobody R) = rxf R" "sent (to_nobody R) = sent R"
  by (simp_all add: to_nobody_def)

lemma to_peer_keeps [simp]: "rreg (to_peer R) = rreg R" "raddr (to_peer R) = raddr R" "rxf (to_peer R) = rxf R"
  by (simp_all add: to_peer_def)

definition ready_to_send :: "radio \<Rightarrow> bool" where
  "ready_to_send R \<longleftrightarrow> rreg R NRF_CONFIG = rx_config \<and> rreg R NRF_EN_AA = 3 \<and> rreg R NRF_EN_RXADDR = 3 \<and>
     txf R = [] \<and> rxf R = [] \<and> rirq R AND 0x30 = 0"

lemma wp_acked_det:
  assumes "radio_ok H st (evolves f)" "ready_to_send R" "f R = R" "Q () R"
  shows "wp st (acked_state H n) Q E R"
  unfolding acked_state_def in_rx_config_def nrf_pipe_is_acked_def nrf_pipe_is_enabled_def
  by (intro wp_rules wp_opt_assert conjI det_rules [OF assms(1)])
    (use assms(2-4) in \<open>simp_all add: ready_to_send_def bit_iff_odd\<close>)

lemma wp_get_none:
  assumes "radio_ok H st (evolves f)" "ready_to_send R" "f R = R" "Q n R" "0 < k"
  shows "wp st (get_all_pkts k H n) Q E R"
proof -
  obtain k' where k: "k = Suc k'" using assms(5) by (cases k) auto
  show ?thesis
    unfolding k get_all_pkts.simps nrf_get_pkts_def nrf_rx_has_packet_def in_rx_config_def
    by (intro wp_rules wp_opt_assert conjI det_rules [OF assms(1)])
      (use assms(2-4) in \<open>auto simp: ready_to_send_def intro!: wp_ret\<close>)
qed

lemma tx_not_rx: "tx_config \<noteq> rx_config" "bit tx_config 0 = False" "bit rx_config 0"
  by (simp_all add: tx_config_def rx_config_def bit_iff_odd)

lemma send_ack_to_nobody:
  assumes ok: "radio_ok H st (evolves to_nobody)" and env: "env_ok H st" and R: "ready_to_send R"
    and msg: "msg \<noteq> []" "length msg \<le> 32" and a: "unat a < 16777216" and ce: "ce_pin (config n) = 6 \<or> ce_pin (config n) = 5"
    and k: "0 < rounds H"
  shows "wp st (nrf_tx_send_ack H n a msg) (\<lambda>_ _. False) (\<lambda>e. e = Stuck) R"
proof -
  have poll: "wp st (poll k (nrf_tx_fifo_empty H n)) (\<lambda>_ _. False) (\<lambda>e. e = Stuck) R'" if "txf R' \<noteq> []" for k R'
    using that
  proof (induction k arbitrary: R')
    case 0
    show ?case unfolding poll.simps by (rule wp_fails) simp
  next
    case (Suc k)
    moreover have "txf (to_nobody R') \<noteq> []" using Suc.prems by (simp add: to_nobody_def)
    ultimately show ?case
      unfolding poll.simps by (intro wp_bnd det_rules [OF ok]) simp
  qed
  have id: "to_nobody R' = R'" if "txf R' = [] \<or> rreg R' NRF_CONFIG = rx_config" for R'
    using that tx_not_rx(1) by (auto simp: to_nobody_def)
  show ?thesis
    unfolding nrf_tx_send_ack_def nrf_tx_mode_def nrf_is_tx_def nrf_is_rx_def PRIM_RX_def
    by (intro wp_thn wp_acked_det [OF ok R] wp_bnd wp_get_none [OF ok R] wp_run_all_Cons wp_run_all_Nil wp_void
          det_send [OF ok msg] det_rules [OF ok] wp_ce [OF env ce] wp_env [OF env] wp_opt_assert wp_negated conjI
          wp_conseq [OF poll])
      (use R a k in \<open>auto simp: id ready_to_send_def tx_not_rx\<close>)
qed


text \<open>Sending to a peer that does not acknowledge never returns: the radio raises \<open>MAX_RT\<close> and keeps the packet,
  the driver waits for an empty FIFO first, so it spins for however many rounds and never reaches the panic after
  the loop that checks \<open>MAX_RT\<close>.\<close>

theorem nrf_send_ack_spins_on_max_rt:
  assumes "radio_ok H st (evolves to_nobody)" "env_ok H st" "ready_to_send (st d)"
    "msg \<noteq> []" "length msg \<le> 32" "unat a < 16777216" "ce_pin (config n) = 6 \<or> ce_pin (config n) = 5"
    "0 < rounds H"
  shows "nrf_tx_send_ack H n a msg d = Inl Stuck"
proof (cases "nrf_tx_send_ack H n a msg d")
  case (Inl e)
  with send_ack_to_nobody [OF assms] show ?thesis by (auto simp: wp_def)
next
  case (Inr x)
  with send_ack_to_nobody [OF assms] show ?thesis by (cases x) (auto simp: wp_def)
qed

definition radio_listening :: radio where
  "radio_listening = radio_off\<lparr>rreg := (\<lambda>r. 0)(NRF_CONFIG := rx_config, NRF_EN_AA := 3, NRF_EN_RXADDR := 3)\<rparr>"

lemma listening_ready: "ready_to_send radio_listening"
  by (simp add: ready_to_send_def radio_listening_def radio_off_def nrf_regs)

lemma sim_evolves:
  assumes "\<And>R. rreg (f R) = rreg R" "\<And>R. raddr (f R) = raddr R"
  shows "radio_ok (sim_hw f) snd (evolves f)"
  using assms by (intro sim_radio_ok) (auto simp: evolves_def)

lemma sim_env: "env_ok (sim_hw f) snd" "0 < rounds (sim_hw f)"
  by (use sim_env_ok in \<open>simp add: env_ok_def sim_hw_def\<close>) (simp add: sim_hw_def)

theorem nrf_send_ack_spins_on_max_rt_witness:
  "nrf_tx_send_ack (sim_hw to_nobody) demo_nic 0xd5d5d5 [1, 2, 3, 4] (0, radio_listening) = Inl Stuck"
  using nrf_send_ack_spins_on_max_rt [OF sim_evolves [of to_nobody, OF to_nobody_keeps(1,2)] sim_env(1),
      of "(0, radio_listening)" "[1, 2, 3, 4]" "0xd5d5d5" demo_nic] listening_ready sim_env(2)
  by (simp add: demo_nic_def nrf_zero_def demo_conf_def)

subsection \<open>To a peer that listens\<close>

lemma irq_after_send:
  assumes "(x :: u8) AND 0x30 = 0"
  shows "\<not> bit x 4" "\<not> bit x 5" "((x OR 0x20) AND - 33) AND 0x30 = 0"
proof -
  have "bit (x AND 0x30) 4 = False" "bit (x AND 0x30) 5 = False" using assms by simp_all
  then show "\<not> bit x 4" "\<not> bit x 5" by (simp_all add: bit_and_iff)
  have "(x OR 0x20) AND - 33 = x AND - 33" by (simp add: bit.conj_disj_distrib2)
  then have "((x OR 0x20) AND - 33) AND 0x30 = (x AND 0x30) AND - 33" by (simp only: ac_simps)
  with assms show "((x OR 0x20) AND - 33) AND 0x30 = 0" by simp
qed

lemma to_peer_id: "txf R = [] \<or> rreg R NRF_CONFIG = rx_config \<Longrightarrow> to_peer R = R"
  using tx_not_rx(1) by (auto simp: to_peer_def)

lemma to_peer_sends: "txf R \<noteq> [] \<Longrightarrow> rreg R NRF_CONFIG = tx_config \<Longrightarrow>
    to_peer R = R\<lparr>sent := sent R @ txf R, txf := [], rirq := rirq R OR 0x20\<rparr>"
  by (simp add: to_peer_def)

definition after_send :: "u8 list \<Rightarrow> radio \<Rightarrow> radio" where
  "after_send msg R = R\<lparr>rreg := (rreg R)(NRF_CONFIG := tx_config), sent := sent R @ [msg], txf := [], rirq := rirq R OR 0x20\<rparr>"

lemma tx_mode_sends:
  assumes ok: "radio_ok H st (evolves to_peer)" and env: "env_ok H st" and ce: "ce_pin (config n) = 6 \<or> ce_pin (config n) = 5"
    and R: "txf R = [msg]" and Q: "Q () (after_send msg R)"
  shows "wp st (nrf_tx_mode H n) Q never R"
proof -
  have put: "to_peer (R\<lparr>rreg := (rreg R)(NRF_CONFIG := tx_config)\<rparr>) = after_send msg R"
    using R by (simp add: to_peer_sends after_send_def)
  have stay: "to_peer (after_send msg R) = after_send msg R" by (simp add: to_peer_id after_send_def)
  show ?thesis
    unfolding nrf_tx_mode_def nrf_is_tx_def nrf_is_rx_def PRIM_RX_def
    by (intro wp_run_all_Cons wp_run_all_Nil det_rules [OF ok] wp_ce [OF env ce] wp_env [OF env] wp_opt_assert
        wp_negated; simp add: put stay Q tx_not_rx)
      (use Q in \<open>simp add: after_send_def tx_not_rx wp_ret\<close>)
qed

lemma rx_mode_stays:
  assumes ok: "radio_ok H st (evolves to_peer)" and env: "env_ok H st" and ce: "ce_pin (config n) = 6 \<or> ce_pin (config n) = 5"
    and R: "txf R = []" and Q: "Q () (R\<lparr>rreg := (rreg R)(NRF_CONFIG := rx_config)\<rparr>)"
  shows "wp st (nrf_rx_mode H n) Q never R"
  unfolding nrf_rx_mode_def nrf_is_rx_def PRIM_RX_def
  by (intro wp_run_all_Cons wp_run_all_Nil det_rules [OF ok] wp_ce [OF env ce] wp_env [OF env] wp_opt_assert conjI)
    (simp_all add: to_peer_id R Q tx_not_rx)

lemma send_ack_to_peer:
  assumes ok: "radio_ok H st (evolves to_peer)" and env: "env_ok H st" and R: "ready_to_send R"
    and msg: "msg \<noteq> []" "length msg \<le> 32" and a: "unat a < 16777216" and ce: "ce_pin (config n) = 6 \<or> ce_pin (config n) = 5"
    and k: "0 < rounds H"
  shows "wp st (nrf_tx_send_ack H n a msg) (\<lambda>(r, n') R'. r = word_of_nat (length msg) \<and> n' = n \<and>
     rreg R' NRF_CONFIG = rx_config \<and> txf R' = [] \<and> sent R' = sent R @ [msg] \<and>
     raddr R' NRF_TX_ADDR = take 3 (le_bytes a) \<and> rirq R' AND 0x30 = 0) never R"
proof -
  have id: "to_peer R = R" using R by (simp add: to_peer_id ready_to_send_def)
  let ?R1 = "R\<lparr>raddr := (raddr R)(NRF_RX_ADDR_P0 := take 3 (le_bytes a), NRF_TX_ADDR := take 3 (le_bytes a)), txf := [msg]\<rparr>"
  have R1: "txf R = []" "rreg R NRF_CONFIG = rx_config" "rirq R AND 0x30 = 0" using R by (simp_all add: ready_to_send_def)
  note irq = irq_after_send [OF R1(3)]
  let ?R2 = "after_send msg ?R1"
  have R2: "txf ?R2 = []" "rirq ?R2 = rirq R OR 0x20" by (simp_all add: after_send_def)
  have after: "wp st (poll (rounds H) (nrf_tx_fifo_empty H n)) (\<lambda>_.
      wp st (run_all [bnd (nrf_has_max_rt_intr H n) (\<lambda>b. check (\<not> b) Panic), nrf_tx_intr_clr H n, nrf_rx_mode H n,
        nrf_opt_assert H n (negated (nrf_has_tx_intr H n)), nrf_opt_assert H n (in_rx_config H n)])
      (\<lambda>_ R'. R' = ?R2\<lparr>rirq := rirq ?R2 AND - 33, rreg := (rreg ?R2)(NRF_CONFIG := rx_config)\<rparr>) never) never ?R2"
    unfolding in_rx_config_def
    by (intro wp_poll_once wp_run_all_Cons wp_run_all_Nil wp_bnd wp_check wp_opt_assert wp_negated wp_ret det_rules [OF ok]
        rx_mode_stays [OF ok env ce] conjI k)
      (use R2 irq in \<open>auto simp: to_peer_id bit_or_iff bit_and_iff bit_minus_iff\<close>)
  have send: "wp st (run_all ([nrf_set_addr H n NRF_RX_ADDR_P0 a nrf_default_addr_nbytes,
        nrf_set_addr H n NRF_TX_ADDR a nrf_default_addr_nbytes, void (nrf_putn H n NRF_W_TX_PAYLOAD msg), nrf_tx_mode H n] @
        poll (rounds H) (nrf_tx_fifo_empty H n) # ms)) Q never R"
    if "wp st (poll (rounds H) (nrf_tx_fifo_empty H n)) (\<lambda>_. wp st (run_all ms) Q never) never ?R2" for ms Q
    unfolding append_Cons append_Nil
    by (intro wp_run_all_Cons wp_void det_addr [OF ok] det_send [OF ok msg] tx_mode_sends [OF ok env ce])
      (use that R1 a in \<open>simp_all add: to_peer_id\<close>)
  show ?thesis
    unfolding nrf_tx_send_ack_def
    by (intro wp_thn wp_acked_det [OF ok R id] wp_bnd wp_get_none [OF ok R id] k send [unfolded append_Cons append_Nil],
        rule wp_conseq [OF after], elim wp_conseq)
      (use irq in \<open>auto intro!: wp_ret simp: after_send_def\<close>)
qed



end
