(* ===== verification/PinnedVm.thy ===== *)
theory PinnedVm
  imports MemAttr Wp
begin

unbundle bit_operations_syntax

text \<open>
  Virtual memory with pinned entries of the TLB: \<open>labs/15-pinned-vm/code/pinned-vm.c\<close> and the part of \<open>procmap.h\<close>
  that pins a map. The coprocessor registers of the TLB and the \<open>staff_\<close> functions, which have no source, are
  the operations of \<open>tlb_hw\<close>; the locale \<open>pinned_tlb\<close> states what the manual of the ARM1176 says of them. The types
  of entries and maps are those of \<open>MemAttr\<close>, which the two labs share. The static \<open>null_pt\<close> is passed on.
\<close>

section \<open>The code\<close>

record 'd tlb_hw =
  lockdown_index_set :: "u32 \<Rightarrow> ('d, unit) io"
  lockdown_va_set :: "u32 \<Rightarrow> ('d, unit) io"
  lockdown_va_get :: "('d, u32) io"
  lockdown_pa_set :: "u32 \<Rightarrow> ('d, unit) io"
  lockdown_pa_get :: "('d, u32) io"
  lockdown_attr_set :: "u32 \<Rightarrow> ('d, unit) io"
  lockdown_attr_get :: "('d, u32) io"
  xlate_kern_rd_set :: "u32 \<Rightarrow> ('d, unit) io"
  xlate_pa_get :: "('d, u32) io"
  staff_mmu_is_enabled :: "('d, bool) io"
  staff_mmu_enable :: "('d, unit) io"
  staff_mmu_disable :: "('d, unit) io"
  staff_domain_access_ctrl_set :: "u32 \<Rightarrow> ('d, unit) io"
  staff_set_procid_ttbr0 :: "u32 \<Rightarrow> u32 \<Rightarrow> u32 \<Rightarrow> ('d, unit) io"
  kmalloc_aligned :: "u32 \<Rightarrow> u32 \<Rightarrow> ('d, u32) io"

text \<open>The value returned and the word stored through \<open>result\<close>.\<close>

definition tlb_contains_va :: "'d tlb_hw \<Rightarrow> u32 \<Rightarrow> ('d, bool \<times> u32) io" where
  "tlb_contains_va H va =
     bnd (lft (bits_get va 0 2)) (\<lambda>x. thn (check (x = 0) Assert_fail)
     (thn (xlate_kern_rd_set H va) (bnd (xlate_pa_get H) (\<lambda>pa_ent.
     let pa = pa_ent AND NOT 0x3FF; result = pa OR (va AND 0x3FF) in
     ret (pa_ent AND 0x1 = 0, result)))))"

definition va_entry :: "u32 \<Rightarrow> pin_t \<Rightarrow> u32" where
  "va_entry va e = va OR shl (attr_G e) 9 OR attr_asid e"

definition pa_entry :: "u32 \<Rightarrow> pin_t \<Rightarrow> u32" where
  "pa_entry pa e = pa OR shl (attr_pagesize e) 6 OR shl (attr_AP_perm e) 1 OR 0x1"

definition attr_entry :: "pin_t \<Rightarrow> u32" where
  "attr_entry e = shl (attr_mem e) 1 OR shl (attr_dom e) 7"

definition pin_mmu_sec :: "'d tlb_hw \<Rightarrow> u32 \<Rightarrow> u32 \<Rightarrow> u32 \<Rightarrow> pin_t \<Rightarrow> ('d, unit) io" where
  "pin_mmu_sec H idx va pa e =
     thn (check (idx < 8) Assert_fail)
     (bnd (lft (bits_get va 0 19)) (\<lambda>x. thn (check (x = 0) Assert_fail)
     (bnd (lft (bits_get pa 0 19)) (\<lambda>x. thn (check (x = 0) Assert_fail)
     (let va_ent = va_entry va e; pa_ent = pa_entry pa e; attr = attr_entry e in run_all
       [lockdown_index_set H idx,
        lockdown_va_set H va_ent,
        lockdown_attr_set H attr,
        lockdown_pa_set H pa_ent,
        bnd (lockdown_va_get H) (\<lambda>x. check (x = va_ent) Panic),
        bnd (lockdown_pa_get H) (\<lambda>x. check (x = pa_ent) Panic),
        bnd (lockdown_attr_get H) (\<lambda>x. check (x = attr) Panic)])))))"

definition pin_check_exists :: "'d tlb_hw \<Rightarrow> u32 \<Rightarrow> ('d, unit) io" where
  "pin_check_exists H va =
     bnd (staff_mmu_is_enabled H) (\<lambda>on. thn (check on Panic)
     (bnd (tlb_contains_va H va) (\<lambda>(ok, r).
      if ok then check (va = r) Assert_fail
      else bnd (lft (bits_get r 1 6)) (\<lambda>_. fails Panic))))"

definition pin_domain_access_ctrl_set :: "'d tlb_hw \<Rightarrow> u32 \<Rightarrow> ('d, unit) io" where
  "pin_domain_access_ctrl_set H d = staff_domain_access_ctrl_set H d"

definition pin_mmu_init :: "'d tlb_hw \<Rightarrow> u32 \<Rightarrow> ('d, u32) io" where
  "pin_mmu_init H domain_reg =
     bnd (kmalloc_aligned H (4096 * 4) (shl 1 14)) (\<lambda>null_pt.
     thn (staff_domain_access_ctrl_set H domain_reg) (ret null_pt))"

definition staff_mmu_set_ctx :: "'d tlb_hw \<Rightarrow> u32 \<Rightarrow> u32 \<Rightarrow> u32 \<Rightarrow> ('d, unit) io" where
  "staff_mmu_set_ctx H pid asid pt =
     thn (check (asid \<noteq> 0) Assert_fail) (thn (check (asid < 64) Assert_fail) (staff_set_procid_ttbr0 H pid asid pt))"

definition pin_mmu_switch :: "'d tlb_hw \<Rightarrow> u32 \<Rightarrow> u32 \<Rightarrow> u32 \<Rightarrow> ('d, unit) io" where
  "pin_mmu_switch H null_pt pid asid =
     thn (check (null_pt \<noteq> 0) Assert_fail) (staff_mmu_set_ctx H pid asid null_pt)"

definition pin_mmu_enable :: "'d tlb_hw \<Rightarrow> ('d, unit) io" where
  "pin_mmu_enable H = run_all
     [asserts (negated (staff_mmu_is_enabled H)), staff_mmu_enable H, asserts (staff_mmu_is_enabled H)]"

definition pin_mmu_disable :: "'d tlb_hw \<Rightarrow> ('d, unit) io" where
  "pin_mmu_disable H = run_all
     [asserts (staff_mmu_is_enabled H), staff_mmu_disable H, asserts (negated (staff_mmu_is_enabled H))]"

subsection \<open>Reading the entries back\<close>

text \<open>\<open>None\<close> for an invalid entry; else va, G, asid, pa, nsa, nstid, size, apx, dom, xn, tex, C and B.\<close>

definition lockdown_print_entry :: "'d tlb_hw \<Rightarrow> u32 \<Rightarrow> ('d, u32 list option) io" where
  "lockdown_print_entry H idx =
     thn (lockdown_index_set H idx)
     (bnd (lockdown_va_get H) (\<lambda>va_ent. bnd (lockdown_pa_get H) (\<lambda>pa_ent.
     bnd (lft (bit_is_on pa_ent 0)) (\<lambda>v.
     if v = 0 then ret None else
     bnd (lft (bits_get va_ent 12 31)) (\<lambda>va. bnd (lft (bit_is_on va_ent 9)) (\<lambda>G.
     bnd (lft (bits_get va_ent 0 7)) (\<lambda>asid.
     bnd (lft (bits_get pa_ent 12 31)) (\<lambda>pa. bnd (lft (bit_is_on pa_ent 9)) (\<lambda>nsa.
     bnd (lft (bit_is_on pa_ent 8)) (\<lambda>nstid. bnd (lft (bits_get pa_ent 6 7)) (\<lambda>size.
     bnd (lft (bits_get pa_ent 1 3)) (\<lambda>apx.
     bnd (lockdown_attr_get H) (\<lambda>attr.
     bnd (lft (bits_get attr 7 10)) (\<lambda>dom. bnd (lft (bit_is_on attr 6)) (\<lambda>xn.
     bnd (lft (bits_get attr 3 5)) (\<lambda>tex. bnd (lft (bit_is_on attr 2)) (\<lambda>C.
     bnd (lft (bit_is_on attr 1)) (\<lambda>B.
     ret (Some [va, G, asid, pa, nsa, nstid, size, apx, dom, xn, tex, C, B])))))))))))))))))))"

fun print_entries_loop :: "'d tlb_hw \<Rightarrow> u32 list \<Rightarrow> ('d, unit) io" where
  "print_entries_loop H [] = ret ()"
| "print_entries_loop H (i # is) = thn (void (lockdown_print_entry H i)) (print_entries_loop H is)"

definition lockdown_print_entries :: "'d tlb_hw \<Rightarrow> ('d, unit) io" where
  "lockdown_print_entries H = print_entries_loop H [0, 1, 2, 3, 4, 5, 6, 7]"

subsection \<open>Pinning a map\<close>

definition pin_of_ent :: "pr_ent_t \<Rightarrow> pin_t res" where
  "pin_of_ent e =
     (case pr_type e of MEM_DEVICE \<Rightarrow> pin_mk_device (pr_dom e)
      | MEM_RW \<Rightarrow> pin_mk_global (pr_dom e) perm_rw_priv MEM_uncached
      | MEM_RO \<Rightarrow> Inl Panic)"

fun pin_loop :: "'d tlb_hw \<Rightarrow> u32 \<Rightarrow> pr_ent_t list \<Rightarrow> ('d, unit) io" where
  "pin_loop H i [] = ret ()"
| "pin_loop H i (e # es) =
     thn (check (pr_nbytes e = OneMB) Assert_fail)
     (bnd (lft (pin_of_ent e)) (\<lambda>g.
     thn (pin_mmu_sec H i (pr_addr e) (pr_addr e) g) (pin_loop H (i + 1) es)))"

definition procmap_pin :: "'d tlb_hw \<Rightarrow> procmap_t \<Rightarrow> ('d, unit) io" where
  "procmap_pin H p = pin_loop H 0 (pm_map p)"

fun check_loop :: "'d tlb_hw \<Rightarrow> pr_ent_t list \<Rightarrow> ('d, unit) io" where
  "check_loop H [] = ret ()"
| "check_loop H (e # es) = thn (pin_check_exists H (pr_addr e)) (check_loop H es)"

text \<open>It returns \<open>null_pt\<close>.\<close>

definition procmap_pin_on :: "'d tlb_hw \<Rightarrow> procmap_t \<Rightarrow> ('d, u32) io" where
  "procmap_pin_on H p =
     bnd (lft (dom_perm (dom_ids p) DOM_client)) (\<lambda>d.
     bnd (pin_mmu_init H d) (\<lambda>null_pt.
     thn (run_all
       [procmap_pin H p,
        pin_mmu_switch H null_pt 0 1,
        pin_mmu_enable H,
        asserts (staff_mmu_is_enabled H),
        check_loop H (pm_map p)])
     (ret null_pt)))"

section \<open>The TLB\<close>

record lk_ent =
  ent_va :: u32
  ent_pa :: u32
  ent_attr :: u32

record tlb =
  lk_idx :: u32
  lk :: "u32 \<Rightarrow> lk_ent"
  xl_va :: u32
  tlb_asid :: u32
  dacr :: u32
  mmu_on :: bool

text \<open>The manual's reading of an entry: the number of bits of the offset in a page, the match with an address under
  the current address space, the permission of a privileged read, the physical address.\<close>

definition size_bits :: "lk_ent \<Rightarrow> nat" where
  "size_bits e = [24, 12, 16, 20] ! unat (shr (ent_pa e) 6 AND 3)"

definition ent_matches :: "tlb \<Rightarrow> u32 \<Rightarrow> lk_ent \<Rightarrow> bool" where
  "ent_matches t va e \<longleftrightarrow> bit (ent_pa e) 0 \<and> drop_bit (size_bits e) va = drop_bit (size_bits e) (ent_va e) \<and>
     (bit (ent_va e) 9 \<or> ent_va e AND 0xFF = tlb_asid t)"

definition ent_readable :: "tlb \<Rightarrow> lk_ent \<Rightarrow> bool" where
  "ent_readable t e \<longleftrightarrow>
     (let ap = shr (ent_pa e) 1 AND 7; d = shr (ent_attr e) 7 AND 15; da = shr (dacr t) (2 * d) AND 3
      in da = 3 \<or> da = 1 \<and> ap \<noteq> 0 \<and> ap \<noteq> 4)"

definition ent_out :: "u32 \<Rightarrow> lk_ent \<Rightarrow> u32" where
  "ent_out va e = (ent_pa e AND NOT (mask (size_bits e))) OR (va AND mask (size_bits e))"

definition entries :: "tlb \<Rightarrow> lk_ent list" where
  "entries t = map (\<lambda>n. lk t (word_of_nat n)) [0..<8]"

definition hits :: "tlb \<Rightarrow> u32 \<Rightarrow> lk_ent list" where
  "hits t va = filter (ent_matches t va) (entries t)"

definition tlb_translate :: "tlb \<Rightarrow> u32 \<Rightarrow> u32 option" where
  "tlb_translate t va =
     (case hits t va of [e] \<Rightarrow> if ent_readable t e then Some (ent_out va e) else None | _ \<Rightarrow> None)"

text \<open>The result of a translation is known when the entries of the TLB do not overlap at the address; the page table
  behind the TLB is empty, so a miss is a fault.\<close>

definition xlate_result :: "tlb \<Rightarrow> u32 \<Rightarrow> bool" where
  "xlate_result t r \<longleftrightarrow> (length (hits t (xl_va t)) \<le> 1 \<longrightarrow>
     (case tlb_translate t (xl_va t) of None \<Rightarrow> bit r 0
      | Some pa \<Rightarrow> \<not> bit r 0 \<and> r AND NOT 0x3FF = pa AND NOT 0x3FF))"

definition put_ent :: "(lk_ent \<Rightarrow> lk_ent) \<Rightarrow> tlb \<Rightarrow> tlb" where
  "put_ent f t = t\<lparr>lk := (lk t)(lk_idx t := f (lk t (lk_idx t)))\<rparr>"

locale pinned_tlb =
  fixes H :: "'d tlb_hw" and st :: "'d \<Rightarrow> tlb"
  assumes index_set: "acts st (lockdown_index_set H i) (\<lambda>_. ()) (lk_idx_update (\<lambda>_. i))"
    and va_set: "acts st (lockdown_va_set H v) (\<lambda>_. ()) (put_ent (ent_va_update (\<lambda>_. v)))"
    and pa_set: "acts st (lockdown_pa_set H v) (\<lambda>_. ()) (put_ent (ent_pa_update (\<lambda>_. v)))"
    and attr_set: "acts st (lockdown_attr_set H v) (\<lambda>_. ()) (put_ent (ent_attr_update (\<lambda>_. v)))"
    and va_get: "acts st (lockdown_va_get H) (\<lambda>t. ent_va (lk t (lk_idx t))) (\<lambda>t. t)"
    and pa_get: "acts st (lockdown_pa_get H) (\<lambda>t. ent_pa (lk t (lk_idx t))) (\<lambda>t. t)"
    and attr_get: "acts st (lockdown_attr_get H) (\<lambda>t. ent_attr (lk t (lk_idx t))) (\<lambda>t. t)"
    and rd_set: "acts st (xlate_kern_rd_set H v) (\<lambda>_. ()) (xl_va_update (\<lambda>_. v))"
    and xlate_get: "mmu_on (st d) \<Longrightarrow> \<exists>r d'. xlate_pa_get H d = Inr (r, d') \<and> st d' = st d \<and> xlate_result (st d) r"
    and is_on: "acts st (staff_mmu_is_enabled H) mmu_on (\<lambda>t. t)"
    and turn_on: "acts st (staff_mmu_enable H) (\<lambda>_. ()) (mmu_on_update (\<lambda>_. True))"
    and turn_off: "acts st (staff_mmu_disable H) (\<lambda>_. ()) (mmu_on_update (\<lambda>_. False))"
    and dacr_set: "acts st (staff_domain_access_ctrl_set H v) (\<lambda>_. ()) (dacr_update (\<lambda>_. v))"
    and asid_set: "acts st (staff_set_procid_ttbr0 H p a pt) (\<lambda>_. ()) (tlb_asid_update (\<lambda>_. a))"
    and alloc: "\<exists>q d'. kmalloc_aligned H n al d = Inr (q, d') \<and> q \<noteq> 0 \<and> st d' = st d"

section \<open>Entries\<close>

definition sec_aligned :: "u32 \<Rightarrow> bool" where
  "sec_aligned a \<longleftrightarrow> a AND mask 20 = 0"

lemma sec_aligned_bits: "sec_aligned a \<Longrightarrow> \<exists>x. bits_get a 0 19 = Inr x \<and> x = 0"
  by (subst bits_get_ok) (simp_all add: sec_aligned_def shr_def)

lemma sec_aligned_low:
  assumes "sec_aligned a" "i < 20"
  shows "\<not> bit a i"
proof -
  have "bit (a AND mask 20) i = False" using assms(1) by (simp add: sec_aligned_def)
  with assms(2) show ?thesis by (simp add: bits_of)
qed

lemma lk_ent_all: "(e :: lk_ent)\<lparr>ent_va := a, ent_attr := b, ent_pa := c\<rparr> = \<lparr>ent_va = a, ent_pa = c, ent_attr = b\<rparr>"
  by (cases e) simp

definition entry_of :: "u32 \<Rightarrow> u32 \<Rightarrow> pin_t \<Rightarrow> lk_ent" where
  "entry_of va pa e = \<lparr>ent_va = va_entry va e, ent_pa = pa_entry pa e, ent_attr = attr_entry e\<rparr>"

context pinned_tlb begin

lemma wp_pin_sec:
  assumes "idx < 8" "sec_aligned va" "sec_aligned pa"
    "Q () (t\<lparr>lk_idx := idx, lk := (lk t)(idx := entry_of va pa e)\<rparr>)"
  shows "wp st (pin_mmu_sec H idx va pa e) Q E t"
proof -
  obtain x y where "bits_get va 0 19 = Inr x" "x = 0" "bits_get pa 0 19 = Inr y" "y = 0"
    using assms(2,3) sec_aligned_bits by blast
  moreover have "put_ent (ent_pa_update (\<lambda>_. c)) (put_ent (ent_attr_update (\<lambda>_. b)) (put_ent (ent_va_update (\<lambda>_. a))
      (t\<lparr>lk_idx := idx\<rparr>))) = t\<lparr>lk_idx := idx, lk := (lk t)(idx := \<lparr>ent_va = a, ent_pa = c, ent_attr = b\<rparr>)\<rparr>" for a b c
    by (simp add: put_ent_def lk_ent_all)
  ultimately show ?thesis
    using assms(1,4) unfolding pin_mmu_sec_def Let_def
    by (intro wp_rules wp_acts [OF index_set] wp_acts [OF va_set] wp_acts [OF pa_set] wp_acts [OF attr_set]
        wp_acts [OF va_get] wp_acts [OF pa_get] wp_acts [OF attr_get])
      (auto intro!: wp_ret wp_rules wp_acts [OF index_set] wp_acts [OF va_set] wp_acts [OF pa_set] wp_acts [OF attr_set]
        wp_acts [OF va_get] wp_acts [OF pa_get] wp_acts [OF attr_get] simp: entry_of_def)
qed

end

subsection \<open>Reading entries back\<close>

definition legal_pin :: "pin_t \<Rightarrow> bool" where
  "legal_pin e \<longleftrightarrow> attr_G e < 2 \<and> attr_asid e < 256 \<and> attr_pagesize e < 4 \<and> attr_AP_perm e < 8 \<and> attr_mem e < 32 \<and> attr_dom e < 16"

lemma legal_bits:
  assumes "legal_pin e"
  shows "bit (attr_G e) i \<Longrightarrow> i < 1" "bit (attr_asid e) i \<Longrightarrow> i < 8" "bit (attr_pagesize e) i \<Longrightarrow> i < 2"
    "bit (attr_AP_perm e) i \<Longrightarrow> i < 3" "bit (attr_mem e) i \<Longrightarrow> i < 5" "bit (attr_dom e) i \<Longrightarrow> i < 4"
  using assms small_word_bit [of "attr_G e" 1 i] small_word_bit [of "attr_asid e" 8 i] small_word_bit [of "attr_pagesize e" 2 i]
    small_word_bit [of "attr_AP_perm e" 3 i] small_word_bit [of "attr_mem e" 5 i] small_word_bit [of "attr_dom e" 4 i]
  by (simp_all add: legal_pin_def word_less_nat_alt)

lemma va_entry_bit:
  assumes "legal_pin e" "sec_aligned va"
  shows "bit (va_entry va e) i \<longleftrightarrow> 20 \<le> i \<and> bit va i \<or> i = 9 \<and> bit (attr_G e) 0 \<or> bit (attr_asid e) i"
proof -
  have "bit (shl (attr_G e) 9) i \<longleftrightarrow> i = 9 \<and> bit (attr_G e) 0"
    using legal_bits(1) [OF assms(1), of "i - 9"] by (auto simp: bits_of)
  moreover have "bit va i \<longleftrightarrow> 20 \<le> i \<and> bit va i" using sec_aligned_low [OF assms(2), of i] by (cases "i < 20") auto
  ultimately show ?thesis unfolding va_entry_def bit_or_iff by blast
qed

lemma pa_entry_bit:
  assumes "legal_pin e" "sec_aligned pa"
  shows "bit (pa_entry pa e) i \<longleftrightarrow> 20 \<le> i \<and> bit pa i \<or> 6 \<le> i \<and> bit (attr_pagesize e) (i - 6) \<or>
    1 \<le> i \<and> bit (attr_AP_perm e) (i - 1) \<or> i = 0"
proof -
  have "bit (shl (attr_pagesize e) 6) i \<longleftrightarrow> 6 \<le> i \<and> bit (attr_pagesize e) (i - 6)"
    using legal_bits(3) [OF assms(1), of "i - 6"] by (auto simp: bits_of)
  moreover have "bit (shl (attr_AP_perm e) 1) i \<longleftrightarrow> 1 \<le> i \<and> bit (attr_AP_perm e) (i - 1)"
    using legal_bits(4) [OF assms(1), of "i - 1"] by (auto simp: bits_of)
  moreover have "bit pa i \<longleftrightarrow> 20 \<le> i \<and> bit pa i" using sec_aligned_low [OF assms(2), of i] by (cases "i < 20") auto
  ultimately show ?thesis unfolding pa_entry_def bit_or_iff bit_one_u32 by blast
qed

lemma attr_entry_bit:
  assumes "legal_pin e"
  shows "bit (attr_entry e) i \<longleftrightarrow> 1 \<le> i \<and> bit (attr_mem e) (i - 1) \<or> 7 \<le> i \<and> bit (attr_dom e) (i - 7)"
proof -
  have "bit (shl (attr_mem e) 1) i \<longleftrightarrow> 1 \<le> i \<and> bit (attr_mem e) (i - 1)"
    using legal_bits(5) [OF assms, of "i - 1"] by (auto simp: bits_of)
  moreover have "bit (shl (attr_dom e) 7) i \<longleftrightarrow> 7 \<le> i \<and> bit (attr_dom e) (i - 7)"
    using legal_bits(6) [OF assms, of "i - 7"] by (auto simp: bits_of)
  ultimately show ?thesis unfolding attr_entry_def bit_or_iff by blast
qed

lemma bits_get_field:
  assumes "lb \<le> ub" "ub < 32" "\<And>i. i < unat ub - unat lb + 1 \<Longrightarrow> bit x (unat lb + i) \<longleftrightarrow> bit v i"
    "\<And>i. bit v i \<Longrightarrow> i < unat ub - unat lb + 1"
  shows "bits_get x lb ub = Inr v"
  unfolding bits_get_ok [OF assms(1,2)]
  by (rule arg_cong [of _ _ Inr], rule u32_eqI) (use assms(3,4) in \<open>auto simp: bits_of\<close>)

lemma va_fields:
  assumes "legal_pin e" "sec_aligned va"
  shows "bits_get (va_entry va e) 12 31 = Inr (shr va 12)" "bits_get (va_entry va e) 0 7 = Inr (attr_asid e)"
proof -
  have "bit (va_entry va e) (12 + i) \<longleftrightarrow> bit va (12 + i)" for i
    using sec_aligned_low [OF assms(2), of "12 + i"] legal_bits(2) [OF assms(1), of "12 + i"]
    by (cases "i < 8") (auto simp: va_entry_bit [OF assms])
  moreover have "bit (shr va 12) i \<Longrightarrow> i < 20" for i using bit_u32_bound [of va "12 + i"] by (simp add: bit_shr)
  ultimately show "bits_get (va_entry va e) 12 31 = Inr (shr va 12)"
    by (intro bits_get_field) (simp_all add: bit_shr)
  show "bits_get (va_entry va e) 0 7 = Inr (attr_asid e)"
    by (intro bits_get_field) (auto simp: va_entry_bit [OF assms] dest: legal_bits(2) [OF assms(1)])
qed

lemma pa_fields:
  assumes "legal_pin e" "sec_aligned pa"
  shows "bits_get (pa_entry pa e) 12 31 = Inr (shr pa 12)" "bits_get (pa_entry pa e) 6 7 = Inr (attr_pagesize e)"
    "bits_get (pa_entry pa e) 1 3 = Inr (attr_AP_perm e)"
proof -
  note bs = pa_entry_bit [OF assms]
  have "bit (pa_entry pa e) (12 + i) \<longleftrightarrow> bit pa (12 + i)" for i
    using sec_aligned_low [OF assms(2), of "12 + i"] legal_bits(3) [OF assms(1), of "6 + i"] legal_bits(4) [OF assms(1), of "11 + i"]
    by (cases "i < 8") (auto simp: bs)
  moreover have "bit (shr pa 12) i \<Longrightarrow> i < 20" for i using bit_u32_bound [of pa "12 + i"] by (simp add: bit_shr)
  ultimately show "bits_get (pa_entry pa e) 12 31 = Inr (shr pa 12)"
    by (intro bits_get_field) (simp_all add: bit_shr)
  have "i < 2 \<Longrightarrow> bit (pa_entry pa e) (6 + i) \<longleftrightarrow> bit (attr_pagesize e) i" for i
    using legal_bits(4) [OF assms(1), of "5 + i"] by (auto simp: bs)
  then show "bits_get (pa_entry pa e) 6 7 = Inr (attr_pagesize e)"
    by (intro bits_get_field) (auto dest: legal_bits(3) [OF assms(1)])
  have "i < 3 \<Longrightarrow> bit (pa_entry pa e) (1 + i) \<longleftrightarrow> bit (attr_AP_perm e) i" for i
    by (auto simp: bs)
  then show "bits_get (pa_entry pa e) 1 3 = Inr (attr_AP_perm e)"
    by (intro bits_get_field) (auto dest: legal_bits(4) [OF assms(1)])
qed

lemma attr_fields:
  assumes "legal_pin e"
  shows "bits_get (attr_entry e) 7 10 = Inr (attr_dom e)" "bits_get (attr_entry e) 3 5 = Inr (shr (attr_mem e) 2)"
proof -
  note bs = attr_entry_bit [OF assms]
  have "bit (attr_entry e) (7 + i) \<longleftrightarrow> bit (attr_dom e) i" for i
    using legal_bits(5) [OF assms, of "6 + i"] by (auto simp: bs)
  then show "bits_get (attr_entry e) 7 10 = Inr (attr_dom e)"
    by (intro bits_get_field) (auto dest: legal_bits(6) [OF assms])
  have "i < 3 \<Longrightarrow> bit (attr_entry e) (3 + i) \<longleftrightarrow> bit (attr_mem e) (2 + i)" for i
    by (auto simp: bs)
  then show "bits_get (attr_entry e) 3 5 = Inr (shr (attr_mem e) 2)"
    by (intro bits_get_field) (auto simp: bit_shr dest: legal_bits(5) [OF assms])
qed

lemma entry_flags:
  assumes "legal_pin e" "sec_aligned va"
  shows "bit (va_entry va e) 9 = bit (attr_G e) 0" "bit (pa_entry va e) 0" "\<not> bit (pa_entry va e) 8" "\<not> bit (pa_entry va e) 9"
    "\<not> bit (attr_entry e) 6" "bit (attr_entry e) 2 = bit (attr_mem e) 1" "bit (attr_entry e) (Suc 0) = bit (attr_mem e) 0"
  using legal_bits [OF assms(1), of 2] legal_bits [OF assms(1), of 3] legal_bits [OF assms(1), of 7]
    legal_bits [OF assms(1), of 8] legal_bits [OF assms(1), of 9] legal_bits [OF assms(1), of 5]
  by (auto simp: va_entry_bit [OF assms] pa_entry_bit [OF assms] attr_entry_bit [OF assms(1)])

lemma entry_on:
  assumes "legal_pin e" "sec_aligned va"
  shows "bit_is_on (va_entry va e) 9 = Inr (attr_G e)" "bit_is_on (pa_entry va e) 0 = Inr 1"
    "bit_is_on (pa_entry va e) 8 = Inr 0" "bit_is_on (pa_entry va e) 9 = Inr 0" "bit_is_on (attr_entry e) 6 = Inr 0"
    "bit_is_on (attr_entry e) 2 = Inr (shr (attr_mem e) 1 AND 1)"
    "bit_is_on (attr_entry e) 1 = Inr (shr (attr_mem e) 0 AND 1)"
proof -
  have "attr_G e = (if bit (attr_G e) 0 then 1 else 0)"
    by (rule u32_eqI) (use legal_bits(1) [OF assms(1)] in \<open>auto simp: bits_of\<close>)
  then show "bit_is_on (va_entry va e) 9 = Inr (attr_G e)" by (simp add: bit_is_on_ok entry_flags [OF assms])
qed (simp_all add: bit_is_on_ok and_one_bit bit_shr entry_flags [OF assms])

context pinned_tlb begin

lemma wp_read_entry:
  assumes "legal_pin e" "sec_aligned va" "sec_aligned pa" "lk t idx = entry_of va pa e"
    "Q (Some [shr va 12, attr_G e, attr_asid e, shr pa 12, 0, 0, attr_pagesize e, attr_AP_perm e, attr_dom e, 0,
       shr (attr_mem e) 2, shr (attr_mem e) 1 AND 1, shr (attr_mem e) 0 AND 1]) (t\<lparr>lk_idx := idx\<rparr>)"
  shows "wp st (lockdown_print_entry H idx) Q E t"
proof -
  note fs = va_fields [OF assms(1,2)] pa_fields [OF assms(1,3)] attr_fields [OF assms(1)]
    entry_on [OF assms(1,2)] entry_on [OF assms(1,3)]
  have [simp]: "lk t idx = \<lparr>ent_va = va_entry va e, ent_pa = pa_entry pa e, ent_attr = attr_entry e\<rparr>"
    using assms(4) by (simp add: entry_of_def)
  show ?thesis
    unfolding lockdown_print_entry_def
    by (intro wp_thn wp_bnd wp_acts [OF index_set] wp_acts [OF va_get] wp_acts [OF pa_get], simp add: fs,
        (rule wp_bnd | rule wp_ret | rule wp_acts [OF attr_get] | simp add: fs assms(5))+)
qed

end

section \<open>Asking the TLB\<close>

lemma mask_10: "(0x3FF :: u32) = mask 10"
  by (simp add: mask_eq_exp_minus_1)

lemma size_bits_ge: "12 \<le> size_bits e"
proof -
  have "unat (shr (ent_pa e) 6 AND 3) < 4"
    using word_and_le1 [of "shr (ent_pa e) 6" 3] by (simp add: word_le_nat_alt)
  then have "unat (shr (ent_pa e) 6 AND 3) \<in> {0, 1, 2, 3}" by auto
  then show ?thesis by (auto simp: size_bits_def)
qed

lemma ent_out_low: "(ent_out va e AND 0x3FF) = va AND 0x3FF"
  by (rule u32_eqI) (use size_bits_ge [of e] in \<open>auto simp: ent_out_def mask_10 bits_of\<close>)

lemma tlb_translate_low: "tlb_translate t va = Some pa \<Longrightarrow> pa AND 0x3FF = va AND 0x3FF"
  by (auto simp: tlb_translate_def ent_out_low split: list.splits if_splits)

lemma split_low: "(x AND NOT 0x3FF) OR (x AND 0x3FF) = (x :: u32)"
  by (rule u32_eqI) (auto simp: mask_10 bits_of)

lemma hits_cong:
  assumes "lk t' = lk t" "tlb_asid t' = tlb_asid t"
  shows "hits t' va = hits t va"
proof -
  have "ent_matches t' va = ent_matches t va" using assms by (simp add: ent_matches_def fun_eq_iff)
  with assms show ?thesis by (simp add: hits_def entries_def)
qed

lemma tlb_translate_cong:
  assumes "lk t' = lk t" "tlb_asid t' = tlb_asid t" "dacr t' = dacr t"
  shows "tlb_translate t' va = tlb_translate t va"
proof -
  have "ent_readable t' = ent_readable t" using assms by (simp add: ent_readable_def fun_eq_iff)
  note r = this
  show ?thesis unfolding tlb_translate_def hits_cong [OF assms(1,2)] r by (rule refl)
qed

context pinned_tlb begin

lemma wp_xlate:
  assumes "mmu_on t" "\<And>r. xlate_result t r \<Longrightarrow> Q r t"
  shows "wp st (xlate_pa_get H) Q E t"
  unfolding wp_def
proof (intro allI impI)
  fix d assume d: "st d = t"
  with assms(1) obtain r d' where "xlate_pa_get H d = Inr (r, d')" "st d' = t" "xlate_result t r"
    using xlate_get [of d] by auto
  with assms(2) show "case xlate_pa_get H d of Inl e \<Rightarrow> E e | Inr (x, d') \<Rightarrow> Q x (st d')" by simp
qed

lemma wp_contains:
  assumes "mmu_on t" "length (hits t va) \<le> 1" "bits_get va 0 2 = Inr 0"
    "\<And>pa. tlb_translate t va = Some pa \<Longrightarrow> Q (True, pa) (t\<lparr>xl_va := va\<rparr>)"
    "\<And>r. tlb_translate t va = None \<Longrightarrow> Q (False, r) (t\<lparr>xl_va := va\<rparr>)"
  shows "wp st (tlb_contains_va H va) Q E t"
proof -
  let ?t = "t\<lparr>xl_va := va\<rparr>"
  have h: "hits ?t v = hits t v" "tlb_translate ?t v = tlb_translate t v" for v
    by (rule hits_cong tlb_translate_cong; simp)+
  have "wp st (bnd (xlate_pa_get H) (\<lambda>pa_ent.
      let pa = pa_ent AND NOT 0x3FF; result = pa OR (va AND 0x3FF) in ret (pa_ent AND 0x1 = 0, result))) Q E ?t"
  proof (intro wp_bnd wp_xlate)
    fix r assume r: "xlate_result ?t r"
    show "wp st (let pa = r AND NOT 0x3FF; result = pa OR (va AND 0x3FF) in ret (r AND 0x1 = 0, result)) Q E ?t"
    proof (cases "tlb_translate t va")
      case None
      with r assms(2,5) show ?thesis by (auto simp: xlate_result_def h and_one_bit Let_def intro!: wp_ret)
    next
      case (Some pa)
      with r assms(2) have "\<not> bit r 0" "r AND NOT 0x3FF = pa AND NOT 0x3FF" by (simp_all add: xlate_result_def h)
      moreover have "(pa AND NOT 0x3FF) OR (va AND 0x3FF) = pa"
        using split_low [of pa] tlb_translate_low [OF Some] by simp
      ultimately show ?thesis using assms(4) [OF Some] by (simp add: Let_def and_one_bit wp_ret)
    qed
  qed (simp add: assms(1))
  then show ?thesis
    unfolding tlb_contains_va_def using assms(3)
    by (intro wp_bnd) (auto intro!: wp_ret wp_thn wp_check wp_acts [OF rd_set])
qed

end

section \<open>A map pinned\<close>

definition ent_pin :: "pr_ent_t \<Rightarrow> pin_t" where
  "ent_pin e = \<lparr>attr_G = 1, attr_asid = 0, attr_dom = pr_dom e, attr_pagesize = PAGE_1MB, attr_AP_perm = perm_rw_priv,
     attr_mem = (if pr_type e = MEM_DEVICE then MEM_device else MEM_uncached)\<rparr>"

definition pr_entry :: "pr_ent_t \<Rightarrow> lk_ent" where
  "pr_entry e = entry_of (pr_addr e) (pr_addr e) (ent_pin e)"

text \<open>An entry that can be pinned: one aligned megabyte, not read-only, with a domain of the set \<open>doms\<close>.\<close>

definition pinnable :: "u32 \<Rightarrow> pr_ent_t \<Rightarrow> bool" where
  "pinnable doms e \<longleftrightarrow> sec_aligned (pr_addr e) \<and> pr_nbytes e = OneMB \<and> pr_type e \<noteq> MEM_RO \<and> pr_dom e < 16 \<and>
     bit doms (unat (pr_dom e))"

lemma mem_codes: "MEM_device = 0" "MEM_uncached = 4" "perm_rw_priv = 1" "PAGE_1MB = 3"
  by (simp_all add: MEM_device_def MEM_uncached_def TEX_C_B_def shl_def perm_rw_priv_def perm_na_user_def PAGE_1MB_def)

lemma pinnable_pin:
  assumes "pinnable doms e"
  shows "pin_of_ent e = Inr (ent_pin e)" "legal_pin (ent_pin e)"
  using assms less_imp_le [of "pr_dom e" 16]
  by (auto simp: pinnable_def pin_of_ent_def pin_mk_device_def pin_mk_global_def pin_mk_def mem_perm_islegal_def ent_pin_def
      legal_pin_def mem_codes split: mem_type.splits)

fun pinned :: "u32 \<Rightarrow> pr_ent_t list \<Rightarrow> (u32 \<Rightarrow> lk_ent) \<Rightarrow> u32 \<Rightarrow> lk_ent" where
  "pinned i [] f = f"
| "pinned i (e # es) f = pinned (i + 1) es (f(i := pr_entry e))"

lemma word_of_nat_inj8: "k < 8 \<Longrightarrow> n < 8 \<Longrightarrow> (word_of_nat k :: u32) = word_of_nat n \<longleftrightarrow> k = n"
  by (simp add: word_unat_eq_iff unat_of_nat)

lemma pinned_at:
  "n + length es \<le> 8 \<Longrightarrow> k < 8 \<Longrightarrow> pinned (word_of_nat n) es f (word_of_nat k) =
    (if n \<le> k \<and> k < n + length es then pr_entry (es ! (k - n)) else f (word_of_nat k))"
proof (induction es arbitrary: n f)
  case (Cons e es)
  have "word_of_nat n + 1 = (word_of_nat (Suc n) :: u32)" by simp
  then have "pinned (word_of_nat n) (e # es) f (word_of_nat k) =
      pinned (word_of_nat (Suc n)) es (f(word_of_nat n := pr_entry e)) (word_of_nat k)" by (simp only: pinned.simps)
  also have "\<dots> = (if Suc n \<le> k \<and> k < Suc n + length es then pr_entry (es ! (k - Suc n))
      else (f(word_of_nat n := pr_entry e)) (word_of_nat k))" using Cons by (intro Cons.IH) auto
  also have "\<dots> = (if n \<le> k \<and> k < n + length (e # es) then pr_entry ((e # es) ! (k - n)) else f (word_of_nat k))"
    using Cons.prems word_of_nat_inj8 [of k n] by (auto simp: nth_Cons' fun_upd_apply simp del: of_nat_Suc)
  finally show ?case .
qed auto

lemma pinned_entries:
  assumes "length es \<le> 8"
  shows "entries (t\<lparr>lk := pinned 0 es (lk t)\<rparr>) = map pr_entry es @ map (\<lambda>n. lk t (word_of_nat n)) [length es..<8]"
proof -
  have at: "pinned 0 es (lk t) (word_of_nat k) = (if k < length es then pr_entry (es ! k) else lk t (word_of_nat k))" if "k < 8" for k
    using pinned_at [of 0 es k "lk t"] assms that by simp
  have "entries (t\<lparr>lk := pinned 0 es (lk t)\<rparr>) = map (\<lambda>n. pinned 0 es (lk t) (word_of_nat n)) ([0..<length es] @ [length es..<8])"
    using upt_add_eq_append [of 0 "length es" "8 - length es"] assms by (simp add: entries_def)
  also have "\<dots> = map pr_entry (map ((!) es) [0..<length es]) @ map (\<lambda>n. lk t (word_of_nat n)) [length es..<8]"
    using assms by (simp add: at)
  finally show ?thesis by (simp add: map_nth)
qed

subsection \<open>What a pinned map translates\<close>

lemma pr_entry_sel: "ent_va (pr_entry e) = va_entry (pr_addr e) (ent_pin e)"
    "ent_pa (pr_entry e) = pa_entry (pr_addr e) (ent_pin e)" "ent_attr (pr_entry e) = attr_entry (ent_pin e)"
  by (simp_all add: pr_entry_def entry_of_def)

lemma pr_entry_fields:
  assumes "pinnable doms e"
  shows "shr (ent_pa (pr_entry e)) 6 AND 3 = 3" "shr (ent_pa (pr_entry e)) 1 AND 7 = 1"
    "shr (ent_attr (pr_entry e)) 7 AND 15 = pr_dom e" "bit (ent_va (pr_entry e)) 9" "bit (ent_pa (pr_entry e)) 0"
proof -
  have l: "legal_pin (ent_pin e)" and a: "sec_aligned (pr_addr e)"
    using pinnable_pin [OF assms] assms by (simp_all add: pinnable_def)
  have sel: "attr_pagesize (ent_pin e) = 3" "attr_AP_perm (ent_pin e) = 1" "attr_dom (ent_pin e) = pr_dom e" "attr_G (ent_pin e) = 1"
    by (simp_all add: ent_pin_def mem_codes)
  have m: "(mask (Suc (Suc 0)) :: u32) = 3" "(mask 3 :: u32) = 7" "(mask 4 :: u32) = 15" by (simp_all add: mask_eq_exp_minus_1)
  show "shr (ent_pa (pr_entry e)) 6 AND 3 = 3" "shr (ent_pa (pr_entry e)) 1 AND 7 = 1"
    "shr (ent_attr (pr_entry e)) 7 AND 15 = pr_dom e"
    using pa_fields(2,3) [OF l a] attr_fields(1) [OF l] by (simp_all add: bits_get_ok pr_entry_sel sel m)
  show "bit (ent_va (pr_entry e)) 9" "bit (ent_pa (pr_entry e)) 0"
    using entry_flags(1,2) [OF l a] by (simp_all add: pr_entry_sel sel)
qed

lemma pr_entry_high:
  assumes "pinnable doms e" "20 \<le> i"
  shows "bit (ent_va (pr_entry e)) i = bit (pr_addr e) i" "bit (ent_pa (pr_entry e)) i = bit (pr_addr e) i"
proof -
  have l: "legal_pin (ent_pin e)" and a: "sec_aligned (pr_addr e)"
    using pinnable_pin [OF assms(1)] assms(1) by (simp_all add: pinnable_def)
  show "bit (ent_va (pr_entry e)) i = bit (pr_addr e) i"
    using assms(2) legal_bits(2) [OF l, of i] by (auto simp: pr_entry_sel va_entry_bit [OF l a])
  show "bit (ent_pa (pr_entry e)) i = bit (pr_addr e) i"
    using assms(2) legal_bits(3) [OF l, of "i - 6"] legal_bits(4) [OF l, of "i - 1"]
    by (auto simp: pr_entry_sel pa_entry_bit [OF l a])
qed

lemma same_section: "drop_bit 20 (x :: u32) = drop_bit 20 y \<longleftrightarrow> (\<forall>i \<ge> 20. bit x i = bit y i)"
proof
  assume h: "drop_bit 20 x = drop_bit 20 y"
  have "bit x (20 + k) = bit y (20 + k)" for k using arg_cong [OF h, of "\<lambda>w. bit w k"] by (simp add: bit_drop_bit_eq)
  then show "\<forall>i \<ge> 20. bit x i = bit y i" by (metis le_add_diff_inverse)
qed (auto intro!: u32_eqI simp: bit_drop_bit_eq)

lemma pr_entry_matches:
  assumes "pinnable doms e"
  shows "size_bits (pr_entry e) = 20" "ent_matches t va (pr_entry e) \<longleftrightarrow> drop_bit 20 va = drop_bit 20 (pr_addr e)"
proof -
  show s: "size_bits (pr_entry e) = 20" by (simp add: size_bits_def pr_entry_fields [OF assms])
  have "drop_bit 20 (ent_va (pr_entry e)) = drop_bit 20 (pr_addr e)"
    using pr_entry_high(1) [OF assms] by (simp add: same_section)
  then show "ent_matches t va (pr_entry e) \<longleftrightarrow> drop_bit 20 va = drop_bit 20 (pr_addr e)"
    by (simp add: ent_matches_def s pr_entry_fields [OF assms])
qed

lemma pr_entry_out:
  assumes "pinnable doms e" "drop_bit 20 va = drop_bit 20 (pr_addr e)"
  shows "ent_out va (pr_entry e) = va"
proof (rule u32_eqI)
  fix i :: nat assume "i < 32"
  with assms(2) pr_entry_high(2) [OF assms(1), of i] pr_entry_matches(1) [OF assms(1)]
  show "bit (ent_out va (pr_entry e)) i = bit va i"
    by (cases "i < 20") (auto simp: ent_out_def bits_of same_section)
qed

lemma pr_entry_readable:
  assumes "pinnable doms e" "dom_perm doms DOM_client = Inr d" "dacr t = d"
  shows "ent_readable t (pr_entry e)"
proof -
  have dom: "pr_dom e < 16" "bit doms (unat (pr_dom e))" using assms(1) by (simp_all add: pinnable_def)
  then have k: "unat (pr_dom e) < 16" by (simp add: word_less_nat_alt)
  have "doms \<noteq> 0" "shr doms 16 = 0" "DOM_client \<le> 3"
    using assms(2) by (auto simp: dom_perm_def seq_eq_Inr DOM_client_def)
  from dom_perm_fields [OF this k] assms(2) dom have "shr d (2 * pr_dom e) AND 3 = 1"
    by (auto simp: DOM_client_def word_of_nat_eq_iff)
  then show ?thesis by (simp add: ent_readable_def Let_def pr_entry_fields [OF assms(1)] assms(3))
qed

text \<open>The entries of a map with different addresses, and none else valid.\<close>

lemma pinned_hits:
  assumes "\<forall>e \<in> set es. pinnable doms e" "distinct (map pr_addr es)"
  shows "filter (ent_matches t va) (map pr_entry es) =
    (case find (\<lambda>e. drop_bit 20 va = drop_bit 20 (pr_addr e)) es of None \<Rightarrow> [] | Some e \<Rightarrow> [pr_entry e])"
  using assms
proof (induction es)
  case (Cons e es)
  have m: "ent_matches t va (pr_entry e') \<longleftrightarrow> drop_bit 20 va = drop_bit 20 (pr_addr e')" if "e' \<in> set (e # es)" for e'
    using Cons.prems(1) that pr_entry_matches(2) by blast
  show ?case
  proof (cases "drop_bit 20 va = drop_bit 20 (pr_addr e)")
    case True
    have "drop_bit 20 va \<noteq> drop_bit 20 (pr_addr e')" if "e' \<in> set es" for e'
    proof
      assume "drop_bit 20 va = drop_bit 20 (pr_addr e')"
      with True have "drop_bit 20 (pr_addr e) = drop_bit 20 (pr_addr e')" by simp
      moreover have "sec_aligned (pr_addr e)" "sec_aligned (pr_addr e')"
        using Cons.prems(1) that by (auto simp: pinnable_def)
      ultimately have "pr_addr e = pr_addr e'"
        by (intro u32_eqI) (metis same_section sec_aligned_low linorder_not_less)
      with Cons.prems(2) that show False by auto
    qed
    with True m show ?thesis by (simp add: filter_empty_conv)
  next
    case False
    with m Cons show ?thesis by simp
  qed
qed simp

section \<open>Turning it on\<close>

definition map_pinnable :: "procmap_t \<Rightarrow> bool" where
  "map_pinnable p \<longleftrightarrow> length (pm_map p) \<le> 8 \<and> distinct (map pr_addr (pm_map p)) \<and> dom_ids p \<noteq> 0 \<and> shr (dom_ids p) 16 = 0 \<and>
     (\<forall>e \<in> set (pm_map p). pinnable (dom_ids p) e)"

definition tlb_empty :: "tlb \<Rightarrow> bool" where
  "tlb_empty t \<longleftrightarrow> (\<forall>k < 8. \<not> bit (ent_pa (lk t (word_of_nat k))) 0)"

lemma map_hits:
  assumes "map_pinnable p" "tlb_empty t0" "lk t = pinned 0 (pm_map p) (lk t0)"
  shows "hits t va = (case find (\<lambda>e. drop_bit 20 va = drop_bit 20 (pr_addr e)) (pm_map p) of None \<Rightarrow> [] | Some e \<Rightarrow> [pr_entry e])"
proof -
  have len: "length (pm_map p) \<le> 8" and es: "\<forall>e \<in> set (pm_map p). pinnable (dom_ids p) e" "distinct (map pr_addr (pm_map p))"
    using assms(1) by (simp_all add: map_pinnable_def)
  have "entries t = map pr_entry (pm_map p) @ map (\<lambda>n. lk t0 (word_of_nat n)) [length (pm_map p)..<8]"
    using pinned_entries [OF len, of t0] assms(3) by (simp add: entries_def)
  moreover have "filter (ent_matches t va) (map (\<lambda>n. lk t0 (word_of_nat n)) [length (pm_map p)..<8]) = []"
    using assms(2) by (auto simp: filter_empty_conv ent_matches_def tlb_empty_def)
  ultimately show ?thesis using pinned_hits [OF es, of t va] by (simp add: hits_def)
qed

lemma map_translate:
  assumes "map_pinnable p" "tlb_empty t0" "lk t = pinned 0 (pm_map p) (lk t0)" "dom_perm (dom_ids p) DOM_client = Inr (dacr t)"
  shows "tlb_translate t va = (if \<exists>e \<in> set (pm_map p). drop_bit 20 va = drop_bit 20 (pr_addr e) then Some va else None)"
proof (cases "find (\<lambda>e. drop_bit 20 va = drop_bit 20 (pr_addr e)) (pm_map p)")
  case None
  then have "hits t va = []" by (simp add: map_hits [OF assms(1-3)])
  then show ?thesis using None by (auto simp: tlb_translate_def find_None_iff)
next
  case (Some e)
  then have e: "e \<in> set (pm_map p)" "drop_bit 20 va = drop_bit 20 (pr_addr e)"
    by (auto simp: find_Some_iff)
  with assms(1) have "pinnable (dom_ids p) e" by (simp add: map_pinnable_def)
  with e have r: "ent_readable t (pr_entry e)" "ent_out va (pr_entry e) = va"
    by (simp_all add: pr_entry_out pr_entry_readable [OF _ assms(4)])
  have "hits t va = [pr_entry e]" using Some by (simp add: map_hits [OF assms(1-3)])
  with r e show ?thesis by (auto simp: tlb_translate_def)
qed

context pinned_tlb begin

lemma wp_pin_loop:
  "\<forall>e \<in> set es. pinnable doms e \<Longrightarrow> n + length es \<le> 8 \<Longrightarrow>
   (\<And>i. Q () (t\<lparr>lk_idx := i, lk := pinned (word_of_nat n) es (lk t)\<rparr>)) \<Longrightarrow>
   wp st (pin_loop H (word_of_nat n) es) Q E t"
proof (induction es arbitrary: n t)
  case Nil
  from Nil(3) [of "lk_idx t"] show ?case unfolding pin_loop.simps by (intro wp_ret) simp
next
  case (Cons e es)
  then have e: "pinnable doms e" and n: "(word_of_nat n :: u32) < 8"
    by (simp_all add: word_less_nat_alt unat_of_nat)
  let ?t = "t\<lparr>lk_idx := word_of_nat n, lk := (lk t)(word_of_nat n := pr_entry e)\<rparr>"
  have "wp st (pin_loop H (word_of_nat (Suc n)) es) Q E ?t"
  proof (rule Cons.IH)
    fix i from Cons.prems(3) [of i]
    show "Q () (?t\<lparr>lk_idx := i, lk := pinned (word_of_nat (Suc n)) es (lk ?t)\<rparr>)" by (simp add: ac_simps)
  qed (use Cons.prems in auto)
  then have "wp st (pin_loop H (word_of_nat n + 1) es) Q E ?t" by (simp add: ac_simps)
  then show ?case
    using e n unfolding pin_loop.simps
    by (intro wp_thn wp_bnd wp_check)
      (auto simp: pinnable_def pinnable_pin(1) [OF e] pr_entry_def intro!: wp_ret wp_bnd wp_thn wp_pin_sec)
qed

lemma wp_check_loop:
  assumes "mmu_on t" "\<forall>e \<in> set es. sec_aligned (pr_addr e) \<and> length (hits t (pr_addr e)) \<le> 1 \<and>
      tlb_translate t (pr_addr e) = Some (pr_addr e)"
    "\<And>v. Q () (t\<lparr>xl_va := v\<rparr>)"
  shows "wp st (check_loop H es) Q E t"
  using assms
proof (induction es arbitrary: t)
  case Nil
  from Nil(3) [of "xl_va t"] show ?case unfolding check_loop.simps by (intro wp_ret) simp
next
  case (Cons e es)
  let ?t = "t\<lparr>xl_va := pr_addr e\<rparr>"
  have "bits_get (pr_addr e) 0 2 = Inr 0"
    by (rule bits_get_field) (use Cons.prems(2) sec_aligned_low [of "pr_addr e"] in auto)
  moreover have "hits ?t v = hits t v" "tlb_translate ?t v = tlb_translate t v" for v
    by (rule hits_cong tlb_translate_cong; simp)+
  then have "wp st (check_loop H es) Q E ?t" using Cons.prems by (intro Cons.IH) simp_all
  ultimately show ?case
    using Cons.prems(1,2) unfolding check_loop.simps pin_check_exists_def
    by (intro wp_thn wp_bnd wp_acts [OF is_on] wp_check wp_contains) (auto intro!: wp_check wp_ret)
qed

lemma wp_alloc: "(\<And>q. q \<noteq> 0 \<Longrightarrow> Q q t) \<Longrightarrow> wp st (kmalloc_aligned H n al) Q E t"
  unfolding wp_def using alloc by (metis (mono_tags, lifting) case_prod_conv sum.case(2))

lemma wp_procmap_pin_on:
  assumes p: "map_pinnable p" and t: "tlb_empty t" "\<not> mmu_on t"
  shows "wp st (procmap_pin_on H p) (\<lambda>q t'. q \<noteq> 0 \<and> mmu_on t' \<and> tlb_asid t' = 1 \<and> lk t' = pinned 0 (pm_map p) (lk t) \<and>
     dom_perm (dom_ids p) DOM_client = Inr (dacr t')) never t"
proof -
  have es: "\<forall>e \<in> set (pm_map p). pinnable (dom_ids p) e" "0 + length (pm_map p) \<le> 8" using p by (simp_all add: map_pinnable_def)
  obtain d where d: "dom_perm (dom_ids p) DOM_client = Inr d"
    using p by (simp add: map_pinnable_def dom_perm_def DOM_client_def)
  let ?t = "\<lambda>i. t\<lparr>dacr := d, lk_idx := i, lk := pinned 0 (pm_map p) (lk t), tlb_asid := 1, mmu_on := True\<rparr>"
  have chk: "wp st (check_loop H (pm_map p)) (\<lambda>_ t'. \<exists>i v. t' = ?t i\<lparr>xl_va := v\<rparr>) never (?t i)" for i
  proof (rule wp_check_loop)
    have "hits (?t i) va = (case find (\<lambda>e. drop_bit 20 va = drop_bit 20 (pr_addr e)) (pm_map p) of None \<Rightarrow> [] | Some e \<Rightarrow> [pr_entry e])"
      for va by (rule map_hits [OF p t(1)]) simp
    then have "length (hits (?t i) va) \<le> 1" for va by (simp split: option.split)
    moreover have "tlb_translate (?t i) va = (if \<exists>e \<in> set (pm_map p). drop_bit 20 va = drop_bit 20 (pr_addr e) then Some va else None)"
      for va by (rule map_translate [OF p t(1)]) (simp_all add: d)
    ultimately show "\<forall>e \<in> set (pm_map p). sec_aligned (pr_addr e) \<and> length (hits (?t i) (pr_addr e)) \<le> 1 \<and>
        tlb_translate (?t i) (pr_addr e) = Some (pr_addr e)"
      using es(1) by (auto simp: pinnable_def)
  qed auto
  have "procmap_pin H p = pin_loop H (word_of_nat 0) (pm_map p)" by (simp add: procmap_pin_def)
  note pin = this
  show ?thesis
    unfolding procmap_pin_on_def pin_mmu_init_def d lft_simps pin pin_mmu_switch_def staff_mmu_set_ctx_def pin_mmu_enable_def
    by (intro wp_bnd wp_thn wp_ret wp_alloc wp_run_all_Cons wp_run_all_Nil wp_asserts wp_negated wp_acts [OF dacr_set]
        wp_pin_loop [OF es] wp_check wp_acts [OF asid_set] wp_acts [OF is_on] wp_acts [OF turn_on] conjI,
        use t in simp_all, rule wp_conseq [OF chk]) (auto intro!: wp_ret simp: d)
qed

end

section \<open>A TLB\<close>

definition sim_tlb :: "tlb tlb_hw" where
  "sim_tlb = \<lparr>lockdown_index_set = (\<lambda>i t. Inr ((), t\<lparr>lk_idx := i\<rparr>)),
     lockdown_va_set = (\<lambda>v t. Inr ((), put_ent (ent_va_update (\<lambda>_. v)) t)),
     lockdown_va_get = (\<lambda>t. Inr (ent_va (lk t (lk_idx t)), t)),
     lockdown_pa_set = (\<lambda>v t. Inr ((), put_ent (ent_pa_update (\<lambda>_. v)) t)),
     lockdown_pa_get = (\<lambda>t. Inr (ent_pa (lk t (lk_idx t)), t)),
     lockdown_attr_set = (\<lambda>v t. Inr ((), put_ent (ent_attr_update (\<lambda>_. v)) t)),
     lockdown_attr_get = (\<lambda>t. Inr (ent_attr (lk t (lk_idx t)), t)),
     xlate_kern_rd_set = (\<lambda>v t. Inr ((), t\<lparr>xl_va := v\<rparr>)),
     xlate_pa_get = (\<lambda>t. Inr (case tlb_translate t (xl_va t) of None \<Rightarrow> 1 | Some pa \<Rightarrow> pa AND NOT 0x3FF, t)),
     staff_mmu_is_enabled = (\<lambda>t. Inr (mmu_on t, t)),
     staff_mmu_enable = (\<lambda>t. Inr ((), t\<lparr>mmu_on := True\<rparr>)),
     staff_mmu_disable = (\<lambda>t. Inr ((), t\<lparr>mmu_on := False\<rparr>)),
     staff_domain_access_ctrl_set = (\<lambda>v t. Inr ((), t\<lparr>dacr := v\<rparr>)),
     staff_set_procid_ttbr0 = (\<lambda>p a pt t. Inr ((), t\<lparr>tlb_asid := a\<rparr>)),
     kmalloc_aligned = (\<lambda>n al t. Inr (0x4000, t))\<rparr>"

interpretation sim: pinned_tlb sim_tlb id
proof
  fix d :: tlb assume "mmu_on (id d)"
  have "\<not> bit (pa AND NOT 0x3FF) 0" "(pa AND NOT 0x3FF) AND NOT 0x3FF = pa AND NOT 0x3FF" for pa :: u32
    by (auto simp: mask_10 bits_of intro: u32_eqI)
  then show "\<exists>r d'. xlate_pa_get sim_tlb d = Inr (r, d') \<and> id d' = id d \<and> xlate_result (id d) r"
    by (auto simp: sim_tlb_def xlate_result_def split: option.splits)
qed (simp_all add: acts_def sim_tlb_def)

definition tlb_off :: tlb where
  "tlb_off = \<lparr>lk_idx = 0, lk = (\<lambda>_. \<lparr>ent_va = 0, ent_pa = 0, ent_attr = 0\<rparr>), xl_va = 0, tlb_asid = 0, dacr = 0, mmu_on = False\<rparr>"

lemma tlb_off: "tlb_empty tlb_off" "\<not> mmu_on tlb_off"
  by (simp_all add: tlb_off_def tlb_empty_def)

section \<open>Properties\<close>

text \<open>C4. Turning the pinned virtual memory on with a map of the address space maps exactly the map, each address to itself:
  the call returns, so all its checks pass, the MMU is on, and an address is translated, to itself, if it lies in one
  of the map's megabytes, and not translated otherwise.\<close>

theorem procmap_pin_on_identity:
  assumes "pinned_tlb H st" "map_pinnable p" "tlb_empty (st d)" "\<not> mmu_on (st d)"
  shows "\<exists>q d'. procmap_pin_on H p d = Inr (q, d') \<and> mmu_on (st d') \<and>
    (\<forall>va. tlb_translate (st d') va =
      (if \<exists>e \<in> set (pm_map p). drop_bit 20 va = drop_bit 20 (pr_addr e) then Some va else None))"
proof -
  from wp_total [OF pinned_tlb.wp_procmap_pin_on [OF assms]] obtain q d' where
    d': "procmap_pin_on H p d = Inr (q, d')" "mmu_on (st d')" "lk (st d') = pinned 0 (pm_map p) (lk (st d))"
      "dom_perm (dom_ids p) DOM_client = Inr (dacr (st d'))" by blast
  with map_translate [OF assms(2,3) d'(3,4)] show ?thesis by blast
qed

text \<open>The default map of the labs can be pinned.\<close>

definition mb_ent :: "mem_type \<Rightarrow> u32 \<Rightarrow> pr_ent_t" where
  "mb_ent ty a = \<lparr>pr_addr = a, pr_nbytes = OneMB, pr_type = ty, pr_dom = 1\<rparr>"

definition kernel_map :: procmap_t where
  "kernel_map = \<lparr>dom_ids = 2, pm_map = [mb_ent MEM_DEVICE 0x20000000, mb_ent MEM_DEVICE 0x20100000,
     mb_ent MEM_DEVICE 0x20200000, mb_ent MEM_RW 0, mb_ent MEM_RW 0x100000, mb_ent MEM_RW 0x8F00000, mb_ent MEM_RW 0x7F00000]\<rparr>"

lemma push_ent_ok:
  assumes "length es < 8" "m = 0 \<or> m = 2"
  shows "push_ent a ty 1 \<lparr>dom_ids = m, pm_map = es\<rparr> = Inr \<lparr>dom_ids = 2, pm_map = es @ [mb_ent ty a]\<rparr>"
  using assms by (auto simp: push_ent_def pr_ent_mk_def procmap_push_def MAX_ENT_def mb_ent_def OneMB_def shl_def)

lemma default_map:
  assumes "prog_end \<le> OneMB"
  shows "procmap_default_mk prog_end OneMB (2 * OneMB) 1 = Inr kernel_map"
proof -
  have "2 * OneMB - OneMB = OneMB" by simp
  moreover have "INT_STACK_ADDR - OneMB = 0x8F00000" "STACK_ADDR - OneMB = 0x7F00000"
    by (simp_all add: OneMB_def INT_STACK_ADDR_def STACK_ADDR_def)
  ultimately have r: "require (prog_end \<le> OneMB) Assert_fail = Inr ()" "require (2 * OneMB - OneMB = OneMB) Panic = Inr ()"
    "require (OneMB = OneMB) Panic = Inr ()" "INT_STACK_ADDR - OneMB = 0x8F00000" "STACK_ADDR - OneMB = 0x7F00000"
    using assms by simp_all
  show ?thesis
    unfolding procmap_default_mk_def Let_def kernel_map_def r seq_simps
    by ((subst push_ent_ok, simp, simp, unfold seq_simps)+, simp, subst push_ent_ok, simp_all)
qed

lemma kernel_map_pinnable: "map_pinnable kernel_map"
proof -
  have a: "a \<in> {0x20000000, 0x20100000, 0x20200000, 0, 0x100000, 0x8F00000, 0x7F00000} \<Longrightarrow> sec_aligned a" for a
    by (auto simp: sec_aligned_def mask_eq_exp_minus_1)
  have "pinnable 2 (mb_ent ty a)" if "sec_aligned a" "ty \<noteq> MEM_RO" for a ty
    using that by (simp add: pinnable_def mb_ent_def)
  then show ?thesis by (simp add: map_pinnable_def kernel_map_def a) (simp add: mb_ent_def shr_def drop_bit_eq_div)
qed

lemma kernel_map_addrs: "pr_addr ` set (pm_map kernel_map) = {0x20000000, 0x20100000, 0x20200000, 0, 0x100000, 0x8F00000, 0x7F00000}"
  by (simp add: kernel_map_def mb_ent_def)

theorem procmap_pin_on_identity_witness:
  "\<exists>q t. procmap_pin_on sim_tlb kernel_map tlb_off = Inr (q, t) \<and>
     tlb_translate t 0x20200034 = Some 0x20200034 \<and> tlb_translate t 0x30000000 = None"
proof -
  have "tlb_empty (id tlb_off)" "\<not> mmu_on (id tlb_off)" using tlb_off by simp_all
  from procmap_pin_on_identity [OF sim.pinned_tlb_axioms kernel_map_pinnable this] obtain q t where
    t: "procmap_pin_on sim_tlb kernel_map tlb_off = Inr (q, t)" and
    tr: "\<And>va. tlb_translate t va = (if \<exists>e \<in> set (pm_map kernel_map). drop_bit 20 va = drop_bit 20 (pr_addr e) then Some va else None)"
    unfolding id_apply by blast
  have "(\<exists>e \<in> set (pm_map kernel_map). drop_bit 20 va = drop_bit 20 (pr_addr e)) \<longleftrightarrow>
      (\<exists>a \<in> pr_addr ` set (pm_map kernel_map). drop_bit 20 va = drop_bit 20 a)" for va
    by blast
  note tr = tr [unfolded this kernel_map_addrs]
  have "tlb_translate t 0x20200034 = Some 0x20200034" "tlb_translate t 0x30000000 = None"
    unfolding tr by (simp_all add: drop_bit_eq_div)
  with t show ?thesis by blast
qed

text \<open>What \<open>pin_mmu_sec\<close> pins, \<open>lockdown_print_entry\<close> reads back: every field of the entry comes out as it went in.\<close>

theorem pin_read_back:
  assumes "pinned_tlb H st" "idx < 8" "sec_aligned va" "sec_aligned pa" "legal_pin e"
  shows "\<exists>d1 d2. pin_mmu_sec H idx va pa e d = Inr ((), d1) \<and>
    lockdown_print_entry H idx d1 = Inr (Some [shr va 12, attr_G e, attr_asid e, shr pa 12, 0, 0, attr_pagesize e,
      attr_AP_perm e, attr_dom e, 0, shr (attr_mem e) 2, shr (attr_mem e) 1 AND 1, shr (attr_mem e) 0 AND 1], d2)"
proof -
  have "wp st (pin_mmu_sec H idx va pa e) (\<lambda>_ t. lk t idx = entry_of va pa e) never (st d)"
    by (rule pinned_tlb.wp_pin_sec [OF assms(1-4)]) simp
  from wp_total [OF this] obtain d1 where d1: "pin_mmu_sec H idx va pa e d = Inr ((), d1)" "lk (st d1) idx = entry_of va pa e"
    by auto
  have "wp st (lockdown_print_entry H idx) (\<lambda>r t. r = Some [shr va 12, attr_G e, attr_asid e, shr pa 12, 0, 0,
      attr_pagesize e, attr_AP_perm e, attr_dom e, 0, shr (attr_mem e) 2, shr (attr_mem e) 1 AND 1, shr (attr_mem e) 0 AND 1])
      never (st d1)"
    by (rule pinned_tlb.wp_read_entry [OF assms(1,5,3,4) d1(2)]) simp
  from wp_total [OF this] d1(1) show ?thesis by auto
qed

theorem pin_read_back_witness:
  "\<exists>e d1 d2. pin_mk_user 2 1 perm_rw_user MEM_wt_noalloc = Inr e \<and>
    pin_mmu_sec sim_tlb 7 0x100000 0x200000 e tlb_off = Inr ((), d1) \<and>
    lockdown_print_entry sim_tlb 7 d1 = Inr (Some [0x100, 0, 1, 0x200, 0, 0, 3, 3, 2, 0, 0, 1, 0], d2)"
proof -
  obtain e where e: "pin_mk_user 2 1 perm_rw_user MEM_wt_noalloc = Inr e"
    by (simp add: pin_mk_user_def pin_mk_def mem_perm_islegal_def)
  have mem: "MEM_wt_noalloc = 2" by (simp add: MEM_wt_noalloc_def TEX_C_B_def shl_def)
  from pin_mk_ok [OF e [unfolded pin_mk_user_def]]
  have "e = \<lparr>attr_G = 0, attr_asid = 1, attr_dom = 2, attr_pagesize = 3, attr_AP_perm = 3, attr_mem = 2\<rparr>"
    by (simp add: PAGE_1MB_def perm_rw_user_def mem)
  moreover from this have "legal_pin e" by (simp add: legal_pin_def)
  ultimately show ?thesis
    using pin_read_back [OF sim.pinned_tlb_axioms, of 7 "0x100000" "0x200000" e tlb_off] e
    by (simp add: sec_aligned_def mask_eq_exp_minus_1 shr_def drop_bit_eq_div)
qed

lemma two_hits:
  assumes "P (xs ! i)" "P (xs ! j)" "i < length xs" "j < length xs" "i \<noteq> j"
  shows "2 \<le> length (filter P xs)"
proof -
  have "card {i, j} \<le> card {k. k < length xs \<and> P (xs ! k)}"
    by (rule card_mono) (use assms in auto)
  with assms(5) show ?thesis by (simp add: length_filter_conv_card)
qed

text \<open>The header names a second error of \<open>pin_mmu_sec\<close>, an address that is mapped already; it is not found: pinning a
  section at two indices succeeds and leaves two entries of the TLB that match it, which the hardware does not allow.\<close>

theorem pin_twice_not_found:
  assumes "pinned_tlb H st" "i < 8" "j < 8" "i \<noteq> j" "pinnable doms e" "pin_of_ent e = Inr g"
  shows "\<exists>d1 d2. pin_mmu_sec H i (pr_addr e) (pr_addr e) g d = Inr ((), d1) \<and>
    pin_mmu_sec H j (pr_addr e) (pr_addr e) g d1 = Inr ((), d2) \<and> 2 \<le> length (hits (st d2) (pr_addr e))"
proof -
  have g: "entry_of (pr_addr e) (pr_addr e) g = pr_entry e" and a: "sec_aligned (pr_addr e)"
    using assms(5,6) pinnable_pin(1) [OF assms(5)] by (auto simp: pr_entry_def pinnable_def)
  have "wp st (pin_mmu_sec H i (pr_addr e) (pr_addr e) g) (\<lambda>_ t. lk t i = pr_entry e) never (st d)"
    by (rule pinned_tlb.wp_pin_sec [OF assms(1,2) a a]) (simp add: g)
  from wp_total [OF this] obtain d1 where d1: "pin_mmu_sec H i (pr_addr e) (pr_addr e) g d = Inr ((), d1)" "lk (st d1) i = pr_entry e"
    by auto
  have "wp st (pin_mmu_sec H j (pr_addr e) (pr_addr e) g) (\<lambda>_ t. lk t i = pr_entry e \<and> lk t j = pr_entry e) never (st d1)"
    by (rule pinned_tlb.wp_pin_sec [OF assms(1,3) a a]) (use assms(4) d1(2) in \<open>simp add: g\<close>)
  from wp_total [OF this] obtain d2 where d2: "pin_mmu_sec H j (pr_addr e) (pr_addr e) g d1 = Inr ((), d2)"
    "lk (st d2) i = pr_entry e" "lk (st d2) j = pr_entry e" by auto
  have "unat i < 8" "unat j < 8" "unat i \<noteq> unat j" using assms(2-4) by (simp_all add: word_less_nat_alt word_unat_eq_iff)
  with d2(2,3) have "2 \<le> length (hits (st d2) (pr_addr e))"
    unfolding hits_def
    by (intro two_hits [of _ _ "unat i" "unat j"]) (simp_all add: entries_def pr_entry_matches(2) [OF assms(5)])
  with d1(1) d2(1) show ?thesis by blast
qed

theorem pin_twice_not_found_witness:
  "\<exists>g t1 t2. pin_of_ent (mb_ent MEM_RW 0x100000) = Inr g \<and> pin_mmu_sec sim_tlb 0 0x100000 0x100000 g tlb_off = Inr ((), t1) \<and>
    pin_mmu_sec sim_tlb 1 0x100000 0x100000 g t1 = Inr ((), t2) \<and> 2 \<le> length (hits t2 0x100000)"
proof -
  have "sec_aligned 0x100000" by (simp add: sec_aligned_def mask_eq_exp_minus_1)
  then have p: "pinnable 2 (mb_ent MEM_RW 0x100000)" by (simp add: pinnable_def mb_ent_def)
  have i: "(0 :: u32) < 8" "(1 :: u32) < 8" "(0 :: u32) \<noteq> 1" by simp_all
  note r = pin_twice_not_found [OF sim.pinned_tlb_axioms i p pinnable_pin(1) [OF p], of tlb_off]
  have a: "pr_addr (mb_ent MEM_RW 0x100000) = 0x100000" by (simp add: mb_ent_def)
  from r [unfolded a id_apply] pinnable_pin(1) [OF p] show ?thesis by blast
qed

text \<open>\<open>pin_mk\<close> lets domain 16 pass, which has no place in the attribute word: the entry is in domain 0.\<close>

lemma domain_16_is_domain_0:
  "\<exists>e. pin_mk_global 16 perm_rw_priv MEM_uncached = Inr e \<and> bits_get (attr_entry e) 7 10 = Inr 0"
  by (simp add: pin_mk_global_def pin_mk_def mem_perm_islegal_def attr_entry_def mem_codes shl_def bits_get_ok shr_def
      mask_eq_exp_minus_1 drop_bit_eq_div)

end
