(* ===== verification/Printk.thy ===== *)
theory Printk
  imports Mmio LibC Wp
begin

unbundle bit_operations_syntax

text \<open>
  Formatted output: \<open>libpi/libc/printk.c\<close>, \<open>sprintk.c\<close>, \<open>putk.c\<close> and \<open>uart-hex.c\<close>. The two copies of the
  formatter differ in the function that takes the characters, which is the parameter \<open>P\<close> here: \<open>rpi_putchar\<close>, a
  pointer that a program may change, or the \<open>putchar\<close> of \<open>sprintk.c\<close>, which stores into a buffer. A format and a
  string argument are the characters before the terminating zero; an argument list is a list of values of the types
  that \<open>va_arg\<close> is asked for, and asking for another type or for more than there are is undefined. A panic ends the run.
\<close>

section \<open>Numbers\<close>

definition digit_char :: "nat \<Rightarrow> char" where
  "digit_char d = ''0123456789abcdef'' ! d"

text \<open>\<open>do *p++ = digits[u % base]; while(u /= base)\<close>, \<open>num\<close> is what the buffer of 33 characters holds.\<close>

function num_loop :: "u32 \<Rightarrow> u32 \<Rightarrow> string \<Rightarrow> string res" where
  "num_loop base u num =
     (if length num < 33 then
        (let num' = num @ [digit_char (unat (u mod base))]; u' = u div base in
         if u' \<noteq> 0 then num_loop base u' num' else Inr num')
      else Inl Undefined)"
  by auto
termination by (relation "measure (\<lambda>(_, _, num). 33 - length num)") auto

declare num_loop.simps [simp del]

fun emit_backwards :: "(u32 \<Rightarrow> ('d, unit) io) \<Rightarrow> string \<Rightarrow> ('d, unit) io" where
  "emit_backwards P [] = ret ()"
| "emit_backwards P (c # cs) = thn (emit_backwards P cs) (P (of_char c))"

definition emit_val :: "(u32 \<Rightarrow> ('d, unit) io) \<Rightarrow> u32 \<Rightarrow> u32 \<Rightarrow> ('d, unit) io" where
  "emit_val P base u =
     (if base = 2 \<or> base = 10 \<or> base = 16 then bnd (lft (num_loop base u [])) (emit_backwards P)
      else fails Panic)"

section \<open>Formats\<close>

datatype arg = IntArg u32 | LongArg u64 | StrArg string

fun put_str :: "(u32 \<Rightarrow> ('d, unit) io) \<Rightarrow> string \<Rightarrow> ('d, unit) io" where
  "put_str P [] = ret ()"
| "put_str P (c # cs) = thn (P (of_char c)) (put_str P cs)"

definition emit_0x :: "(u32 \<Rightarrow> ('d, unit) io) \<Rightarrow> ('d, unit) io" where
  "emit_0x P = thn (P (of_char (CHR ''0''))) (P (of_char (CHR ''x'')))"

definition emit_llx :: "(u32 \<Rightarrow> ('d, unit) io) \<Rightarrow> u64 \<Rightarrow> ('d, unit) io" where
  "emit_llx P x =
     (let hi = ucast (drop_bit 32 x) :: u32; lo = ucast x :: u32 in
      thn (emit_0x P) (thn (if hi \<noteq> 0 then emit_val P 16 hi else ret ()) (emit_val P 16 lo)))"

text \<open>\<open>v = -v\<close> is undefined for the least \<open>int\<close>.\<close>

definition emit_int :: "(u32 \<Rightarrow> ('d, unit) io) \<Rightarrow> u32 \<Rightarrow> ('d, unit) io" where
  "emit_int P v =
     (if v <s 0 then
        thn (P (of_char (CHR ''-''))) (thn (check (v \<noteq> 0x80000000) Undefined) (emit_val P 10 (- v)))
      else emit_val P 10 v)"

fun vprintk_loop :: "(u32 \<Rightarrow> ('d, unit) io) \<Rightarrow> string \<Rightarrow> arg list \<Rightarrow> ('d, unit) io" where
  "vprintk_loop P [] ap = ret ()"
| "vprintk_loop P (c # fmt) ap =
     (if c \<noteq> CHR ''%'' then thn (P (of_char c)) (vprintk_loop P fmt ap)
      else case fmt of
        [] \<Rightarrow> fails Panic
      | f # rest \<Rightarrow>
         if f = CHR ''l'' then
           (case rest of
              l # x # r \<Rightarrow>
                if l = CHR ''l'' \<and> x = CHR ''x'' then
                  (case ap of
                     LongArg v # as \<Rightarrow> thn (emit_llx P v) (vprintk_loop P r as)
                   | _ \<Rightarrow> fails Undefined)
                else fails Panic
            | _ \<Rightarrow> fails Panic)
         else if f = CHR ''s'' then
           (case ap of
              StrArg s # as \<Rightarrow> thn (put_str P s) (vprintk_loop P rest as)
            | _ \<Rightarrow> fails Undefined)
         else if f \<in> set ''bucxpd'' then
           (case ap of
              IntArg v # as \<Rightarrow>
                thn (if f = CHR ''b'' then emit_val P 2 v
                     else if f = CHR ''u'' then emit_val P 10 v
                     else if f = CHR ''c'' then P v
                     else if f = CHR ''d'' then emit_int P v
                     else thn (emit_0x P) (emit_val P 16 v))
                  (vprintk_loop P rest as)
            | _ \<Rightarrow> fails Undefined)
         else fails Panic)"

definition vprintk :: "(u32 \<Rightarrow> ('d, unit) io) \<Rightarrow> string \<Rightarrow> arg list \<Rightarrow> ('d, u32) io" where
  "vprintk P fmt ap = thn (vprintk_loop P fmt ap) (ret 0)"

definition printk :: "(u32 \<Rightarrow> ('d, unit) io) \<Rightarrow> string \<Rightarrow> arg list \<Rightarrow> ('d, u32) io" where
  "printk P fmt args = vprintk P fmt args"

definition putk :: "(u32 \<Rightarrow> ('d, unit) io) \<Rightarrow> string \<Rightarrow> ('d, u32) io" where
  "putk P p = thn (put_str P p) (ret 1)"

definition uart_hex :: "(u32 \<Rightarrow> ('d, unit) io) \<Rightarrow> u32 \<Rightarrow> ('d, u32) io" where
  "uart_hex P h = thn (printk P ''%x'' [IntArg h]) (ret 0)"

section \<open>Printing into a buffer\<close>

text \<open>The globals of \<open>sprintk.c\<close> and the memory.\<close>

record sprint =
  sp_mem :: ram
  buf_ptr :: u32
  buf_end :: u32

definition sp_putchar :: "u8 \<Rightarrow> (sprint, unit) io" where
  "sp_putchar c s =
     (if buf_ptr s < buf_end s
      then Inr ((), s\<lparr>sp_mem := (sp_mem s)(buf_ptr s := c), buf_ptr := buf_ptr s + 1\<rparr>)
      else Inl Assert_fail)"

definition vsnprintk :: "u32 \<Rightarrow> u32 \<Rightarrow> string \<Rightarrow> arg list \<Rightarrow> (sprint, u32) io" where
  "vsnprintk buf n fmt ap s =
     thn (vprintk_loop (\<lambda>c. sp_putchar (ucast c)) fmt ap)
       (\<lambda>s. Inr (0, s\<lparr>sp_mem := (sp_mem s)(buf_ptr s := 0), buf_ptr := buf_ptr s + 1\<rparr>))
       (s\<lparr>buf_ptr := buf, buf_end := buf + n\<rparr>)"

definition snprintk :: "u32 \<Rightarrow> u32 \<Rightarrow> string \<Rightarrow> arg list \<Rightarrow> (sprint, u32) io" where
  "snprintk buf n fmt args = vsnprintk buf n fmt args"

section \<open>Numerals\<close>

text \<open>The digits of a number, the last one first, and the number that a list of digits stands for.\<close>

function ndigits :: "nat \<Rightarrow> nat \<Rightarrow> nat list" where
  "ndigits b n = (if b < 2 then [] else n mod b # (if n div b = 0 then [] else ndigits b (n div b)))"
  by auto
termination
proof (relation "measure snd", goal_cases)
  case (2 b n)
  then have "2 \<le> b" "0 < n" by (auto intro: gr0I)
  then show ?case by simp
qed simp

declare ndigits.simps [simp del]

definition numeral_text :: "nat \<Rightarrow> nat \<Rightarrow> string" where
  "numeral_text b n = map digit_char (rev (ndigits b n))"

definition char_digit :: "char \<Rightarrow> nat" where
  "char_digit c = (let k = of_char c in if k < 58 then k - 48 else k - 87)"

definition numeral_value :: "nat \<Rightarrow> string \<Rightarrow> nat" where
  "numeral_value b s = foldl (\<lambda>v c. v * b + char_digit c) 0 s"

lemma ndigits_bound: "2 \<le> b \<Longrightarrow> d \<in> set (ndigits b n) \<Longrightarrow> d < b"
proof (induction b n rule: ndigits.induct)
  case (1 b n)
  then show ?case by (subst (asm) (2) ndigits.simps) (auto split: if_splits)
qed

lemma ndigits_length: "2 \<le> b \<Longrightarrow> n < b ^ k \<Longrightarrow> 0 < k \<Longrightarrow> length (ndigits b n) \<le> k"
proof (induction b n arbitrary: k rule: ndigits.induct)
  case (1 b n)
  show ?case
  proof (cases "n div b = 0")
    case True
    with "1.prems" show ?thesis by (subst ndigits.simps) simp
  next
    case False
    with "1.prems" have k: "1 < k" by (metis One_nat_def div_less less_one linorder_neqE_nat not_less_eq power_one_right)
    then obtain k' where k': "k = Suc k'" "0 < k'" by (metis Suc_lessE less_trans_Suc zero_less_one gr0_conv_Suc)
    with "1.prems" have "n div b < b ^ k'" by (simp add: less_mult_imp_div_less mult.commute)
    with "1.IH" [of k'] "1.prems" False k' show ?thesis by (subst ndigits.simps) simp
  qed
qed

lemma digit_char_table: "\<forall>d \<in> set [0..<16]. char_digit (digit_char d) = d"
  by code_simp

lemma digit_char_inverse: "d < 16 \<Longrightarrow> char_digit (digit_char d) = d"
  using digit_char_table by simp

lemma numeral_value_snoc: "numeral_value b (s @ [c]) = numeral_value b s * b + char_digit c"
  by (simp add: numeral_value_def)

lemma numeral_value_text:
  assumes "2 \<le> b" "b \<le> 16"
  shows "numeral_value b (numeral_text b n) = n"
  using assms
proof (induction b n rule: ndigits.induct)
  case (1 b n)
  have d: "char_digit (digit_char (n mod b)) = n mod b"
    using "1.prems" by (intro digit_char_inverse) (rule less_le_trans [of _ b], auto)
  show ?case
  proof (cases "n div b = 0")
    case True
    then have "numeral_text b n = [digit_char (n mod b)]"
      using "1.prems" by (simp add: numeral_text_def ndigits.simps [of b n])
    moreover have "n mod b = n" using True "1.prems" by (metis div_mult_mod_eq add_0 mult_0)
    ultimately show ?thesis using d by (simp add: numeral_value_def)
  next
    case False
    then have "numeral_text b n = numeral_text b (n div b) @ [digit_char (n mod b)]"
      using "1.prems" by (simp add: numeral_text_def ndigits.simps [of b n])
    with "1.IH" "1.prems" False d show ?thesis by (simp add: numeral_value_snoc)
  qed
qed

lemma no_leading_zero: "2 \<le> b \<Longrightarrow> last (ndigits b n) = 0 \<Longrightarrow> n = 0"
proof (induction b n rule: ndigits.induct)
  case (1 b n)
  show ?case
  proof (cases "n div b = 0")
    case True
    then have "ndigits b n = [n mod b]" using "1.prems" by (simp add: ndigits.simps [of b n])
    with True "1.prems" show ?thesis by (metis div_mult_mod_eq add_0 mult_0 last_ConsL)
  next
    case False
    then have "ndigits b n = n mod b # ndigits b (n div b)" "ndigits b (n div b) \<noteq> []"
      using "1.prems" by (simp_all add: ndigits.simps [of b n] ndigits.simps [of b "n div b"])
    with "1.IH" "1.prems" False show ?thesis by auto
  qed
qed

lemma ndigits_not_Nil [simp]: "2 \<le> b \<Longrightarrow> ndigits b n \<noteq> []"
  by (simp add: ndigits.simps [of b n])

section \<open>What the loops print\<close>

lemma num_loop_digits:
  assumes "2 \<le> unat base" "length num + length (ndigits (unat base) (unat u)) \<le> 33"
  shows "num_loop base u num = Inr (num @ map digit_char (ndigits (unat base) (unat u)))"
  using assms
proof (induction base u num rule: num_loop.induct)
  case (1 base u num)
  let ?b = "unat base" and ?u = "unat u"
  have div0: "u div base = 0 \<longleftrightarrow> ?u div ?b = 0"
    by (metis unat_div unat_eq_zero)
  have nd: "ndigits ?b ?u = ?u mod ?b # (if ?u div ?b = 0 then [] else ndigits ?b (?u div ?b))"
    using "1.prems" by (simp add: ndigits.simps [of ?b ?u])
  show ?case
  proof (cases "u div base = 0")
    case True
    with "1.prems" nd div0 show ?thesis
      by (subst num_loop.simps) (simp add: unat_mod)
  next
    case False
    have l: "length num < 33" using "1.prems" nd by simp
    have le: "length (num @ [digit_char (unat (u mod base))]) + length (ndigits ?b (unat (u div base))) \<le> 33"
      using "1.prems" nd False div0 by (simp add: unat_div)
    have "num_loop base u num = num_loop base (u div base) (num @ [digit_char (unat (u mod base))])"
      using l False by (subst num_loop.simps) (simp add: Let_def)
    also have "\<dots> = Inr ((num @ [digit_char (unat (u mod base))]) @ map digit_char (ndigits ?b (unat (u div base))))"
      by (rule "1.IH" [OF l refl refl False "1.prems"(1) le])
    also have "\<dots> = Inr (num @ map digit_char (ndigits ?b ?u))"
      using nd False div0 by (simp add: unat_mod unat_div)
    finally show ?thesis .
  qed
qed

definition puts :: "(u32 \<Rightarrow> ('d, unit) io) \<Rightarrow> u32 list \<Rightarrow> ('d, unit) io" where
  "puts P t = run_all (map P t)"

lemma puts_Nil [simp]: "puts P [] = ret ()"
  by (simp add: puts_def)

declare thn_ret_unit [simp] ret_thn [simp]

lemma puts_Cons: "puts P (c # t) = thn (P c) (puts P t)"
  by (simp add: puts_def)

lemma puts_single [simp]: "puts P [c] = P c"
  by (simp add: puts_Cons)

lemma puts_append: "puts P (s @ t) = thn (puts P s) (puts P t)"
  by (simp add: puts_def run_all_append)

lemma emit_backwards_puts: "emit_backwards P num = puts P (map of_char (rev num))"
  by (induction num) (simp_all add: puts_append)

lemma put_str_puts: "put_str P s = puts P (map of_char s)"
  by (induction s) (simp_all add: puts_Cons)

lemma base_cases: "base = 2 \<or> base = 10 \<or> base = (16 :: u32) \<Longrightarrow> 2 \<le> unat base \<and> unat base \<le> 16"
  by auto

lemma ndigits_u32_length: "2 \<le> b \<Longrightarrow> length (ndigits b (unat (u :: u32))) \<le> 32"
proof (rule ndigits_length)
  assume "2 \<le> b"
  then have "(2 :: nat) ^ 32 \<le> b ^ 32" by (rule power_mono) simp
  moreover have "unat u < 2 ^ 32" using unat_u32_lt [of u] by simp
  ultimately show "unat u < b ^ 32" by linarith
qed simp_all

lemma emit_val_puts:
  assumes "base = 2 \<or> base = 10 \<or> base = 16"
  shows "emit_val P base u = puts P (map of_char (numeral_text (unat base) (unat u)))"
proof -
  have b: "2 \<le> unat base" using base_cases [OF assms] by simp
  have "num_loop base u [] = Inr (map digit_char (ndigits (unat base) (unat u)))"
    using num_loop_digits [of base "[]" u] b ndigits_u32_length [OF b, of u] by simp
  with assms show ?thesis
    by (auto simp: emit_val_def emit_backwards_puts numeral_text_def rev_map fun_eq_iff)
qed


subsection \<open>Signed numbers\<close>

definition int_text :: "int \<Rightarrow> string" where
  "int_text k = (if k < 0 then ''-'' else []) @ numeral_text 10 (nat \<bar>k\<bar>)"

lemma unat_minus_negative: "sint (v :: u32) < 0 \<Longrightarrow> unat (- v) = nat (- sint v)"
proof -
  assume n: "sint v < 0"
  have ge: "- (2 ^ 31) \<le> sint v" using sint_ge [of v] by simp
  have "- v = word_of_int (- sint v)" by simp
  then have "uint (- v) = (- sint v) mod 2 ^ 32" by (simp only: uint_word_of_int) simp
  also have "\<dots> = - sint v" using n ge by (intro mod_pos_pos_trivial) simp_all
  finally show ?thesis by (simp add: unat_eq_nat_uint)
qed

lemma unat_sint_positive: "\<not> sint (v :: u32) < 0 \<Longrightarrow> unat v = nat (sint v)"
proof -
  assume n: "\<not> sint v < 0"
  have lt: "sint v < 2 ^ 31" using sint_lt [of v] by simp
  have "uint v = uint (word_of_int (sint v) :: u32)" by simp
  also have "\<dots> = sint v mod 2 ^ 32" by (simp only: uint_word_of_int) simp
  also have "\<dots> = sint v" using n lt by (intro mod_pos_pos_trivial) simp_all
  finally show ?thesis by (simp add: unat_eq_nat_uint)
qed

lemma emit_int_puts:
  assumes "v \<noteq> 0x80000000"
  shows "emit_int P v = puts P (map of_char (int_text (sint v)))"
proof (cases "sint v < 0")
  case True
  then show ?thesis using assms
    by (simp add: emit_int_def word_sless_alt emit_val_puts int_text_def puts_Cons unat_minus_negative)
next
  case False
  then show ?thesis
    by (simp add: emit_int_def word_sless_alt emit_val_puts int_text_def unat_sint_positive)
qed


section \<open>Formats and their arguments\<close>

text \<open>What a format with its arguments is made of: text without a percent sign, and directives with their values.\<close>

datatype item =
  Lit string | Bin u32 | Udec u32 | Sdec u32 | Hex u32 | Ptr u32 | Hex64 u64 | Chr u32 | Text string

fun item_format :: "item \<Rightarrow> string" where
  "item_format (Lit s) = s"
| "item_format (Bin u) = ''%b''"
| "item_format (Udec u) = ''%u''"
| "item_format (Sdec v) = ''%d''"
| "item_format (Hex u) = ''%x''"
| "item_format (Ptr u) = ''%p''"
| "item_format (Hex64 x) = ''%llx''"
| "item_format (Chr c) = ''%c''"
| "item_format (Text s) = ''%s''"

fun item_args :: "item \<Rightarrow> arg list" where
  "item_args (Lit s) = []"
| "item_args (Hex64 x) = [LongArg x]"
| "item_args (Text s) = [StrArg s]"
| "item_args (Bin u) = [IntArg u]"
| "item_args (Udec u) = [IntArg u]"
| "item_args (Sdec u) = [IntArg u]"
| "item_args (Hex u) = [IntArg u]"
| "item_args (Ptr u) = [IntArg u]"
| "item_args (Chr u) = [IntArg u]"

definition llx_text :: "u64 \<Rightarrow> string" where
  "llx_text x =
     (let hi = unat x div 2 ^ 32; lo = unat x mod 2 ^ 32 in
      (if hi = 0 then [] else numeral_text 16 hi) @ numeral_text 16 lo)"

fun item_text :: "item \<Rightarrow> u32 list" where
  "item_text (Lit s) = map of_char s"
| "item_text (Bin u) = map of_char (numeral_text 2 (unat u))"
| "item_text (Udec u) = map of_char (numeral_text 10 (unat u))"
| "item_text (Sdec v) = map of_char (int_text (sint v))"
| "item_text (Hex u) = map of_char (''0x'' @ numeral_text 16 (unat u))"
| "item_text (Ptr u) = map of_char (''0x'' @ numeral_text 16 (unat u))"
| "item_text (Hex64 x) = map of_char (''0x'' @ llx_text x)"
| "item_text (Chr c) = [c]"
| "item_text (Text s) = map of_char s"

fun item_ok :: "item \<Rightarrow> bool" where
  "item_ok (Lit s) = (CHR ''%'' \<notin> set s)"
| "item_ok (Sdec v) = (v \<noteq> 0x80000000)"
| "item_ok _ = True"

definition items_text :: "item list \<Rightarrow> u32 list" where
  "items_text is = concat (map item_text is)"

lemma emit_0x_puts: "emit_0x P = puts P (map of_char ''0x'')"
  by (simp add: emit_0x_def puts_Cons)

lemma hi_part: "unat (drop_bit 32 x :: u64) mod 4294967296 = unat x div 4294967296"
proof -
  have "unat x < 2 ^ 64" using unsigned_less [of x] by simp
  then have "unat x div 4294967296 < 4294967296" by (simp add: less_mult_imp_div_less)
  then show ?thesis by (simp add: drop_bit_eq_div unat_div)
qed

lemma unat_hi_lo:
  "unat (ucast (drop_bit 32 x :: u64) :: u32) = unat x div 2 ^ 32" "unat (ucast (x :: u64) :: u32) = unat x mod 2 ^ 32"
  by (simp_all add: unsigned_ucast_eq take_bit_eq_mod hi_part)

lemma emit_llx_puts: "emit_llx P x = puts P (map of_char (''0x'' @ llx_text x))"
proof -
  have hi: "(ucast (drop_bit 32 x) :: u32) = 0 \<longleftrightarrow> unat x div 2 ^ 32 = 0"
    by (metis unat_hi_lo(1) unat_eq_zero)
  have hx: "emit_val P 16 u = puts P (map of_char (numeral_text 16 (unat u)))" for u
    by (simp add: emit_val_puts)
  show ?thesis
  proof (cases "(ucast (drop_bit 32 x) :: u32) = 0")
    case True
    then show ?thesis using hi
      by (simp only: emit_llx_def Let_def hx emit_0x_puts llx_text_def unat_hi_lo) (simp add: puts_Cons thn_assoc)
  next
    case False
    then show ?thesis using hi
      by (simp only: emit_llx_def Let_def hx emit_0x_puts llx_text_def unat_hi_lo if_False simp_thms)
        (simp add: puts_append puts_Cons thn_assoc hi_part)
  qed
qed

lemma vprintk_loop_Lit:
  "CHR ''%'' \<notin> set s \<Longrightarrow> vprintk_loop P (s @ fmt) ap = thn (puts P (map of_char s)) (vprintk_loop P fmt ap)"
  by (induction s) (auto simp: puts_Cons thn_assoc)

lemma vprintk_loop_item:
  assumes "item_ok i"
  shows "vprintk_loop P (item_format i @ fmt) (item_args i @ ap) =
    thn (puts P (item_text i)) (vprintk_loop P fmt ap)"
  using assms
  by (cases i) (simp_all add: vprintk_loop_Lit emit_val_puts emit_int_puts emit_llx_puts put_str_puts emit_0x_puts
      puts_append puts_Cons thn_assoc)

lemma vprintk_loop_items:
  assumes "\<forall>i \<in> set is. item_ok i"
  shows "vprintk_loop P (concat (map item_format is)) (concat (map item_args is) @ ap) = puts P (items_text is)"
  using assms by (induction "is") (simp_all add: items_text_def vprintk_loop_item puts_append)


section \<open>Types of formats\<close>

datatype arg_type = IntT | LongT | StrT

fun type_of_arg :: "arg \<Rightarrow> arg_type" where
  "type_of_arg (IntArg u) = IntT"
| "type_of_arg (LongArg x) = LongT"
| "type_of_arg (StrArg s) = StrT"

definition directive_type :: "char \<Rightarrow> arg_type option" where
  "directive_type f = (if f \<in> set ''bucxpd'' then Some IntT else if f = CHR ''s'' then Some StrT else None)"

fun format_types :: "string \<Rightarrow> arg_type list option" where
  "format_types [] = Some []"
| "format_types (c # fmt) =
     (if c \<noteq> CHR ''%'' then format_types fmt
      else case fmt of
        [] \<Rightarrow> None
      | f # rest \<Rightarrow>
         if f = CHR ''l'' then
           (case rest of
              l # x # r \<Rightarrow>
                if l = CHR ''l'' \<and> x = CHR ''x'' then map_option ((#) LongT) (format_types r) else None
            | _ \<Rightarrow> None)
         else (case directive_type f of None \<Rightarrow> None | Some t \<Rightarrow> map_option ((#) t) (format_types rest)))"

definition well_typed :: "string \<Rightarrow> arg list \<Rightarrow> bool" where
  "well_typed fmt ap =
     (case format_types fmt of None \<Rightarrow> False | Some ts \<Rightarrow> take (length ts) (map type_of_arg ap) = ts)"

lemma well_typed_plain: "c \<noteq> CHR ''%'' \<Longrightarrow> well_typed (c # fmt) ap = well_typed fmt ap"
  by (simp add: well_typed_def)

lemma well_typed_directive:
  assumes "f \<noteq> CHR ''l''" "directive_type f = Some t"
  shows "well_typed (CHR ''%'' # f # rest) ap \<longleftrightarrow> (\<exists>a as. ap = a # as \<and> type_of_arg a = t \<and> well_typed rest as)"
  using assms by (cases ap) (auto simp: well_typed_def split: option.splits)

lemma well_typed_llx:
  "well_typed (CHR ''%'' # CHR ''l'' # CHR ''l'' # CHR ''x'' # rest) ap \<longleftrightarrow>
     (\<exists>a as. ap = a # as \<and> type_of_arg a = LongT \<and> well_typed rest as)"
  by (cases ap) (auto simp: well_typed_def split: option.splits)

lemma type_of_arg_eq:
  "type_of_arg a = IntT \<longleftrightarrow> (\<exists>u. a = IntArg u)" "type_of_arg a = LongT \<longleftrightarrow> (\<exists>x. a = LongArg x)"
  "type_of_arg a = StrT \<longleftrightarrow> (\<exists>s. a = StrArg s)"
  by (cases a; simp)+

definition total :: "('d, 'a) io \<Rightarrow> bool" where
  "total m \<longleftrightarrow> (\<forall>d. \<exists>x d'. m d = Inr (x, d'))"

definition stops :: "('d, 'a) io \<Rightarrow> bool" where
  "stops m \<longleftrightarrow> (\<forall>d. \<exists>e. m d = Inl e)"

lemma total_thn: "total a \<Longrightarrow> total b \<Longrightarrow> total (thn a b)"
  unfolding total_def by (metis thn_Inr)

lemma total_ret [simp]: "total (ret x)"
  by (simp add: total_def)

lemma total_puts: "(\<And>c. total (P c)) \<Longrightarrow> total (puts P t)"
  by (induction t) (simp_all add: puts_Cons total_thn)

lemma stops_fails [simp]: "stops (fails e)"
  by (simp add: stops_def)

lemma stops_thn: "stops b \<Longrightarrow> stops (thn a b)"
  unfolding stops_def by (auto simp: thn_def bnd_def seq_def split: sum.split)

lemma total_not_stops: "total m \<Longrightarrow> \<not> stops m"
  unfolding total_def stops_def by (metis sum.distinct(1))

lemma directive_item:
  assumes "type_of_arg a = t" "directive_type f = Some t" "a \<noteq> IntArg 0x80000000"
  shows "\<exists>i. item_ok i \<and> item_format i = [CHR ''%'', f] \<and> item_args i = [a]"
proof (cases a)
  case (IntArg u)
  with assms have "f \<in> set ''bucxpd''" by (auto simp: directive_type_def split: if_splits)
  then consider "f = CHR ''b''" | "f = CHR ''u''" | "f = CHR ''c''" | "f = CHR ''x''" | "f = CHR ''p''" | "f = CHR ''d''"
    by auto
  then show ?thesis
  proof cases
    case 1 then show ?thesis using IntArg by (intro exI [of _ "Bin u"]) simp
  next
    case 2 then show ?thesis using IntArg by (intro exI [of _ "Udec u"]) simp
  next
    case 3 then show ?thesis using IntArg by (intro exI [of _ "Chr u"]) simp
  next
    case 4 then show ?thesis using IntArg by (intro exI [of _ "Hex u"]) simp
  next
    case 5 then show ?thesis using IntArg by (intro exI [of _ "Ptr u"]) simp
  next
    case 6 then show ?thesis using IntArg assms by (intro exI [of _ "Sdec u"]) simp
  qed
next
  case (LongArg x)
  with assms show ?thesis by (auto simp: directive_type_def split: if_splits)
next
  case (StrArg s)
  with assms show ?thesis by (intro exI [of _ "Text s"]) (auto simp: directive_type_def split: if_splits)
qed

text \<open>A non-empty format starts with an item that the first argument fits, or the run stops.\<close>

definition starts :: "string \<Rightarrow> arg list \<Rightarrow> bool" where
  "starts fmt ap \<longleftrightarrow> (\<exists>i rest as. item_ok i \<and> fmt = item_format i @ rest \<and> ap = item_args i @ as \<and>
     well_typed fmt ap = well_typed rest as \<and> length rest < length fmt)"

lemma startsI:
  "item_ok i \<Longrightarrow> fmt = item_format i @ rest \<Longrightarrow> ap = item_args i @ as \<Longrightarrow>
   well_typed fmt ap = well_typed rest as \<Longrightarrow> length rest < length fmt \<Longrightarrow> starts fmt ap"
  unfolding starts_def by blast

lemma starts_plain: "c \<noteq> CHR ''%'' \<Longrightarrow> starts (c # rest) ap"
  by (rule startsI [of "Lit [c]" _ rest _ ap]) (simp_all add: well_typed_plain)

lemma starts_llx: "starts (CHR ''%'' # CHR ''l'' # CHR ''l'' # CHR ''x'' # r) (LongArg x # as)"
  by (rule startsI [of "Hex64 x" _ r _ as]) (simp_all add: well_typed_llx)

lemma starts_directive:
  assumes "f \<noteq> CHR ''l''" "directive_type f = Some (type_of_arg a)" "a \<noteq> IntArg 0x80000000"
  shows "starts (CHR ''%'' # f # rest) (a # as)"
proof -
  obtain i where "item_ok i" "item_format i = [CHR ''%'', f]" "item_args i = [a]"
    using directive_item [OF refl assms(2,3)] by blast
  then show ?thesis using assms by (intro startsI [of i _ rest _ as]) (simp_all add: well_typed_directive)
qed

lemma directive_stops:
  assumes "f \<noteq> CHR ''l''" "\<not> (\<exists>a as. ap = a # as \<and> directive_type f = Some (type_of_arg a))"
  shows "\<not> well_typed (CHR ''%'' # f # rest) ap" "stops (vprintk_loop P (CHR ''%'' # f # rest) ap)"
proof -
  show "\<not> well_typed (CHR ''%'' # f # rest) ap"
  proof (cases "directive_type f")
    case None
    with assms(1) show ?thesis by (simp add: well_typed_def)
  next
    case (Some t)
    with assms show ?thesis by (auto simp: well_typed_directive)
  qed
  show "stops (vprintk_loop P (CHR ''%'' # f # rest) ap)"
  proof (cases ap)
    case Nil
    then show ?thesis using assms(1) by simp
  next
    case (Cons a as)
    with assms show ?thesis by (cases a) (auto simp: directive_type_def split: if_splits)
  qed
qed

lemma llx_stops:
  assumes "\<not> (\<exists>r x as. rest = CHR ''l'' # CHR ''x'' # r \<and> ap = LongArg x # as)"
  shows "\<not> well_typed (CHR ''%'' # CHR ''l'' # rest) ap" "stops (vprintk_loop P (CHR ''%'' # CHR ''l'' # rest) ap)"
proof -
  consider "\<not> (\<exists>r. rest = CHR ''l'' # CHR ''x'' # r)"
    | r where "rest = CHR ''l'' # CHR ''x'' # r" "\<not> (\<exists>x as. ap = LongArg x # as)"
    using assms by blast
  then have "\<not> well_typed (CHR ''%'' # CHR ''l'' # rest) ap \<and> stops (vprintk_loop P (CHR ''%'' # CHR ''l'' # rest) ap)"
  proof cases
    case 1
    then show ?thesis by (simp add: well_typed_def split: list.split)
  next
    case (2 r)
    then have "\<not> well_typed (CHR ''%'' # CHR ''l'' # rest) ap" by (auto simp: well_typed_llx type_of_arg_eq)
    moreover have "stops (vprintk_loop P (CHR ''%'' # CHR ''l'' # rest) ap)"
      using 2 by (simp split: list.split arg.split)
    ultimately show ?thesis by simp
  qed
  then show "\<not> well_typed (CHR ''%'' # CHR ''l'' # rest) ap" "stops (vprintk_loop P (CHR ''%'' # CHR ''l'' # rest) ap)"
    by simp_all
qed

lemma starts_or_stops:
  assumes "IntArg 0x80000000 \<notin> set ap" "fmt \<noteq> []"
  shows "starts fmt ap \<or> \<not> well_typed fmt ap \<and> stops (vprintk_loop P fmt ap)"
proof -
  obtain c rest where fmt: "fmt = c # rest" using assms(2) by (cases fmt) auto
  consider "c \<noteq> CHR ''%''" | "c = CHR ''%''" "rest = []"
    | rest' where "c = CHR ''%''" "rest = CHR ''l'' # rest'"
    | f rest' where "c = CHR ''%''" "rest = f # rest'" "f \<noteq> CHR ''l''"
    by (cases rest) auto
  then show ?thesis
  proof cases
    case 1
    with fmt show ?thesis by (simp add: starts_plain)
  next
    case 2
    with fmt show ?thesis by (simp add: well_typed_def)
  next
    case (3 rest')
    show ?thesis
    proof (cases "\<exists>r x as. rest' = CHR ''l'' # CHR ''x'' # r \<and> ap = LongArg x # as")
      case True
      with 3 fmt show ?thesis using starts_llx by auto
    next
      case False
      from llx_stops(1) [OF this] llx_stops(2) [OF this, where P = P] 3 fmt show ?thesis
        by (simp del: vprintk_loop.simps)
    qed
  next
    case (4 f rest')
    with fmt assms(1) show ?thesis
      using directive_stops [where f = f and ap = ap and rest = rest'] starts_directive [of f _ rest'] by (metis list.set_intros(1))
  qed
qed

lemma vprintk_loop_wt:
  assumes "IntArg 0x80000000 \<notin> set ap" "\<And>c. total (P c)"
  shows "if well_typed fmt ap then total (vprintk_loop P fmt ap) else stops (vprintk_loop P fmt ap)"
  using assms(1)
proof (induction "length fmt" arbitrary: fmt ap rule: less_induct)
  case less
  have puts: "total (puts P t)" for t by (rule total_puts) (rule assms(2))
  show ?case
  proof (cases "fmt = []")
    case True
    then show ?thesis by (simp add: well_typed_def)
  next
    case False
    with less.prems consider "starts fmt ap" | "\<not> well_typed fmt ap" "stops (vprintk_loop P fmt ap)"
      using starts_or_stops by blast
    then show ?thesis
    proof cases
      case 1
      then obtain i rest as where i: "item_ok i" "fmt = item_format i @ rest" "ap = item_args i @ as"
        "well_typed fmt ap = well_typed rest as" "length rest < length fmt" unfolding starts_def by blast
      have "IntArg 0x80000000 \<notin> set as" using less.prems i by auto
      then have "if well_typed rest as then total (vprintk_loop P rest as) else stops (vprintk_loop P rest as)"
        by (rule less.hyps [OF i(5)])
      then show ?thesis using i puts by (auto simp: vprintk_loop_item total_thn stops_thn)
    qed simp
  qed
qed


section \<open>The buffer\<close>

lemma unat_plus_one_less: "x < (y :: u32) \<Longrightarrow> unat (x + 1) = unat x + 1"
proof -
  assume "x < y"
  then have "unat x < unat y" by (simp add: word_less_nat_alt)
  then have "unat x + 1 < 4294967296" using unat_u32_lt [of y] by linarith
  then show ?thesis by (simp add: unat_word_ariths)
qed

lemma puts_buffer:
  assumes "unat (buf_ptr s) + length t \<le> unat (buf_end s)"
  shows "puts (\<lambda>c. sp_putchar (ucast c)) t s =
    Inr ((), s\<lparr>sp_mem := st (sp_mem s) (buf_ptr s) (map ucast t), buf_ptr := buf_ptr s + word_of_nat (length t)\<rparr>)"
  using assms
proof (induction t arbitrary: s)
  case (Cons c t)
  have lt: "buf_ptr s < buf_end s" using Cons.prems by (simp add: word_less_nat_alt)
  let ?s = "s\<lparr>sp_mem := (sp_mem s)(buf_ptr s := ucast c), buf_ptr := buf_ptr s + 1\<rparr>"
  have "unat (buf_ptr s + 1) = unat (buf_ptr s) + 1"
    using lt by (simp add: unat_plus_one_less)
  then have "unat (buf_ptr ?s) + length t \<le> unat (buf_end ?s)" using Cons.prems by simp
  from Cons.IH [OF this] lt show ?case
    by (simp add: puts_Cons sp_putchar_def add.assoc fun_upd_def)
qed simp

lemma puts_buffer_full:
  assumes "buf_ptr s \<le> buf_end s" "unat (buf_end s) < unat (buf_ptr s) + length t"
  shows "puts (\<lambda>c. sp_putchar (ucast c)) t s = Inl Assert_fail"
  using assms
proof (induction t arbitrary: s)
  case Nil
  then show ?case by (simp add: word_le_nat_alt)
next
  case (Cons c t)
  show ?case
  proof (cases "buf_ptr s < buf_end s")
    case True
    let ?s = "s\<lparr>sp_mem := (sp_mem s)(buf_ptr s := ucast c), buf_ptr := buf_ptr s + 1\<rparr>"
    have u: "unat (buf_ptr s + 1) = unat (buf_ptr s) + 1"
      using True by (simp add: unat_plus_one_less)
    then have "buf_ptr ?s \<le> buf_end ?s" "unat (buf_end ?s) < unat (buf_ptr ?s) + length t"
      using True Cons.prems by (simp_all add: word_le_nat_alt word_less_nat_alt)
    from Cons.IH [OF this] True show ?thesis by (simp add: puts_Cons sp_putchar_def)
  qed (simp add: puts_Cons sp_putchar_def)
qed

lemma st_snoc: "st m a (xs @ [x]) = (st m a xs)(a + word_of_nat (length xs) := x)"
  by (induction xs arbitrary: m a) (simp_all add: add.assoc)

lemma vsnprintk_items:
  assumes "\<forall>i \<in> set is. item_ok i" "unat buf + unat n < 2 ^ 32"
  shows "snprintk buf n (concat (map item_format is)) (concat (map item_args is)) s =
    (let t = map ucast (items_text is) @ [0] in
     if length t \<le> Suc (unat n)
     then Inr (0, \<lparr>sp_mem = st (sp_mem s) buf t, buf_ptr = buf + word_of_nat (length t), buf_end = buf + n\<rparr>)
     else Inl Assert_fail)"
proof -
  have n: "unat (buf + n) = unat buf + unat n" using assms(2) by (simp add: unat_plus_simple word_le_nat_alt unat_word_ariths)
  have p: "vprintk_loop P (concat (map item_format is)) (concat (map item_args is)) = puts P (items_text is)"
    for P :: "u32 \<Rightarrow> (sprint, unit) io"
    using vprintk_loop_items [OF assms(1), of P "[]"] by simp
  let ?s = "s\<lparr>buf_ptr := buf, buf_end := buf + n\<rparr>"
  show ?thesis
  proof (cases "length (items_text is) \<le> unat n")
    case True
    then have "puts (\<lambda>c. sp_putchar (ucast c)) (items_text is) ?s =
      Inr ((), ?s\<lparr>sp_mem := st (sp_mem s) buf (map ucast (items_text is)), buf_ptr := buf + word_of_nat (length (items_text is))\<rparr>)"
      using puts_buffer [of ?s "items_text is"] n by simp
    with True show ?thesis by (simp add: snprintk_def vsnprintk_def p Let_def st_snoc add.assoc add.commute)
  next
    case False
    then have "puts (\<lambda>c. sp_putchar (ucast c)) (items_text is) ?s = Inl Assert_fail"
      using n by (intro puts_buffer_full) (simp_all add: word_le_nat_alt)
    with False show ?thesis by (simp add: snprintk_def vsnprintk_def p Let_def)
  qed
qed


subsection \<open>Long numbers\<close>

lemma numeral_value_foldl:
  "foldl (\<lambda>v c. v * b + char_digit c) a s = a * b ^ length s + foldl (\<lambda>v c. v * b + char_digit c) 0 s"
proof (induction s arbitrary: a)
  case (Cons c s)
  show ?case
    using Cons [of "a * b + char_digit c"] Cons [of "char_digit c"] by (simp add: add_mult_distrib mult.assoc)
qed simp

lemma numeral_value_append: "numeral_value b (s @ t) = numeral_value b s * b ^ length t + numeral_value b t"
  unfolding numeral_value_def foldl_append by (rule numeral_value_foldl)

lemma length_numeral_text [simp]: "length (numeral_text b n) = length (ndigits b n)"
  by (simp add: numeral_text_def)

lemma less_power_ndigits: "2 \<le> b \<Longrightarrow> n < b ^ length (ndigits b n)"
proof (induction b n rule: ndigits.induct)
  case (1 b n)
  show ?case
  proof (cases "n div b = 0")
    case True
    with "1.prems" show ?thesis by (simp add: ndigits.simps [of b n] div_eq_0_iff)
  next
    case False
    have "n div b < b ^ length (ndigits b (n div b))" using "1.IH" "1.prems" False by simp
    moreover have "length (ndigits b n) = Suc (length (ndigits b (n div b)))"
      using "1.prems" False by (simp add: ndigits.simps [of b n])
    ultimately show ?thesis using "1.prems" by (simp add: div_less_iff_less_mult mult.commute)
  qed
qed

lemma length_hex_word: "n < 2 ^ 32 \<Longrightarrow> length (ndigits 16 n) = 8 \<longleftrightarrow> 2 ^ 28 \<le> n"
proof
  assume "n < 2 ^ 32" "length (ndigits 16 n) = 8"
  then show "2 ^ 28 \<le> n" using ndigits_length [of 16 n 7] by fastforce
next
  assume n: "n < 2 ^ 32" "2 ^ 28 \<le> n"
  have "length (ndigits 16 n) \<le> 8" using ndigits_length [of 16 n 8] n by simp
  moreover have "\<not> length (ndigits 16 n) \<le> 7"
  proof
    assume "length (ndigits 16 n) \<le> 7"
    then have "(16 :: nat) ^ length (ndigits 16 n) \<le> 16 ^ 7" by (rule power_increasing) simp
    with less_power_ndigits [of 16 n] n show False by simp
  qed
  ultimately show "length (ndigits 16 n) = 8" by simp
qed

lemma llx_text_value:
  "numeral_value 16 (llx_text x) = unat x \<longleftrightarrow> unat x < 2 ^ 32 \<or> 2 ^ 28 \<le> unat x mod 2 ^ 32"
proof -
  define hi lo where "hi = unat x div 2 ^ 32" and "lo = unat x mod 2 ^ 32"
  have x: "unat x = hi * 2 ^ 32 + lo" by (simp add: hi_def lo_def)
  have lo: "lo < 2 ^ 32" by (simp add: lo_def)
  have v: "numeral_value 16 (numeral_text 16 k) = k" for k by (rule numeral_value_text) simp_all
  show ?thesis
  proof (cases "hi = 0")
    case True
    then have "llx_text x = numeral_text 16 lo" by (simp add: llx_text_def Let_def hi_def lo_def)
    with True v x lo show ?thesis by simp
  next
    case False
    let ?l = "length (ndigits 16 lo)"
    have "llx_text x = numeral_text 16 hi @ numeral_text 16 lo"
      using False by (simp add: llx_text_def Let_def hi_def lo_def)
    then have "numeral_value 16 (llx_text x) = hi * 16 ^ ?l + lo" by (simp add: numeral_value_append v)
    then have "numeral_value 16 (llx_text x) = unat x \<longleftrightarrow> (16 :: nat) ^ ?l = 16 ^ 8" using False x by simp
    also have "\<dots> \<longleftrightarrow> ?l = 8" by (rule power_inject_exp) simp
    also have "\<dots> \<longleftrightarrow> 2 ^ 28 \<le> lo" by (rule length_hex_word [OF lo])
    finally have "numeral_value 16 (llx_text x) = unat x \<longleftrightarrow> 2 ^ 28 \<le> lo" .
    moreover have "\<not> unat x < 2 ^ 32" using False by (simp add: hi_def div_eq_0_iff)
    ultimately show ?thesis by (simp only: lo_def simp_thms)
  qed
qed

section \<open>Properties\<close>

text \<open>C26. C0: For each of its bases emit_val prints the digits of the number, most significant digit first: they stand for
  the number, there are at most 32 of them, so that the buffer of 33 characters is never overrun, and no number but 0
  starts with the digit 0.\<close>

theorem emit_val_canonical:
  assumes "base \<in> {2, 10, 16}"
  shows "\<exists>ds. emit_val P base u = puts P (map of_char ds) \<and> numeral_value (unat base) ds = unat u \<and>
    0 < length ds \<and> length ds \<le> 32 \<and> (char_digit (hd ds) = 0 \<longleftrightarrow> u = 0)"
proof (intro exI conjI)
  have b: "2 \<le> unat base" "unat base \<le> 16" using base_cases [of base] assms by auto
  let ?d = "numeral_text (unat base) (unat u)"
  show "emit_val P base u = puts P (map of_char ?d)" using assms by (intro emit_val_puts) auto
  show "numeral_value (unat base) ?d = unat u" using b by (rule numeral_value_text)
  show "0 < length ?d" using b by simp
  show "length ?d \<le> 32" using ndigits_u32_length [OF b(1), of u] by simp
  have l: "last (ndigits (unat base) (unat u)) < 16"
    using ndigits_bound [OF b(1), of "last (ndigits (unat base) (unat u))" "unat u"] b by (meson last_in_set le_trans not_less ndigits_not_Nil)
  have "char_digit (hd ?d) = last (ndigits (unat base) (unat u))"
    using b l by (simp add: numeral_text_def hd_map hd_rev digit_char_inverse)
  moreover have "last (ndigits (unat base) (unat u)) = 0 \<longleftrightarrow> u = 0"
    using no_leading_zero [OF b(1), of "unat u"] b by (auto simp: unat_eq_zero ndigits.simps [of _ 0])
  ultimately show "char_digit (hd ?d) = 0 \<longleftrightarrow> u = 0" by simp
qed

theorem emit_val_canonical_witness:
  "\<exists>ds. emit_val (\<lambda>c s. Inr ((), s @ [c])) 10 0xFFFFFFFF = puts (\<lambda>c s. Inr ((), s @ [c])) (map of_char ds) \<and>
    numeral_value (unat (10 :: u32)) ds = unat (0xFFFFFFFF :: u32) \<and>
    0 < length ds \<and> length ds \<le> 32 \<and> (char_digit (hd ds) = 0 \<longleftrightarrow> (0xFFFFFFFF :: u32) = 0)"
  by (rule emit_val_canonical) simp

text \<open>C27. C0: A call of printk returns exactly when it is well typed: the format consists of text and of the known
  directives, and the arguments start with values of the types that the directives ask for. Otherwise it panics or takes
  an argument that is not there. Not counted is the least int, which %d negates.\<close>

theorem printk_well_typed:
  assumes "IntArg 0x80000000 \<notin> set args" "\<And>c d. \<exists>d'. P c d = Inr ((), d')"
  shows "(\<exists>d'. printk P fmt args d = Inr (0, d')) \<longleftrightarrow> well_typed fmt args"
proof -
  have tot: "\<And>c. total (P c)" using assms(2) by (auto simp: total_def)
  note w = vprintk_loop_wt [OF assms(1), where P = P and fmt = fmt, OF tot]
  show ?thesis
  proof (cases "well_typed fmt args")
    case True
    with w obtain d' where "vprintk_loop P fmt args d = Inr ((), d')" by (auto simp: total_def)
    with True show ?thesis by (simp add: printk_def vprintk_def)
  next
    case False
    with w obtain e where "vprintk_loop P fmt args d = Inl e" by (auto simp: stops_def)
    with False show ?thesis by (simp add: printk_def vprintk_def)
  qed
qed

theorem printk_well_typed_witness:
  "(\<exists>d'. printk (\<lambda>c s. Inr ((), s @ [c])) ''%d of %s'' [IntArg 5, StrArg ''x''] [] = Inr (0, d')) \<longleftrightarrow>
    well_typed ''%d of %s'' [IntArg 5, StrArg ''x'']"
  by (rule printk_well_typed) simp_all

text \<open>C0: The two copies of the formatter agree. For a format and arguments that fit together, printk prints a text and
  snprintk stores the same text, followed by a zero, at the start of its buffer; if the text is longer than the buffer
  it stops with a failed assertion.\<close>

theorem snprintk_agrees:
  assumes "\<forall>i \<in> set is. item_ok i" "unat buf + unat n < 2 ^ 32"
  shows "\<exists>t. printk P (concat (map item_format is)) (concat (map item_args is)) = thn (puts P t) (ret 0) \<and>
    t = items_text is \<and>
    snprintk buf n (concat (map item_format is)) (concat (map item_args is)) s =
      (if length t \<le> unat n
       then Inr (0, \<lparr>sp_mem = st (sp_mem s) buf (map ucast t @ [0]),
         buf_ptr = buf + word_of_nat (length t + 1), buf_end = buf + n\<rparr>)
       else Inl Assert_fail)"
  using vprintk_loop_items [OF assms(1), of P "[]"] vsnprintk_items [OF assms, of s]
  by (auto simp: printk_def vprintk_def Let_def)

theorem snprintk_agrees_witness:
  "\<exists>t. printk (\<lambda>c s. Inr ((), s @ [c])) (concat (map item_format [Lit ''a='', Sdec (-7)])) (concat (map item_args [Lit ''a='', Sdec (-7)])) =
      thn (puts (\<lambda>c s. Inr ((), s @ [c])) t) (ret 0) \<and> t = items_text [Lit ''a='', Sdec (-7)] \<and>
    snprintk 0x8000 16 (concat (map item_format [Lit ''a='', Sdec (-7)])) (concat (map item_args [Lit ''a='', Sdec (-7)]))
      \<lparr>sp_mem = (\<lambda>_. 0xFF), buf_ptr = 0, buf_end = 0\<rparr> =
      (if length t \<le> unat (16 :: u32)
       then Inr (0, \<lparr>sp_mem = st (sp_mem \<lparr>sp_mem = (\<lambda>_. 0xFF), buf_ptr = 0, buf_end = 0\<rparr>) 0x8000 (map ucast t @ [0]),
         buf_ptr = 0x8000 + word_of_nat (length t + 1), buf_end = 0x8000 + 16\<rparr>)
       else Inl Assert_fail)"
  by (rule snprintk_agrees) simp_all

text \<open>C0: A text that fills the buffer of snprintk exactly passes all its assertions, and the terminating zero is then
  stored in the byte after the buffer.\<close>

theorem snprintk_writes_past_end:
  assumes "\<forall>i \<in> set is. item_ok i" "unat buf + unat n < 2 ^ 32" "length (items_text is) = unat n"
  shows "\<exists>s'. snprintk buf n (concat (map item_format is)) (concat (map item_args is)) s = Inr (0, s') \<and>
    sp_mem s' (buf + n) = 0 \<and> (\<forall>a. unat n < unat (a - buf) \<longrightarrow> sp_mem s' a = sp_mem s a)"
proof -
  have "snprintk buf n (concat (map item_format is)) (concat (map item_args is)) s =
    Inr (0, \<lparr>sp_mem = st (sp_mem s) buf (map ucast (items_text is) @ [0]),
      buf_ptr = buf + word_of_nat (Suc (unat n)), buf_end = buf + n\<rparr>)"
    using vsnprintk_items [OF assms(1,2), of s] assms(3) by (simp add: Let_def)
  moreover have "length (map ucast (items_text is) @ [0 :: u8]) \<le> 4294967296"
    using unat_u32_lt [of n] by (simp only: length_append length_map list.size assms(3))
  ultimately show ?thesis using assms(3) by (auto simp: st_at nth_append)
qed

theorem snprintk_writes_past_end_witness:
  "\<exists>s'. snprintk 0x8000 2 (concat (map item_format [Lit ''ok''])) (concat (map item_args [Lit ''ok'']))
      \<lparr>sp_mem = (\<lambda>_. 0xFF), buf_ptr = 0, buf_end = 0\<rparr> = Inr (0, s') \<and>
    sp_mem s' (0x8000 + 2) = 0 \<and> (\<forall>a. unat (2 :: u32) < unat (a - (0x8000 :: u32)) \<longrightarrow>
      sp_mem s' a = sp_mem \<lparr>sp_mem = (\<lambda>_. 0xFF), buf_ptr = 0, buf_end = 0\<rparr> a)"
  by (rule snprintk_writes_past_end) (simp_all add: items_text_def)

text \<open>C0: %llx prints a number of more than 32 bits correctly only if the low word has eight digits: the zeros in front
  of a shorter one are not printed, and 0x100000001 comes out as 0x11.\<close>

theorem printk_llx_value:
  "\<exists>t. printk P ''%llx'' [LongArg x] = thn (puts P (map of_char (''0x'' @ t))) (ret 0) \<and>
    (numeral_value 16 t = unat x \<longleftrightarrow> unat x < 2 ^ 32 \<or> 2 ^ 28 \<le> unat x mod 2 ^ 32)"
proof (intro exI conjI)
  show "printk P ''%llx'' [LongArg x] = thn (puts P (map of_char (''0x'' @ llx_text x))) (ret 0)"
    using vprintk_loop_items [of "[Hex64 x]" P "[]"] by (simp add: printk_def vprintk_def items_text_def)
qed (rule llx_text_value)

end
