(* ===== verification/I2c.thy ===== *)
theory I2c
  imports Gpio Wp
begin

unbundle bit_operations_syntax

text \<open>
  The I2C driver \<open>libpi/src/i2c.c\<close>: \<open>i2c_init\<close>, \<open>i2c_write\<close> and \<open>i2c_read\<close> over the registers of the second
  Broadcom serial controller. What the data sheet says of the controller is the locale \<open>i2c_controller\<close>, over a
  step function that moves one byte between two looks at the status register; a simulated controller satisfies it.
  The device at the other end of the wire is a parameter.
\<close>

section \<open>The driver\<close>

text \<open>The registers of \<open>RPI_i2c_t\<close>.\<close>

definition i2c_base :: u32 where "i2c_base = 0x20804000"
definition i2c_control :: u32 where "i2c_control = i2c_base + 0x0"
definition i2c_status :: u32 where "i2c_status = i2c_base + 0x4"
definition i2c_dlen :: u32 where "i2c_dlen = i2c_base + 0x8"
definition i2c_dev_addr :: u32 where "i2c_dev_addr = i2c_base + 0xc"
definition i2c_fifo :: u32 where "i2c_fifo = i2c_base + 0x10"
definition i2c_clock_div :: u32 where "i2c_clock_div = i2c_base + 0x14"

lemmas i2c_regs = i2c_base_def i2c_control_def i2c_status_def i2c_dlen_def i2c_dev_addr_def i2c_fifo_def i2c_clock_div_def

definition status_bit :: "'d bus \<Rightarrow> u32 \<Rightarrow> ('d, bool) io" where
  "status_bit B k = bnd (GET32 B i2c_status) (\<lambda>v. ret (shr v k AND 1 = 1))"

definition or_reg :: "'d bus \<Rightarrow> u32 \<Rightarrow> u32 \<Rightarrow> ('d, unit) io" where
  "or_reg B a m = bnd (GET32 B a) (\<lambda>v. PUT32 B a (v OR m))"

definition and_reg :: "'d bus \<Rightarrow> u32 \<Rightarrow> u32 \<Rightarrow> ('d, unit) io" where
  "and_reg B a m = bnd (GET32 B a) (\<lambda>v. PUT32 B a (v AND m))"

text \<open>\<open>k\<close> is the number of rounds a wait may take; \<open>nbytes\<close> is the length of the list.\<close>

fun write_bytes :: "'d bus \<Rightarrow> nat \<Rightarrow> u8 list \<Rightarrow> ('d, unit) io" where
  "write_bytes B k [] = ret ()"
| "write_bytes B k (b # bs) =
     thn (poll k (status_bit B 4)) (thn (PUT32 B i2c_fifo (ucast b)) (write_bytes B k bs))"

definition i2c_write :: "'d bus \<Rightarrow> nat \<Rightarrow> u32 \<Rightarrow> u8 list \<Rightarrow> ('d, u32) io" where
  "i2c_write B k addr data =
     thn (poll k (negated (status_bit B 0)))
    (thn (poll k (status_bit B 6))
    (thn (or_reg B i2c_status 0x2)
    (thn (PUT32 B i2c_dev_addr addr)
    (thn (PUT32 B i2c_dlen (word_of_nat (length data)))
    (thn (or_reg B i2c_control 0x80)
    (thn (and_reg B i2c_control (NOT 0x1))
    (thn (poll k (status_bit B 0))
    (thn (write_bytes B k data)
    (thn (poll k (status_bit B 1))
    (ret 1))))))))))"

fun read_bytes :: "'d bus \<Rightarrow> nat \<Rightarrow> nat \<Rightarrow> ('d, u8 list) io" where
  "read_bytes B k 0 = ret []"
| "read_bytes B k (Suc n) =
     thn (poll k (status_bit B 5))
       (bnd (GET32 B i2c_fifo) (\<lambda>v. bnd (read_bytes B k n) (\<lambda>bs. ret (ucast v # bs))))"

definition i2c_read :: "'d bus \<Rightarrow> nat \<Rightarrow> u32 \<Rightarrow> nat \<Rightarrow> ('d, u8 list \<times> u32) io" where
  "i2c_read B k addr nbytes =
     thn (poll k (negated (status_bit B 0)))
    (thn (poll k (status_bit B 6))
    (thn (or_reg B i2c_status 0x2)
    (thn (PUT32 B i2c_dev_addr addr)
    (thn (PUT32 B i2c_dlen (word_of_nat nbytes))
    (thn (or_reg B i2c_control 0x81)
    (thn (poll k (status_bit B 0))
    (bnd (read_bytes B k nbytes) (\<lambda>data.
     thn (poll k (status_bit B 1))
    (ret (data, 1))))))))))"

definition i2c_init_clk_div :: "'d bus \<Rightarrow> u32 \<Rightarrow> ('d, unit) io" where
  "i2c_init_clk_div B clk_div = PUT32 B i2c_clock_div clk_div"

definition GPIO_FUNC_ALT0 :: u32 where "GPIO_FUNC_ALT0 = 4"

definition i2c_init :: "'d bus \<Rightarrow> ('d, unit) io" where
  "i2c_init B = run_all
     [gpio_set_function B 2 GPIO_FUNC_ALT0,
      gpio_set_function B 3 GPIO_FUNC_ALT0,
      PUT32 B i2c_control (shl 0x3 4 OR shl 1 15),
      PUT32 B i2c_clock_div 0x5dc,
      PUT32 B i2c_status 0]"

section \<open>The controller\<close>

text \<open>A device on the wire: what a start condition (with the direction: \<open>True\<close> to read), a byte that it is sent, and
  the request of a byte do to its state.\<close>

record 'x wire =
  w_start :: "u32 \<Rightarrow> bool \<Rightarrow> 'x \<Rightarrow> 'x"
  w_put :: "u8 \<Rightarrow> 'x \<Rightarrow> 'x"
  w_get :: "'x \<Rightarrow> u8 \<times> 'x"

text \<open>The controller: its registers without the start bit, the two ends of the FIFO, whether a transfer is active
  (TA), whether its address was sent already and in which direction it goes, the bytes left, and DONE.\<close>

record 'x bsc =
  b_ctl :: u32
  b_dlen :: u32
  b_adr :: u32
  b_tx :: "u8 list"
  b_rx :: "u8 list"
  b_ta :: bool
  b_sent :: bool
  b_reading :: bool
  b_left :: nat
  b_done :: bool
  b_dev :: 'x

text \<open>What happens on the wire between two looks at the status register: the address, one byte, or the stop.\<close>

definition bsc_step :: "'x wire \<Rightarrow> 'x bsc \<Rightarrow> 'x bsc" where
  "bsc_step W s =
     (if \<not> b_ta s then s
      else if \<not> b_sent s then
        s\<lparr>b_sent := True, b_reading := bit (b_ctl s) 0, b_dev := w_start W (b_adr s) (bit (b_ctl s) 0) (b_dev s)\<rparr>
      else if b_left s = 0 then s\<lparr>b_ta := False, b_done := True\<rparr>
      else if b_reading s then
        (if length (b_rx s) < 16 then
           s\<lparr>b_rx := b_rx s @ [fst (w_get W (b_dev s))], b_dev := snd (w_get W (b_dev s)), b_left := b_left s - 1\<rparr>
         else s)
      else (case b_tx s of [] \<Rightarrow> s
            | b # bs \<Rightarrow> s\<lparr>b_tx := bs, b_dev := w_put W b (b_dev s), b_left := b_left s - 1\<rparr>))"

text \<open>The bits of the status register that the driver looks at.\<close>

definition shows_status :: "'x bsc \<Rightarrow> u32 \<Rightarrow> bool" where
  "shows_status s v \<longleftrightarrow>
     (bit v 0 \<longleftrightarrow> b_ta s) \<and> (bit v 1 \<longleftrightarrow> b_done s) \<and> (bit v 4 \<longleftrightarrow> length (b_tx s) < 16) \<and>
     (bit v 5 \<longleftrightarrow> b_rx s \<noteq> []) \<and> (bit v 6 \<longleftrightarrow> b_tx s = [])"

text \<open>Writing the control register: bits 4 and 5 clear the FIFO, bit 7 starts a transfer and reads as 0.\<close>

definition bsc_control :: "u32 \<Rightarrow> 'x bsc \<Rightarrow> 'x bsc" where
  "bsc_control v s =
     (let s1 = s\<lparr>b_ctl := v AND NOT 0xB0\<rparr>;
          s2 = (if bit v 4 \<or> bit v 5 then s1\<lparr>b_tx := [], b_rx := []\<rparr> else s1)
      in if bit v 7 \<and> bit v 15 \<and> \<not> b_ta s then s2\<lparr>b_ta := True, b_sent := False, b_left := unat (b_dlen s)\<rparr> else s2)"

locale i2c_controller =
  fixes B :: "'d bus" and st :: "'d \<Rightarrow> 'x bsc" and W :: "'x wire"
  assumes get_status: "\<exists>v d'. GET32 B i2c_status d = Inr (v, d') \<and> shows_status (st d) v \<and> st d' = bsc_step W (st d)"
    and get_control: "acts st (GET32 B i2c_control) b_ctl (\<lambda>s. s)"
    and get_fifo: "st d = s\<lparr>b_rx := b # bs\<rparr> \<Longrightarrow>
      \<exists>v d'. GET32 B i2c_fifo d = Inr (v, d') \<and> ucast v = b \<and> st d' = s\<lparr>b_rx := bs\<rparr>"
    and put_control: "acts st (PUT32 B i2c_control v) (\<lambda>_. ()) (bsc_control v)"
    and put_status: "acts st (PUT32 B i2c_status v) (\<lambda>_. ()) (\<lambda>s. s\<lparr>b_done := (b_done s \<and> \<not> bit v 1)\<rparr>)"
    and put_dlen: "acts st (PUT32 B i2c_dlen v) (\<lambda>_. ()) (b_dlen_update (\<lambda>_. v AND 0xFFFF))"
    and put_addr: "acts st (PUT32 B i2c_dev_addr v) (\<lambda>_. ()) (b_adr_update (\<lambda>_. v AND 0x7F))"
    and get_gpio: "keeps st (GET32 B 0x20200000)"
    and put_gpio: "keeps st (PUT32 B 0x20200000 v)"
    and put_div: "acts st (PUT32 B i2c_clock_div v) (\<lambda>_. ()) (\<lambda>s. s)"
    and put_fifo: "acts st (PUT32 B i2c_fifo v) (\<lambda>_. ())
      (\<lambda>s. if length (b_tx s) < 16 then s\<lparr>b_tx := b_tx s @ [ucast v]\<rparr> else s)"


section \<open>What the driver does\<close>

lemma ucast_u8_u32: "ucast (ucast (b :: u8) :: u32) = b"
  by (rule bit_word_eqI) (auto simp: bits_of bit_ucast_iff possible_bit_def)

lemma shr_bit: "shr v k AND 1 = 1 \<longleftrightarrow> bit v (unat k)"
  by (simp add: and_one_bit bit_shr)

lemma wp_exec:
  assumes "\<And>d. st d = s \<Longrightarrow> \<exists>v d'. m d = Inr (v, d') \<and> Q v (st d')"
  shows "wp st m Q E s"
  unfolding wp_def using assms by (metis (mono_tags, lifting) case_prod_conv sum.case(2))

text \<open>A controller that is idle, and one that is writing or reading.\<close>

definition idle_st :: "u32 \<Rightarrow> u32 \<Rightarrow> u32 \<Rightarrow> u8 list \<Rightarrow> bool \<Rightarrow> bool \<Rightarrow> nat \<Rightarrow> bool \<Rightarrow> 'x \<Rightarrow> 'x bsc" where
  "idle_st c l a rx sn r n dn x = \<lparr>b_ctl = c, b_dlen = l, b_adr = a, b_tx = [], b_rx = rx, b_ta = False,
     b_sent = sn, b_reading = r, b_left = n, b_done = dn, b_dev = x\<rparr>"

definition busy_st :: "u32 \<Rightarrow> u32 \<Rightarrow> u32 \<Rightarrow> u8 list \<Rightarrow> u8 list \<Rightarrow> bool \<Rightarrow> bool \<Rightarrow> nat \<Rightarrow> 'x \<Rightarrow> 'x bsc" where
  "busy_st c l a tx rx sn r n x = \<lparr>b_ctl = c, b_dlen = l, b_adr = a, b_tx = tx, b_rx = rx, b_ta = True,
     b_sent = sn, b_reading = r, b_left = n, b_done = False, b_dev = x\<rparr>"

lemma step_idle [simp]: "bsc_step W (idle_st c l a rx sn r n dn x) = idle_st c l a rx sn r n dn x"
  by (simp add: bsc_step_def idle_st_def)

lemma step_address [simp]: "bsc_step W (busy_st c l a tx rx False r n x) =
    busy_st c l a tx rx True (bit c 0) n (w_start W a (bit c 0) x)"
  by (simp add: bsc_step_def busy_st_def)

lemma step_stop [simp]: "bsc_step W (busy_st c l a [] rx True r 0 x) = idle_st c l a rx True r 0 True x"
  by (simp add: bsc_step_def busy_st_def idle_st_def)

lemma step_wait [simp]: "bsc_step W (busy_st c l a [] rx True False (Suc n) x) = busy_st c l a [] rx True False (Suc n) x"
  by (simp add: bsc_step_def busy_st_def)

lemma step_write [simp]: "bsc_step W (busy_st c l a (b # bs) rx True False (Suc n) x) =
    busy_st c l a bs rx True False n (w_put W b x)"
  by (simp add: bsc_step_def busy_st_def)

lemma step_read [simp]: "length rx < 16 \<Longrightarrow> bsc_step W (busy_st c l a tx rx True True (Suc n) x) =
    busy_st c l a tx (rx @ [fst (w_get W x)]) True True n (snd (w_get W x))"
  by (simp add: bsc_step_def busy_st_def)

lemma st_fields [simp]:
  "b_ta (idle_st c l a rx sn r n dn x) = False" "b_ta (busy_st c l a tx rx sn r n x) = True"
  "b_done (idle_st c l a rx sn r n dn x) = dn" "b_done (busy_st c l a tx rx sn r n x) = False"
  "b_tx (idle_st c l a rx sn r n dn x) = []" "b_tx (busy_st c l a tx rx sn r n x) = tx"
  "b_rx (idle_st c l a rx sn r n dn x) = rx" "b_rx (busy_st c l a tx rx sn r n x) = rx"
  by (simp_all add: idle_st_def busy_st_def)

text \<open>What \<open>fold\<close> is for writing: the bytes that a device hands out.\<close>

fun reads :: "'x wire \<Rightarrow> nat \<Rightarrow> 'x \<Rightarrow> u8 list \<times> 'x" where
  "reads W 0 x = ([], x)"
| "reads W (Suc n) x = (let (b, x) = w_get W x; (bs, x) = reads W n x in (b # bs, x))"

definition enabled :: "u32 \<Rightarrow> bool" where
  "enabled c \<longleftrightarrow> bit c 15 \<and> \<not> bit c 4 \<and> \<not> bit c 5"

text \<open>A transfer may be started when none is going on, the FIFO is empty and the controller is enabled.\<close>

definition ready_st :: "'x bsc \<Rightarrow> bool" where
  "ready_st s \<longleftrightarrow> (\<exists>c l a sn r n dn x. s = idle_st c l a [] sn r n dn x \<and> enabled c)"

lemma idle_updates [simp]:
  "(idle_st c l a rx sn r n dn x)\<lparr>b_done := dn'\<rparr> = idle_st c l a rx sn r n dn' x"
  "(idle_st c l a rx sn r n dn x)\<lparr>b_adr := a'\<rparr> = idle_st c l a' rx sn r n dn x"
  "(idle_st c l a rx sn r n dn x)\<lparr>b_dlen := l'\<rparr> = idle_st c l' a rx sn r n dn x"
  "b_dev (idle_st c l a rx sn r n dn x) = x" "b_ctl (busy_st c l a tx rx sn r n x) = c"
  by (simp_all add: idle_st_def busy_st_def)

lemma unat_dlen: "n < 2 ^ 16 \<Longrightarrow> unat ((word_of_nat n :: u32) AND 0xFFFF) = n"
proof -
  assume n: "n < 2 ^ 16"
  have "(word_of_nat n :: u32) AND 0xFFFF = word_of_nat n AND mask 16" by (simp add: mask_eq_exp_minus_1)
  also have "\<dots> = take_bit 16 (word_of_nat n)" by (simp only: take_bit_eq_mask)
  finally have "unat ((word_of_nat n :: u32) AND 0xFFFF) = take_bit 16 (unat (word_of_nat n :: u32))"
    by (simp only: unsigned_take_bit_eq)
  with n show ?thesis by (simp add: unat_of_nat take_bit_eq_mod)
qed

text \<open>The control words that the driver leaves behind.\<close>

definition wr_ctl :: "u32 \<Rightarrow> u32" where
  "wr_ctl c = (((c OR 0x80) AND NOT 0xB0) AND NOT 0x1) AND NOT 0xB0"

definition rd_ctl :: "u32 \<Rightarrow> u32" where
  "rd_ctl c = (c OR 0x81) AND NOT 0xB0"

lemma bit_and_not: "bit (x AND NOT m :: u32) i \<longleftrightarrow> i < 32 \<and> bit x i \<and> \<not> bit m i"
  by (auto simp: bits_of)

lemma ctl_enabled: "enabled c \<Longrightarrow> enabled (wr_ctl c)" "enabled c \<Longrightarrow> enabled (rd_ctl c)"
  by (simp_all only: enabled_def wr_ctl_def rd_ctl_def bit_and_not bit_or_iff) simp_all

lemma ctl_direction: "\<not> bit (wr_ctl c) 0" "bit (rd_ctl c) 0"
  by (simp_all only: wr_ctl_def rd_ctl_def bit_and_not bit_or_iff) simp_all

lemma ready_idle: "enabled c \<Longrightarrow> ready_st (idle_st c l a [] sn r n dn x)"
  unfolding ready_st_def by blast

lemma control_busy: "bsc_control (c AND NOT 0x1) (busy_st ((c0 OR 0x80) AND NOT 0xB0) l a tx rx sn r n x) =
    busy_st ((c AND NOT 0x1) AND NOT 0xB0) l a tx rx sn r n x" if "c = (c0 OR 0x80) AND NOT 0xB0" for c
proof -
  have "\<not> bit (c AND NOT 0x1) 4" "\<not> bit (c AND NOT 0x1) 5" "\<not> bit (c AND NOT 0x1) 7"
    unfolding that by (simp_all only: bit_and_not) simp_all
  then show ?thesis by (simp add: bsc_control_def busy_st_def)
qed

declare poll.simps [simp del] read_bytes.simps [simp del] write_bytes.simps [simp del]

context i2c_controller begin

lemma wp_status_bit:
  assumes "\<And>v. shows_status s v \<Longrightarrow> Q (bit v (unat k)) (bsc_step W s)"
  shows "wp st (status_bit B k) Q E s"
  unfolding status_bit_def
proof (rule wp_bnd, rule wp_exec)
  fix d assume d: "st d = s"
  obtain v d' where "GET32 B i2c_status d = Inr (v, d')" "shows_status s v" "st d' = bsc_step W s"
    using get_status [of d] d by blast
  then show "\<exists>v d'. GET32 B i2c_status d = Inr (v, d') \<and> wp st (ret (shr v k AND 1 = 1)) Q E (st d')"
    using assms [of v] by (auto intro!: wp_ret simp: shr_bit)
qed

lemma wp_busy_bit: "Q (b_ta s) (bsc_step W s) \<Longrightarrow> wp st (status_bit B 0) Q E s"
  by (rule wp_status_bit) (simp add: shows_status_def)

lemma wp_done_bit: "Q (b_done s) (bsc_step W s) \<Longrightarrow> wp st (status_bit B 1) Q E s"
  by (rule wp_status_bit) (simp add: shows_status_def)

lemma wp_txd_bit: "Q (length (b_tx s) < 16) (bsc_step W s) \<Longrightarrow> wp st (status_bit B 4) Q E s"
  by (rule wp_status_bit) (simp add: shows_status_def)

lemma wp_rxd_bit: "Q (b_rx s \<noteq> []) (bsc_step W s) \<Longrightarrow> wp st (status_bit B 5) Q E s"
  by (rule wp_status_bit) (simp add: shows_status_def)

lemma wp_txe_bit: "Q (b_tx s = []) (bsc_step W s) \<Longrightarrow> wp st (status_bit B 6) Q E s"
  by (rule wp_status_bit) (simp add: shows_status_def)

lemma wp_clear_done: "Q () (s\<lparr>b_done := False\<rparr>) \<Longrightarrow> bsc_step W s = s \<Longrightarrow> wp st (or_reg B i2c_status 0x2) Q E s"
  unfolding or_reg_def
proof (rule wp_bnd, rule wp_exec)
  fix d assume q: "Q () (s\<lparr>b_done := False\<rparr>)" and s: "bsc_step W s = s" and d: "st d = s"
  obtain v d' where v: "GET32 B i2c_status d = Inr (v, d')" "st d' = s" using get_status [of d] d s by auto
  have "bit (v OR 2) 1" by (simp add: bit_or_iff)
  then have "wp st (PUT32 B i2c_status (v OR 2)) Q E s"
    by (intro wp_acts [OF put_status]) (use q in simp)
  with v show "\<exists>v d'. GET32 B i2c_status d = Inr (v, d') \<and> wp st (PUT32 B i2c_status (v OR 2)) Q E (st d')" by auto
qed

lemma wp_or_control: "Q () (bsc_control (b_ctl s OR m) s) \<Longrightarrow> wp st (or_reg B i2c_control m) Q E s"
  unfolding or_reg_def by (intro wp_bnd wp_acts [OF get_control] wp_acts [OF put_control])

lemma wp_and_control: "Q () (bsc_control (b_ctl s AND m) s) \<Longrightarrow> wp st (and_reg B i2c_control m) Q E s"
  unfolding and_reg_def by (intro wp_bnd wp_acts [OF get_control] wp_acts [OF put_control])

lemma wp_get_fifo:
  assumes "b_rx s = b # rx" "\<And>v. ucast v = b \<Longrightarrow> Q v (s\<lparr>b_rx := rx\<rparr>)"
  shows "wp st (GET32 B i2c_fifo) Q E s"
proof (rule wp_exec)
  fix d assume "st d = s"
  with assms(1) have "st d = s\<lparr>b_rx := b # rx\<rparr>" by simp
  from get_fifo [OF this] show "\<exists>v d'. GET32 B i2c_fifo d = Inr (v, d') \<and> Q v (st d')"
    using assms(2) by auto
qed

lemma wp_put_fifo:
  assumes "length tx < 16" "Q () (busy_st c l a (tx @ [b]) rx sn r n x)"
  shows "wp st (PUT32 B i2c_fifo (ucast b)) Q E (busy_st c l a tx rx sn r n x)"
  by (rule wp_acts [OF put_fifo]) (use assms in \<open>simp add: busy_st_def ucast_u8_u32\<close>)

lemma wp_start:
  assumes "bit c 15" "\<not> bit c 4" "\<not> bit c 5" "bit m 7" "\<not> bit m 4" "\<not> bit m 5"
    "Q () (busy_st ((c OR m) AND NOT 0xB0) l a [] rx False r (unat l) x)"
  shows "wp st (or_reg B i2c_control m) Q E (idle_st c l a rx sn r n False x)"
  by (rule wp_or_control) (use assms in \<open>simp add: bsc_control_def idle_st_def busy_st_def bit_or_iff\<close>)

text \<open>Writing: at most one byte waits in the FIFO.\<close>

lemma wp_write_bytes:
  assumes "length p \<le> 1"
    "\<And>p' x'. length p' \<le> 1 \<Longrightarrow> fold (w_put W) p' x' = fold (w_put W) (p @ bs) x \<Longrightarrow>
      Q () (busy_st c l a p' rx True False (length p') x')"
  shows "wp st (write_bytes B (Suc k) bs) Q E (busy_st c l a p rx True False (length p + length bs) x)"
  using assms
proof (induction bs arbitrary: p x)
  case Nil
  from Nil.prems have "Q () (busy_st c l a p rx True False (length p) x)" by simp
  then show ?case unfolding write_bytes.simps by (intro wp_ret) simp
next
  case (Cons b bs)
  have next': "wp st (write_bytes B (Suc k) bs) Q E (busy_st c l a [b] rx True False (Suc (length bs)) (fold (w_put W) p x))"
    using Cons.IH [of "[b]" "fold (w_put W) p x"] Cons.prems(2) by simp
  show ?case
  proof (cases p)
    case Nil
    then show ?thesis using next' unfolding write_bytes.simps
      by (auto intro!: wp_thn wp_poll_once wp_txd_bit wp_put_fifo)
  next
    case (Cons q qs)
    with Cons.prems(1) have "p = [q]" by simp
    then show ?thesis using next' unfolding write_bytes.simps
      by (auto intro!: wp_thn wp_poll_once wp_txd_bit wp_put_fifo)
  qed
qed

text \<open>Reading, from the moment at which the wait for a byte has ended.\<close>

lemma wp_read_tail:
  assumes "reads W n x = (bs, x')" "Q (b # bs) (idle_st c l a [] True True 0 True x')" "0 < k"
  shows "wp st (bnd (GET32 B i2c_fifo) (\<lambda>v. bnd (read_bytes B k n) (\<lambda>bs. ret (ucast v # bs)))) Q E
    (bsc_step W (busy_st c l a [] [b] True True n x))"
  using assms
proof (induction n arbitrary: b x bs Q)
  case 0
  have "wp st (bnd (read_bytes B k 0) (\<lambda>bs. ret (b # bs))) Q E (idle_st c l a [] True True 0 True x)"
    unfolding read_bytes.simps by (intro wp_bnd wp_ret) (use 0 in simp)
  then have "wp st (GET32 B i2c_fifo) (\<lambda>v. wp st (bnd (read_bytes B k 0) (\<lambda>bs. ret (ucast v # bs))) Q E) E
      (idle_st c l a [b] True True 0 True x)"
    by (intro wp_get_fifo [where b = b and rx = "[]"]) (simp_all add: idle_st_def)
  then show ?case unfolding step_stop by (rule wp_bnd)
next
  case (Suc n)
  obtain b2 x2 bs2 where w: "w_get W x = (b2, x2)" and r: "reads W n x2 = (bs2, x')" and bs: "bs = b2 # bs2"
    using Suc.prems(1) by (auto split: prod.splits)
  have tail: "wp st (bnd (GET32 B i2c_fifo) (\<lambda>v. bnd (read_bytes B k n) (\<lambda>bs. ret (ucast v # bs))))
      (\<lambda>r. wp st (ret (b # r)) Q E) E (bsc_step W (busy_st c l a [] [b2] True True n x2))"
    by (rule Suc.IH [OF r]) (use Suc.prems bs in \<open>auto intro: wp_ret\<close>)
  have more: "wp st (bnd (read_bytes B k (Suc n)) (\<lambda>r. ret (b # r))) Q E (busy_st c l a [] [b2] True True n x2)"
    unfolding read_bytes.simps
    by (intro wp_bnd wp_thn wp_poll_once wp_rxd_bit) (use tail Suc.prems(3) in simp_all)
  have "wp st (GET32 B i2c_fifo) (\<lambda>v. wp st (bnd (read_bytes B k (Suc n)) (\<lambda>bs. ret (ucast v # bs))) Q E) E
      (busy_st c l a [] [b, b2] True True n x2)"
    by (rule wp_get_fifo [where b = b and rx = "[b2]"]) (use more in \<open>auto simp: busy_st_def\<close>)
  moreover have "bsc_step W (busy_st c l a [] [b] True True (Suc n) x) = busy_st c l a [] [b, b2] True True n x2"
    by (simp add: w)
  ultimately show ?case by (simp only:) (rule wp_bnd)
qed

lemma wp_read_bytes:
  assumes "reads W n x = (bs, x')"
    "Q bs (if n = 0 then busy_st c l a [] [] True True 0 x' else idle_st c l a [] True True 0 True x')"
  shows "wp st (read_bytes B (Suc (Suc k)) n) Q E (busy_st c l a [] [] True True n x)"
proof (cases n)
  case 0
  with assms have "Q [] (busy_st c l a [] [] True True n x)" by simp
  with 0 show ?thesis unfolding 0 read_bytes.simps by (intro wp_ret) simp
next
  case (Suc m)
  obtain b x1 bs1 where w: "w_get W x = (b, x1)" and r: "reads W m x1 = (bs1, x')" and bs: "bs = b # bs1"
    using assms(1) Suc by (auto split: prod.splits)
  have "wp st (bnd (GET32 B i2c_fifo) (\<lambda>v. bnd (read_bytes B (Suc (Suc k)) m) (\<lambda>bs. ret (ucast v # bs)))) Q E
      (bsc_step W (busy_st c l a [] [b] True True m x1))"
    by (rule wp_read_tail [OF r]) (use assms(2) Suc bs in simp_all)
  then show ?thesis unfolding Suc read_bytes.simps
    by (intro wp_thn wp_poll_step wp_rxd_bit) (simp add: w, intro wp_poll_once wp_rxd_bit, simp_all)
qed

lemma wp_done:
  assumes "length p \<le> 1" "Q () (idle_st c l a [] True False 0 True (fold (w_put W) p x))"
  shows "wp st (poll (Suc (Suc (Suc k))) (status_bit B 1)) Q E (busy_st c l a p [] True False (length p) x)"
proof (cases p)
  case Nil
  with assms show ?thesis by (auto intro!: wp_poll_step wp_done_bit)
next
  case (Cons b bs)
  with assms(1) have "p = [b]" by simp
  with assms show ?thesis by (auto intro!: wp_poll_step wp_done_bit)
qed

text \<open>The steps that both operations start with.\<close>

lemma wp_prepare:
  assumes c: "enabled c" and m: "bit m 7" "\<not> bit m 4" "\<not> bit m 5"
    and rest: "wp st p Q E (busy_st ((c OR m) AND NOT 0xB0) (v AND 0xFFFF) (addr AND 0x7F) [] [] False r (unat (v AND 0xFFFF)) x)"
  shows "wp st (thn (poll (Suc k) (negated (status_bit B 0))) (thn (poll (Suc k) (status_bit B 6))
      (thn (or_reg B i2c_status 0x2) (thn (PUT32 B i2c_dev_addr addr) (thn (PUT32 B i2c_dlen v)
      (thn (or_reg B i2c_control m) p)))))) Q E (idle_st c l a [] sn r n dn x)"
proof -
  have "wp st (or_reg B i2c_control m) (\<lambda>_. wp st p Q E) E (idle_st c (v AND 0xFFFF) (addr AND 0x7F) [] sn r n False x)"
    by (rule wp_start) (use c m rest in \<open>simp_all add: enabled_def\<close>)
  then have "wp st (thn (or_reg B i2c_status 0x2) (thn (PUT32 B i2c_dev_addr addr) (thn (PUT32 B i2c_dlen v)
      (thn (or_reg B i2c_control m) p)))) Q E (idle_st c l a [] sn r n dn x)"
    by (intro wp_thn wp_clear_done wp_acts [OF put_addr] wp_acts [OF put_dlen]) simp_all
  then have "wp st (thn (poll (Suc k) (status_bit B 6)) (thn (or_reg B i2c_status 0x2) (thn (PUT32 B i2c_dev_addr addr)
      (thn (PUT32 B i2c_dlen v) (thn (or_reg B i2c_control m) p))))) Q E (idle_st c l a [] sn r n dn x)"
    by - (rule wp_thn, rule wp_poll_once, simp, rule wp_txe_bit, simp)
  then show ?thesis
    by - (rule wp_thn, rule wp_poll_once, simp, rule wp_negated, rule wp_busy_bit, simp)
qed

lemma wp_i2c_write:
  assumes s: "ready_st s" and n: "length data < 2 ^ 16"
    and Q: "\<And>s'. ready_st s' \<Longrightarrow> b_dev s' = fold (w_put W) data (w_start W (addr AND 0x7F) False (b_dev s)) \<Longrightarrow> Q 1 s'"
  shows "wp st (i2c_write B (Suc (Suc (Suc k))) addr data) Q E s"
proof -
  obtain c l a sn r m dn x where s: "s = idle_st c l a [] sn r m dn x" and c: "enabled c" using s by (auto simp: ready_st_def)
  let ?k = "Suc (Suc (Suc k))" and ?a = "addr AND 0x7F" and ?l = "(word_of_nat (length data) :: u32) AND 0xFFFF"
  let ?x = "w_start W ?a False x"
  have done': "Q 1 (idle_st (wr_ctl c) ?l ?a [] True False 0 True (fold (w_put W) p x'))"
    if "fold (w_put W) p x' = fold (w_put W) data ?x" for p x'
    by (rule Q [OF ready_idle [OF ctl_enabled(1) [OF c]]]) (simp add: that s)
  have wrote: "wp st (thn (write_bytes B ?k data) (thn (poll ?k (status_bit B 1)) (ret 1))) Q E
      (busy_st (wr_ctl c) ?l ?a [] [] True False (length data) ?x)"
  proof -
    have "wp st (write_bytes B ?k data) (\<lambda>_. wp st (thn (poll ?k (status_bit B 1)) (ret 1)) Q E) E
      (busy_st (wr_ctl c) ?l ?a [] [] True False (length ([] :: u8 list) + length data) ?x)"
      by (rule wp_write_bytes) (auto intro!: wp_thn wp_done wp_ret done')
    then show ?thesis by (intro wp_thn) simp
  qed
  have "wp st (thn (and_reg B i2c_control (NOT 0x1))
      (thn (poll ?k (status_bit B 0)) (thn (write_bytes B ?k data) (thn (poll ?k (status_bit B 1)) (ret 1))))) Q E
      (busy_st ((c OR 0x80) AND NOT 0xB0) ?l ?a [] [] False r (unat ?l) x)"
    by (rule wp_thn, rule wp_and_control, unfold busy_st_def [symmetric] idle_updates control_busy [OF refl],
      rule wp_thn, rule wp_poll_once, simp, rule wp_busy_bit)
      (use wrote ctl_direction(1) [of c] unat_dlen [OF n] in \<open>simp add: wr_ctl_def\<close>)
  then show ?thesis unfolding i2c_write_def s by (intro wp_prepare c) simp_all
qed

lemma wp_i2c_read:
  assumes s: "ready_st s" and n: "nb < 2 ^ 16" and r: "reads W nb (w_start W (addr AND 0x7F) True (b_dev s)) = (bs, y)"
    and Q: "\<And>s'. ready_st s' \<Longrightarrow> b_dev s' = y \<Longrightarrow> Q (bs, 1) s'"
  shows "wp st (i2c_read B (Suc (Suc k)) addr nb) Q E s"
proof -
  obtain c l a sn rd m dn x where s: "s = idle_st c l a [] sn rd m dn x" and c: "enabled c" using s by (auto simp: ready_st_def)
  let ?k = "Suc (Suc k)" and ?a = "addr AND 0x7F" and ?l = "(word_of_nat nb :: u32) AND 0xFFFF"
  let ?fin = "\<lambda>data. thn (poll ?k (status_bit B 1)) (ret (data, 1))"
  have done': "Q (bs, 1) (idle_st (rd_ctl c) ?l ?a [] True True 0 True y)"
    by (rule Q [OF ready_idle [OF ctl_enabled(2) [OF c]]]) simp
  have ended: "wp st (?fin bs) Q E (if nb = 0 then busy_st (rd_ctl c) ?l ?a [] [] True True 0 y
      else idle_st (rd_ctl c) ?l ?a [] True True 0 True y)"
  proof (cases "nb = 0")
    case True
    have "wp st (?fin bs) Q E (busy_st (rd_ctl c) ?l ?a [] [] True True 0 y)"
      by (intro wp_thn wp_poll_step wp_done_bit) (use done' in \<open>auto intro!: wp_ret wp_poll_once wp_done_bit\<close>)
    with True show ?thesis by simp
  next
    case False
    have "wp st (?fin bs) Q E (idle_st (rd_ctl c) ?l ?a [] True True 0 True y)"
      by (intro wp_thn wp_poll_once wp_done_bit) (use done' in \<open>auto intro!: wp_ret\<close>)
    with False show ?thesis by simp
  qed
  have "wp st (bnd (read_bytes B ?k nb) ?fin) Q E (busy_st (rd_ctl c) ?l ?a [] [] True True nb (w_start W ?a True x))"
    by (rule wp_bnd, rule wp_read_bytes) (use r s ended in \<open>simp_all\<close>)
  then have "wp st (thn (poll ?k (status_bit B 0)) (bnd (read_bytes B ?k nb) ?fin)) Q E
      (busy_st ((c OR 0x81) AND NOT 0xB0) ?l ?a [] [] False rd (unat ?l) x)"
    by (intro wp_thn wp_poll_once wp_busy_bit)
      (use ctl_direction(2) [of c] unat_dlen [OF n] in \<open>simp_all add: rd_ctl_def\<close>)
  then show ?thesis unfolding i2c_read_def s by (intro wp_prepare c) simp_all
qed

lemma keeps_gpio_alt: "pin \<in> {2, 3} \<Longrightarrow> keeps st (gpio_set_function B pin GPIO_FUNC_ALT0)"
  by (auto simp: gpio_set_function_def GPIO_FUNC_ALT0_def GPIO_BASE_def Let_def intro!: keeps_bnd get_gpio put_gpio)

lemma wp_i2c_init:
  assumes "\<not> b_ta s" and Q: "\<And>s'. ready_st s' \<Longrightarrow> b_dev s' = b_dev s \<Longrightarrow> Q () s'"
  shows "wp st (i2c_init B) Q E s"
proof -
  have c: "bsc_control (shl 0x3 4 OR shl 1 15) s =
      idle_st 0x8000 (b_dlen s) (b_adr s) [] (b_sent s) (b_reading s) (b_left s) (b_done s) (b_dev s)"
    using assms(1) by (cases s) (simp add: bsc_control_def idle_st_def shl_def)
  have e: "enabled 0x8000" by (simp add: enabled_def)
  show ?thesis unfolding i2c_init_def
    by (intro wp_run_all_Cons wp_run_all_Nil wp_keeps [OF keeps_gpio_alt] wp_acts [OF put_control]
        wp_acts [OF put_div] wp_acts [OF put_status]) (simp_all add: c Q ready_idle [OF e])
qed

end

lemma write_ends:
  assumes "i2c_controller B st W" "ready_st (st d)" "length data < 2 ^ 16" "3 \<le> k"
  shows "\<exists>d'. i2c_write B k addr data d = Inr (1, d') \<and> ready_st (st d') \<and>
    b_dev (st d') = fold (w_put W) data (w_start W (addr AND 0x7F) False (b_dev (st d)))"
proof -
  obtain j where k: "k = Suc (Suc (Suc j))" using assms(4) by (metis Suc_le_D numeral_3_eq_3 Suc_le_mono)
  have "wp st (i2c_write B k addr data) (\<lambda>r s'. r = 1 \<and> ready_st s' \<and>
      b_dev s' = fold (w_put W) data (w_start W (addr AND 0x7F) False (b_dev (st d)))) never (st d)"
    unfolding k by (rule i2c_controller.wp_i2c_write [OF assms(1-3)]) simp
  from wp_total [OF this] show ?thesis by blast
qed

lemma read_ends:
  assumes "i2c_controller B st W" "ready_st (st d)" "nb < 2 ^ 16" "2 \<le> k"
  shows "\<exists>d'. i2c_read B k addr nb d = Inr ((fst (reads W nb (w_start W (addr AND 0x7F) True (b_dev (st d)))), 1), d') \<and>
    ready_st (st d') \<and> b_dev (st d') = snd (reads W nb (w_start W (addr AND 0x7F) True (b_dev (st d))))"
proof -
  obtain j where k: "k = Suc (Suc j)" using assms(4) by (metis Suc_le_D numeral_2_eq_2 Suc_le_mono)
  let ?r = "reads W nb (w_start W (addr AND 0x7F) True (b_dev (st d)))"
  have "wp st (i2c_read B k addr nb) (\<lambda>r s'. r = (fst ?r, 1) \<and> ready_st s' \<and> b_dev s' = snd ?r) never (st d)"
    unfolding k by (rule i2c_controller.wp_i2c_read [OF assms(1-3) surjective_pairing]) simp
  from wp_total [OF this] show ?thesis by blast
qed

section \<open>A simulated controller\<close>

definition status_word :: "'x bsc \<Rightarrow> u32" where
  "status_word s =
     ((((if b_ta s then 0x1 else 0) OR (if b_done s then 0x2 else 0)) OR (if length (b_tx s) < 16 then 0x10 else 0)) OR
      (if b_rx s \<noteq> [] then 0x20 else 0)) OR (if b_tx s = [] then 0x40 else 0)"

definition sim_get :: "'x wire \<Rightarrow> u32 \<Rightarrow> ('x bsc, u32) io" where
  "sim_get W a s =
     (if a = i2c_status then Inr (status_word s, bsc_step W s)
      else if a = i2c_control then Inr (b_ctl s, s)
      else if a = i2c_fifo then
        (case b_rx s of [] \<Rightarrow> Inr (0, s) | b # bs \<Rightarrow> Inr (ucast b, s\<lparr>b_rx := bs\<rparr>))
      else Inr (0, s))"

definition sim_put :: "u32 \<Rightarrow> u32 \<Rightarrow> ('x bsc, unit) io" where
  "sim_put a v s = Inr ((),
     if a = i2c_status then s\<lparr>b_done := (b_done s \<and> \<not> bit v 1)\<rparr>
     else if a = i2c_control then bsc_control v s
     else if a = i2c_dlen then s\<lparr>b_dlen := v AND 0xFFFF\<rparr>
     else if a = i2c_dev_addr then s\<lparr>b_adr := v AND 0x7F\<rparr>
     else if a = i2c_fifo then (if length (b_tx s) < 16 then s\<lparr>b_tx := b_tx s @ [ucast v]\<rparr> else s)
     else s)"

definition sim_bsc :: "'x wire \<Rightarrow> 'x bsc bus" where
  "sim_bsc W = \<lparr>GET32 = sim_get W, PUT32 = sim_put, dev_barrier = ret (), DEV_VAL32 = ret\<rparr>"

lemma shows_status_word: "shows_status s (status_word s)"
  by (simp add: shows_status_def status_word_def bit_or_iff)

interpretation sim_ctl: i2c_controller "sim_bsc W" "\<lambda>s. s" W
proof
  show "\<exists>v d'. GET32 (sim_bsc W) i2c_status d = Inr (v, d') \<and> shows_status d v \<and> d' = bsc_step W d" for d
    by (simp add: sim_bsc_def sim_get_def shows_status_word)
  show "d = s\<lparr>b_rx := b # bs\<rparr> \<Longrightarrow>
      \<exists>v d'. GET32 (sim_bsc W) i2c_fifo d = Inr (v, d') \<and> ucast v = b \<and> d' = s\<lparr>b_rx := bs\<rparr>" for d s :: "'a bsc" and b bs
    by (simp add: sim_bsc_def sim_get_def i2c_regs ucast_u8_u32)
qed (auto simp: acts_def keeps_def sim_bsc_def sim_get_def sim_put_def i2c_regs)

subsection \<open>A controller that is faster than the processor\<close>

text \<open>\<open>r\<close> steps happen on the wire before every look at the status.\<close>

definition late_bsc :: "'x wire \<Rightarrow> nat \<Rightarrow> 'x bsc bus" where
  "late_bsc W r = (sim_bsc W)\<lparr>GET32 := (\<lambda>a s.
     if a = i2c_status then (let s' = (bsc_step W ^^ r) s in Inr (status_word s', s')) else sim_get W a s)\<rparr>"

lemma steps_idle [simp]: "(bsc_step W ^^ r) (idle_st c l a rx sn d n dn x) = idle_st c l a rx sn d n dn x"
  by (induction r) simp_all

lemma steps_read:
  "length rx + n \<le> 16 \<Longrightarrow> reads W n x = (bs, y) \<Longrightarrow>
   (bsc_step W ^^ Suc n) (busy_st c l a [] rx True True n x) = idle_st c l a (rx @ bs) True True 0 True y"
proof (induction n arbitrary: rx x bs)
  case (Suc n)
  obtain b x1 bs1 where w: "w_get W x = (b, x1)" and r: "reads W n x1 = (bs1, y)" and bs: "bs = b # bs1"
    using Suc.prems(2) by (auto split: prod.splits)
  have "(bsc_step W ^^ Suc (Suc n)) (busy_st c l a [] rx True True (Suc n) x) =
      (bsc_step W ^^ Suc n) (bsc_step W (busy_st c l a [] rx True True (Suc n) x))"
    by (metis funpow_Suc_right o_apply)
  also have "\<dots> = (bsc_step W ^^ Suc n) (busy_st c l a [] (rx @ [b]) True True n x1)"
    using Suc.prems(1) w by simp
  also have "\<dots> = idle_st c l a ((rx @ [b]) @ bs1) True True 0 True y"
    by (rule Suc.IH [OF _ r]) (use Suc.prems(1) in simp)
  finally show ?case by (simp add: bs)
qed simp

lemma steps_transfer:
  assumes "n \<le> 16" "n + 2 \<le> r" "bit c 0" "reads W n (w_start W a True x) = (bs, y)"
  shows "(bsc_step W ^^ r) (busy_st c l a [] [] False d n x) = idle_st c l a bs True True 0 True y"
proof -
  obtain m where r: "r = m + Suc (Suc n)" using assms(2) by (metis add.commute add_2_eq_Suc' le_Suc_ex)
  have "(bsc_step W ^^ Suc (Suc n)) (busy_st c l a [] [] False d n x) =
      (bsc_step W ^^ Suc n) (bsc_step W (busy_st c l a [] [] False d n x))"
    by (metis funpow_Suc_right o_apply)
  also have "\<dots> = idle_st c l a ([] @ bs) True True 0 True y"
    using assms by (simp only: step_address steps_read list.size add_0)
  finally have f: "(bsc_step W ^^ Suc (Suc n)) (busy_st c l a [] [] False d n x) = idle_st c l a ([] @ bs) True True 0 True y" .
  show ?thesis unfolding r funpow_add comp_apply f by simp
qed

lemma late_status [simp]:
  "GET32 (late_bsc W r) i2c_status s = (let s' = (bsc_step W ^^ r) s in Inr (status_word s', s'))"
  by (simp add: late_bsc_def)

lemma late_bit:
  "(bsc_step W ^^ r) s = s' \<Longrightarrow> k \<in> {0, 6} \<Longrightarrow>
   status_bit (late_bsc W r) k s = Inr (if k = 0 then b_ta s' else b_tx s' = [], s')"
  using shows_status_word [of s'] by (auto simp: status_bit_def Let_def shr_bit shows_status_def)

lemma late_idle_bits:
  "status_bit (late_bsc W r) 0 (idle_st c l a rx sn d n dn x) = Inr (False, idle_st c l a rx sn d n dn x)"
  "status_bit (late_bsc W r) 6 (idle_st c l a rx sn d n dn x) = Inr (True, idle_st c l a rx sn d n dn x)"
  by (simp_all only: late_bit [OF steps_idle] insert_iff simp_thms st_fields if_True) simp_all

lemma late_never_busy: "poll k (status_bit (late_bsc W r) 0) (idle_st c l a rx sn d n dn x) = Inl Stuck"
  by (induction k) (simp_all add: poll.simps bnd_def late_idle_bits)

lemma late_misses:
  assumes "(bsc_step W ^^ r) s = idle_st c l a rx sn d n dn x"
  shows "poll k (status_bit (late_bsc W r) 0) s = Inl Stuck"
proof (cases k)
  case (Suc j)
  have "status_bit (late_bsc W r) 0 s = Inr (False, idle_st c l a rx sn d n dn x)"
    using late_bit [OF assms, of 0] by simp
  then show ?thesis by (simp add: Suc poll.simps bnd_def late_never_busy)
qed (simp add: poll.simps)

lemma late_prepare:
  assumes "enabled c"
  shows "or_reg (late_bsc W r) i2c_status 0x2 (idle_st c l a rx sn d n dn x) = Inr ((), idle_st c l a rx sn d n False x)"
    "PUT32 (late_bsc W r) i2c_dev_addr v (idle_st c l a rx sn d n dn x) = Inr ((), idle_st c l (v AND 0x7F) rx sn d n dn x)"
    "PUT32 (late_bsc W r) i2c_dlen v (idle_st c l a rx sn d n dn x) = Inr ((), idle_st c (v AND 0xFFFF) a rx sn d n dn x)"
    "or_reg (late_bsc W r) i2c_control 0x81 (idle_st c l a [] sn d n False x) =
       Inr ((), busy_st (rd_ctl c) l a [] [] False d (unat l) x)"
proof -
  show "or_reg (late_bsc W r) i2c_status 0x2 (idle_st c l a rx sn d n dn x) = Inr ((), idle_st c l a rx sn d n False x)"
    by (simp add: or_reg_def bnd_def late_bsc_def sim_bsc_def sim_put_def Let_def bit_or_iff)
  show "or_reg (late_bsc W r) i2c_control 0x81 (idle_st c l a [] sn d n False x) =
       Inr ((), busy_st (rd_ctl c) l a [] [] False d (unat l) x)"
    using assms by (simp add: or_reg_def bnd_def late_bsc_def sim_bsc_def sim_put_def sim_get_def i2c_regs idle_st_def
        busy_st_def bsc_control_def enabled_def rd_ctl_def bit_or_iff)
qed (simp_all add: late_bsc_def sim_bsc_def sim_put_def i2c_regs)

text \<open>A device that remembers the bytes that it is sent and hands out the oldest ones, for the examples.\<close>

definition echo_wire :: "u8 list wire" where
  "echo_wire = \<lparr>w_start = (\<lambda>a r x. x), w_put = (\<lambda>b x. x @ [b]),
     w_get = (\<lambda>x. case x of [] \<Rightarrow> (0xFF, []) | b # bs \<Rightarrow> (b, bs))\<rparr>"

definition echo_idle :: "u8 list \<Rightarrow> u8 list bsc" where
  "echo_idle x = idle_st 0x8000 0 0 [] False False 0 False x"

lemma echo_ready: "ready_st (echo_idle x)"
  unfolding echo_idle_def by (rule ready_idle) (simp add: enabled_def)

section \<open>Properties\<close>

text \<open>C0: Sending bytes with the I2C driver returns 1 within three rounds of every wait; the device has seen a start
  condition with its address and then exactly the bytes of the message in order, and the controller is ready again.\<close>

theorem i2c_write_delivers:
  assumes "i2c_controller B st W" "ready_st (st d)" "length data < 2 ^ 16" "3 \<le> k"
  shows "\<exists>d'. i2c_write B k addr data d = Inr (1, d') \<and> ready_st (st d') \<and>
    b_dev (st d') = fold (w_put W) data (w_start W (addr AND 0x7F) False (b_dev (st d)))"
  by (rule write_ends [OF assms])

theorem i2c_write_delivers_witness:
  "\<exists>d'. i2c_write (sim_bsc echo_wire) 3 0x68 [0x6b, 0] (echo_idle []) = Inr (1, d') \<and> ready_st d' \<and>
    b_dev d' = fold (w_put echo_wire) [0x6b, 0] (w_start echo_wire (0x68 AND 0x7F) False (b_dev (echo_idle [])))"
  by (rule i2c_write_delivers [OF sim_ctl.i2c_controller_axioms]) (simp_all add: echo_ready)



text \<open>C0: The driver relies on being faster than the wire. When a transfer of up to 16 bytes is over before the first
  look at the status, i2c_read waits for the transfer to begin and never returns, whatever the number of rounds.\<close>

theorem i2c_read_misses_end:
  assumes "ready_st s" "nb \<le> 16" "nb + 2 \<le> r"
  shows "i2c_read (late_bsc W r) k addr nb s = Inl Stuck"
proof (cases k)
  case (Suc j)
  obtain c l a sn d n dn x where s: "s = idle_st c l a [] sn d n dn x" and c: "enabled c"
    using assms(1) by (auto simp: ready_st_def)
  let ?l = "(word_of_nat nb :: u32) AND 0xFFFF" and ?a = "addr AND 0x7F"
  obtain bs y where "reads W nb (w_start W ?a True x) = (bs, y)" by (cases "reads W nb (w_start W ?a True x)")
  then have "(bsc_step W ^^ r) (busy_st (rd_ctl c) ?l ?a [] [] False d nb x) = idle_st (rd_ctl c) ?l ?a bs True True 0 True y"
    using assms ctl_direction(2) by (intro steps_transfer)
  from late_misses [OF this] have "poll k (status_bit (late_bsc W r) 0) (busy_st (rd_ctl c) ?l ?a [] [] False d nb x) = Inl Stuck" .
  moreover have "unat ?l = nb" using assms(2) by (intro unat_dlen) simp
  ultimately show ?thesis unfolding i2c_read_def s
    by (simp add: thn_def bnd_def Suc poll.simps negated_def late_idle_bits late_prepare [OF c])
qed (simp add: i2c_read_def poll.simps)

theorem i2c_read_misses_end_witness:
  "i2c_read (late_bsc echo_wire 3) 1000 0x68 1 (echo_idle [7]) = Inl Stuck"
  by (rule i2c_read_misses_end) (simp_all add: echo_ready)

end
