(* ===== verification/Mpu6050.thy ===== *)
theory Mpu6050
  imports I2c "HOL-Library.Signed_Division"
begin

unbundle bit_operations_syntax

text \<open>
  The accelerometer and gyroscope of \<open>labs/11-imu-i2c/code/mpu-6050.c\<close>. The lab links the driver with different
  I2C drivers, one of them without source, so the two I2C calls and the delay are the record \<open>i2c_ops\<close>; the locale
  \<open>imu_dev\<close> says what they do to the registers of the chip, and the driver of theory \<open>I2c\<close> on any controller
  satisfies it. The sensor may change registers between any two transactions. C's \<open>int\<close> is \<open>int\<close> with overflow undefined.
\<close>

section \<open>I2C helpers\<close>

record 'd i2c_ops =
  i_write :: "u32 \<Rightarrow> u8 list \<Rightarrow> ('d, u32) io"
  i_read :: "u32 \<Rightarrow> nat \<Rightarrow> ('d, u8 list \<times> u32) io"
  i_delay_ms :: "u32 \<Rightarrow> ('d, unit) io"

definition imu_rd :: "'d i2c_ops \<Rightarrow> u8 \<Rightarrow> u8 \<Rightarrow> ('d, u8) io" where
  "imu_rd I addr reg =
     thn (i_write I (ucast addr) [reg])
       (bnd (i_read I (ucast addr) 1) (\<lambda>(bs, _). lft (arr_get bs 0)))"

definition imu_wr :: "'d i2c_ops \<Rightarrow> u8 \<Rightarrow> u8 \<Rightarrow> u8 \<Rightarrow> ('d, unit) io" where
  "imu_wr I addr reg v = void (i_write I (ucast addr) [reg, v])"

definition imu_rd_n :: "'d i2c_ops \<Rightarrow> u8 \<Rightarrow> u8 \<Rightarrow> nat \<Rightarrow> ('d, u8 list \<times> u32) io" where
  "imu_rd_n I addr base_reg n = thn (i_write I (ucast addr) [base_reg]) (i_read I (ucast addr) n)"

section \<open>Accelerometer\<close>

definition accel_config_reg :: u8 where "accel_config_reg = 0x1c"
definition USER_CTRL :: u8 where "USER_CTRL = 0x6a"
definition ACCEL_XOUT_H :: u8 where "ACCEL_XOUT_H = 0x3b"
definition accel_xout_l :: u8 where "accel_xout_l = 0x3c"
definition accel_yout_h :: u8 where "accel_yout_h = 0x3d"
definition accel_yout_l :: u8 where "accel_yout_l = 0x3e"
definition accel_zout_h :: u8 where "accel_zout_h = 0x3f"
definition accel_zout_l :: u8 where "accel_zout_l = 0x40"
definition PWR_MGMT_1 :: u8 where "PWR_MGMT_1 = 0x6b"
definition INT_STATUS :: u8 where "INT_STATUS = 0x3a"
definition INT_ENABLE :: u8 where "INT_ENABLE = 0x38"

lemmas accel_regs = accel_config_reg_def USER_CTRL_def ACCEL_XOUT_H_def accel_xout_l_def accel_yout_h_def
  accel_yout_l_def accel_zout_h_def accel_zout_l_def PWR_MGMT_1_def INT_STATUS_def INT_ENABLE_def

record imu_xyz_t =
  imu_x :: int
  imu_y :: int
  imu_z :: int

definition xyz_mk :: "int \<Rightarrow> int \<Rightarrow> int \<Rightarrow> imu_xyz_t" where
  "xyz_mk x y z = \<lparr>imu_x = x, imu_y = y, imu_z = z\<rparr>"

record accel_t =
  acc_addr :: u8
  acc_hz :: int
  acc_g :: int

text \<open>The product of two \<open>int\<close>s, which must not overflow.\<close>

definition imul :: "int \<Rightarrow> int \<Rightarrow> int res" where
  "imul a b = (if - (2 ^ 31) \<le> a * b \<and> a * b < 2 ^ 31 then Inr (a * b) else Inl Undefined)"

definition mg_scaled :: "int \<Rightarrow> int \<Rightarrow> int res" where
  "mg_scaled v g = seq (imul v 1000) (\<lambda>p. seq (imul p g) (\<lambda>q. Inr (q sdiv 32767)))"

definition accel_scale :: "accel_t \<Rightarrow> imu_xyz_t \<Rightarrow> imu_xyz_t res" where
  "accel_scale h xyz =
     seq (mg_scaled (acc_g h) (imu_x xyz)) (\<lambda>x.
     seq (mg_scaled (acc_g h) (imu_y xyz)) (\<lambda>y.
     seq (mg_scaled (acc_g h) (imu_z xyz)) (\<lambda>z.
     Inr (xyz_mk x y z))))"

definition accel_has_data :: "'d i2c_ops \<Rightarrow> accel_t \<Rightarrow> ('d, bool) io" where
  "accel_has_data I h = bnd (imu_rd I (acc_addr h) INT_STATUS) (\<lambda>status. ret (status AND 0x1 \<noteq> 0))"

definition mg_raw :: "u8 \<Rightarrow> u8 \<Rightarrow> int" where
  "mg_raw lo hi = sint (push_bit 8 (ucast hi) OR ucast lo :: u16)"

text \<open>The parameters of \<open>test_mg\<close> are named \<open>l\<close> and \<open>h\<close>, and it passes them on the other way round.\<close>

definition test_mg :: "int \<Rightarrow> u8 \<Rightarrow> u8 \<Rightarrow> int \<Rightarrow> unit res" where
  "test_mg expected l h g = seq (mg_scaled (mg_raw h l) g) (\<lambda>s_i. require (s_i = expected) Assert_fail)"

definition mpu6050_accel_init :: "'d i2c_ops \<Rightarrow> u8 \<Rightarrow> u32 \<Rightarrow> ('d, accel_t) io" where
  "mpu6050_accel_init I addr accel_g =
     bnd (if accel_g = 0 then ret 2 else if accel_g = 1 then ret 4 else if accel_g = 2 then ret 8
          else if accel_g = 3 then ret 16 else fails Panic) (\<lambda>g.
     thn (lft (test_mg 0 0x00 0x00 2))
    (thn (lft (test_mg 350 0x16 0x69 2))
    (thn (lft (test_mg 1000 0x40 0x09 2))
    (thn (lft (test_mg (-350) 0xe9 0x97 2))
    (thn (lft (test_mg (-1000) 0xbf 0xf7 2))
    (thn (imu_wr I addr accel_config_reg 0)
    (thn (imu_rd I addr accel_config_reg)
    (ret \<lparr>acc_addr = addr, acc_hz = 20, acc_g = g\<rparr>))))))))"

definition mpu6050_reset :: "'d i2c_ops \<Rightarrow> u8 \<Rightarrow> ('d, unit) io" where
  "mpu6050_reset I addr = run_all
     [i_delay_ms I 100,
      imu_wr I addr PWR_MGMT_1 (push_bit 7 1),
      i_delay_ms I 100,
      void (imu_rd I addr PWR_MGMT_1),
      imu_wr I addr PWR_MGMT_1 0,
      i_delay_ms I 100,
      imu_wr I addr USER_CTRL 0x7,
      i_delay_ms I 100,
      imu_wr I addr INT_ENABLE 0x59]"

text \<open>Two registers with the high and the low byte of a value.\<close>

definition rd_pair :: "'d i2c_ops \<Rightarrow> u8 \<Rightarrow> u8 \<Rightarrow> u8 \<Rightarrow> ('d, int) io" where
  "rd_pair I addr hi_reg lo_reg =
     bnd (imu_rd I addr hi_reg) (\<lambda>hi. bnd (imu_rd I addr lo_reg) (\<lambda>lo. ret (mg_raw lo hi)))"

definition accel_rd :: "'d i2c_ops \<Rightarrow> nat \<Rightarrow> accel_t \<Rightarrow> ('d, imu_xyz_t) io" where
  "accel_rd I k h =
     thn (poll k (accel_has_data I h))
    (bnd (rd_pair I (acc_addr h) ACCEL_XOUT_H accel_xout_l) (\<lambda>x.
     bnd (rd_pair I (acc_addr h) accel_yout_h accel_yout_l) (\<lambda>y.
     bnd (rd_pair I (acc_addr h) accel_zout_h accel_zout_l) (\<lambda>z.
     ret (xyz_mk x y z)))))"

section \<open>Gyroscope\<close>

definition gyro_config_reg :: u8 where "gyro_config_reg = 0x1b"
definition GYRO_XOUT_H :: u8 where "GYRO_XOUT_H = 67"
definition GYRO_XOUT_L :: u8 where "GYRO_XOUT_L = 68"
definition GYRO_YOUT_H :: u8 where "GYRO_YOUT_H = 69"
definition GYRO_YOUT_L :: u8 where "GYRO_YOUT_L = 70"
definition GYRO_ZOUT_H :: u8 where "GYRO_ZOUT_H = 71"
definition GYRO_ZOUT_L :: u8 where "GYRO_ZOUT_L = 72"

record gyro_t =
  gyro_addr :: u8
  gyro_hz :: int
  gyro_dps :: int

definition mdps_scaled :: "int \<Rightarrow> int \<Rightarrow> int res" where
  "mdps_scaled x dps_scale = seq (imul x dps_scale) (\<lambda>p. Inr (p sdiv 1000))"

definition gyro_scale :: "gyro_t \<Rightarrow> imu_xyz_t \<Rightarrow> imu_xyz_t res" where
  "gyro_scale h xyz =
     seq (mdps_scaled (gyro_dps h) (imu_x xyz)) (\<lambda>x.
     seq (mdps_scaled (gyro_dps h) (imu_y xyz)) (\<lambda>y.
     seq (mdps_scaled (gyro_dps h) (imu_z xyz)) (\<lambda>z.
     Inr (xyz_mk x y z))))"

definition dps_to_scale :: "int \<Rightarrow> int res" where
  "dps_to_scale dps =
     (if dps = 245 \<or> dps = 250 then Inr 8750 else if dps = 500 then Inr 17500
      else if dps = 1000 then Inr 35000 else if dps = 2000 then Inr 70000 else Inl Panic)"

definition mdps_scale_deg2 :: "int \<Rightarrow> int \<Rightarrow> int res" where
  "mdps_scale_deg2 deg dps =
     (if dps = 250 then seq (imul deg 250) (\<lambda>p. Inr (p sdiv 32767))
      else if dps = 500 then seq (imul deg 500) (\<lambda>p. Inr (p sdiv 32767))
      else Inl Panic)"

definition mdps_scale_deg :: "int \<Rightarrow> int \<Rightarrow> int res" where
  "mdps_scale_deg deg dps = seq (dps_to_scale dps) (\<lambda>s. seq (imul deg s) (\<lambda>p. Inr (p sdiv 1000)))"

definition within :: "int \<Rightarrow> int \<Rightarrow> int \<Rightarrow> bool" where
  "within ex have tol = (let diff = ex - have in (if diff < 0 then - diff else diff) \<le> tol)"

definition test_dps :: "int \<Rightarrow> u8 \<Rightarrow> u8 \<Rightarrow> int \<Rightarrow> unit res" where
  "test_dps expected_i h l dps =
     seq (mdps_scale_deg (mg_raw l h) dps) (\<lambda>s_i.
     seq (imul expected_i 1000) (\<lambda>e. require (within e s_i 5) Panic))"

definition mpu6050_gyro_init :: "'d i2c_ops \<Rightarrow> u8 \<Rightarrow> u32 \<Rightarrow> ('d, gyro_t) io" where
  "mpu6050_gyro_init I addr dps_sel =
     thn (lft (test_dps 0 0x00 0x00 245))
    (thn (lft (test_dps 100 0x2c 0xa4 245))
    (thn (lft (test_dps 200 0x59 0x49 245))
    (thn (lft (test_dps (-100) 0xd3 0x5c 245))
    (bnd (if dps_sel = 0 then ret 250 else if dps_sel = 1 then ret 500 else if dps_sel = 2 then ret 1000
          else if dps_sel = 3 then ret 2000 else fails Panic) (\<lambda>dps.
     thn (if dps = 250 then imu_wr I addr gyro_config_reg 0
          else if dps = 500 then imu_wr I addr gyro_config_reg 1
          else if dps = 1000 then imu_wr I addr gyro_config_reg 2
          else if dps = 2000 then imu_wr I addr gyro_config_reg 3
          else ret ())
       (ret \<lparr>gyro_addr = addr, gyro_hz = 0, gyro_dps = dps\<rparr>))))))"

definition gyro_has_data :: "'d i2c_ops \<Rightarrow> gyro_t \<Rightarrow> ('d, bool) io" where
  "gyro_has_data I h = bnd (imu_rd I (gyro_addr h) INT_STATUS) (\<lambda>status. ret (status AND 0x1 \<noteq> 0))"

definition gyro_rd :: "'d i2c_ops \<Rightarrow> nat \<Rightarrow> gyro_t \<Rightarrow> ('d, imu_xyz_t) io" where
  "gyro_rd I k h =
     thn (poll k (gyro_has_data I h))
    (bnd (rd_pair I (gyro_addr h) GYRO_XOUT_H GYRO_XOUT_L) (\<lambda>x.
     bnd (rd_pair I (gyro_addr h) GYRO_YOUT_H GYRO_YOUT_L) (\<lambda>y.
     bnd (rd_pair I (gyro_addr h) GYRO_ZOUT_H GYRO_ZOUT_L) (\<lambda>z.
     ret (xyz_mk x y z)))))"


section \<open>The chip\<close>

text \<open>The registers of the chip, the register pointer, whether the next byte is a register number, and what the sensor
  will write to its registers before each of the next transactions.\<close>

record mpu =
  m_regs :: "u8 \<Rightarrow> u8"
  m_ptr :: u8
  m_first :: bool
  m_feed :: "(u8 \<times> u8) list list"

definition default_regs :: "u8 \<Rightarrow> u8" where
  "default_regs = (\<lambda>_. 0)(0x6b := 0x40, 0x75 := 0x68)"

definition set_reg :: "u8 \<Rightarrow> u8 \<Rightarrow> (u8 \<Rightarrow> u8) \<Rightarrow> u8 \<Rightarrow> u8" where
  "set_reg r v f = (if r = 0x6b \<and> bit v 7 then default_regs else f(r := v))"

definition sense :: "(u8 \<times> u8) list \<Rightarrow> (u8 \<Rightarrow> u8) \<Rightarrow> u8 \<Rightarrow> u8" where
  "sense us f = fold (\<lambda>(r, v) f. f(r := v)) us f"

definition m_start :: "bool \<Rightarrow> mpu \<Rightarrow> mpu" where
  "m_start rd m =
     (case m_feed m of [] \<Rightarrow> m | us # f \<Rightarrow> m\<lparr>m_regs := sense us (m_regs m), m_feed := f\<rparr>)\<lparr>m_first := \<not> rd\<rparr>"

definition m_put :: "u8 \<Rightarrow> mpu \<Rightarrow> mpu" where
  "m_put b m =
     (if m_first m then m\<lparr>m_ptr := b, m_first := False\<rparr>
      else m\<lparr>m_regs := set_reg (m_ptr m) b (m_regs m), m_ptr := m_ptr m + 1\<rparr>)"

text \<open>Reading the interrupt status clears it.\<close>

definition m_get :: "mpu \<Rightarrow> u8 \<times> mpu" where
  "m_get m =
     (m_regs m (m_ptr m),
      m\<lparr>m_regs := (if m_ptr m = 0x3a then (m_regs m)(0x3a := 0) else m_regs m), m_ptr := m_ptr m + 1\<rparr>)"

definition mpu_wire :: "mpu wire" where
  "mpu_wire = \<lparr>w_start = (\<lambda>a. m_start), w_put = m_put, w_get = m_get\<rparr>"

text \<open>What the I2C calls do to the chip at address \<open>adr\<close>; \<open>None\<close> is a bus that cannot be used.\<close>

locale imu_dev =
  fixes I :: "'d i2c_ops" and adr :: u8 and st :: "'d \<Rightarrow> mpu option"
  assumes law_write: "st d = Some m \<Longrightarrow> length data < 2 ^ 16 \<Longrightarrow>
      \<exists>d'. i_write I (ucast adr) data d = Inr (1, d') \<and> st d' = Some (fold m_put data (m_start False m))"
    and law_read: "st d = Some m \<Longrightarrow> n < 2 ^ 16 \<Longrightarrow>
      \<exists>d'. i_read I (ucast adr) n d = Inr ((fst (reads mpu_wire n (m_start True m)), 1), d') \<and>
        st d' = Some (snd (reads mpu_wire n (m_start True m)))"
    and law_delay: "keeps st (i_delay_ms I t)"

definition rd_reg :: "u8 \<Rightarrow> mpu \<Rightarrow> u8 \<times> mpu" where
  "rd_reg r m = m_get (m_start True (m_put r (m_start False m)))"

definition wr_reg :: "u8 \<Rightarrow> u8 \<Rightarrow> mpu \<Rightarrow> mpu" where
  "wr_reg r v m = m_put v (m_put r (m_start False m))"

context imu_dev begin

lemma wp_imu_rd: "Q (fst (rd_reg r m)) (Some (snd (rd_reg r m))) \<Longrightarrow> wp st (imu_rd I adr r) Q E (Some m)"
  unfolding imu_rd_def
proof (rule wp_thn, rule wp_exec)
  fix d assume q: "Q (fst (rd_reg r m)) (Some (snd (rd_reg r m)))" and d: "st d = Some m"
  let ?m = "m_put r (m_start False m)"
  have "wp st (i_read I (ucast adr) 1) (\<lambda>p. wp st (case p of (bs, u) \<Rightarrow> lft (arr_get bs 0)) Q E) E (Some ?m)"
  proof (rule wp_exec)
    fix e assume e: "st e = Some ?m"
    from law_read [OF this, of 1] obtain e' where
      "i_read I (ucast adr) 1 e = Inr ((fst (reads mpu_wire 1 (m_start True ?m)), 1), e')"
      "st e' = Some (snd (reads mpu_wire 1 (m_start True ?m)))" by auto
    with q show "\<exists>v d'. i_read I (ucast adr) 1 e = Inr (v, d') \<and>
        wp st (case v of (bs, u) \<Rightarrow> lft (arr_get bs 0)) Q E (st d')"
      by (auto intro!: wp_ret simp: rd_reg_def mpu_wire_def split: prod.splits)
  qed
  then show "\<exists>v d'. i_write I (ucast adr) [r] d = Inr (v, d') \<and>
      wp st (bnd (i_read I (ucast adr) 1) (\<lambda>(bs, u). lft (arr_get bs 0))) Q E (st d')"
    using law_write [OF d, of "[r]"] by (auto intro!: wp_bnd)
qed

lemma wp_imu_wr: "Q () (Some (wr_reg r v m)) \<Longrightarrow> wp st (imu_wr I adr r v) Q E (Some m)"
  unfolding imu_wr_def
proof (rule wp_void, rule wp_exec)
  fix d assume "Q () (Some (wr_reg r v m))" "st d = Some m"
  with law_write [of d m "[r, v]"] show "\<exists>x d'. i_write I (ucast adr) [r, v] d = Inr (x, d') \<and> Q () (st d')"
    by (auto simp: wr_reg_def)
qed

end

subsection \<open>A chip whose sensor rests\<close>

definition rests :: "mpu \<Rightarrow> bool" where
  "rests m \<longleftrightarrow> m_feed m = []"

lemma rd_reg_rests:
  assumes "rests m"
  shows "fst (rd_reg r m) = m_regs m r" "rests (snd (rd_reg r m))"
    "m_regs (snd (rd_reg r m)) = (if r = 0x3a then (m_regs m)(0x3a := 0) else m_regs m)"
  using assms by (simp_all add: rests_def rd_reg_def m_get_def m_start_def m_put_def)

lemma wr_reg_rests:
  assumes "rests m"
  shows "rests (wr_reg r v m)" "m_regs (wr_reg r v m) = set_reg r v (m_regs m)"
  using assms by (simp_all add: rests_def wr_reg_def m_start_def m_put_def)

definition hi_byte :: "u16 \<Rightarrow> u8" where "hi_byte w = ucast (drop_bit 8 w)"
definition lo_byte :: "u16 \<Rightarrow> u8" where "lo_byte w = ucast w"

lemma mg_raw_bytes: "mg_raw (lo_byte w) (hi_byte w) = sint w"
proof -
  have "(push_bit 8 (ucast (hi_byte w)) OR ucast (lo_byte w) :: u16) = w"
    by (rule bit_word_eqI)
      (auto simp: hi_byte_def lo_byte_def bit_or_iff bit_push_bit_iff bit_ucast_iff bit_drop_bit_eq possible_bit_def)
  then show ?thesis by (simp add: mg_raw_def)
qed

text \<open>A sample of three values in six registers from \<open>b\<close> on, and what the sensor writes when it has taken it.\<close>

definition sample_regs :: "u8 \<Rightarrow> u16 \<Rightarrow> u16 \<Rightarrow> u16 \<Rightarrow> (u8 \<Rightarrow> u8) \<Rightarrow> bool" where
  "sample_regs b x y z f \<longleftrightarrow> f b = hi_byte x \<and> f (b + 1) = lo_byte x \<and> f (b + 2) = hi_byte y \<and>
     f (b + 3) = lo_byte y \<and> f (b + 4) = hi_byte z \<and> f (b + 5) = lo_byte z"

definition sample :: "u8 \<Rightarrow> u16 \<Rightarrow> u16 \<Rightarrow> u16 \<Rightarrow> (u8 \<times> u8) list" where
  "sample b x y z = [(b, hi_byte x), (b + 1, lo_byte x), (b + 2, hi_byte y), (b + 3, lo_byte y),
     (b + 4, hi_byte z), (b + 5, lo_byte z), (0x3a, 1)]"

definition base_reg :: "u8 \<Rightarrow> bool" where
  "base_reg b \<longleftrightarrow> b = 0x3b \<or> b = 67"

lemma sense_sample: "base_reg b \<Longrightarrow> sample_regs b x y z (sense (sample b x y z) f) \<and> sense (sample b x y z) f 0x3a = 1"
  by (auto simp: base_reg_def sample_regs_def sample_def sense_def)

lemma sample_regs_status: "base_reg b \<Longrightarrow> sample_regs b x y z (f(0x3a := v)) = sample_regs b x y z f"
  by (auto simp: base_reg_def sample_regs_def)

context imu_dev begin

abbreviation has_data :: "('d, bool) io" where
  "has_data \<equiv> bnd (imu_rd I adr INT_STATUS) (\<lambda>status. ret (status AND 0x1 \<noteq> 0))"

lemma wp_has_data:
  "Q (fst (rd_reg 0x3a m) AND 1 \<noteq> 0) (Some (snd (rd_reg 0x3a m))) \<Longrightarrow> wp st has_data Q E (Some m)"
  unfolding INT_STATUS_def by (intro wp_bnd wp_imu_rd wp_ret) simp

lemma wp_wait:
  assumes "base_reg b" "m_feed m = replicate j [] @ [sample b x y z]" "m_regs m 0x3a = 0" "j div 2 < k"
    "\<And>m'. rests m' \<Longrightarrow> sample_regs b x y z (m_regs m') \<Longrightarrow> Q () (Some m')"
  shows "wp st (poll k has_data) Q E (Some m)"
  using assms(2-4)
proof (induction k arbitrary: m j)
  case (Suc k)
  let ?v = "fst (rd_reg 0x3a m)" and ?m = "snd (rd_reg 0x3a m)"
  show ?case
  proof (rule wp_poll_step, rule wp_has_data)
    show "if ?v AND 1 \<noteq> 0 then Q () (Some ?m) else wp st (poll k has_data) Q E (Some ?m)"
    proof (cases "j < 2")
      case True
      then have "j = 0 \<or> j = 1" by auto
      then have "?v = 1 \<and> rests ?m \<and> sample_regs b x y z (m_regs ?m)"
        using Suc.prems sense_sample [OF assms(1), of x y z] sample_regs_status [OF assms(1)]
        by (elim disjE) (simp_all add: rd_reg_def m_get_def m_start_def m_put_def rests_def sense_def)
      with assms(5) show ?thesis by simp
    next
      case False
      then obtain i where j: "j = Suc (Suc i)" by (metis Suc_le_D Suc_le_mono not_less numeral_2_eq_2)
      have "?v = 0" "m_feed ?m = replicate i [] @ [sample b x y z]" "m_regs ?m 0x3a = 0"
        using Suc.prems j by (simp_all add: rd_reg_def m_get_def m_start_def m_put_def sense_def)
      then have "wp st (poll k has_data) Q E (Some ?m)" using Suc.prems(3) j by (intro Suc.IH) simp_all
      with \<open>?v = 0\<close> show ?thesis by simp
    qed
  qed
qed simp

lemma wp_rd_pair:
  assumes "rests m" "r \<noteq> 0x3a" "r' \<noteq> 0x3a" "m_regs m r = hi_byte w" "m_regs m r' = lo_byte w"
    "\<And>m'. rests m' \<Longrightarrow> m_regs m' = m_regs m \<Longrightarrow> Q (sint w) (Some m')"
  shows "wp st (rd_pair I adr r r') Q E (Some m)"
  unfolding rd_pair_def
  by (intro wp_bnd wp_imu_rd wp_ret) (use assms in \<open>simp add: rd_reg_rests mg_raw_bytes\<close>)

lemma wp_rd_sample:
  assumes "base_reg b" "rests m" "sample_regs b x y z (m_regs m)"
    "\<And>m'. rests m' \<Longrightarrow> m_regs m' = m_regs m \<Longrightarrow> Q (xyz_mk (sint x) (sint y) (sint z)) (Some m')"
  shows "wp st (bnd (rd_pair I adr b (b + 1)) (\<lambda>x. bnd (rd_pair I adr (b + 2) (b + 3)) (\<lambda>y.
      bnd (rd_pair I adr (b + 4) (b + 5)) (\<lambda>z. ret (xyz_mk x y z))))) Q E (Some m)"
proof -
  have ne: "b \<noteq> 0x3a" "b + 1 \<noteq> 0x3a" "b + 2 \<noteq> 0x3a" "b + 3 \<noteq> 0x3a" "b + 4 \<noteq> 0x3a" "b + 5 \<noteq> 0x3a"
    using assms(1) by (auto simp: base_reg_def)
  note r = assms(3) [unfolded sample_regs_def]
  have z: "wp st (bnd (rd_pair I adr (b + 4) (b + 5)) (\<lambda>z. ret (xyz_mk (sint x) (sint y) z))) Q E (Some m2)"
    if "rests m2" "m_regs m2 = m_regs m" for m2
    by (rule wp_bnd, rule wp_rd_pair [OF that(1) ne(5,6), of z]) (use r that assms(4) in \<open>auto intro!: wp_ret\<close>)
  have y: "wp st (bnd (rd_pair I adr (b + 2) (b + 3)) (\<lambda>y.
      bnd (rd_pair I adr (b + 4) (b + 5)) (\<lambda>z. ret (xyz_mk (sint x) y z)))) Q E (Some m1)"
    if "rests m1" "m_regs m1 = m_regs m" for m1
    by (rule wp_bnd, rule wp_rd_pair [OF that(1) ne(3,4), of y]) (use r that z in auto)
  show ?thesis
    by (rule wp_bnd, rule wp_rd_pair [OF assms(2) ne(1,2), of x]) (use r y in auto)
qed

lemma wp_accel_rd:
  assumes "acc_addr h = adr" "m_feed m = replicate j [] @ [sample 0x3b x y z]" "m_regs m 0x3a = 0" "j div 2 < k"
    "\<And>m'. rests m' \<Longrightarrow> Q (xyz_mk (sint x) (sint y) (sint z)) (Some m')"
  shows "wp st (accel_rd I k h) Q E (Some m)"
proof -
  have b: "base_reg 0x3b" by (simp add: base_reg_def)
  have s: "wp st (bnd (rd_pair I adr ACCEL_XOUT_H accel_xout_l) (\<lambda>x. bnd (rd_pair I adr accel_yout_h accel_yout_l) (\<lambda>y.
      bnd (rd_pair I adr accel_zout_h accel_zout_l) (\<lambda>z. ret (xyz_mk x y z))))) Q E (Some m')"
    if "rests m'" "sample_regs 0x3b x y z (m_regs m')" for m'
    using wp_rd_sample [OF b that, of Q E] assms(5) by (simp add: accel_regs)
  show ?thesis unfolding accel_rd_def accel_has_data_def assms(1)
    by (intro wp_thn wp_wait [OF b assms(2-4)] s)
qed

lemma wp_gyro_rd:
  assumes "gyro_addr h = adr" "m_feed m = replicate j [] @ [sample 67 x y z]" "m_regs m 0x3a = 0" "j div 2 < k"
    "\<And>m'. rests m' \<Longrightarrow> Q (xyz_mk (sint x) (sint y) (sint z)) (Some m')"
  shows "wp st (gyro_rd I k h) Q E (Some m)"
proof -
  have b: "base_reg 67" by (simp add: base_reg_def)
  have s: "wp st (bnd (rd_pair I adr GYRO_XOUT_H GYRO_XOUT_L) (\<lambda>x. bnd (rd_pair I adr GYRO_YOUT_H GYRO_YOUT_L) (\<lambda>y.
      bnd (rd_pair I adr GYRO_ZOUT_H GYRO_ZOUT_L) (\<lambda>z. ret (xyz_mk x y z))))) Q E (Some m')"
    if "rests m'" "sample_regs 67 x y z (m_regs m')" for m'
    using wp_rd_sample [OF b that, of Q E] assms(5)
    by (simp add: GYRO_XOUT_H_def GYRO_XOUT_L_def GYRO_YOUT_H_def GYRO_YOUT_L_def GYRO_ZOUT_H_def GYRO_ZOUT_L_def)
  show ?thesis unfolding gyro_rd_def gyro_has_data_def assms(1)
    by (intro wp_thn wp_wait [OF b assms(2-4)] s)
qed

end

subsection \<open>Self tests and scaling\<close>

lemma self_tests:
  "test_mg 0 0x00 0x00 2 = Inr ()" "test_mg 350 0x16 0x69 2 = Inr ()" "test_mg 1000 0x40 0x09 2 = Inr ()"
  "test_mg (-350) 0xe9 0x97 2 = Inr ()" "test_mg (-1000) 0xbf 0xf7 2 = Inr ()"
  "test_dps 0 0x00 0x00 245 = Inr ()" "test_dps 100 0x2c 0xa4 245 = Inr ()" "test_dps 200 0x59 0x49 245 = Inr ()"
  "test_dps (-100) 0xd3 0x5c 245 = Inr ()"
  by code_simp+

lemma sdiv_bound:
  fixes p :: int
  assumes "\<bar>p\<bar> < (b + 1) * 32767" "0 \<le> b"
  shows "\<bar>p sdiv 32767\<bar> \<le> b"
proof -
  have "\<bar>p\<bar> div 32767 < b + 1" using assms by (simp add: div_less_iff_less_mult)
  then show ?thesis using assms by (cases "0 \<le> p") (simp_all add: signed_divide_int_def sgn_if)
qed

lemma mg_scaled_ok:
  assumes "\<bar>x\<bar> \<le> 32768" "0 \<le> g" "g \<le> 16"
  shows "mg_scaled g x = Inr ((g * 1000 * x) sdiv 32767)" "\<bar>(g * 1000 * x) sdiv 32767\<bar> \<le> 1000 * g"
proof -
  have a: "\<bar>g * 1000 * x\<bar> \<le> g * 1000 * 32768" using assms mult_left_mono [of "\<bar>x\<bar>" 32768 g] by (simp add: abs_mult mult.commute)
  also have "\<dots> \<le> 16 * 1000 * 32768" using assms by simp
  finally have "- (2 ^ 31) \<le> g * 1000 * x \<and> g * 1000 * x < 2 ^ 31" by (simp add: abs_le_iff)
  then show "mg_scaled g x = Inr ((g * 1000 * x) sdiv 32767)"
    using assms by (simp add: mg_scaled_def imul_def)
  have "g * 1000 * 32768 < (1000 * g + 1) * 32767" using assms by simp
  with a show "\<bar>(g * 1000 * x) sdiv 32767\<bar> \<le> 1000 * g" using assms by (intro sdiv_bound) simp_all
qed


subsection \<open>Start-up\<close>

context imu_dev begin

lemma wp_accel_init:
  assumes "rests m" "a \<in> {0, 1, 2, 3}"
    "\<And>m'. rests m' \<Longrightarrow> m_regs m' = (m_regs m)(0x1c := 0) \<Longrightarrow> Q \<lparr>acc_addr = adr, acc_hz = 20, acc_g = 2 ^ (unat a + 1)\<rparr> (Some m')"
  shows "wp st (mpu6050_accel_init I adr a) Q E (Some m)"
proof -
  let ?m = "wr_reg 0x1c 0 m"
  have w: "rests ?m" "m_regs ?m = (m_regs m)(0x1c := 0)"
    using wr_reg_rests [OF assms(1), of "0x1c" 0] by (simp_all add: set_reg_def)
  have "wp st (thn (imu_wr I adr accel_config_reg 0) (thn (imu_rd I adr accel_config_reg)
      (ret \<lparr>acc_addr = adr, acc_hz = 20, acc_g = 2 ^ (unat a + 1)\<rparr>))) Q E (Some m)"
    unfolding accel_config_reg_def
    by (intro wp_thn wp_imu_wr wp_imu_rd wp_ret assms(3)) (simp_all add: rd_reg_rests [OF w(1)] w)
  moreover have g: "(if a = 0 then ret 2 else if a = 1 then ret 4 else if a = 2 then ret 8
      else if a = 3 then ret 16 else fails Panic) = (ret (2 ^ (unat a + 1)) :: ('d, int) io)"
    using assms(2) by auto
  ultimately show ?thesis unfolding mpu6050_accel_init_def self_tests lft_simps g ret_bnd ret_thn by simp
qed

lemma wp_gyro_init:
  assumes "rests m" "a \<in> {0, 1, 2, 3}"
    "\<And>m'. rests m' \<Longrightarrow> m_regs m' = (m_regs m)(0x1b := ucast a) \<Longrightarrow>
      Q \<lparr>gyro_addr = adr, gyro_hz = 0, gyro_dps = 250 * 2 ^ unat a\<rparr> (Some m')"
  shows "wp st (mpu6050_gyro_init I adr a) Q E (Some m)"
proof -
  have w: "rests (wr_reg 0x1b v m)" "m_regs (wr_reg 0x1b v m) = (m_regs m)(0x1b := v)" for v
    using wr_reg_rests [OF assms(1), of "0x1b" v] by (simp_all add: set_reg_def)
  have "wp st (thn (imu_wr I adr gyro_config_reg (ucast a))
      (ret \<lparr>gyro_addr = adr, gyro_hz = 0, gyro_dps = 250 * 2 ^ unat a\<rparr>)) Q E (Some m)"
    unfolding gyro_config_reg_def by (intro wp_thn wp_imu_wr wp_ret assms(3)) (simp_all add: w)
  with assms(2) show ?thesis unfolding mpu6050_gyro_init_def self_tests lft_simps ret_thn
    by (elim insertE emptyE) (simp_all add: ret_bnd)
qed

lemma wp_reset:
  assumes "rests m"
    "\<And>m'. rests m' \<Longrightarrow> m_regs m' = default_regs(0x6b := 0, 0x6a := 0x7, 0x38 := 0x59) \<Longrightarrow> Q () (Some m')"
  shows "wp st (mpu6050_reset I adr) Q E (Some m)"
proof -
  define m1 where "m1 = wr_reg 0x6b (push_bit 7 1) m"
  define m2 where "m2 = snd (rd_reg 0x6b m1)"
  define m3 where "m3 = wr_reg 0x6b 0 m2"
  define m4 where "m4 = wr_reg 0x6a 0x7 m3"
  define m5 where "m5 = wr_reg 0x38 0x59 m4"
  have 1: "rests m1" "m_regs m1 = default_regs"
    using wr_reg_rests [OF assms(1), of "0x6b" "push_bit 7 1"] by (simp_all add: m1_def set_reg_def bit_push_bit_iff)
  have 2: "rests m2" "m_regs m2 = default_regs"
    using rd_reg_rests [OF 1(1), of "0x6b"] 1(2) by (simp_all add: m2_def)
  have 3: "rests m3" "m_regs m3 = default_regs(0x6b := 0)"
    using wr_reg_rests [OF 2(1), of "0x6b" 0] 2(2) by (simp_all add: m3_def set_reg_def)
  have 4: "rests m4" "m_regs m4 = default_regs(0x6b := 0, 0x6a := 0x7)"
    using wr_reg_rests [OF 3(1), of "0x6a" "0x7"] 3(2) by (simp_all add: m4_def set_reg_def)
  have 5: "rests m5" "m_regs m5 = default_regs(0x6b := 0, 0x6a := 0x7, 0x38 := 0x59)"
    using wr_reg_rests [OF 4(1), of "0x38" "0x59"] 4(2) by (simp_all add: m5_def set_reg_def)
  have "Q () (Some m5)" by (rule assms(2) [OF 5])
  then show ?thesis unfolding mpu6050_reset_def PWR_MGMT_1_def USER_CTRL_def INT_ENABLE_def
    by (intro wp_run_all_Cons wp_run_all_Nil wp_keeps [OF law_delay] wp_imu_wr wp_void wp_imu_rd)
      (simp add: m1_def m2_def m3_def m4_def m5_def)
qed

end


subsection \<open>A sample that arrives in the middle\<close>

context imu_dev begin

lemma wp_accel_rd_torn:
  assumes "acc_addr h = adr" "m_feed m = replicate 4 [] @ [sample 0x3b x' y' z']" "sample_regs 0x3b x y z (m_regs m)"
    "m_regs m 0x3a = 1" "\<And>m'. rests m' \<Longrightarrow> Q (xyz_mk (mg_raw (lo_byte x') (hi_byte x)) (sint y') (sint z')) (Some m')"
  shows "wp st (accel_rd I (Suc k) h) Q E (Some m)"
proof -
  define m1 where "m1 = snd (rd_reg 0x3a m)"
  define m2 where "m2 = snd (rd_reg 0x3b m1)"
  define m3 where "m3 = snd (rd_reg 0x3c m2)"
  have 1: "fst (rd_reg 0x3a m) = 1" "m_feed m1 = [[], [], sample 0x3b x' y' z']" "m_regs m1 0x3b = hi_byte x"
    using assms(2-4) by (simp_all add: m1_def rd_reg_def m_get_def m_start_def m_put_def sense_def sample_regs_def eval_nat_numeral)
  have 2: "fst (rd_reg 0x3b m1) = hi_byte x" "m_feed m2 = [sample 0x3b x' y' z']"
    using 1(2,3) by (simp_all add: m2_def rd_reg_def m_get_def m_start_def m_put_def sense_def)
  have s: "sample_regs 0x3b x' y' z' (sense (sample 0x3b x' y' z') (m_regs m2))"
    using sense_sample [of "0x3b" x' y' z' "m_regs m2"] by (simp add: base_reg_def)
  have 3: "fst (rd_reg 0x3c m2) = lo_byte x'" "rests m3" "sample_regs 0x3b x' y' z' (m_regs m3)"
    using 2(2) s by (simp_all add: m3_def rd_reg_def m_get_def m_start_def m_put_def rests_def) (simp add: sample_regs_def)
  have z: "wp st (bnd (rd_pair I adr 0x3f 0x40) (\<lambda>z. ret (xyz_mk (mg_raw (lo_byte x') (hi_byte x)) (sint y') z))) Q E (Some m4)"
    if "rests m4" "m_regs m4 = m_regs m3" for m4
    by (rule wp_bnd, rule wp_rd_pair [OF that(1), of _ _ z']) (use 3 that assms(5) in \<open>auto intro!: wp_ret simp: sample_regs_def\<close>)
  have y: "wp st (rd_pair I adr 0x3d 0x3e) (\<lambda>y. wp st (bnd (rd_pair I adr 0x3f 0x40)
      (\<lambda>z. ret (xyz_mk (mg_raw (lo_byte x') (hi_byte x)) y z))) Q E) E (Some m3)"
    by (rule wp_rd_pair [OF 3(2), of _ _ y']) (use 3 z in \<open>auto simp: sample_regs_def\<close>)
  have w: "wp st (bnd (rd_pair I adr 0x3b 0x3c) (\<lambda>x. bnd (rd_pair I adr 0x3d 0x3e) (\<lambda>y.
      bnd (rd_pair I adr 0x3f 0x40) (\<lambda>z. ret (xyz_mk x y z))))) Q E (Some m1)"
    unfolding rd_pair_def [of I adr "0x3b" "0x3c"]
    by (intro wp_bnd wp_imu_rd wp_ret) (simp add: 2(1) 3(1) y flip: m2_def m3_def)
  have "wp st (poll (Suc k) has_data) (\<lambda>_. wp st (bnd (rd_pair I adr 0x3b 0x3c) (\<lambda>x. bnd (rd_pair I adr 0x3d 0x3e) (\<lambda>y.
      bnd (rd_pair I adr 0x3f 0x40) (\<lambda>z. ret (xyz_mk x y z))))) Q E) E (Some m)"
    by (rule wp_poll_once, simp, rule wp_has_data) (simp add: 1(1) w flip: m1_def)
  then show ?thesis unfolding accel_rd_def accel_has_data_def assms(1) by (intro wp_thn) (simp add: accel_regs)
qed

end

section \<open>The chip behind the I2C driver\<close>

definition drv :: "'d bus \<Rightarrow> nat \<Rightarrow> (u32 \<Rightarrow> ('d, unit) io) \<Rightarrow> 'd i2c_ops" where
  "drv B k dly = \<lparr>i_write = i2c_write B k, i_read = i2c_read B k, i_delay_ms = dly\<rparr>"

definition chip_of :: "mpu bsc \<Rightarrow> mpu option" where
  "chip_of s = (if ready_st s then Some (b_dev s) else None)"

lemma imu_over_i2c:
  assumes "i2c_controller B st mpu_wire" "3 \<le> k" "\<And>t. keeps st (dly t)"
  shows "imu_dev (drv B k dly) adr (\<lambda>d. chip_of (st d))"
proof
  fix d m
  assume "chip_of (st d) = Some m"
  then have d: "ready_st (st d)" "b_dev (st d) = m" by (simp_all add: chip_of_def split: if_splits)
  show "\<exists>d'. i_write (drv B k dly) (ucast adr) data d = Inr (1, d') \<and>
      chip_of (st d') = Some (fold m_put data (m_start False m))" if "length data < 2 ^ 16" for data
    using write_ends [OF assms(1) d(1) that assms(2), of "ucast adr"] d(2)
    by (auto simp: drv_def chip_of_def mpu_wire_def)
  have "2 \<le> k" using assms(2) by simp
  then show "\<exists>d'. i_read (drv B k dly) (ucast adr) n d = Inr ((fst (reads mpu_wire n (m_start True m)), 1), d') \<and>
      chip_of (st d') = Some (snd (reads mpu_wire n (m_start True m)))" if "n < 2 ^ 16" for n
    using read_ends [OF assms(1) d(1) that, of k "ucast adr"] d(2)
    by (auto simp: drv_def chip_of_def mpu_wire_def)
next
  show "keeps (\<lambda>d. chip_of (st d)) (i_delay_ms (drv B k dly) t)" for t
    using assms(3) [of t] by (force simp: keeps_def drv_def)
qed

interpretation sim_imu: imu_dev "drv (sim_bsc mpu_wire) 3 (\<lambda>_. ret ())" adr chip_of
  by (rule imu_over_i2c [OF sim_ctl.i2c_controller_axioms]) (simp_all add: keeps_def)


section \<open>Properties\<close>


definition chip_feed :: "(u8 \<times> u8) list list \<Rightarrow> mpu bsc" where
  "chip_feed f = idle_st 0x8000 0 0 [] False False 0 False
     \<lparr>m_regs = default_regs(0x3a := 0), m_ptr = 0, m_first = False, m_feed = f\<rparr>"

lemma chip_feed_of:
  "chip_of (chip_feed f) = Some \<lparr>m_regs = default_regs(0x3a := 0), m_ptr = 0, m_first = False, m_feed = f\<rparr>"
  using ready_idle [of "0x8000"] by (simp add: chip_of_def chip_feed_def enabled_def)


text \<open>C0: The six registers are read one by one and not, as the comment asks for, in one burst. When the sensor takes a
  sample between the two halves of x, the value returned for x has the high byte of the old and the low byte of the new
  sample.\<close>

theorem accel_rd_torn:
  assumes "imu_dev I adr st" "st d = Some m" "acc_addr h = adr" "m_regs m 0x3a = 1"
    "sample_regs 0x3b x y z (m_regs m)" "m_feed m = replicate 4 [] @ [sample 0x3b x' y' z']" "0 < k"
  shows "\<exists>d'. accel_rd I k h d =
    Inr (\<lparr>imu_x = mg_raw (lo_byte x') (hi_byte x), imu_y = sint y', imu_z = sint z'\<rparr>, d')"
proof -
  obtain j where k: "k = Suc j" using assms(7) gr0_implies_Suc by blast
  have "wp st (accel_rd I k h) (\<lambda>r _. r = xyz_mk (mg_raw (lo_byte x') (hi_byte x)) (sint y') (sint z')) never (st d)"
    unfolding assms(2) k by (rule imu_dev.wp_accel_rd_torn [OF assms(1,3,6,5,4)]) simp
  from wp_total [OF this] show ?thesis by (auto simp: xyz_mk_def)
qed

definition chip_full :: "mpu bsc" where
  "chip_full = idle_st 0x8000 0 0 [] False False 0 False
     \<lparr>m_regs = sense (sample 0x3b 0x00FF 0 0) default_regs, m_ptr = 0, m_first = False,
      m_feed = replicate 4 [] @ [sample 0x3b 0x0100 0 0]\<rparr>"

lemma chip_full_of: "chip_of chip_full = Some \<lparr>m_regs = sense (sample 0x3b 0x00FF 0 0) default_regs, m_ptr = 0,
    m_first = False, m_feed = replicate 4 [] @ [sample 0x3b 0x0100 0 0]\<rparr>"
  using ready_idle [of "0x8000"] by (simp add: chip_of_def chip_full_def enabled_def)

theorem accel_rd_torn_witness:
  "\<exists>d'. accel_rd (drv (sim_bsc mpu_wire) 3 (\<lambda>_. ret ())) 1 \<lparr>acc_addr = 0x68, acc_hz = 20, acc_g = 2\<rparr> chip_full =
      Inr (\<lparr>imu_x = mg_raw (lo_byte 0x0100) (hi_byte 0x00FF), imu_y = sint (0 :: u16), imu_z = sint (0 :: u16)\<rparr>, d') \<and>
    mg_raw (lo_byte 0x0100) (hi_byte 0x00FF) = 0"
proof -
  have s: "sample_regs 0x3b 0x00FF 0 0 (sense (sample 0x3b 0x00FF 0 0) default_regs)"
    "sense (sample 0x3b 0x00FF 0 0) default_regs 0x3a = 1"
    using sense_sample [of "0x3b" "0x00FF" 0 0 default_regs] by (simp_all add: base_reg_def)
  have "\<exists>d'. accel_rd (drv (sim_bsc mpu_wire) 3 (\<lambda>_. ret ())) 1 \<lparr>acc_addr = 0x68, acc_hz = 20, acc_g = 2\<rparr> chip_full =
      Inr (\<lparr>imu_x = mg_raw (lo_byte 0x0100) (hi_byte 0x00FF), imu_y = sint (0 :: u16), imu_z = sint (0 :: u16)\<rparr>, d')"
    by (rule accel_rd_torn [OF sim_imu.imu_dev_axioms chip_full_of, where y = 0 and z = 0]) (simp_all add: s)
  moreover have "mg_raw (lo_byte 0x0100) (hi_byte 0x00FF) = 0" by code_simp
  ultimately show ?thesis by blast
qed

text \<open>C0: mpu6050_accel_init passes its self tests and returns a handle with the scale that was asked for, but it sets
  the range of the chip to 2g in every case.\<close>

theorem accel_init_ignores_scale:
  assumes "imu_dev I adr st" "st d = Some m" "m_feed m = []" "a \<in> {0, 1, 2, 3}"
  shows "\<exists>d' m'. mpu6050_accel_init I adr a d = Inr (\<lparr>acc_addr = adr, acc_hz = 20, acc_g = 2 ^ (unat a + 1)\<rparr>, d') \<and>
    st d' = Some m' \<and> m_regs m' = (m_regs m)(0x1c := 0)"
proof -
  have r: "rests m" using assms(3) by (simp add: rests_def)
  have "wp st (mpu6050_accel_init I adr a) (\<lambda>h s. h = \<lparr>acc_addr = adr, acc_hz = 20, acc_g = 2 ^ (unat a + 1)\<rparr> \<and>
      (\<exists>m'. s = Some m' \<and> m_regs m' = (m_regs m)(0x1c := 0))) never (st d)"
    unfolding assms(2) by (rule imu_dev.wp_accel_init [OF assms(1) r assms(4)]) simp
  from wp_total [OF this] show ?thesis by blast
qed

theorem accel_init_ignores_scale_witness:
  "\<exists>d' m'. mpu6050_accel_init (drv (sim_bsc mpu_wire) 3 (\<lambda>_. ret ())) 0x68 3 (chip_feed []) =
      Inr (\<lparr>acc_addr = 0x68, acc_hz = 20, acc_g = 2 ^ (unat (3 :: u32) + 1)\<rparr>, d') \<and>
    chip_of d' = Some m' \<and> m_regs m' = (default_regs(0x3a := 0))(0x1c := 0)"
  using accel_init_ignores_scale [OF sim_imu.imu_dev_axioms chip_feed_of [of "[]"], of 3 "0x68"] by simp

text \<open>C0: mpu6050_gyro_init passes its self tests and returns a handle with the scale that was asked for, but it writes
  the code of the scale into the two lowest bits of the register; the field of the scale, bits 3 and 4, is 0 in every
  case, which is 250 degrees per second.\<close>

theorem gyro_init_misses_field:
  assumes "imu_dev I adr st" "st d = Some m" "m_feed m = []" "a \<in> {0, 1, 2, 3}"
  shows "\<exists>d' m'. mpu6050_gyro_init I adr a d = Inr (\<lparr>gyro_addr = adr, gyro_hz = 0, gyro_dps = 250 * 2 ^ unat a\<rparr>, d') \<and>
    st d' = Some m' \<and> m_regs m' = (m_regs m)(0x1b := ucast a) \<and> \<not> bit (m_regs m' 0x1b) 3 \<and> \<not> bit (m_regs m' 0x1b) 4"
proof -
  have r: "rests m" using assms(3) by (simp add: rests_def)
  have "wp st (mpu6050_gyro_init I adr a) (\<lambda>h s. h = \<lparr>gyro_addr = adr, gyro_hz = 0, gyro_dps = 250 * 2 ^ unat a\<rparr> \<and>
      (\<exists>m'. s = Some m' \<and> m_regs m' = (m_regs m)(0x1b := ucast a))) never (st d)"
    unfolding assms(2) by (rule imu_dev.wp_gyro_init [OF assms(1) r assms(4)]) simp
  from wp_total [OF this] obtain d' m' where r: "mpu6050_gyro_init I adr a d =
      Inr (\<lparr>gyro_addr = adr, gyro_hz = 0, gyro_dps = 250 * 2 ^ unat a\<rparr>, d')"
    "st d' = Some m'" "m_regs m' = (m_regs m)(0x1b := ucast a)" by blast
  have "\<not> bit (ucast a :: u8) 3 \<and> \<not> bit (ucast a :: u8) 4" using assms(4) by auto
  with r show ?thesis by simp
qed

theorem gyro_init_misses_field_witness:
  "\<exists>d' m'. mpu6050_gyro_init (drv (sim_bsc mpu_wire) 3 (\<lambda>_. ret ())) 0x68 2 (chip_feed []) =
      Inr (\<lparr>gyro_addr = 0x68, gyro_hz = 0, gyro_dps = 250 * 2 ^ unat (2 :: u32)\<rparr>, d') \<and>
    chip_of d' = Some m' \<and> m_regs m' = (default_regs(0x3a := 0))(0x1b := ucast (2 :: u32)) \<and>
    \<not> bit (m_regs m' 0x1b) 3 \<and> \<not> bit (m_regs m' 0x1b) 4"
  using gyro_init_misses_field [OF sim_imu.imu_dev_axioms chip_feed_of [of "[]"], of 2 "0x68"] by simp

text \<open>C30. C0: Scaling a raw reading never overflows and keeps it within the range of the chip: at most 1000 milligauss for
  every g of the scale, in either direction.\<close>

theorem accel_scale_range:
  assumes "acc_g h \<in> {2, 4, 8, 16}" "\<bar>imu_x p\<bar> \<le> 32768" "\<bar>imu_y p\<bar> \<le> 32768" "\<bar>imu_z p\<bar> \<le> 32768"
  shows "\<exists>q. accel_scale h p = Inr q \<and> \<bar>imu_x q\<bar> \<le> 1000 * acc_g h \<and> \<bar>imu_y q\<bar> \<le> 1000 * acc_g h \<and>
    \<bar>imu_z q\<bar> \<le> 1000 * acc_g h"
proof -
  have g: "0 \<le> acc_g h" "acc_g h \<le> 16" using assms(1) by auto
  show ?thesis
    using mg_scaled_ok [OF assms(2) g] mg_scaled_ok [OF assms(3) g] mg_scaled_ok [OF assms(4) g]
    by (simp add: accel_scale_def xyz_mk_def)
qed

theorem accel_scale_range_witness:
  "\<exists>q. accel_scale \<lparr>acc_addr = 0x68, acc_hz = 20, acc_g = 16\<rparr> (xyz_mk (-32768) 32767 0) = Inr q \<and>
    \<bar>imu_x q\<bar> \<le> 1000 * acc_g \<lparr>acc_addr = 0x68, acc_hz = 20, acc_g = 16\<rparr> \<and>
    \<bar>imu_y q\<bar> \<le> 1000 * acc_g \<lparr>acc_addr = 0x68, acc_hz = 20, acc_g = 16\<rparr> \<and>
    \<bar>imu_z q\<bar> \<le> 1000 * acc_g \<lparr>acc_addr = 0x68, acc_hz = 20, acc_g = 16\<rparr>"
  by (rule accel_scale_range) (simp_all add: xyz_mk_def)

text \<open>C0: mpu6050_reset leaves the registers of the chip with their default values, awake, with the signal paths reset
  and with the four interrupts enabled.\<close>

theorem mpu_reset_registers:
  assumes "imu_dev I adr st" "st d = Some m" "m_feed m = []"
  shows "\<exists>d' m'. mpu6050_reset I adr d = Inr ((), d') \<and> st d' = Some m' \<and>
    m_regs m' = default_regs(0x6b := 0, 0x6a := 0x7, 0x38 := 0x59)"
proof -
  have r: "rests m" using assms(3) by (simp add: rests_def)
  have "wp st (mpu6050_reset I adr) (\<lambda>_ s. \<exists>m'. s = Some m' \<and>
      m_regs m' = default_regs(0x6b := 0, 0x6a := 0x7, 0x38 := 0x59)) never (st d)"
    unfolding assms(2) by (rule imu_dev.wp_reset [OF assms(1) r]) simp
  from wp_total [OF this] show ?thesis by auto
qed

theorem mpu_reset_registers_witness:
  "\<exists>d' m'. mpu6050_reset (drv (sim_bsc mpu_wire) 3 (\<lambda>_. ret ())) 0x68 (chip_feed []) = Inr ((), d') \<and>
    chip_of d' = Some m' \<and> m_regs m' = default_regs(0x6b := 0, 0x6a := 0x7, 0x38 := 0x59)"
  by (rule mpu_reset_registers [OF sim_imu.imu_dev_axioms chip_feed_of]) simp



end
