(* ===== verification/Containers.thy ===== *)
theory Containers
  imports Circular Qlist LibC
begin

text \<open>
  The generic containers of \<open>libpi/libc\<close>, which macros define for an element type and a size: the ring buffer of
  \<open>circular-T.h\<close>, the stack of \<open>stack-T.h\<close>, the vector of \<open>vector-T.h\<close>, the linked list of \<open>list-T.h\<close> and the linked
  queue of \<open>queue-ext-T.h\<close>. A pointer to an element of an array is its index. The queues are interpretations of
  \<open>fifo\<close>, the stack and the list of \<open>lifo\<close>.
\<close>

section \<open>Ring buffer\<close>

definition ct_empty :: "'e cq \<Rightarrow> bool" where
  "ct_empty q \<longleftrightarrow> head q = tail q"

definition ct_full :: "u32 \<Rightarrow> 'e cq \<Rightarrow> bool" where
  "ct_full N q \<longleftrightarrow> (head q + 1) mod N = tail q"

definition ct_cnt :: "u32 \<Rightarrow> 'e cq \<Rightarrow> u32" where
  "ct_cnt N q = (head q - tail q) mod N"

definition ct_pop_nonblk :: "u32 \<Rightarrow> 'e cq \<Rightarrow> ('e option \<times> 'e cq) res" where
  "ct_pop_nonblk N c =
     (if ct_empty c then Inr (None, c)
      else let t = tail c in
        seq (cq_read_slot c t) (\<lambda>e. Inr (Some e, cq_publish_tail N t c)))"

definition ct_pop :: "u32 \<Rightarrow> 'e cq \<Rightarrow> ('e \<times> 'e cq) res" where
  "ct_pop N c =
     seq (ct_pop_nonblk N c) (\<lambda>(r, c). case r of None \<Rightarrow> Inl Panic | Some e \<Rightarrow> Inr (e, c))"

definition ct_push :: "u32 \<Rightarrow> 'e cq \<Rightarrow> 'e \<Rightarrow> (bool \<times> 'e cq) res" where
  "ct_push N c x =
     (if ct_full N c then Inr (False, c)
      else let h = head c in
        seq (cq_write_slot c h x) (\<lambda>c. Inr (True, cq_publish_head N h c)))"

definition ct_get :: "u32 \<Rightarrow> 'e cq \<Rightarrow> u32 \<Rightarrow> u32 option" where
  "ct_get N c i = (if ct_cnt N c \<le> i then None else Some ((tail c + i) mod N))"

definition ct_push_w_drop :: "u32 \<Rightarrow> 'e cq \<Rightarrow> 'e \<Rightarrow> 'e cq res" where
  "ct_push_w_drop N q e =
     seq (if ct_full N q then seq (ct_pop N q) (\<lambda>(_, q). Inr q) else Inr q) (\<lambda>q.
     seq (ct_push N q e) (\<lambda>(ok, q). if ok then Inr q else Inl Panic))"

definition ct_mk :: "u32 \<Rightarrow> 'e \<Rightarrow> 'e cq res" where
  "ct_mk N z =
     (let q = \<lparr>c_buf = replicate (unat N) z, fence = 0x12345678, head = 0, tail = 0, overflow = 0, errors_fatal_p = True\<rparr> in
      seq (require (ct_empty q) Assert_fail) (\<lambda>_.
      seq (require (\<not> ct_full N q) Assert_fail) (\<lambda>_.
      seq (require (ct_cnt N q = 0) Assert_fail) (\<lambda>_. Inr q))))"

lemma ct_eq: "ct_empty = cq_empty" "ct_full = cq_full" "ct_cnt = cq_nelem" "ct_pop_nonblk = cq_pop_nonblock"
  by (simp_all add: fun_eq_iff ct_empty_def cq_empty_def ct_full_def cq_full_def ct_cnt_def cq_nelem_def
      ct_pop_nonblk_def cq_pop_nonblock_def)

lemma ct_push_ok:
  assumes "cq_inv N c" "cq_cnt c < unat N - 1"
  shows "\<exists>c'. ct_push N c x = Inr (True, c') \<and> cq_inv N c' \<and> cq_items c' = cq_items c @ [x]"
  using cq_write_publish [OF assms, of x] assms by (auto simp: ct_push_def ct_eq cq_full_iff Let_def)

definition ct_try_push :: "u32 \<Rightarrow> 'e cq \<Rightarrow> 'e \<Rightarrow> 'e cq option" where
  "ct_try_push N c x = (case ct_push N c x of Inr (True, c') \<Rightarrow> Some c' | _ \<Rightarrow> None)"

definition ct_try_pop :: "u32 \<Rightarrow> 'e cq \<Rightarrow> ('e \<times> 'e cq) option" where
  "ct_try_pop N c = (case ct_pop_nonblk N c of Inr (Some x, c') \<Rightarrow> Some (x, c') | _ \<Rightarrow> None)"

text \<open>Unlike \<open>cq_push\<close> this push does not count the elements, so any size is sound.\<close>

interpretation ctf: fifo cq_items "cq_inv N" "\<lambda>c x. cq_cnt c < unat N - 1" "ct_try_push N" "ct_try_pop N" for N
proof unfold_locales
  fix q :: "'a cq" and x
  assume "cq_inv N q" "cq_cnt q < unat N - 1"
  then show "\<exists>q'. ct_try_push N q x = Some q' \<and> cq_inv N q' \<and> cq_items q' = cq_items q @ [x]"
    using ct_push_ok [of N q x] by (auto simp: ct_try_push_def)
next
  fix q :: "'a cq"
  assume "cq_inv N q" "cq_items q = []"
  then show "ct_try_pop N q = None" by (simp add: ct_try_pop_def ct_eq cq_pop_empty)
next
  fix q :: "'a cq" and x xs
  assume "cq_inv N q" "cq_items q = x # xs"
  then show "\<exists>q'. ct_try_pop N q = Some (x, q') \<and> cq_inv N q' \<and> cq_items q' = xs"
    using cq_pop_ok [of N q x xs] by (auto simp: ct_try_pop_def ct_eq)
qed

lemma ct_get_item:
  assumes "size_ok N" "cq_inv N c"
  shows "ct_get N c i = (if unat i < cq_cnt c then Some ((tail c + i) mod N) else None)"
  using cq_nelem_eq [OF assms] by (auto simp: ct_get_def ct_eq word_le_nat_alt not_le)

lemma ct_push_w_drop_ok:
  assumes "1 < unat N" "cq_inv N c"
  shows "\<exists>c'. ct_push_w_drop N c x = Inr c' \<and> cq_inv N c' \<and>
    cq_items c' = (if cq_cnt c = unat N - 1 then tl (cq_items c) else cq_items c) @ [x]"
proof (cases "cq_cnt c = unat N - 1")
  case True
  then have "cq_items c \<noteq> []" using assms(1) by (simp flip: length_0_conv)
  then obtain y ys where ys: "cq_items c = y # ys" by (cases "cq_items c") auto
  obtain c1 where c1: "cq_pop_nonblock N c = Inr (Some y, c1)" "cq_inv N c1" "cq_items c1 = ys"
    using cq_pop_ok [OF assms(2) ys] by auto
  have "Suc (length ys) = unat N - 1" using True ys by (metis length_Cons length_cq_items)
  moreover have "cq_cnt c1 = length ys" using c1(3) by (metis length_cq_items)
  ultimately have "cq_cnt c1 < unat N - 1" by simp
  from ct_push_ok [OF c1(2) this, of x] obtain c2
    where "ct_push N c1 x = Inr (True, c2)" "cq_inv N c2" "cq_items c2 = ys @ [x]" using c1(3) by auto
  with True c1 ys show ?thesis
    using cq_full_iff [OF assms(2)] by (simp add: ct_push_w_drop_def ct_pop_def ct_eq)
next
  case False
  then have "cq_cnt c < unat N - 1" using cq_cnt_less [OF assms(2)] by simp
  from ct_push_ok [OF assms(2) this, of x] False show ?thesis
    using cq_full_iff [OF assms(2)] by (auto simp: ct_push_w_drop_def ct_eq)
qed

section \<open>Last in, first out\<close>

locale lifo =
  fixes elems :: "'s \<Rightarrow> 'a list"
    and valid :: "'s \<Rightarrow> bool"
    and can_push :: "'s \<Rightarrow> 'a \<Rightarrow> bool"
    and push :: "'s \<Rightarrow> 'a \<Rightarrow> 's option"
    and pop :: "'s \<Rightarrow> ('a \<times> 's) option"
  assumes push_law: "valid s \<Longrightarrow> can_push s x \<Longrightarrow> \<exists>s'. push s x = Some s' \<and> valid s' \<and> elems s' = x # elems s"
    and pop_law: "valid s \<Longrightarrow> elems s = x # xs \<Longrightarrow> \<exists>s'. pop s = Some (x, s') \<and> valid s' \<and> elems s' = xs"
begin

fun pushes :: "'s \<Rightarrow> 'a list \<Rightarrow> 's option" where
  "pushes s [] = Some s"
| "pushes s (x # xs) = (if can_push s x then (case push s x of None \<Rightarrow> None | Some s' \<Rightarrow> pushes s' xs) else None)"

fun pops :: "'s \<Rightarrow> nat \<Rightarrow> ('a list \<times> 's) option" where
  "pops s 0 = Some ([], s)"
| "pops s (Suc n) = (case pop s of None \<Rightarrow> None
     | Some (x, s') \<Rightarrow> map_option (\<lambda>(xs, t). (x # xs, t)) (pops s' n))"

lemma pushes_elems: "valid s \<Longrightarrow> pushes s xs = Some t \<Longrightarrow> valid t \<and> elems t = rev xs @ elems s"
proof (induction xs arbitrary: s)
  case (Cons x xs)
  then obtain s' where "can_push s x" "push s x = Some s'" "pushes s' xs = Some t"
    by (auto split: if_splits option.splits)
  with Cons push_law [of s x] show ?case by auto
qed simp

lemma pops_elems:
  "valid s \<Longrightarrow> elems s = xs @ ys \<Longrightarrow> \<exists>t. pops s (length xs) = Some (xs, t) \<and> valid t \<and> elems t = ys"
proof (induction xs arbitrary: s)
  case (Cons x xs)
  then obtain s' where "pop s = Some (x, s')" "valid s'" "elems s' = xs @ ys"
    using pop_law [of s x "xs @ ys"] by auto
  with Cons.IH [of s'] show ?case by auto
qed simp

text \<open>What is pushed comes back in the opposite order, and what was there before is there again.\<close>

lemma push_pop_reverses:
  assumes "valid s" "pushes s xs = Some t"
  shows "\<exists>u. pops t (length xs) = Some (rev xs, u) \<and> valid u \<and> elems u = elems s"
  using pops_elems [of t "rev xs" "elems s"] pushes_elems [OF assms] by simp

end

section \<open>Stack\<close>

record 'e stack_T =
  stack :: "'e list"
  stk_n :: u32

definition stk_mk :: "u32 \<Rightarrow> 'e \<Rightarrow> 'e stack_T" where
  "stk_mk N z = \<lparr>stack = replicate (unat N) z, stk_n = 0\<rparr>"

definition stk_push_ptr :: "u32 \<Rightarrow> 'e stack_T \<Rightarrow> (u32 \<times> 'e stack_T) res" where
  "stk_push_ptr N s = (if N < stk_n s then Inl Panic else Inr (stk_n s, s\<lparr>stk_n := stk_n s + 1\<rparr>))"

definition stk_push :: "u32 \<Rightarrow> 'e stack_T \<Rightarrow> 'e \<Rightarrow> (u32 \<times> 'e stack_T) res" where
  "stk_push N s e =
     seq (stk_push_ptr N s) (\<lambda>(p, s).
     seq (arr_set (stack s) (unat p) e) (\<lambda>b. Inr (p, s\<lparr>stack := b\<rparr>)))"

definition stk_pop_ptr :: "'e stack_T \<Rightarrow> (u32 option \<times> 'e stack_T) res" where
  "stk_pop_ptr s =
     (if stk_n s = 0 then Inr (None, s)
      else seq (require (0 < stk_n s) Assert_fail) (\<lambda>_. Inr (Some (stk_n s - 1), s\<lparr>stk_n := stk_n s - 1\<rparr>)))"

definition stk_pop :: "'e stack_T \<Rightarrow> ('e \<times> 'e stack_T) res" where
  "stk_pop s =
     seq (stk_pop_ptr s) (\<lambda>(p, s).
     case p of None \<Rightarrow> Inl Panic | Some i \<Rightarrow> seq (arr_get (stack s) (unat i)) (\<lambda>e. Inr (e, s)))"

definition stk_cnt :: "'e stack_T \<Rightarrow> u32" where
  "stk_cnt s = stk_n s"

definition stk_idx :: "u32 \<Rightarrow> 'e stack_T \<Rightarrow> u32 \<Rightarrow> u32 res" where
  "stk_idx N s i = seq (require (i < N) Assert_fail) (\<lambda>_. Inr i)"

definition stk_first :: "'e stack_T \<Rightarrow> u32 option" where
  "stk_first s = (if stk_n s = 0 then None else Some 0)"

definition stk_last :: "'e stack_T \<Rightarrow> u32 option" where
  "stk_last s = (if stk_n s = 0 then None else Some (stk_n s - 1))"

definition stk_next :: "'e stack_T \<Rightarrow> u32 \<Rightarrow> u32 option" where
  "stk_next s e = (if Some e = stk_last s then None else Some (e + 1))"

definition stk_prev :: "'e stack_T \<Rightarrow> u32 \<Rightarrow> u32 option" where
  "stk_prev s e = (if Some e = stk_first s then None else Some (e - 1))"

definition stk_elems :: "'e stack_T \<Rightarrow> 'e list" where
  "stk_elems s = rev (take (unat (stk_n s)) (stack s))"

definition stk_inv :: "u32 \<Rightarrow> 'e stack_T \<Rightarrow> bool" where
  "stk_inv N s \<longleftrightarrow> length (stack s) = unat N \<and> stk_n s \<le> N"

lemma unat_Suc_below: "x < (y :: u32) \<Longrightarrow> unat (x + 1) = Suc (unat x)"
proof -
  assume "x < y"
  then have "unat x < unat y" by (simp add: word_less_nat_alt)
  then have "Suc (unat x) < 4294967296" using unat_u32_lt [of y] by linarith
  then show ?thesis by (simp add: unat_word_ariths)
qed

lemma stk_push_ok:
  assumes "stk_inv N s" "stk_n s < N"
  shows "\<exists>s'. stk_push N s x = Inr (stk_n s, s') \<and> stk_inv N s' \<and> stk_elems s' = x # stk_elems s"
proof -
  have n: "unat (stk_n s) < length (stack s)" using assms by (simp add: stk_inv_def word_less_nat_alt)
  have "\<not> N < stk_n s" using assms(2) by simp
  moreover have "stk_n s + 1 \<le> N" using assms(2) by (simp add: inc_le)
  moreover have "take (Suc (unat (stk_n s))) ((stack s)[unat (stk_n s) := x]) = take (unat (stk_n s)) (stack s) @ [x]"
    using n by (simp add: take_Suc_conv_app_nth)
  ultimately show ?thesis
    using n assms(1) unat_Suc_below [OF assms(2)]
    by (simp add: stk_push_def stk_push_ptr_def stk_inv_def stk_elems_def)
qed

lemma stk_pop_ok:
  assumes "stk_inv N s" "stk_elems s = x # xs"
  shows "\<exists>s'. stk_pop s = Inr (x, s') \<and> stk_inv N s' \<and> stk_elems s' = xs"
proof -
  have len: "unat (stk_n s) \<le> length (stack s)" using assms(1) by (simp add: stk_inv_def word_le_nat_alt)
  have "stk_n s \<noteq> 0" using assms(2) by (auto simp: stk_elems_def)
  then obtain k where k: "unat (stk_n s) = Suc k" by (metis not0_implies_Suc unat_eq_zero)
  have "1 \<le> stk_n s" using k by (simp add: word_le_nat_alt)
  then have u: "unat (stk_n s - 1) = k" using k by (simp add: unat_sub)
  then have "stk_n s - 1 \<le> stk_n s" using k by (simp add: word_le_nat_alt)
  have "take (Suc k) (stack s) = take k (stack s) @ [stack s ! k]" using len k by (simp add: take_Suc_conv_app_nth)
  then have "x = stack s ! k" "xs = rev (take k (stack s))" using assms(2) k by (simp_all add: stk_elems_def)
  moreover have "stk_n s - 1 \<le> N" using assms(1) \<open>stk_n s - 1 \<le> stk_n s\<close> by (auto simp: stk_inv_def intro: order_trans)
  ultimately show ?thesis using \<open>stk_n s \<noteq> 0\<close> assms(1) len k u
    by (simp add: stk_pop_def stk_pop_ptr_def stk_inv_def stk_elems_def word_gt_0)
qed


definition stk_try_push :: "u32 \<Rightarrow> 'e stack_T \<Rightarrow> 'e \<Rightarrow> 'e stack_T option" where
  "stk_try_push N s x = (case stk_push N s x of Inr (_, s') \<Rightarrow> Some s' | Inl _ \<Rightarrow> None)"

definition stk_try_pop :: "'e stack_T \<Rightarrow> ('e \<times> 'e stack_T) option" where
  "stk_try_pop s = (case stk_pop s of Inr r \<Rightarrow> Some r | Inl _ \<Rightarrow> None)"

interpretation stk: lifo stk_elems "stk_inv N" "\<lambda>s x. stk_n s < N" "stk_try_push N" stk_try_pop for N
proof unfold_locales
  fix s :: "'a stack_T" and x
  assume "stk_inv N s" "stk_n s < N"
  then show "\<exists>s'. stk_try_push N s x = Some s' \<and> stk_inv N s' \<and> stk_elems s' = x # stk_elems s"
    using stk_push_ok [of N s x] by (auto simp: stk_try_push_def)
next
  fix s :: "'a stack_T" and x xs
  assume "stk_inv N s" "stk_elems s = x # xs"
  then show "\<exists>s'. stk_try_pop s = Some (x, s') \<and> stk_inv N s' \<and> stk_elems s' = xs"
    using stk_pop_ok [of N s x xs] by (auto simp: stk_try_pop_def)
qed

section \<open>Vector\<close>

record 'e vector_T =
  vec_n :: u32
  vec :: "'e list"

definition vec_mk :: "u32 \<Rightarrow> 'e \<Rightarrow> 'e vector_T" where
  "vec_mk N z = \<lparr>vec_n = 0, vec = replicate (unat N) z\<rparr>"

definition vec_cnt :: "'e vector_T \<Rightarrow> u32" where
  "vec_cnt v = vec_n v"

definition vec_append_raw :: "'e vector_T \<Rightarrow> 'e \<Rightarrow> (u32 \<times> 'e vector_T) res" where
  "vec_append_raw v e =
     seq (arr_set (vec v) (unat (vec_n v)) e) (\<lambda>b. Inr (vec_n v, v\<lparr>vec_n := vec_n v + 1, vec := b\<rparr>))"

definition vec_append :: "u32 \<Rightarrow> 'e vector_T \<Rightarrow> 'e \<Rightarrow> (u32 \<times> 'e vector_T) res" where
  "vec_append N v e = seq (require (vec_cnt v < N) Assert_fail) (\<lambda>_. vec_append_raw v e)"

definition vec_idx_ptr :: "u32 \<Rightarrow> 'e vector_T \<Rightarrow> u32 \<Rightarrow> u32 res" where
  "vec_idx_ptr N v i = seq (require (i < N) Assert_fail) (\<lambda>_. Inr i)"

definition vec_idx :: "u32 \<Rightarrow> 'e vector_T \<Rightarrow> u32 \<Rightarrow> 'e res" where
  "vec_idx N v i = seq (require (i < N) Assert_fail) (\<lambda>_. arr_get (vec v) (unat i))"

definition vec_first :: "'e vector_T \<Rightarrow> u32 option" where
  "vec_first v = (if vec_n v = 0 then None else Some 0)"

definition vec_last :: "'e vector_T \<Rightarrow> u32 option" where
  "vec_last v = (if vec_n v = 0 then None else Some (vec_n v - 1))"

definition vec_next :: "'e vector_T \<Rightarrow> u32 \<Rightarrow> u32 option" where
  "vec_next v e = (if Some e = vec_last v then None else Some (e + 1))"

definition vec_prev :: "'e vector_T \<Rightarrow> u32 \<Rightarrow> u32 option" where
  "vec_prev v e = (if Some e = vec_first v then None else Some (e - 1))"

definition vec_elems :: "'e vector_T \<Rightarrow> 'e list" where
  "vec_elems v = take (unat (vec_n v)) (vec v)"

definition vec_inv :: "u32 \<Rightarrow> 'e vector_T \<Rightarrow> bool" where
  "vec_inv N v \<longleftrightarrow> length (vec v) = unat N \<and> vec_n v \<le> N"

lemma vec_append_ok:
  assumes "vec_inv N v"
  shows "if vec_n v < N
    then \<exists>v'. vec_append N v x = Inr (vec_n v, v') \<and> vec_inv N v' \<and> vec_elems v' = vec_elems v @ [x]
    else vec_append N v x = Inl Assert_fail"
proof (cases "vec_n v < N")
  case True
  then have n: "unat (vec_n v) < length (vec v)" using assms by (simp add: vec_inv_def word_less_nat_alt)
  moreover have "vec_n v + 1 \<le> N" using True by (simp add: inc_le)
  moreover have "take (Suc (unat (vec_n v))) ((vec v)[unat (vec_n v) := x]) = take (unat (vec_n v)) (vec v) @ [x]"
    using n by (simp add: take_Suc_conv_app_nth)
  ultimately show ?thesis using True assms unat_Suc_below [OF True]
    by (simp add: vec_append_def vec_append_raw_def vec_cnt_def vec_inv_def vec_elems_def)
qed (simp add: vec_append_def vec_cnt_def)

text \<open>Walking from the first to the last element visits every index once.\<close>

fun vec_walk :: "'e vector_T \<Rightarrow> nat \<Rightarrow> u32 option \<Rightarrow> u32 list option" where
  "vec_walk v k None = Some []"
| "vec_walk v 0 (Some e) = None"
| "vec_walk v (Suc k) (Some e) = map_option ((#) e) (vec_walk v k (vec_next v e))"

lemma vec_walk_from:
  "i + k = unat (vec_n v) \<Longrightarrow> 0 < k \<Longrightarrow> vec_walk v k (Some (word_of_nat i)) = Some (map word_of_nat [i..<i + k])"
proof (induction k arbitrary: i)
  case (Suc k)
  have n: "word_of_nat (i + Suc k) = vec_n v" using Suc.prems(1) by simp
  then have ne: "vec_n v \<noteq> 0" using Suc.prems(1) by auto
  have last: "Some (word_of_nat i) = vec_last v \<longleftrightarrow> k = 0"
  proof
    assume "Some (word_of_nat i) = vec_last v"
    then have "word_of_nat i = vec_n v - 1" using ne by (simp add: vec_last_def)
    then have "word_of_nat (Suc i) = vec_n v" by simp
    then have "unat (word_of_nat (Suc i) :: u32) = i + Suc k" using Suc.prems(1) by simp
    moreover have "Suc i < 4294967296" using Suc.prems(1) unat_u32_lt [of "vec_n v"] by linarith
    ultimately show "k = 0" by (simp only: unat_of_small)
  next
    assume "k = 0"
    then show "Some (word_of_nat i) = vec_last v" using n ne by (simp add: vec_last_def flip: n)
  qed
  show ?case
  proof (cases "k = 0")
    case True
    then have "vec_next v (word_of_nat i) = None" using last by (simp add: vec_next_def)
    with True show ?thesis by simp
  next
    case False
    then have "vec_walk v k (Some (word_of_nat (Suc i))) = Some (map word_of_nat [Suc i..<Suc i + k])"
      using Suc.prems by (intro Suc.IH) simp_all
    with False last show ?thesis by (simp add: vec_next_def upt_rec [of i] add.commute)
  qed
qed simp

lemma vec_walk_all: "vec_walk v (unat (vec_n v)) (vec_first v) = Some (map word_of_nat [0..<unat (vec_n v)])"
proof (cases "vec_n v = 0")
  case False
  then have "0 < unat (vec_n v)" by (simp add: unat_gt_0)
  with vec_walk_from [of 0 "unat (vec_n v)" v] False show ?thesis by (simp add: vec_first_def)
qed (simp add: vec_first_def)

section \<open>Linked list\<close>

text \<open>The list is a pointer to its first element, passed by reference.\<close>

definition list_pop :: "'p links \<Rightarrow> 'p option \<Rightarrow> 'p option \<times> 'p option" where
  "list_pop nxt l = (case l of None \<Rightarrow> (None, l) | Some e \<Rightarrow> (Some e, nxt e))"

definition list_push :: "'p links \<Rightarrow> 'p option \<Rightarrow> 'p \<Rightarrow> 'p links \<times> 'p option" where
  "list_push nxt l e = (nxt(e := l), Some e)"

definition list_init :: "'p option" where
  "list_init = None"

definition list_first :: "'p option \<Rightarrow> 'p option" where
  "list_first l = l"

definition list_next :: "'p links \<Rightarrow> 'p option \<Rightarrow> 'p option" where
  "list_next nxt e = (case e of None \<Rightarrow> None | Some p \<Rightarrow> nxt p)"

text \<open>A list with its links and the elements it holds.\<close>

record 'p linked =
  ll_links :: "'p links"
  ll_head :: "'p option"
  ll_elems :: "'p list"

definition ll_valid :: "'p linked \<Rightarrow> bool" where
  "ll_valid s \<longleftrightarrow> chain (ll_links s) (ll_head s) (ll_elems s)"

definition ll_push :: "'p linked \<Rightarrow> 'p \<Rightarrow> 'p linked option" where
  "ll_push s e = (let (n, l) = list_push (ll_links s) (ll_head s) e in
     Some \<lparr>ll_links = n, ll_head = l, ll_elems = e # ll_elems s\<rparr>)"

definition ll_pop :: "'p linked \<Rightarrow> ('p \<times> 'p linked) option" where
  "ll_pop s = (case list_pop (ll_links s) (ll_head s) of
       (None, _) \<Rightarrow> None
     | (Some e, l) \<Rightarrow> Some (e, s\<lparr>ll_head := l, ll_elems := tl (ll_elems s)\<rparr>))"

interpretation ll: lifo ll_elems ll_valid "\<lambda>s e. e \<notin> set (ll_elems s)" ll_push ll_pop
proof unfold_locales
  fix s :: "'a linked" and e
  assume "ll_valid s" "e \<notin> set (ll_elems s)"
  moreover from this have "chain ((ll_links s)(e := ll_head s)) (ll_head s) (ll_elems s)"
    by (subst chain_frame [of _ _ "ll_links s"]) (auto simp: ll_valid_def)
  ultimately show "\<exists>s'. ll_push s e = Some s' \<and> ll_valid s' \<and> ll_elems s' = e # ll_elems s"
    by (simp add: ll_push_def list_push_def ll_valid_def)
next
  fix s :: "'a linked" and e es
  assume "ll_valid s" "ll_elems s = e # es"
  then show "\<exists>s'. ll_pop s = Some (e, s') \<and> ll_valid s' \<and> ll_elems s' = es"
    by (simp add: ll_pop_def list_pop_def ll_valid_def)
qed


section \<open>Linked queue\<close>

text \<open>\<open>queue-ext-T.h\<close>: the queue of \<open>Q.h\<close> without its counter.\<close>

record 'p QE_T =
  qe_head :: "'p option"
  qe_tail :: "'p option"

definition qe_start :: "'p QE_T \<Rightarrow> 'p option" where
  "qe_start q = qe_head q"

definition qe_next :: "'p links \<Rightarrow> 'p \<Rightarrow> 'p option" where
  "qe_next nxt e = nxt e"

definition qe_empty :: "'p QE_T \<Rightarrow> bool res" where
  "qe_empty q = (case qe_head q of Some _ \<Rightarrow> Inr False
     | None \<Rightarrow> seq (require (qe_tail q = None) Panic) (\<lambda>_. Inr True))"

definition qe_pop :: "'p links \<Rightarrow> 'p QE_T \<Rightarrow> ('p option \<times> 'p QE_T) res" where
  "qe_pop nxt q = (case qe_head q of
       None \<Rightarrow> seq (qe_empty q) (\<lambda>b. seq (require b Assert_fail) (\<lambda>_. Inr (None, q)))
     | Some e \<Rightarrow> let q = q\<lparr>qe_head := nxt e\<rparr> in
         Inr (Some e, if qe_head q = None then q\<lparr>qe_tail := None\<rparr> else q))"

definition qe_append :: "'p links \<Rightarrow> 'p QE_T \<Rightarrow> 'p \<Rightarrow> 'p links \<times> 'p QE_T" where
  "qe_append nxt q e =
     (let nxt = nxt(e := None) in
      case qe_tail q of
        None \<Rightarrow> (nxt, q\<lparr>qe_head := Some e, qe_tail := Some e\<rparr>)
      | Some t \<Rightarrow> (nxt(t := Some e), q\<lparr>qe_tail := Some e\<rparr>))"

definition qe_push :: "'p links \<Rightarrow> 'p QE_T \<Rightarrow> 'p \<Rightarrow> 'p links \<times> 'p QE_T" where
  "qe_push nxt q e =
     (let nxt = nxt(e := qe_head q); q = q\<lparr>qe_head := Some e\<rparr>
      in (nxt, if qe_tail q = None then q\<lparr>qe_tail := Some e\<rparr> else q))"

definition qe_init :: "'p QE_T \<Rightarrow> 'p QE_T" where
  "qe_init q = q\<lparr>qe_head := None, qe_tail := None\<rparr>"

definition qe_rep :: "'p links \<Rightarrow> 'p QE_T \<Rightarrow> 'p list \<Rightarrow> bool" where
  "qe_rep nxt q xs \<longleftrightarrow> chain nxt (qe_head q) xs \<and> distinct xs \<and>
     qe_tail q = (if xs = [] then None else Some (last xs))"

lemma qe_init_ok: "qe_rep nxt (qe_init q) []"
  by (simp add: qe_rep_def qe_init_def)

lemma qe_empty_ok: "qe_rep nxt q xs \<Longrightarrow> qe_empty q = Inr (xs = [])"
  by (cases xs) (auto simp: qe_rep_def qe_empty_def)

lemma qe_pop_nil: "qe_rep nxt q [] \<Longrightarrow> qe_pop nxt q = Inr (None, q)"
  using qe_empty_ok [of nxt q "[]"] by (simp add: qe_pop_def qe_rep_def)

lemma qe_pop_cons:
  assumes "qe_rep nxt q (x # xs)"
  shows "\<exists>q'. qe_pop nxt q = Inr (Some x, q') \<and> qe_rep nxt q' xs"
  using assms by (cases xs) (auto simp: qe_rep_def qe_pop_def Let_def)

lemma qe_append_ok:
  assumes "qe_rep nxt q xs" "e \<notin> set xs"
  shows "qe_rep (fst (qe_append nxt q e)) (snd (qe_append nxt q e)) (xs @ [e])"
    "y \<noteq> e \<Longrightarrow> y \<notin> set xs \<Longrightarrow> fst (qe_append nxt q e) y = nxt y"
proof -
  show "qe_rep (fst (qe_append nxt q e)) (snd (qe_append nxt q e)) (xs @ [e])"
  proof (cases xs rule: rev_cases)
    case Nil
    with assms show ?thesis by (auto simp: qe_rep_def qe_append_def)
  next
    case (snoc ys t)
    with assms chain_last [of nxt "qe_head q" ys t e] show ?thesis
      by (auto simp: qe_rep_def qe_append_def Let_def)
  qed
  show "y \<noteq> e \<Longrightarrow> y \<notin> set xs \<Longrightarrow> fst (qe_append nxt q e) y = nxt y"
    using assms by (cases xs rule: rev_cases) (auto simp: qe_rep_def qe_append_def Let_def)
qed

lemma qe_push_ok:
  assumes "qe_rep nxt q xs" "e \<notin> set xs"
  shows "qe_rep (fst (qe_push nxt q e)) (snd (qe_push nxt q e)) (e # xs)"
proof -
  have "chain (nxt(e := qe_head q)) (qe_head q) xs"
    using assms by (subst chain_frame [of _ _ nxt]) (auto simp: qe_rep_def)
  then show ?thesis using assms by (auto simp: qe_rep_def qe_push_def Let_def)
qed

text \<open>A queue with its links and the elements it holds.\<close>

record 'p qe_state =
  qs_links :: "'p links"
  qs_queue :: "'p QE_T"
  qs_elems :: "'p list"

definition qs_valid :: "'p qe_state \<Rightarrow> bool" where
  "qs_valid s \<longleftrightarrow> qe_rep (qs_links s) (qs_queue s) (qs_elems s)"

definition qe_try_push :: "'p qe_state \<Rightarrow> 'p \<Rightarrow> 'p qe_state option" where
  "qe_try_push s e = (let r = qe_append (qs_links s) (qs_queue s) e in
     Some \<lparr>qs_links = fst r, qs_queue = snd r, qs_elems = qs_elems s @ [e]\<rparr>)"

definition qe_try_pop :: "'p qe_state \<Rightarrow> ('p \<times> 'p qe_state) option" where
  "qe_try_pop s = (case qe_pop (qs_links s) (qs_queue s) of
       Inr (Some e, q') \<Rightarrow> Some (e, s\<lparr>qs_queue := q', qs_elems := tl (qs_elems s)\<rparr>) | _ \<Rightarrow> None)"

interpretation qef: fifo qs_elems qs_valid "\<lambda>s e. e \<notin> set (qs_elems s)" qe_try_push qe_try_pop
proof unfold_locales
  fix s :: "'a qe_state" and e
  assume "qs_valid s" "e \<notin> set (qs_elems s)"
  then show "\<exists>s'. qe_try_push s e = Some s' \<and> qs_valid s' \<and> qs_elems s' = qs_elems s @ [e]"
    using qe_append_ok(1) [of "qs_links s" "qs_queue s" "qs_elems s" e] by (simp add: qe_try_push_def qs_valid_def Let_def)
next
  fix s :: "'a qe_state"
  assume "qs_valid s" "qs_elems s = []"
  then show "qe_try_pop s = None"
    using qe_pop_nil [of "qs_links s" "qs_queue s"] by (simp add: qe_try_pop_def qs_valid_def)
next
  fix s :: "'a qe_state" and e es
  assume "qs_valid s" "qs_elems s = e # es"
  then show "\<exists>s'. qe_try_pop s = Some (e, s') \<and> qs_valid s' \<and> qs_elems s' = es"
    using qe_pop_cons [of "qs_links s" "qs_queue s" e es] by (auto simp: qe_try_pop_def qs_valid_def)
qed

section \<open>Properties\<close>

text \<open>C0: The stack is off by one: pushing onto a full stack is not refused and writes the element behind the array;
  only the push after that would panic.\<close>

theorem stack_overflow_by_one:
  assumes "length (stack s) = unat N" "stk_n s = N"
  shows "stk_push_ptr N s = Inr (N, s\<lparr>stk_n := N + 1\<rparr>) \<and> stk_push N s x = Inl Undefined"
  using assms by (simp_all add: stk_push_ptr_def stk_push_def arr_set_def)

theorem stack_overflow_by_one_witness:
  "stk_push_ptr 2 \<lparr>stack = [1 :: u8, 2], stk_n = 2\<rparr> = Inr (2, \<lparr>stack = [1, 2], stk_n = 2\<rparr>\<lparr>stk_n := 2 + 1\<rparr>) \<and>
   stk_push 2 \<lparr>stack = [1 :: u8, 2], stk_n = 2\<rparr> 3 = Inl Undefined"
  by (rule stack_overflow_by_one) simp_all

fun push_all_drop :: "u32 \<Rightarrow> 'e cq \<Rightarrow> 'e list \<Rightarrow> 'e cq res" where
  "push_all_drop N c [] = Inr c"
| "push_all_drop N c (x # xs) = seq (ct_push_w_drop N c x) (\<lambda>c. push_all_drop N c xs)"

definition newest :: "nat \<Rightarrow> 'e list \<Rightarrow> 'e list" where
  "newest k xs = drop (length xs - k) xs"

lemma newest_push: "newest k (newest k xs @ ys) = newest k (xs @ ys)"
  by (cases "length xs \<le> k") (simp_all add: newest_def add.commute)

text \<open>C0: The ring buffer that drops its oldest element when it is full keeps exactly the newest elements: after pushing
  a list, the buffer holds the last ones of what was there followed by the list, at most one less than its size.\<close>

theorem ring_keeps_newest:
  assumes "1 < unat N" "cq_inv N c"
  shows "\<exists>c'. push_all_drop N c xs = Inr c' \<and> cq_inv N c' \<and> cq_items c' = newest (unat N - 1) (cq_items c @ xs)"
  using assms(2)
proof (induction xs arbitrary: c)
  case Nil
  then have "length (cq_items c) \<le> unat N - 1" using cq_cnt_less [OF Nil] assms(1) by simp
  with Nil show ?case by (simp add: newest_def)
next
  case (Cons x xs)
  have le: "cq_cnt c \<le> unat N - 1" using cq_cnt_less [OF Cons.prems] by simp
  obtain c1 where c1: "ct_push_w_drop N c x = Inr c1" "cq_inv N c1"
    "cq_items c1 = (if cq_cnt c = unat N - 1 then tl (cq_items c) else cq_items c) @ [x]"
    using ct_push_w_drop_ok [OF assms(1) Cons.prems] by blast
  have "cq_items c1 = newest (unat N - 1) (cq_items c @ [x])"
  proof (cases "cq_cnt c = unat N - 1")
    case True
    then have "cq_items c \<noteq> []" using assms(1) by (simp flip: length_0_conv)
    with True c1(3) show ?thesis using assms(1) by (simp add: newest_def drop_Suc Suc_diff_le)
  next
    case False
    with le c1(3) show ?thesis by (simp add: newest_def)
  qed
  then have "newest (unat N - 1) (cq_items c1 @ xs) = newest (unat N - 1) (cq_items c @ x # xs)"
    using newest_push [of "unat N - 1" "cq_items c @ [x]" xs] by simp
  with Cons.IH [OF c1(2)] c1(1) show ?case by auto
qed

theorem ring_keeps_newest_witness:
  "\<exists>c'. push_all_drop 4 \<lparr>c_buf = [0, 0, 0, 0], fence = 0, head = 0, tail = 0, overflow = 0, errors_fatal_p = True\<rparr>
      [1, 2, 3, 4, 5 :: u8] = Inr c' \<and> cq_inv 4 c' \<and>
    cq_items c' = newest (unat (4 :: u32) - 1) (cq_items \<lparr>c_buf = [0, 0, 0, 0], fence = 0, head = 0, tail = 0, overflow = 0,
      errors_fatal_p = True\<rparr> @ [1, 2, 3, 4, 5])"
  by (rule ring_keeps_newest) (simp_all add: cq_inv_def)

text \<open>C0: Pushing a list of values on the stack and popping as many returns them in the opposite order and leaves the
  elements that were there before.\<close>

theorem stack_reverses:
  assumes "stk_inv N s" "stk.pushes N s xs = Some t"
  shows "\<exists>u. stk.pops t (length xs) = Some (rev xs, u) \<and> stk_inv N u \<and> stk_elems u = stk_elems s"
  by (rule stk.push_pop_reverses [OF assms])

theorem stack_reverses_witness:
  "\<exists>t u. stk.pushes 4 \<lparr>stack = [7, 0, 0, 0 :: u8], stk_n = 1\<rparr> [1, 2, 3] = Some t \<and>
    stk.pops t (length [1 :: u8, 2, 3]) = Some (rev [1, 2, 3], u) \<and> stk_inv 4 u \<and>
    stk_elems u = stk_elems \<lparr>stack = [7, 0, 0, 0], stk_n = 1\<rparr>"
proof -
  obtain t where "stk.pushes 4 \<lparr>stack = [7, 0, 0, 0 :: u8], stk_n = 1\<rparr> [1, 2, 3] = Some t"
    by (simp add: stk.pushes.simps stk_try_push_def stk_push_def stk_push_ptr_def)
  moreover from stack_reverses [OF _ this] have
    "\<exists>u. stk.pops t (length [1 :: u8, 2, 3]) = Some (rev [1, 2, 3], u) \<and> stk_inv 4 u \<and>
      stk_elems u = stk_elems \<lparr>stack = [7, 0, 0, 0], stk_n = 1\<rparr>" by (simp add: stk_inv_def)
  ultimately show ?thesis by blast
qed

end
