(* ===== verification/Support.thy ===== *)
theory Support
  imports LibC
begin

unbundle bit_operations_syntax

text \<open>
  Small headers of \<open>libpi/libc\<close>: pointers and rounding (\<open>pointer-T.h\<close>) and copying by words (\<open>lmemcpy.h\<close>).
\<close>

section \<open>Pointers\<close>

definition is_aligned :: "u32 \<Rightarrow> u32 \<Rightarrow> bool" where
  "is_aligned p n \<longleftrightarrow> p mod n = 0"

definition ptr_diff :: "u32 \<Rightarrow> u32 \<Rightarrow> int res" where
  "ptr_diff b a = seq (require (a \<le> b) Assert_fail) (\<lambda>_. Inr (uint b - uint a))"

definition ptr_add :: "u32 \<Rightarrow> u32 \<Rightarrow> u32" where
  "ptr_add a off = a + off"

definition ptr_add_mut :: "u32 \<Rightarrow> u32 \<Rightarrow> u32" where
  "ptr_add_mut a off = a + off"

text \<open>The macros \<open>min\<close> and \<open>max\<close> on unsigned values.\<close>

definition pt_min :: "u32 \<Rightarrow> u32 \<Rightarrow> u32" where
  "pt_min a b = (let a_t = a; b_t = b in if a_t < b_t then a_t else b_t)"

definition pt_max :: "u32 \<Rightarrow> u32 \<Rightarrow> u32" where
  "pt_max a b = pt_min b a"

definition roundup_u32 :: "u32 \<Rightarrow> u32 \<Rightarrow> u32" where
  "roundup_u32 x n = (x + (n - 1)) AND NOT (n - 1)"

section \<open>Copying words\<close>

fun set_words :: "nat \<Rightarrow> u32 \<Rightarrow> u32 \<Rightarrow> ram \<Rightarrow> ram" where
  "set_words 0 p v m = m"
| "set_words (Suc n) p v m = set_words n (p + 4) v (st m p (le_bytes v))"

definition lmemset :: "u32 \<Rightarrow> u32 \<Rightarrow> u32 \<Rightarrow> ram \<Rightarrow> ram res" where
  "lmemset dst v nbytes m =
     seq (require (dst \<noteq> 0) Assert_fail) (\<lambda>_.
     seq (require (nbytes mod 4 = 0) Assert_fail) (\<lambda>_.
     seq (require (is_aligned dst 4) Assert_fail) (\<lambda>_.
     Inr (set_words (unat (nbytes div 4)) dst v m))))"

definition lmemcpy :: "u32 \<Rightarrow> u32 \<Rightarrow> u32 \<Rightarrow> ram \<Rightarrow> ram res" where
  "lmemcpy dst src nbytes m =
     seq (require (dst \<noteq> 0) Assert_fail) (\<lambda>_.
     seq (require (src \<noteq> 0) Assert_fail) (\<lambda>_.
     seq (require (nbytes mod 4 = 0) Assert_fail) (\<lambda>_.
     seq (require (is_aligned dst 4) Assert_fail) (\<lambda>_.
     Inr (copy_elems 4 (unat (nbytes div 4)) dst src m)))))"

definition llmemcpy :: "u32 \<Rightarrow> u32 \<Rightarrow> u32 \<Rightarrow> ram \<Rightarrow> ram res" where
  "llmemcpy dst src nbytes m =
     seq (require (dst \<noteq> 0) Assert_fail) (\<lambda>_.
     seq (require (src \<noteq> 0) Assert_fail) (\<lambda>_.
     seq (require (nbytes mod 8 = 0) Assert_fail) (\<lambda>_.
     seq (require (is_aligned dst 8) Assert_fail) (\<lambda>_.
     Inr (copy_elems 8 (unat (nbytes div 8)) dst src m)))))"

section \<open>Lemmas\<close>

lemma roundup_value:
  assumes "k < 32" "unat x + 2 ^ k \<le> 2 ^ 32"
  shows "unat (roundup_u32 x (2 ^ k)) = (unat x + 2 ^ k - 1) div 2 ^ k * 2 ^ k"
proof -
  have p: "(2 ^ k :: u32) - 1 = mask k" by (simp add: mask_eq_exp_minus_1)
  have m: "unat (mask k :: u32) = 2 ^ k - 1"
  proof -
    have "unat (mask k :: u32) = unat (take_bit k (- 1) :: u32)" by simp
    also have "\<dots> = take_bit k (unat (- 1 :: u32))" by (simp only: unsigned_take_bit_eq)
    also have "unat (- 1 :: u32) = mask 32" by (simp add: unsigned_minus_1_eq_mask)
    also have "take_bit k (mask 32 :: nat) = mask k"
      by (rule bit_eqI) (use assms(1) in \<open>auto simp: bit_take_bit_iff bit_mask_iff\<close>)
    also have "(mask k :: nat) = 2 ^ k - 1" by (simp add: mask_eq_exp_minus_1)
    finally show ?thesis .
  qed
  have "0 < (2 :: nat) ^ k" by simp
  then have lt: "unat x + (2 ^ k - 1) < 2 ^ 32" using assms(2) by linarith
  then have s: "unat (x + mask k) = unat x + 2 ^ k - 1" using m lt by (simp add: unat_word_ariths)
  have a: "unat ((x + mask k) AND mask k) = (unat x + 2 ^ k - 1) mod 2 ^ k"
  proof -
    have "unat ((x + mask k) AND mask k) = unat (take_bit k (x + mask k))" by (simp only: take_bit_eq_mask)
    also have "\<dots> = take_bit k (unat (x + mask k))" by (simp only: unsigned_take_bit_eq)
    finally show ?thesis by (simp only: s take_bit_eq_mod)
  qed
  have "unat (roundup_u32 x (2 ^ k)) = unat ((x + mask k) - ((x + mask k) AND mask k))"
    by (simp add: roundup_u32_def p word_and_not_mask)
  also have "\<dots> = (unat x + 2 ^ k - 1) - (unat x + 2 ^ k - 1) mod 2 ^ k"
    using a s by (subst unat_sub) (simp_all add: word_le_nat_alt)
  finally show ?thesis by (simp add: minus_mod_eq_div_mult)
qed

lemma pt_max_is_min: "pt_max a b = min a b"
  by (simp add: pt_max_def pt_min_def min_def Let_def not_less order.strict_implies_order) (meson leD leI order.antisym)

lemma st_append: "st m p (xs @ ys) = st (st m p xs) (p + word_of_nat (length xs)) ys"
  by (induction xs arbitrary: m p) (simp_all add: add.assoc)

lemma set_words_st: "set_words n p v m = st m p (concat (replicate n (le_bytes v)))"
  by (induction n arbitrary: p m) (simp_all add: st_append)

lemma words_at: "i < 4 * n \<Longrightarrow> concat (replicate n (le_bytes v)) ! i = le_bytes v ! (i mod 4)"
proof (induction n arbitrary: i)
  case (Suc n)
  show ?case
  proof (cases "i < 4")
    case False
    then have "(i - 4) mod 4 = i mod 4" by (metis le_mod_geq not_less)
    with False Suc show ?thesis by (simp add: nth_append)
  qed (simp add: nth_append)
qed simp

lemma length_words [simp]: "length (concat (replicate n (le_bytes v))) = 4 * n"
  by (induction n) simp_all

section \<open>Properties\<close>

text \<open>C0: roundup_u32 rounds up to a multiple of a power of two: the result is the smallest multiple that is not below
  the number, unless that is 2 to the power 32.\<close>

theorem roundup_is_least:
  assumes "k < 32" "unat x + 2 ^ k \<le> 2 ^ 32"
  shows "2 ^ k dvd unat (roundup_u32 x (2 ^ k)) \<and> unat x \<le> unat (roundup_u32 x (2 ^ k)) \<and>
    unat (roundup_u32 x (2 ^ k)) < unat x + 2 ^ k"
proof -
  let ?n = "unat x + 2 ^ k - 1"
  have d: "?n div 2 ^ k * 2 ^ k + ?n mod 2 ^ k = ?n" by (rule div_mult_mod_eq)
  have "?n mod 2 ^ k < 2 ^ k" by simp
  with d have "unat x \<le> ?n div 2 ^ k * 2 ^ k" "?n div 2 ^ k * 2 ^ k < unat x + 2 ^ k" by linarith+
  then show ?thesis unfolding roundup_value [OF assms] by simp
qed

theorem roundup_is_least_witness:
  "2 ^ 20 dvd unat (roundup_u32 0x100001 (2 ^ 20)) \<and> unat (0x100001 :: u32) \<le> unat (roundup_u32 0x100001 (2 ^ 20)) \<and>
    unat (roundup_u32 0x100001 (2 ^ 20)) < unat (0x100001 :: u32) + 2 ^ 20"
  by (rule roundup_is_least) simp_all

text \<open>C0: The macro max of pointer-T.h returns the smaller of its arguments.\<close>

theorem max_macro_is_min: "pt_max a b = min a b"
  by (rule pt_max_is_min)

text \<open>C0: lmemset stores the word, byte by byte in little-endian order, in exactly the bytes of its block.\<close>

theorem lmemset_fills:
  assumes "dst \<noteq> 0" "dst mod 4 = 0" "nbytes mod 4 = 0"
  shows "\<exists>m'. lmemset dst v nbytes m = Inr m' \<and>
    (\<forall>a. m' a = (if unat (a - dst) < unat nbytes then le_bytes v ! (unat (a - dst) mod 4) else m a))"
proof -
  let ?n = "unat (nbytes div 4)"
  have n: "4 * ?n = unat nbytes" using unat_div_exact [OF assms(3)] by simp
  then have "4 * ?n \<le> 4294967296" using unat_u32_lt [of nbytes] by linarith
  with n assms show ?thesis
    by (simp add: lmemset_def is_aligned_def set_words_st st_at words_at)
qed

theorem lmemset_fills_witness:
  "\<exists>m'. lmemset 0x8000 0x11223344 16 (\<lambda>_. 0) = Inr m' \<and>
    (\<forall>a. m' a = (if unat (a - 0x8000) < unat (16 :: u32) then le_bytes 0x11223344 ! (unat (a - 0x8000) mod 4) else (\<lambda>_. 0) a))"
  by (rule lmemset_fills) simp_all

end
