(* ===== verification/DebugHw.thy ===== *)
theory DebugHw
  imports BitSupport Wp
begin

unbundle bit_operations_syntax

text \<open>
  The debug coprocessor of the ARM1176 in \<open>labs/14-ss-equiv-deux\<close>: the routines of \<open>armv6-debug-impl.h\<close>, watchpoints
  (\<open>mini-watch.c\<close>), single stepping by mismatch breakpoints (\<open>mini-step.c\<close>) and the processor modes of
  \<open>cpsr-util.h\<close>. The coprocessor is a parameter; the locale \<open>debug_cp\<close> states which bits of its registers keep
  what is written, and a simulated coprocessor satisfies it.
\<close>

section \<open>Processor modes\<close>

definition USER_MODE :: u32 where "USER_MODE = 0x10"
definition FIQ_MODE :: u32 where "FIQ_MODE = 0x11"
definition IRQ_MODE :: u32 where "IRQ_MODE = 0x12"
definition SUPER_MODE :: u32 where "SUPER_MODE = 0x13"
definition ABORT_MODE :: u32 where "ABORT_MODE = 0x17"
definition UNDEF_MODE :: u32 where "UNDEF_MODE = 0x1b"
definition SYS_MODE :: u32 where "SYS_MODE = 0x1f"

lemmas modes = USER_MODE_def FIQ_MODE_def IRQ_MODE_def SUPER_MODE_def ABORT_MODE_def UNDEF_MODE_def SYS_MODE_def

definition mode_legal :: "u32 \<Rightarrow> unit res" where
  "mode_legal mode =
     require (mode \<in> {USER_MODE, IRQ_MODE, SUPER_MODE, ABORT_MODE, UNDEF_MODE, SYS_MODE}) Panic"

definition mode_get :: "u32 \<Rightarrow> u32 res" where
  "mode_get cpsr = seq (bits_get cpsr 0 4) (\<lambda>mode. seq (mode_legal mode) (\<lambda>_. Inr mode))"

definition mode_set :: "u32 \<Rightarrow> u32 \<Rightarrow> u32 res" where
  "mode_set cpsr mode = seq (mode_legal mode) (\<lambda>_. seq (bits_clr cpsr 0 4) (\<lambda>c. Inr (c OR mode)))"

definition cpsr_clear_carry :: "u32 \<Rightarrow> u32 res" where
  "cpsr_clear_carry cpsr = bits_clr cpsr 28 31"

definition mode_str :: "u32 \<Rightarrow> string res" where
  "mode_str cpsr =
     seq (mode_get cpsr) (\<lambda>m.
     if m = USER_MODE then Inr ''USER MODE''
     else if m = FIQ_MODE then Inr ''FIQ MODE''
     else if m = IRQ_MODE then Inr ''IRQ MODE''
     else if m = SUPER_MODE then Inr ''SUPER MODE''
     else if m = ABORT_MODE then Inr ''ABORT MODE''
     else if m = UNDEF_MODE then Inr ''UNDEF MODE''
     else if m = SYS_MODE then Inr ''SYS MODE''
     else Inl Panic)"

definition cpsr_inherit :: "u32 \<Rightarrow> u32 \<Rightarrow> u32 res" where
  "cpsr_inherit mode cpsr =
     seq (mode_legal mode) (\<lambda>_. seq (cpsr_clear_carry cpsr) (\<lambda>c. mode_set c mode))"

section \<open>The coprocessor\<close>

datatype cpreg = DSCR | WCR0 | WVR0 | BCR0 | BVR0 | WFAR | DFSR | IFSR | IFAR

record 'd coproc =
  mrc :: "cpreg \<Rightarrow> ('d, u32) io"
  mcr :: "cpreg \<Rightarrow> u32 \<Rightarrow> ('d, unit) io"
  flush_prefetch :: "('d, unit) io"
  single_step_on_p :: "('d, bool) io"
  set_single_step_on_p :: "bool \<Rightarrow> ('d, unit) io"

definition coproc_mk_set :: "'d coproc \<Rightarrow> cpreg \<Rightarrow> u32 \<Rightarrow> ('d, unit) io" where
  "coproc_mk_set C r v = thn (mcr C r v) (flush_prefetch C)"

definition coproc_mk_get :: "'d coproc \<Rightarrow> cpreg \<Rightarrow> ('d, u32) io" where
  "coproc_mk_get C r = mrc C r"

definition cp14_is_enabled :: "'d coproc \<Rightarrow> ('d, bool) io" where
  "cp14_is_enabled C = bnd (coproc_mk_get C DSCR) (\<lambda>val. ret (shr val 15 AND 0x1 = 1))"

definition cp14_enable :: "'d coproc \<Rightarrow> ('d, unit) io" where
  "cp14_enable C =
     bnd (cp14_is_enabled C) (\<lambda>on. if on then ret () else
     bnd (coproc_mk_get C DSCR) (\<lambda>val.
     let mask = shl 0x3 14; val = val AND NOT mask; val = val OR shl 0x2 14 in
     thn (coproc_mk_set C DSCR val) (asserts (cp14_is_enabled C))))"

definition cp14_disable :: "'d coproc \<Rightarrow> ('d, unit) io" where
  "cp14_disable C =
     bnd (cp14_is_enabled C) (\<lambda>on. if \<not> on then ret () else
     bnd (coproc_mk_get C DSCR) (\<lambda>val.
     let mask = shl 1 15; val = val AND NOT mask in
     thn (coproc_mk_set C DSCR val) (asserts (negated (cp14_is_enabled C)))))"

text \<open>Bit 0 of a control register enables its breakpoint or watchpoint.\<close>

definition cp14_bcr0_is_enabled :: "'d coproc \<Rightarrow> ('d, bool) io" where
  "cp14_bcr0_is_enabled C = bnd (coproc_mk_get C BCR0) (\<lambda>val. ret (val AND 0x1 = 1))"

definition cp14_bcr0_enable :: "'d coproc \<Rightarrow> ('d, unit) io" where
  "cp14_bcr0_enable C = bnd (coproc_mk_get C BCR0) (\<lambda>val. coproc_mk_set C BCR0 (val OR 0x1))"

definition cp14_bcr0_disable :: "'d coproc \<Rightarrow> ('d, unit) io" where
  "cp14_bcr0_disable C = bnd (coproc_mk_get C BCR0) (\<lambda>val. coproc_mk_set C BCR0 (val AND NOT 0x1))"

definition was_brkpt_fault :: "'d coproc \<Rightarrow> ('d, bool) io" where
  "was_brkpt_fault C =
     bnd (coproc_mk_get C IFSR) (\<lambda>val.
     if val AND 0xF = 2 then bnd (coproc_mk_get C DSCR) (\<lambda>val. ret (shr val 2 AND 0xF = 1)) else ret False)"

definition datafault_from_ld :: "'d coproc \<Rightarrow> ('d, bool) io" where
  "datafault_from_ld C = bnd (coproc_mk_get C DFSR) (\<lambda>val. ret (shr val 11 AND 1 = 0))"

definition datafault_from_st :: "'d coproc \<Rightarrow> ('d, bool) io" where
  "datafault_from_st C = negated (datafault_from_ld C)"

definition was_watchpt_fault :: "'d coproc \<Rightarrow> ('d, bool) io" where
  "was_watchpt_fault C =
     bnd (coproc_mk_get C DFSR) (\<lambda>val.
     if val AND 0xF = 2 then bnd (coproc_mk_get C DSCR) (\<lambda>val. ret (shr val 2 AND 0xF = 2)) else ret False)"

definition cp14_wcr0_is_enabled :: "'d coproc \<Rightarrow> ('d, bool) io" where
  "cp14_wcr0_is_enabled C = bnd (coproc_mk_get C WCR0) (\<lambda>val. ret (val AND 0x1 = 1))"

definition cp14_wcr0_enable :: "'d coproc \<Rightarrow> ('d, unit) io" where
  "cp14_wcr0_enable C = bnd (coproc_mk_get C WCR0) (\<lambda>val. coproc_mk_set C WCR0 (val OR 0x1))"

definition cp14_wcr0_disable :: "'d coproc \<Rightarrow> ('d, unit) io" where
  "cp14_wcr0_disable C = bnd (coproc_mk_get C WCR0) (\<lambda>val. coproc_mk_set C WCR0 (val AND NOT 0x1))"

definition watchpt_fault_pc :: "'d coproc \<Rightarrow> ('d, u32) io" where
  "watchpt_fault_pc C = bnd (coproc_mk_get C WFAR) (\<lambda>val. ret (val - 0x8))"

section \<open>Switching\<close>

text \<open>A register block holds 17 words; 13, 14, 15 and 16 are the stack pointer, link register, program counter and
  status. The model of \<open>switchto\<close> returns the block that the processor goes on with.\<close>

type_synonym regs_t = "u32 list"

definition switchto :: "regs_t \<Rightarrow> ('d, regs_t) io" where
  "switchto r = bnd (lft (mode_get (r ! 16))) (\<lambda>_. ret r)"

definition switchto_cswitch :: "u32 \<Rightarrow> regs_t \<Rightarrow> ('d, regs_t) io" where
  "switchto_cswitch cpsr_get r =
     bnd (lft (mode_get cpsr_get)) (\<lambda>m. thn (check (m \<noteq> USER_MODE) Assert_fail) (switchto r))"

text \<open>\<open>priv_get\<close> is \<open>priv_get_sp_lr_asm\<close>: the stack pointer and link register of a mode.\<close>

definition mode_get_sp_lr :: "(u32 \<Rightarrow> ('d, u32 \<times> u32) io) \<Rightarrow> regs_t \<Rightarrow> ('d, regs_t) io" where
  "mode_get_sp_lr priv_get r =
     (let mode = r ! 16 in
      bnd (lft (mode_get mode)) (\<lambda>m. thn (check (m \<noteq> USER_MODE) Panic)
     (bnd (priv_get mode) (\<lambda>(sp, lr). ret (r[13 := sp, 14 := lr])))))"

definition set_regs :: "(nat \<times> u32) list \<Rightarrow> regs_t" where
  "set_regs us = foldl (\<lambda>r (i, v). r[i := v]) (replicate 17 0) us"

definition switchto_mk :: "u32 \<Rightarrow> u32 \<Rightarrow> u32 \<Rightarrow> u32 \<Rightarrow> regs_t" where
  "switchto_mk fn sp cpsr on_exit = set_regs [(15, fn), (13, sp), (14, on_exit), (16, cpsr)]"

section \<open>Watchpoints\<close>

record watch_fault_t =
  wf_pc :: u32
  wf_addr :: u32
  wf_is_load :: bool
  wf_regs :: regs_t

definition watch_fault_mk :: "u32 \<Rightarrow> u32 \<Rightarrow> bool \<Rightarrow> regs_t \<Rightarrow> watch_fault_t" where
  "watch_fault_mk fault_pc fault_addr is_load_p regs =
     \<lparr>wf_pc = fault_pc, wf_addr = fault_addr, wf_is_load = is_load_p, wf_regs = regs\<rparr>"

text \<open>\<open>while((val & 0x1) != 1)\<close> does not end for 0; \<open>k\<close> rounds are allowed.\<close>

fun lowest_set :: "nat \<Rightarrow> u32 \<Rightarrow> u32 \<Rightarrow> u32 res" where
  "lowest_set 0 val shift = (if val AND 0x1 = 1 then Inr shift else Inl Stuck)"
| "lowest_set (Suc k) val shift =
     (if val AND 0x1 = 1 then Inr shift else lowest_set k (shr val 1) (shift + 1))"

text \<open>\<open>h\<close> is the client's handler, with its data; it may change the registers, to which the code then switches. The
  result is the register block that is switched to.\<close>

definition watchpt_fault :: "'d coproc \<Rightarrow> (watch_fault_t \<Rightarrow> ('d, regs_t) io) option \<Rightarrow> regs_t \<Rightarrow> ('d, regs_t) io" where
  "watchpt_fault C h r =
     thn (bnd (was_brkpt_fault C) (\<lambda>b. check (\<not> b) Panic))
    (thn (bnd (was_watchpt_fault C) (\<lambda>w. check w Panic))
    (case h of None \<Rightarrow> fails Panic
     | Some watchpt_handler \<Rightarrow>
         bnd (coproc_mk_get C WCR0) (\<lambda>wcr.
         bnd (lft (lowest_set 4 (shr wcr 5 AND 0xF) 0)) (\<lambda>shift.
         bnd (coproc_mk_get C WVR0) (\<lambda>wvr.
         bnd (watchpt_fault_pc C) (\<lambda>pc.
         bnd (datafault_from_ld C) (\<lambda>ld.
         bnd (watchpt_handler (watch_fault_mk pc (wvr + shift) ld r)) switchto)))))))"

definition mini_watch_addr :: "'d coproc \<Rightarrow> u32 \<Rightarrow> ('d, unit) io" where
  "mini_watch_addr C addr =
     bnd (coproc_mk_get C WCR0) (\<lambda>b.
     let b = b AND NOT (shl 1 20);
         b = b OR 0x1;
         b = b AND NOT (shl 0xF 5);
         shift = (addr mod 4) + 5;
         b = b OR shl 1 shift;
         b = b OR shl 0x3 3;
         b = b AND NOT (shl 0x3 14);
         b = b OR shl 0x3 1
     in thn (check (b \<noteq> 0) Panic)
       (thn (coproc_mk_set C WCR0 b)
       (thn (coproc_mk_set C WVR0 addr)
       (asserts (cp14_wcr0_is_enabled C)))))"

definition mini_watch_disable :: "'d coproc \<Rightarrow> u32 \<Rightarrow> ('d, unit) io" where
  "mini_watch_disable C addr = cp14_wcr0_disable C"

definition mini_watch_enabled :: "'d coproc \<Rightarrow> ('d, bool) io" where
  "mini_watch_enabled C = cp14_wcr0_is_enabled C"

definition mini_watch_is_fault :: "'d coproc \<Rightarrow> ('d, bool) io" where
  "mini_watch_is_fault C = was_watchpt_fault C"

text \<open>\<open>install\<close> is \<open>full_except_install(0)\<close> with the registration of the handler.\<close>

definition mini_watch_init :: "'d coproc \<Rightarrow> ('d, unit) io \<Rightarrow> ('d, unit) io" where
  "mini_watch_init C install =
     run_all [install, cp14_enable C, asserts (negated (cp14_bcr0_is_enabled C)), asserts (negated (cp14_bcr0_is_enabled C))]"

section \<open>Single stepping\<close>

text \<open>\<open>single_step_on_p\<close> is a static variable of \<open>mini-step.c\<close>; it is read and written like a register.\<close>

definition mismatch_pc_set :: "'d coproc \<Rightarrow> u32 \<Rightarrow> ('d, u32) io" where
  "mismatch_pc_set C pc =
     thn (asserts (single_step_on_p C))
    (bnd (coproc_mk_get C BVR0) (\<lambda>old_pc.
     bnd (coproc_mk_get C BCR0) (\<lambda>b.
     let b = b AND NOT (shl 0x7 20);
         b = b AND NOT (shl 0x3 14);
         b = b AND NOT (shl 0xF 5);
         b = b OR shl 0x4 20;
         b = b OR shl 0xF 5;
         b = b OR 0x7
     in thn (check (b \<noteq> 0) Panic)
       (thn (coproc_mk_set C BCR0 b)
       (thn (coproc_mk_set C BVR0 pc)
       (thn (asserts (cp14_bcr0_is_enabled C))
       (thn (flush_prefetch C)
       (bnd (coproc_mk_get C BVR0) (\<lambda>v.
        thn (check (v = pc) Assert_fail) (ret old_pc))))))))))"

definition mismatch_on :: "'d coproc \<Rightarrow> ('d, unit) io" where
  "mismatch_on C =
     run_all [asserts (negated (single_step_on_p C)), set_single_step_on_p C True, cp14_enable C,
       void (mismatch_pc_set C 0)]"

definition mismatch_off :: "'d coproc \<Rightarrow> ('d, unit) io" where
  "mismatch_off C =
     run_all [asserts (single_step_on_p C), set_single_step_on_p C False, cp14_bcr0_disable C, flush_prefetch C]"

record step_fault_t =
  sf_pc :: u32
  sf_regs :: regs_t

definition step_fault_mk :: "u32 \<Rightarrow> regs_t \<Rightarrow> step_fault_t" where
  "step_fault_mk fault_pc regs = \<lparr>sf_pc = fault_pc, sf_regs = regs\<rparr>"

text \<open>A handler ends by switching away (\<open>Inl\<close>), or returns with the saved registers, which it may have changed (\<open>Inr\<close>).
  \<open>can_put8\<close> is \<open>uart_can_put8\<close> and \<open>k\<close> the rounds of the wait for it.\<close>

definition mismatch_run :: "'d coproc \<Rightarrow> ('d, bool) io \<Rightarrow> nat \<Rightarrow> regs_t \<Rightarrow> ('d, regs_t) io" where
  "mismatch_run C can_put8 k r =
     (let pc = r ! 15 in thn (void (mismatch_pc_set C pc)) (thn (poll k can_put8) (switchto r)))"

definition mismatch_fault :: "'d coproc \<Rightarrow> ('d, bool) io \<Rightarrow> nat \<Rightarrow> u32 \<Rightarrow> regs_t \<Rightarrow>
    (step_fault_t \<Rightarrow> ('d, 'x + regs_t) io) \<Rightarrow> regs_t \<Rightarrow> ('d, 'x + regs_t) io" where
  "mismatch_fault C can_put8 k ss_on_exit start_regs step_handler r =
     (let pc = r ! 15 in
      if pc = ss_on_exit then bnd (switchto start_regs) (\<lambda>r. ret (Inr r))
      else bnd (step_handler (step_fault_mk pc r)) (\<lambda>res. case res of
          Inl x \<Rightarrow> ret (Inl x)
        | Inr r \<Rightarrow> thn (void (mismatch_pc_set C pc)) (thn (poll k can_put8) (bnd (switchto r) (\<lambda>r. ret (Inr r))))))"

definition mini_step_init :: "'d coproc \<Rightarrow> 'h option \<Rightarrow> ('d, unit) io \<Rightarrow> ('d, unit) io" where
  "mini_step_init C h install =
     run_all [cp14_enable C, check (h \<noteq> None) Assert_fail, install, asserts (negated (cp14_bcr0_is_enabled C)), asserts (negated (cp14_bcr0_is_enabled C))]"

text \<open>\<open>stack\<close> is the block that \<open>kmalloc\<close> returned, \<open>run\<close> executes the traced code from a register block until the fault
  routine switches back.\<close>

definition mini_step_run :: "'d coproc \<Rightarrow> u32 \<Rightarrow> u32 \<Rightarrow> u32 \<Rightarrow> (regs_t \<Rightarrow> ('d, unit) io) \<Rightarrow> u32 \<Rightarrow> u32 \<Rightarrow> ('d, u32) io" where
  "mini_step_run C stack cpsr_get ss_on_exit run fn arg =
     (let sp = stack + 8192 * 4 in
      bnd (lft (cpsr_inherit USER_MODE cpsr_get)) (\<lambda>cpsr.
      bnd (lft (mode_get cpsr)) (\<lambda>m.
      thn (check (m = USER_MODE) Assert_fail)
     (let r = set_regs [(15, fn), (13, sp), (14, ss_on_exit), (16, cpsr)] in
      thn (mismatch_on C)
     (bnd (switchto_cswitch cpsr_get r) (\<lambda>next_regs.
      thn (run next_regs)
     (thn (mismatch_off C)
     (ret (r ! 0)))))))))"


section \<open>What the code relies on\<close>

text \<open>The registers and the variable \<open>single_step_on_p\<close>. A write changes the bits of a register that the manual of the
  processor names as writable.\<close>

record dbg =
  dregs :: "cpreg \<Rightarrow> u32"
  step_on :: bool

fun cp_store :: "cpreg \<Rightarrow> u32 \<Rightarrow> u32 \<Rightarrow> u32" where
  "cp_store DSCR v old = (v AND 0xFC00) OR (old AND NOT 0xFC00)"
| "cp_store BCR0 v old = v AND 0x007FC1E7"
| "cp_store WCR0 v old = v AND 0x001FC1FF"
| "cp_store WVR0 v old = v AND NOT 0x3"
| "cp_store BVR0 v old = v AND NOT 0x3"
| "cp_store r v old = v"

definition cp_write :: "cpreg \<Rightarrow> u32 \<Rightarrow> dbg \<Rightarrow> dbg" where
  "cp_write r v s = s\<lparr>dregs := (dregs s)(r := cp_store r v (dregs s r))\<rparr>"

lemma cp_write_simps [simp]:
  "dregs (cp_write r v s) q = (if q = r then cp_store r v (dregs s r) else dregs s q)"
  "step_on (cp_write r v s) = step_on s"
  by (simp_all add: cp_write_def)

text \<open>The values that the code writes and the registers keep.\<close>

lemmas hw_masks = shl_def word_ao_dist and.assoc or.assoc

lemma or_absorb: "q OR c = c \<Longrightarrow> ((b :: u32) AND (p OR q)) OR c = (b AND p) OR c"
  by (auto simp: bits_of bit_eq_iff)

lemma bcr0_value:
  "cp_store BCR0 (((((b AND NOT (shl 0x7 20)) AND NOT (shl 0x3 14)) AND NOT (shl 0xF 5) OR shl 0x4 20) OR shl 0xF 5) OR 0x7) x =
   (b AND 0xF0000) OR 0x4001E7"
  using or_absorb [of 7 "0x4001E7" b "0xF0000"] by (simp add: hw_masks)

lemma or_7_nonzero: "x OR 0x7 \<noteq> (0 :: u32)"
proof -
  have "bit (x OR 0x7) 0" by (simp add: bit_or_iff)
  then show ?thesis by auto
qed

lemma dscr_value: "cp_store DSCR (b AND NOT (shl 0x3 14) OR shl 0x2 14) b = (b AND NOT 0xC000) OR 0x8000"
proof -
  have "cp_store DSCR (b AND NOT (shl 0x3 14) OR shl 0x2 14) b = (b AND 0x3C00) OR 0x8000 OR (b AND NOT 0xFC00)"
    by (simp add: hw_masks)
  also have "\<dots> = ((b AND 0x3C00) OR (b AND NOT 0xFC00)) OR 0x8000"
    by (simp only: or.assoc or.commute [of "0x8000"])
  also have "(b AND 0x3C00) OR (b AND NOT 0xFC00) = b AND NOT 0xC000"
    by (simp flip: word_ao_dist2)
  finally show ?thesis .
qed

definition watch_bits :: "u32 \<Rightarrow> u32 \<Rightarrow> u32" where
  "watch_bits a b = (((((b AND NOT (shl 1 20)) OR 0x1) AND NOT (shl 0xF 5) OR shl 1 (a mod 4 + 5)) OR shl 0x3 3)
     AND NOT (shl 0x3 14)) OR shl 0x3 1"

lemma mod4: "(a :: u32) mod 4 \<in> {0, 1, 2, 3}"
proof -
  have "unat (a mod 4) < 4" by (simp add: unat_mod)
  then have "unat (a mod 4) = 0 \<or> unat (a mod 4) = 1 \<or> unat (a mod 4) = 2 \<or> unat (a mod 4) = 3" by auto
  then show ?thesis by (auto simp: word_unat_eq_iff unat_mod)
qed

lemma watch_values:
  "a mod 4 = 0 \<Longrightarrow> shr (cp_store WCR0 (watch_bits a b) x) 5 AND 0xF = 1"
  "a mod 4 = 1 \<Longrightarrow> shr (cp_store WCR0 (watch_bits a b) x) 5 AND 0xF = 2"
  "a mod 4 = 2 \<Longrightarrow> shr (cp_store WCR0 (watch_bits a b) x) 5 AND 0xF = 4"
  "a mod 4 = 3 \<Longrightarrow> shr (cp_store WCR0 (watch_bits a b) x) 5 AND 0xF = 8"
  by (simp_all add: watch_bits_def hw_masks shr_def)

lemma lowest_set_values:
  "lowest_set 4 1 0 = Inr 0" "lowest_set 4 2 0 = Inr 1" "lowest_set 4 4 0 = Inr 2" "lowest_set 4 8 0 = Inr 3"
proof -
  have four: "4 = Suc (Suc (Suc (Suc 0)))" and shr: "shr 2 1 = 1" "shr 4 1 = 2" "shr 8 1 = 4" by (simp_all add: shr_def)
  show "lowest_set 4 1 0 = Inr 0" "lowest_set 4 2 0 = Inr 1" "lowest_set 4 4 0 = Inr 2" "lowest_set 4 8 0 = Inr 3"
    unfolding four by (simp_all add: shr)
qed

text \<open>The loop of \<open>watchpt_fault\<close> finds the byte that \<open>mini_watch_addr\<close> selected.\<close>

lemma lowest_set_watch: "lowest_set 4 (shr (cp_store WCR0 (watch_bits a b) x) 5 AND 0xF) 0 = Inr (a mod 4)"
  using mod4 [of a] by (elim insertE) (simp_all only: watch_values lowest_set_values, simp)

lemma watch_bits_on: "cp_store WCR0 (watch_bits a b) x AND 0x1 = 1" "watch_bits a b \<noteq> 0"
proof -
  show on: "cp_store WCR0 (watch_bits a b) x AND 0x1 = 1"
    using mod4 [of a] by (elim insertE) (simp_all add: watch_bits_def hw_masks)
  show "watch_bits a b \<noteq> 0"
  proof
    assume "watch_bits a b = 0"
    with on show False by simp
  qed
qed

lemma word_split4: "(a AND NOT 0x3) + a mod 4 = (a :: u32)"
  using word_and_not_mask [of a 2] word_mod_2p_is_mask [of 2 a] by (simp add: mask_eq_exp_minus_1)


locale debug_cp =
  fixes C :: "'d coproc" and st :: "'d \<Rightarrow> dbg"
  assumes cp_get: "acts st (mrc C r) (\<lambda>s. dregs s r) (\<lambda>s. s)"
    and cp_set: "acts st (mcr C r v) (\<lambda>_. ()) (cp_write r v)"
    and cp_flush: "acts st (flush_prefetch C) (\<lambda>_. ()) (\<lambda>s. s)"
    and on_get: "acts st (single_step_on_p C) step_on (\<lambda>s. s)"
    and on_set: "acts st (set_single_step_on_p C b) (\<lambda>_. ()) (step_on_update (\<lambda>_. b))"
begin

lemma wp_cp_get [wp_rules]: "Q (dregs s r) s \<Longrightarrow> wp st (coproc_mk_get C r) Q E s"
  unfolding coproc_mk_get_def by (rule wp_acts [OF cp_get])

lemma wp_cp_set [wp_rules]: "Q () (cp_write r v s) \<Longrightarrow> wp st (coproc_mk_set C r v) Q E s"
  unfolding coproc_mk_set_def by (rule wp_thn, rule wp_acts [OF cp_set], rule wp_acts [OF cp_flush])

lemma wp_flush [wp_rules]: "Q () s \<Longrightarrow> wp st (flush_prefetch C) Q E s"
  by (rule wp_acts [OF cp_flush])

lemma wp_on_get [wp_rules]: "Q (step_on s) s \<Longrightarrow> wp st (single_step_on_p C) Q E s"
  by (rule wp_acts [OF on_get])

lemma wp_on_set [wp_rules]: "Q () (s\<lparr>step_on := b\<rparr>) \<Longrightarrow> wp st (set_single_step_on_p C b) Q E s"
  by (rule wp_acts [OF on_set])

lemma wp_dscr_on [wp_rules]: "Q (shr (dregs s DSCR) 15 AND 0x1 = 1) s \<Longrightarrow> wp st (cp14_is_enabled C) Q E s"
  unfolding cp14_is_enabled_def by (intro wp_rules)

lemma wp_bcr0_on [wp_rules]: "Q (dregs s BCR0 AND 0x1 = 1) s \<Longrightarrow> wp st (cp14_bcr0_is_enabled C) Q E s"
  unfolding cp14_bcr0_is_enabled_def by (intro wp_rules)

lemma wp_wcr0_on [wp_rules]: "Q (dregs s WCR0 AND 0x1 = 1) s \<Longrightarrow> wp st (cp14_wcr0_is_enabled C) Q E s"
  unfolding cp14_wcr0_is_enabled_def by (intro wp_rules)

end

definition mode_ok :: "regs_t \<Rightarrow> bool" where
  "mode_ok r \<longleftrightarrow> (case mode_get (r ! 16) of Inl _ \<Rightarrow> False | Inr _ \<Rightarrow> True)"

lemma wp_switchto: "mode_ok r \<Longrightarrow> Q r s \<Longrightarrow> wp st (switchto r) Q E s"
  unfolding switchto_def mode_ok_def by (cases "mode_get (r ! 16)") (auto intro!: wp_bnd wp_ret)

text \<open>The state in which the processor steps off \<open>pc\<close>: breakpoint 0 is on, for user code, as a mismatch of
  \<open>pc\<close>.\<close>

definition mismatch_at :: "u32 \<Rightarrow> dbg \<Rightarrow> dbg" where
  "mismatch_at pc s = s\<lparr>dregs := (dregs s)(BCR0 := (dregs s BCR0 AND 0xF0000) OR 0x4001E7, BVR0 := pc)\<rparr>"

definition monitor_on :: "dbg \<Rightarrow> dbg" where
  "monitor_on s = (if shr (dregs s DSCR) 15 AND 0x1 = 1 then s
     else s\<lparr>dregs := (dregs s)(DSCR := (dregs s DSCR AND NOT 0xC000) OR 0x8000)\<rparr>)"

definition watched :: "u32 \<Rightarrow> dbg \<Rightarrow> dbg" where
  "watched a s = cp_write WVR0 a (cp_write WCR0 (watch_bits a (dregs s WCR0)) s)"

text \<open>The processor reports a watchpoint.\<close>

definition watch_abort :: "dbg \<Rightarrow> bool" where
  "watch_abort s \<longleftrightarrow> dregs s DFSR AND 0xF = 2 \<and> shr (dregs s DSCR) 2 AND 0xF = 2"

definition word_aligned :: "u32 \<Rightarrow> bool" where
  "word_aligned a \<longleftrightarrow> a AND NOT 0x3 = a"

context debug_cp
begin

lemma bcr0_on: "(((b :: u32) AND 0xF0000) OR 0x4001E7) AND 0x1 = 1"
  by (simp add: hw_masks)

lemma wp_mismatch_pc_set:
  assumes "step_on s" "word_aligned pc" "Q (dregs s BVR0) (mismatch_at pc s)"
  shows "wp st (mismatch_pc_set C pc) Q E s"
proof -
  let ?b = "(((((dregs s BCR0 AND NOT (shl 0x7 20)) AND NOT (shl 0x3 14)) AND NOT (shl 0xF 5)) OR shl 0x4 20) OR shl 0xF 5) OR 0x7"
  have v: "cp_store BCR0 ?b x = (dregs s BCR0 AND 0xF0000) OR 0x4001E7" for x by (rule bcr0_value)
  have nz: "?b \<noteq> 0" by (rule or_7_nonzero)
  have fin: "cp_write BVR0 pc (cp_write BCR0 ?b s) = mismatch_at pc s"
    using assms(2) by (simp add: cp_write_def mismatch_at_def word_aligned_def v del: cp_store.simps(2))
  have at: "dregs (mismatch_at pc s) BCR0 AND 1 = 1" "dregs (mismatch_at pc s) BVR0 = pc"
    by (simp_all add: mismatch_at_def bcr0_on)
  show ?thesis
    unfolding mismatch_pc_set_def Let_def
    by (intro wp_rules conjI) (use assms fin nz at in simp_all)
qed

lemma wp_cp14_enable:
  assumes "Q () (monitor_on s)"
  shows "wp st (cp14_enable C) Q E s"
proof -
  let ?v = "dregs s DSCR"
  have "wp st (thn (coproc_mk_set C DSCR (?v AND NOT (shl 0x3 14) OR shl 0x2 14)) (asserts (cp14_is_enabled C))) Q E s"
    if off: "shr ?v 15 AND 0x1 \<noteq> 1"
  proof -
    have "monitor_on s = cp_write DSCR (?v AND NOT (shl 0x3 14) OR shl 0x2 14) s"
      using off by (simp add: monitor_on_def cp_write_def dscr_value del: cp_store.simps(1))
    moreover have "shr ((?v AND NOT 0xC000) OR 0x8000) 15 AND 0x1 = 1"
      by (simp add: shr_def hw_masks)
    ultimately show ?thesis
      using assms by (intro wp_rules conjI) (simp_all add: dscr_value del: cp_store.simps(1))
  qed
  moreover have "monitor_on s = s" if "shr ?v 15 AND 0x1 = 1" using that by (simp add: monitor_on_def)
  ultimately show ?thesis
    unfolding cp14_enable_def Let_def using assms
    by - (rule wp_bnd, rule wp_dscr_on, rule wp_if, rule wp_ret, simp, rule wp_bnd, rule wp_cp_get)
qed

lemma wp_mini_watch_addr:
  assumes "Q () (watched a s)"
  shows "wp st (mini_watch_addr C a) Q E s"
proof -
  have "wp st (thn (check (watch_bits a (dregs s WCR0) \<noteq> 0) Panic)
       (thn (coproc_mk_set C WCR0 (watch_bits a (dregs s WCR0)))
       (thn (coproc_mk_set C WVR0 a) (asserts (cp14_wcr0_is_enabled C))))) Q E s"
    using assms watch_bits_on [of a "dregs s WCR0"]
    by (intro wp_rules conjI) (simp_all add: watched_def del: cp_store.simps(3))
  then show ?thesis
    unfolding mini_watch_addr_def Let_def watch_bits_def [symmetric] by - (rule wp_bnd, rule wp_cp_get)
qed

lemma wp_was_brkpt: "Q (dregs s IFSR AND 0xF = 2 \<and> shr (dregs s DSCR) 2 AND 0xF = 1) s \<Longrightarrow> wp st (was_brkpt_fault C) Q E s"
  unfolding was_brkpt_fault_def by (intro wp_rules) simp_all

lemma wp_was_watchpt: "Q (watch_abort s) s \<Longrightarrow> wp st (was_watchpt_fault C) Q E s"
  unfolding was_watchpt_fault_def watch_abort_def by (intro wp_rules) simp_all

lemma wp_fault_pc: "Q (dregs s WFAR - 0x8) s \<Longrightarrow> wp st (watchpt_fault_pc C) Q E s"
  unfolding watchpt_fault_pc_def by (intro wp_rules)

lemma wp_from_ld: "Q (shr (dregs s DFSR) 11 AND 1 = 0) s \<Longrightarrow> wp st (datafault_from_ld C) Q E s"
  unfolding datafault_from_ld_def by (intro wp_rules)

lemma wp_watchpt_fault:
  assumes "dregs s WCR0 = dregs (watched a s0) WCR0" "dregs s WVR0 = dregs (watched a s0) WVR0" "watch_abort s"
    and h: "wp st (h (watch_fault_mk (dregs s WFAR - 0x8) a (shr (dregs s DFSR) 11 AND 1 = 0) r))
      (\<lambda>v s. mode_ok v \<and> Q v s) E s"
  shows "wp st (watchpt_fault C (Some h) r) Q E s"
proof -
  have "lowest_set 4 (shr (dregs s WCR0) 5 AND 0xF) 0 = Inr (a mod 4)"
    using assms(1) by (simp add: watched_def lowest_set_watch del: cp_store.simps(3))
  moreover have "dregs s WVR0 + a mod 4 = a"
    using assms(2) word_split4 [of a] by (simp add: watched_def)
  then have "wp st (h (watch_fault_mk (dregs s WFAR - 0x8) (dregs s WVR0 + a mod 4) (shr (dregs s DFSR) 11 AND 1 = 0) r))
      (\<lambda>v s. mode_ok v \<and> Q v s) E s"
    using h by (simp only:)
  then have "wp st (h (watch_fault_mk (dregs s WFAR - 0x8) (dregs s WVR0 + a mod 4) (shr (dregs s DFSR) 11 AND 1 = 0) r))
      (\<lambda>x. wp st (switchto x) Q E) E s"
    by (rule wp_conseq) (auto intro: wp_switchto)
  ultimately show ?thesis
    unfolding watchpt_fault_def option.case
    using assms(3)
    by (intro wp_lft wp_thn wp_bnd wp_was_brkpt wp_was_watchpt wp_cp_get wp_check wp_fault_pc wp_from_ld)
      (simp_all add: watch_abort_def)
qed

lemma wp_mismatch_on:
  assumes "\<not> step_on s" "Q () (mismatch_at 0 (monitor_on (s\<lparr>step_on := True\<rparr>)))"
  shows "wp st (mismatch_on C) Q E s"
proof -
  have on: "step_on (monitor_on (s\<lparr>step_on := True\<rparr>))" by (simp add: monitor_on_def)
  show ?thesis
    unfolding mismatch_on_def using assms on
    by (intro wp_run_all_Cons wp_run_all_Nil wp_asserts wp_negated wp_on_get wp_on_set wp_cp14_enable wp_void
        wp_mismatch_pc_set conjI) (simp_all add: word_aligned_def)
qed

lemma wp_mismatch_off:
  assumes "step_on s" "\<And>t. \<not> step_on t \<Longrightarrow> dregs t BCR0 AND 0x1 = 0 \<Longrightarrow> Q () t"
  shows "wp st (mismatch_off C) Q E s"
proof -
  have "(b AND NOT 0x1) AND 0x007FC1E7 AND 0x1 = (0 :: u32)" for b by (simp add: and.assoc)
  then show ?thesis
    unfolding mismatch_off_def cp14_bcr0_disable_def using assms
    by (intro wp_run_all_Cons wp_run_all_Nil wp_asserts wp_on_get wp_on_set wp_flush wp_bnd wp_cp_get wp_cp_set conjI)
      (simp_all add: and.assoc)
qed

lemma wp_mismatch_run:
  assumes "step_on s" "word_aligned (r ! 15)" "mode_ok r" "wp st (poll k can_put8) (\<lambda>_. Q r) E (mismatch_at (r ! 15) s)"
  shows "wp st (mismatch_run C can_put8 k r) Q E s"
  unfolding mismatch_run_def Let_def
  by (intro wp_thn wp_void wp_mismatch_pc_set assms wp_conseq [OF assms(4)] wp_switchto)

lemma wp_mismatch_fault:
  assumes "r ! 15 \<noteq> ex" "word_aligned (r ! 15)"
    and "wp st (h (step_fault_mk (r ! 15) r)) (\<lambda>res s. case res of Inl x \<Rightarrow> Q (Inl x) s
      | Inr r' \<Rightarrow> mode_ok r' \<and> step_on s \<and> wp st (poll k can_put8) (\<lambda>_. Q (Inr r')) E (mismatch_at (r ! 15) s)) E s"
  shows "wp st (mismatch_fault C can_put8 k ex start h r) Q E s"
proof -
  have "wp st (case res of Inl x \<Rightarrow> ret (Inl x)
      | Inr r' \<Rightarrow> thn (void (mismatch_pc_set C (r ! 15))) (thn (poll k can_put8) (bnd (switchto r') (\<lambda>r. ret (Inr r))))) Q E t"
    if "case res of Inl x \<Rightarrow> Q (Inl x) t
      | Inr r' \<Rightarrow> mode_ok r' \<and> step_on t \<and> wp st (poll k can_put8) (\<lambda>_. Q (Inr r')) E (mismatch_at (r ! 15) t)" for res t
    using that assms(2)
    by (auto split: sum.splits intro!: wp_thn wp_bnd wp_switchto wp_void wp_mismatch_pc_set intro: wp_ret elim!: wp_conseq)
  then show ?thesis
    using assms(1) unfolding mismatch_fault_def Let_def by (auto intro!: wp_bnd intro: wp_conseq [OF assms(3)])
qed

end

section \<open>Processor modes, properties\<close>

lemma mode_fits: "mode_legal m = Inr () \<Longrightarrow> m AND 0x1F = m"
  by (auto simp: mode_legal_def require_def modes split: if_splits)

lemma mode_set_ok: "mode_legal m = Inr () \<Longrightarrow> mode_set c m = Inr ((c AND NOT 0x1F) OR m)"
  by (simp add: mode_set_def bits_clr_ok mask_eq_exp_minus_1 shl_def)

lemma mode_get_set:
  assumes "mode_legal m = Inr ()"
  shows "mode_get ((c AND NOT 0x1F) OR m) = Inr m"
  using assms mode_fits [OF assms]
  by (simp add: mode_get_def bits_get_ok mask_eq_exp_minus_1 shr_def hw_masks)

lemma mode_legal_user: "mode_legal USER_MODE = Inr ()"
  by (simp add: mode_legal_def)

lemma inherit_user: "\<exists>c. cpsr_inherit USER_MODE x = Inr c \<and> mode_get c = Inr USER_MODE"
  using mode_get_set [OF mode_legal_user]
  by (simp add: cpsr_inherit_def mode_legal_user cpsr_clear_carry_def bits_clr_ok mode_set_ok [OF mode_legal_user])

section \<open>A simulated coprocessor\<close>

definition sim_cp :: "dbg coproc" where
  "sim_cp =
     \<lparr>mrc = (\<lambda>r s. Inr (dregs s r, s)), mcr = (\<lambda>r v s. Inr ((), cp_write r v s)), flush_prefetch = ret (),
      single_step_on_p = (\<lambda>s. Inr (step_on s, s)), set_single_step_on_p = (\<lambda>b s. Inr ((), s\<lparr>step_on := b\<rparr>))\<rparr>"

interpretation sim_cp: debug_cp sim_cp id
  by standard (simp_all add: acts_def sim_cp_def ret_def)

section \<open>Properties\<close>

definition user_runs :: "('d \<Rightarrow> dbg) \<Rightarrow> ('d, unit) io \<Rightarrow> bool" where
  "user_runs st run \<longleftrightarrow> (\<forall>s. wp st run (\<lambda>_ s'. dregs s' WCR0 = dregs s WCR0 \<and> dregs s' WVR0 = dregs s WVR0 \<and>
     watch_abort s') never s)"

text \<open>C32. C0: A watchpoint reports the address that it was set on, for every byte address, together with the address of the
  access and its direction: when \<open>mini_watch_addr\<close> has been called for \<open>a\<close>, user code runs without touching the
  watchpoint registers and the processor reports a watchpoint, the fault routine returns what the handler returns for
  \<open>a\<close>. In particular its search for the selected byte ends.\<close>

theorem watch_reports_address:
  assumes "debug_cp C st" "user_runs st run"
    and "\<forall>s. wp st (h (watch_fault_mk (dregs s WFAR - 0x8) a (shr (dregs s DFSR) 11 AND 1 = 0) r))
      (\<lambda>v s. mode_ok v \<and> Q v s) E s"
  shows "wp st (thn (mini_watch_addr C a) (thn run (watchpt_fault C (Some h) r))) Q E s"
proof -
  have "wp st (thn run (watchpt_fault C (Some h) r)) Q E (watched a s)"
  proof (rule wp_thn, rule wp_conseq)
    show "wp st run (\<lambda>_ s'. dregs s' WCR0 = dregs (watched a s) WCR0 \<and> dregs s' WVR0 = dregs (watched a s) WVR0 \<and>
       watch_abort s') never (watched a s)"
      using assms(2) unfolding user_runs_def by blast
  next
    fix x s' assume "dregs s' WCR0 = dregs (watched a s) WCR0 \<and> dregs s' WVR0 = dregs (watched a s) WVR0 \<and> watch_abort s'"
    then show "wp st (watchpt_fault C (Some h) r) Q E s'"
      using assms(3) by (blast intro: debug_cp.wp_watchpt_fault [OF assms(1)])
  qed simp
  then show ?thesis by - (rule wp_thn, rule debug_cp.wp_mini_watch_addr [OF assms(1)])
qed

text \<open>A run of user code that ends in a watchpoint on the simulated coprocessor.\<close>

definition sim_abort :: "(dbg, unit) io" where
  "sim_abort = run_all [mcr sim_cp DFSR 2, mcr sim_cp WFAR 0x8010, (\<lambda>s. Inr ((), s\<lparr>dregs := (dregs s)(DSCR := 8)\<rparr>))]"

lemma watch_reports_address_witness:
  "wp id (thn (mini_watch_addr sim_cp 0x1002) (thn sim_abort (watchpt_fault sim_cp
       (Some (\<lambda>w. ret ((switchto_mk (wf_pc w) 0 0x10 0)[0 := wf_addr w]))) [])))
     (\<lambda>v s. v ! 0 = 0x1002) never \<lparr>dregs = \<lambda>_. 0, step_on = False\<rparr>"
proof (rule watch_reports_address [OF sim_cp.debug_cp_axioms])
  show "user_runs id sim_abort"
    by (simp add: user_runs_def wp_def sim_abort_def thn_def bnd_def ret_def sim_cp_def watch_abort_def shr_def)
  have "mode_ok ((switchto_mk pc 0 0x10 0)[0 := a])" "(switchto_mk pc 0 0x10 0)[0 := a] ! 0 = a" for pc a
    by (simp_all add: mode_ok_def switchto_mk_def set_regs_def mode_get_def bits_get_ok mode_legal_def modes shr_def
        mask_eq_exp_minus_1)
  then show "\<forall>s. wp id (ret ((switchto_mk (wf_pc (watch_fault_mk (dregs s WFAR - 0x8) 0x1002 (shr (dregs s DFSR) 11 AND 1 = 0) []))
       0 0x10 0)[0 := wf_addr (watch_fault_mk (dregs s WFAR - 0x8) 0x1002 (shr (dregs s DFSR) 11 AND 1 = 0) [])]))
      (\<lambda>v s. mode_ok v \<and> v ! 0 = 0x1002) never s"
    by (auto intro!: wp_ret simp: watch_fault_mk_def)
qed

text \<open>C0: \<open>mini_step_run\<close> drops its argument and the result: whatever the traced code does, as long as it comes back, the
  call returns 0, and the argument is never used. Single stepping is off afterwards.\<close>

theorem mini_step_run_drops_arg:
  assumes "debug_cp C st" "\<forall>r s. step_on s \<longrightarrow> wp st (run r) (\<lambda>_. step_on) never s" "\<not> step_on s"
    "mode_get cpsr = Inr m" "m \<noteq> USER_MODE"
  shows "wp st (mini_step_run C stack cpsr ex run fn arg) (\<lambda>v s'. v = 0 \<and> \<not> step_on s') never s \<and>
     mini_step_run C stack cpsr ex run fn arg = mini_step_run C stack cpsr ex run fn arg'"
proof -
  obtain c where c: "cpsr_inherit USER_MODE cpsr = Inr c" "mode_get c = Inr USER_MODE" using inherit_user by blast
  let ?r = "set_regs [(15, fn), (13, stack + 8192 * 4), (14, ex), (16, c)]"
  have r0: "set_regs [(15, fn), (13, x), (14, ex), (16, c)] ! 0 = 0" for x by (simp add: set_regs_def nth_list_update)
  have on: "step_on (mismatch_at 0 (monitor_on (s\<lparr>step_on := True\<rparr>)))" by (simp add: mismatch_at_def monitor_on_def)
  have off: "wp st (thn (mismatch_off C) (ret (?r ! 0))) (\<lambda>v s'. v = 0 \<and> \<not> step_on s') never t" if "step_on t" for t
    using that by (intro wp_thn debug_cp.wp_mismatch_off [OF assms(1)] wp_ret) (simp_all add: r0)
  have sw: "switchto_cswitch cpsr ?r = ret ?r"
    using assms(4,5) c(2) by (simp add: switchto_cswitch_def switchto_def set_regs_def ret_bnd ret_thn)
      (simp add: ret_def fun_eq_iff)
  have "wp st (thn (mismatch_on C) (bnd (switchto_cswitch cpsr ?r) (\<lambda>r'. thn (run r') (thn (mismatch_off C) (ret (?r ! 0))))))
      (\<lambda>v s'. v = 0 \<and> \<not> step_on s') never s"
  proof (rule wp_thn, rule debug_cp.wp_mismatch_on [OF assms(1)])
    show "\<not> step_on s" by (rule assms(3))
    show "wp st (bnd (switchto_cswitch cpsr ?r) (\<lambda>r'. thn (run r') (thn (mismatch_off C) (ret (?r ! 0)))))
        (\<lambda>v s'. v = 0 \<and> \<not> step_on s') never (mismatch_at 0 (monitor_on (s\<lparr>step_on := True\<rparr>)))"
      unfolding sw ret_bnd using assms(2) on off by (blast intro: wp_thn wp_conseq)
  qed
  then show ?thesis
    unfolding mini_step_run_def Let_def by (auto intro!: wp_bnd wp_thn wp_ret simp: c wp_check)
qed

lemma mini_step_run_drops_arg_witness:
  "wp id (mini_step_run sim_cp 0x100000 0x1D3 0x8100 (\<lambda>r. ret ()) 0x8200 5) (\<lambda>v s'. v = 0 \<and> \<not> step_on s') never
     \<lparr>dregs = \<lambda>_. 0, step_on = False\<rparr> \<and>
   mini_step_run sim_cp 0x100000 0x1D3 0x8100 (\<lambda>r. ret ()) 0x8200 5 = mini_step_run sim_cp 0x100000 0x1D3 0x8100 (\<lambda>r. ret ()) 0x8200 6"
proof (rule mini_step_run_drops_arg [OF sim_cp.debug_cp_axioms])
  show "mode_get 0x1D3 = Inr SUPER_MODE"
    by (simp add: mode_get_def bits_get_ok mode_legal_def modes shr_def mask_eq_exp_minus_1)
qed (auto intro: wp_ret simp: modes)

text \<open>FIQ mode is not a legal mode for \<open>mode_legal\<close>, although the processor has it.\<close>

lemma mode_legal_rejects_fiq: "mode_legal FIQ_MODE = Inl Panic"
  by (simp add: mode_legal_def modes require_def)

end
