(* ===== verification/Equiv.thy ===== *)
theory Equiv
  imports Containers LibC DebugHw
begin

unbundle bit_operations_syntax

text \<open>
  Equivalence checking of preemptive threads (\<open>labs/14-ss-equiv-deux/code/equiv-threads.c\<close>): user threads are single
  stepped, every instruction adds the registers to a hash of the thread, every fault switches to the next thread of the
  run queue, and the hash at the exit is compared with the expected one. The queue is that of Containers, the
  breakpoint that of DebugHw. The user code is a parameter.
\<close>

section \<open>Threads\<close>

record eq_th_t =
  eq_regs :: regs_t
  eq_expected_hash :: u32
  eq_reg_hash :: u32
  eq_tid :: u32
  eq_fn :: u32
  eq_arg :: u32
  eq_stack_start :: u32
  eq_stack_end :: u32
  eq_refork_cnt :: u32
  eq_inst_cnt :: u32
  eq_verbose_p :: u32

text \<open>The variables of the module and the threads in memory. The field \<open>next\<close> of the threads is \<open>links\<close>.\<close>

record equiv =
  equiv_runq :: "u32 QE_T"
  links :: "u32 links"
  threads :: "u32 \<Rightarrow> eq_th_t"
  cur_thread :: "u32 option"
  ntids :: u32
  verbose_on :: bool

definition upd_th :: "u32 \<Rightarrow> (eq_th_t \<Rightarrow> eq_th_t) \<Rightarrow> equiv \<Rightarrow> equiv" where
  "upd_th th f S = S\<lparr>threads := (threads S)(th := f (threads S th))\<rparr>"

record 'd uart_if =
  can_put8 :: "('d, bool) io"
  put8 :: "u8 \<Rightarrow> ('d, unit) io"
  flush_tx :: "('d, unit) io"

definition stack_size :: u32 where
  "stack_size = 8192 * 8"

definition equiv_verbose_on :: "equiv \<Rightarrow> equiv" where
  "equiv_verbose_on S = S\<lparr>verbose_on := True\<rparr>"

definition equiv_verbose_off :: "equiv \<Rightarrow> equiv" where
  "equiv_verbose_off S = S\<lparr>verbose_on := False\<rparr>"

text \<open>The routines that switch return the state with the registers that the processor goes on with.\<close>

definition equiv_schedule :: "'d coproc \<Rightarrow> 'd uart_if \<Rightarrow> nat \<Rightarrow> equiv \<Rightarrow> ('d, equiv \<times> regs_t) io" where
  "equiv_schedule C U k S = (case cur_thread S of
       None \<Rightarrow> fails Assert_fail
     | Some cur \<Rightarrow>
         bnd (lft (qe_pop (links S) (equiv_runq S))) (\<lambda>(th, rq).
         let S = S\<lparr>equiv_runq := rq\<rparr>;
             (S, cur) = (case th of
                 None \<Rightarrow> (S, cur)
               | Some th \<Rightarrow> let (ls, rq) = qe_append (links S) (equiv_runq S) cur
                   in (S\<lparr>links := ls, equiv_runq := rq, cur_thread := Some th\<rparr>, th))
         in thn (flush_tx U)
           (bnd (mismatch_run C (can_put8 U) k (eq_regs (threads S cur))) (\<lambda>r. ret (S, r)))))"

definition EQUIV_EXIT :: u32 where "EQUIV_EXIT = 0"
definition EQUIV_PUTC :: u32 where "EQUIV_PUTC = 1"

definition check_sp :: "eq_th_t \<Rightarrow> unit res" where
  "check_sp th =
     (let sp = eq_regs th ! 13 in
      seq (require (\<not> sp < eq_stack_start th) Panic) (\<lambda>_. require (\<not> sp > eq_stack_end th) Panic))"

definition check_hash :: "eq_th_t \<Rightarrow> eq_th_t res" where
  "check_hash th =
     (if eq_expected_hash th = 0 then Inr (th\<lparr>eq_expected_hash := eq_reg_hash th\<rparr>)
      else if eq_expected_hash th = eq_reg_hash th then Inr th else Inl Panic)"

text \<open>\<open>Inr\<close> stands for the switch to \<open>start_regs\<close>, which returns to \<open>equiv_run\<close>.\<close>

definition equiv_syscall_handler :: "'d coproc \<Rightarrow> 'd uart_if \<Rightarrow> nat \<Rightarrow> equiv \<Rightarrow> regs_t \<Rightarrow> ('d, equiv \<times> regs_t + equiv) io" where
  "equiv_syscall_handler C U k S r = (case cur_thread S of
       None \<Rightarrow> fails Assert_fail
     | Some th \<Rightarrow>
         let S = upd_th th (\<lambda>t. t\<lparr>eq_regs := r\<rparr>) S in
         thn (flush_tx U) (thn (lft (check_sp (threads S th)))
        (let sysno = r ! 0 in
         if sysno = EQUIV_PUTC then
           thn (put8 U (ucast (r ! 1))) (bnd (equiv_schedule C U k S) (\<lambda>x. ret (Inl x)))
         else if sysno = EQUIV_EXIT then
           bnd (lft (check_hash (threads S th))) (\<lambda>t.
           let S = upd_th th (\<lambda>_. t) S in
           bnd (lft (qe_pop (links S) (equiv_runq S))) (\<lambda>(nx, rq).
           let S = S\<lparr>equiv_runq := rq\<rparr> in
           case nx of
             None \<Rightarrow> ret (Inr S)
           | Some th \<Rightarrow>
               let S = S\<lparr>cur_thread := Some th\<rparr> in
               bnd (mismatch_run C (can_put8 U) k (eq_regs (threads S th))) (\<lambda>r. ret (Inl (S, r)))))
         else fails Panic)))"

text \<open>\<open>cpsr\<close> is what \<open>cpsr_get\<close> returns, \<open>sys_exit\<close> the address of \<open>sys_equiv_exit\<close>.\<close>

definition equiv_regs_init :: "u32 \<Rightarrow> u32 \<Rightarrow> eq_th_t \<Rightarrow> regs_t res" where
  "equiv_regs_init cpsr sys_exit p =
     seq (cpsr_inherit USER_MODE cpsr) (\<lambda>cpsr.
     Inr (set_regs [(0, eq_arg p), (15, eq_fn p), (13, eq_stack_end p), (14, sys_exit), (16, cpsr)]))"

text \<open>\<open>th\<close> is the block that \<open>kmalloc_aligned\<close> returned.\<close>

definition equiv_fork :: "u32 \<Rightarrow> u32 \<Rightarrow> u32 \<Rightarrow> equiv \<Rightarrow> u32 \<Rightarrow> u32 \<Rightarrow> u32 \<Rightarrow> equiv res" where
  "equiv_fork cpsr sys_exit th S f a expected =
     seq (require (th mod 8 = 0) Assert_fail) (\<lambda>_.
     let S = upd_th th (\<lambda>t. t\<lparr>eq_expected_hash := expected, eq_tid := ntids S, eq_fn := f, eq_arg := a,
           eq_stack_start := th, eq_stack_end := th + stack_size\<rparr>) (S\<lparr>ntids := ntids S + 1\<rparr>) in
     seq (require (eq_stack_end (threads S th) mod 8 = 0) Assert_fail) (\<lambda>_.
     seq (equiv_regs_init cpsr sys_exit (threads S th)) (\<lambda>r.
     let S = upd_th th (\<lambda>t. t\<lparr>eq_regs := r\<rparr>) S in
     seq (check_sp (threads S th)) (\<lambda>_.
     let (ls, rq) = qe_push (links S) (equiv_runq S) th in
     Inr (S\<lparr>links := ls, equiv_runq := rq\<rparr>)))))"

definition equiv_fork_nostack :: "u32 \<Rightarrow> u32 \<Rightarrow> u32 \<Rightarrow> equiv \<Rightarrow> u32 \<Rightarrow> u32 \<Rightarrow> u32 \<Rightarrow> equiv res" where
  "equiv_fork_nostack cpsr sys_exit th S f a expected =
     seq (equiv_fork cpsr sys_exit th S f a expected) (\<lambda>S.
     Inr (upd_th th (\<lambda>t. t\<lparr>eq_regs := (eq_regs t)[13 := 0], eq_stack_start := 0, eq_stack_end := 0\<rparr>) S))"

definition equiv_refresh :: "u32 \<Rightarrow> u32 \<Rightarrow> equiv \<Rightarrow> u32 \<Rightarrow> equiv res" where
  "equiv_refresh cpsr sys_exit S th =
     seq (equiv_regs_init cpsr sys_exit (threads S th)) (\<lambda>r.
     let S = upd_th th (\<lambda>t. t\<lparr>eq_regs := r\<rparr>) S in
     seq (check_sp (threads S th)) (\<lambda>_.
     let S = upd_th th (\<lambda>t. t\<lparr>eq_inst_cnt := 0, eq_reg_hash := 0\<rparr>) S;
         (ls, rq) = qe_push (links S) (equiv_runq S) th in
     Inr (S\<lparr>links := ls, equiv_runq := rq\<rparr>)))"

text \<open>The block of registers as it lies in memory.\<close>

definition regs_bytes :: "regs_t \<Rightarrow> u8 list" where
  "regs_bytes r = concat (map le_bytes r)"

definition equiv_hash_handler :: "'d coproc \<Rightarrow> 'd uart_if \<Rightarrow> nat \<Rightarrow> equiv \<Rightarrow> step_fault_t \<Rightarrow> ('d, equiv \<times> regs_t + regs_t) io" where
  "equiv_hash_handler C U k S s = (case cur_thread S of
       None \<Rightarrow> fails Assert_fail
     | Some th \<Rightarrow>
         let S = upd_th th (\<lambda>t. t\<lparr>eq_regs := sf_regs s, eq_inst_cnt := eq_inst_cnt t + 1\<rparr>) S;
             S = upd_th th (\<lambda>t. t\<lparr>eq_reg_hash := fast_hash_inc32 (regs_bytes (eq_regs t)) (eq_reg_hash t)\<rparr>) S
         in bnd (equiv_schedule C U k S) (\<lambda>x. ret (Inl x)))"

section \<open>Running the threads\<close>

text \<open>
  What user code does from a register block until the next exception: it executes one instruction and stops at the
  mismatch breakpoint, or it makes a system call. A thread has memory of its own of type \<open>'m\<close>; \<open>n\<close> exceptions are
  allowed. When the code of \<open>mini-step.c\<close> switches to its own \<open>start_regs\<close>, which \<open>equiv_run\<close> does not save, the
  result is undefined.
\<close>

datatype uevent = Step_to regs_t | Svc regs_t

type_synonym 'm user = "'m \<Rightarrow> regs_t \<Rightarrow> uevent \<times> 'm"

fun equiv_loop :: "'d coproc \<Rightarrow> 'd uart_if \<Rightarrow> nat \<Rightarrow> u32 \<Rightarrow> regs_t \<Rightarrow> 'm user \<Rightarrow> nat \<Rightarrow> equiv \<Rightarrow> (u32 \<Rightarrow> 'm) \<Rightarrow> regs_t \<Rightarrow>
    ('d, equiv \<times> (u32 \<Rightarrow> 'm)) io" where
  "equiv_loop C U k ss_exit ss_start user 0 S M r = fails Stuck"
| "equiv_loop C U k ss_exit ss_start user (Suc n) S M r = (case cur_thread S of
       None \<Rightarrow> fails Undefined
     | Some cur \<Rightarrow> (case user (M cur) r of
         (Step_to r, m) \<Rightarrow>
           bnd (mismatch_fault C (can_put8 U) k ss_exit ss_start (equiv_hash_handler C U k S) r) (\<lambda>x. case x of
             Inl (S, r) \<Rightarrow> equiv_loop C U k ss_exit ss_start user n S (M(cur := m)) r
           | Inr _ \<Rightarrow> fails Undefined)
       | (Svc r, m) \<Rightarrow>
           bnd (equiv_syscall_handler C U k S r) (\<lambda>x. case x of
             Inl (S, r) \<Rightarrow> equiv_loop C U k ss_exit ss_start user n S (M(cur := m)) r
           | Inr S \<Rightarrow> ret (S, M(cur := m)))))"

definition equiv_run :: "'d coproc \<Rightarrow> 'd uart_if \<Rightarrow> nat \<Rightarrow> u32 \<Rightarrow> regs_t \<Rightarrow> u32 \<Rightarrow> 'm user \<Rightarrow> nat \<Rightarrow> equiv \<Rightarrow> (u32 \<Rightarrow> 'm) \<Rightarrow>
    ('d, equiv \<times> (u32 \<Rightarrow> 'm)) io" where
  "equiv_run C U k ss_exit ss_start cpsr user n S M =
     bnd (lft (qe_pop (links S) (equiv_runq S))) (\<lambda>(th, rq).
     case th of None \<Rightarrow> fails Panic
     | Some th \<Rightarrow>
         let S = S\<lparr>equiv_runq := rq, cur_thread := Some th\<rparr> in
         thn (mismatch_on C)
        (thn (void (mismatch_pc_set C (eq_regs (threads S th) ! 15)))
        (bnd (switchto_cswitch cpsr (eq_regs (threads S th))) (\<lambda>r.
         bnd (equiv_loop C U k ss_exit ss_start user n S M r) (\<lambda>x.
         thn (mismatch_off C) (ret x))))))"

definition equiv_init :: "'d coproc \<Rightarrow> ('d, unit) io \<Rightarrow> ('d, unit) io \<Rightarrow> ('d, unit) io \<Rightarrow> ('d, unit) io" where
  "equiv_init C kmalloc_init install set_syscall = run_all [kmalloc_init, mini_step_init C (Some ()) install, set_syscall]"

section \<open>Specification: a thread that runs alone\<close>

text \<open>Registers that the processor can go on with.\<close>

definition resumable :: "u32 \<Rightarrow> regs_t \<Rightarrow> bool" where
  "resumable ss_exit r \<longleftrightarrow> r ! 15 \<noteq> ss_exit \<and> word_aligned (r ! 15) \<and> mode_ok r"

definition sp_ok :: "u32 \<Rightarrow> u32 \<Rightarrow> regs_t \<Rightarrow> bool" where
  "sp_ok lo hi r \<longleftrightarrow> lo \<le> r ! 13 \<and> r ! 13 \<le> hi"

text \<open>The hash of a thread that runs alone and exits after at most \<open>n\<close> exceptions, with its stack pointer in bounds at
  system calls.\<close>

fun solo :: "u32 \<Rightarrow> 'm user \<Rightarrow> u32 \<Rightarrow> u32 \<Rightarrow> nat \<Rightarrow> 'm \<Rightarrow> regs_t \<Rightarrow> u32 \<Rightarrow> u32 option" where
  "solo ss_exit user lo hi 0 m r h = None"
| "solo ss_exit user lo hi (Suc n) m r h = (case user m r of
       (Step_to r, m) \<Rightarrow>
         if resumable ss_exit r then solo ss_exit user lo hi n m r (fast_hash_inc32 (regs_bytes r) h) else None
     | (Svc r, m) \<Rightarrow>
         if \<not> sp_ok lo hi r then None
         else if r ! 0 = EQUIV_EXIT then Some h
         else if r ! 0 = EQUIV_PUTC \<and> resumable ss_exit r then solo ss_exit user lo hi n m r h
         else None)"

section \<open>The handlers\<close>

lemma check_sp_ok: "check_sp th = (if sp_ok (eq_stack_start th) (eq_stack_end th) (eq_regs th) then Inr () else Inl Panic)"
  by (auto simp: check_sp_def sp_ok_def require_def Let_def not_less)

text \<open>The UART is ready within \<open>k\<close> rounds, and using it does not change the debug registers.\<close>

locale equiv_dev = debug_cp C st for C :: "'d coproc" and st :: "'d \<Rightarrow> dbg" +
  fixes U :: "'d uart_if" and k :: nat
  assumes uart_flush: "keeps st (flush_tx U)"
    and uart_put: "keeps st (put8 U b)"
    and uart_ready: "wp st (poll k (can_put8 U)) (\<lambda>_ s'. s' = s) never s"
begin

lemma wp_uart_ready: "Q () s \<Longrightarrow> wp st (poll k (can_put8 U)) Q E s"
  by (rule wp_conseq [OF uart_ready]) auto

lemma wp_resume:
  assumes "step_on s" "word_aligned (r ! 15)" "mode_ok r" "Q r (mismatch_at (r ! 15) s)"
  shows "wp st (mismatch_run C (can_put8 U) k r) Q E s"
  using assms by (intro wp_mismatch_run wp_uart_ready)

text \<open>The scheduler goes on with the head of the queue and appends the current thread.\<close>

lemma wp_schedule:
  assumes cur: "cur_thread S = Some c" and rep: "qe_rep (links S) (equiv_runq S) q" "c \<notin> set q"
    and s: "step_on s" "resumable ss_exit (eq_regs (threads S (hd (q @ [c]))))"
    and Q: "\<And>S' :: equiv. threads S' = threads S \<Longrightarrow> cur_thread S' = Some (hd (q @ [c])) \<Longrightarrow>
        qe_rep (links S') (equiv_runq S') (tl (q @ [c])) \<Longrightarrow>
        Q (S', eq_regs (threads S (hd (q @ [c])))) (mismatch_at (eq_regs (threads S (hd (q @ [c]))) ! 15) s)"
  shows "wp st (equiv_schedule C U k S) Q E s"
proof (cases q)
  case Nil
  have "wp st (thn (flush_tx U) (bnd (mismatch_run C (can_put8 U) k (eq_regs (threads S c))) (\<lambda>r. ret (S, r)))) Q E s"
    using s Q [of S] cur rep Nil
    by (intro wp_thn wp_keeps [OF uart_flush] wp_bnd wp_resume wp_ret) (simp_all add: resumable_def)
  then show ?thesis
    using cur rep Nil qe_pop_nil [of "links S" "equiv_runq S"] by (simp add: equiv_schedule_def ret_bnd)
next
  case (Cons t ts)
  then obtain rq where pop: "qe_pop (links S) (equiv_runq S) = Inr (Some t, rq)" "qe_rep (links S) rq ts"
    using rep qe_pop_cons by metis
  let ?a = "qe_append (links S) rq c"
  let ?S = "S\<lparr>links := fst ?a, equiv_runq := snd ?a, cur_thread := Some t\<rparr>"
  have "qe_rep (links ?S) (equiv_runq ?S) (ts @ [c])"
    using qe_append_ok(1) [OF pop(2), of c] rep Cons by simp
  then have "wp st (thn (flush_tx U) (bnd (mismatch_run C (can_put8 U) k (eq_regs (threads S t))) (\<lambda>r. ret (?S, r)))) Q E s"
    using s Q [of ?S] Cons
    by (intro wp_thn wp_keeps [OF uart_flush] wp_bnd wp_resume wp_ret) (simp_all add: resumable_def)
  then show ?thesis
    using cur pop(1) by (simp add: equiv_schedule_def ret_bnd split_def Let_def)
qed

text \<open>A step of user code: the registers are recorded and hashed, and the scheduler runs.\<close>

definition hashed :: "regs_t \<Rightarrow> eq_th_t \<Rightarrow> eq_th_t" where
  "hashed r t = t\<lparr>eq_regs := r, eq_inst_cnt := eq_inst_cnt t + 1,
     eq_reg_hash := fast_hash_inc32 (regs_bytes r) (eq_reg_hash t)\<rparr>"

lemma wp_hash_step:
  assumes "cur_thread S = Some c" "qe_rep (links S) (equiv_runq S) q" "c \<notin> set q" "step_on s"
    and "resumable ss_exit r" "\<forall>t\<in>set q. resumable ss_exit (eq_regs (threads S t))"
    and Q: "\<And>(S' :: equiv) s'. threads S' = (threads S)(c := hashed r (threads S c)) \<Longrightarrow> cur_thread S' = Some (hd (q @ [c])) \<Longrightarrow>
        qe_rep (links S') (equiv_runq S') (tl (q @ [c])) \<Longrightarrow> step_on s' \<Longrightarrow>
        Q (Inl (S', eq_regs (threads S' (hd (q @ [c]))))) s'"
  shows "wp st (mismatch_fault C (can_put8 U) k ss_exit ss_start (equiv_hash_handler C U k S) r) Q E s"
proof -
  let ?S = "upd_th c (hashed r) S"
  have th: "threads ?S = (threads S)(c := hashed r (threads S c))" by (simp add: upd_th_def)
  have r: "resumable ss_exit (eq_regs (threads ?S (hd (q @ [c]))))"
    using assms(3,5,6) by (cases q) (auto simp: th hashed_def)
  let ?Q = "\<lambda>res s. case res of Inl x \<Rightarrow> Q (Inl x) s
     | Inr r' \<Rightarrow> mode_ok r' \<and> step_on s \<and> wp st (poll k (can_put8 U)) (\<lambda>_. Q (Inr r')) E (mismatch_at (r ! 15) s)"
  have "wp st (bnd (equiv_schedule C U k ?S) (\<lambda>x. ret (Inl x))) ?Q E s"
  proof (rule wp_bnd, rule wp_schedule)
    show "cur_thread ?S = Some c" "qe_rep (links ?S) (equiv_runq ?S) q" using assms(1,2) by (simp_all add: upd_th_def)
    fix S' :: equiv assume S': "threads S' = threads ?S" "cur_thread S' = Some (hd (q @ [c]))"
      "qe_rep (links S') (equiv_runq S') (tl (q @ [c]))"
    show "wp st (ret (Inl (S', eq_regs (threads ?S (hd (q @ [c])))))) ?Q E
       (mismatch_at (eq_regs (threads ?S (hd (q @ [c]))) ! 15) s)"
      using Q [of S'] S' assms(4) by (intro wp_ret) (simp add: th mismatch_at_def)
  qed (use assms r in auto)
  then have "wp st (equiv_hash_handler C U k S (step_fault_mk (r ! 15) r)) ?Q E s"
    using assms(1) by (simp add: equiv_hash_handler_def step_fault_mk_def upd_th_def hashed_def)
  then show ?thesis using assms(5) by (intro wp_mismatch_fault) (simp_all add: resumable_def)
qed

text \<open>A system call that prints: the registers are recorded, and the scheduler runs.\<close>

lemma wp_putc_step:
  assumes "cur_thread S = Some c" "qe_rep (links S) (equiv_runq S) q" "c \<notin> set q" "step_on s"
    and "r ! 0 = EQUIV_PUTC" "sp_ok (eq_stack_start (threads S c)) (eq_stack_end (threads S c)) r"
    and "resumable ss_exit r" "\<forall>t\<in>set q. resumable ss_exit (eq_regs (threads S t))"
    and Q: "\<And>(S' :: equiv) s'. threads S' = (threads S)(c := (threads S c)\<lparr>eq_regs := r\<rparr>) \<Longrightarrow> cur_thread S' = Some (hd (q @ [c])) \<Longrightarrow>
        qe_rep (links S') (equiv_runq S') (tl (q @ [c])) \<Longrightarrow> step_on s' \<Longrightarrow>
        Q (Inl (S', eq_regs (threads S' (hd (q @ [c]))))) s'"
  shows "wp st (equiv_syscall_handler C U k S r) Q E s"
proof -
  let ?S = "upd_th c (\<lambda>t. t\<lparr>eq_regs := r\<rparr>) S"
  have th: "threads ?S = (threads S)(c := (threads S c)\<lparr>eq_regs := r\<rparr>)" by (simp add: upd_th_def)
  have r: "resumable ss_exit (eq_regs (threads ?S (hd (q @ [c]))))"
    using assms(3,7,8) by (cases q) (auto simp: th)
  have "wp st (bnd (equiv_schedule C U k ?S) (\<lambda>x. ret (Inl x))) Q E s"
  proof (rule wp_bnd, rule wp_schedule)
    show "cur_thread ?S = Some c" "qe_rep (links ?S) (equiv_runq ?S) q" using assms(1,2) by (simp_all add: upd_th_def)
    fix S' :: equiv assume S': "threads S' = threads ?S" "cur_thread S' = Some (hd (q @ [c]))"
      "qe_rep (links S') (equiv_runq S') (tl (q @ [c]))"
    show "wp st (ret (Inl (S', eq_regs (threads ?S (hd (q @ [c])))))) Q E
       (mismatch_at (eq_regs (threads ?S (hd (q @ [c]))) ! 15) s)"
      using Q [of S'] S' assms(4) by (intro wp_ret) (simp add: th mismatch_at_def)
  qed (use assms r in auto)
  then have "wp st (thn (flush_tx U) (thn (lft (check_sp (threads ?S c))) (thn (put8 U (ucast (r ! 1)))
      (bnd (equiv_schedule C U k ?S) (\<lambda>x. ret (Inl x)))))) Q E s"
    using assms(6) by (intro wp_thn wp_keeps [OF uart_flush] wp_keeps [OF uart_put] wp_lft) (simp_all add: check_sp_ok th)
  then show ?thesis
    using assms(1,5) by (simp add: equiv_syscall_handler_def Let_def)
qed

text \<open>The exit of a thread: its hash is checked, and the head of the queue goes on, if there is one.\<close>

lemma wp_exit_step:
  assumes "cur_thread S = Some c" "qe_rep (links S) (equiv_runq S) q" "c \<notin> set q" "step_on s"
    and "r ! 0 = EQUIV_EXIT" "sp_ok (eq_stack_start (threads S c)) (eq_stack_end (threads S c)) r"
    and "\<forall>t\<in>set q. resumable ss_exit (eq_regs (threads S t))"
    and err: "eq_expected_hash (threads S c) \<notin> {0, eq_reg_hash (threads S c)} \<Longrightarrow> E Panic"
    and Q: "\<And>(S' :: equiv) s'. eq_expected_hash (threads S c) \<in> {0, eq_reg_hash (threads S c)} \<Longrightarrow>
        threads S' = (threads S)(c := (threads S c)\<lparr>eq_regs := r, eq_expected_hash := eq_reg_hash (threads S c)\<rparr>) \<Longrightarrow>
        step_on s' \<Longrightarrow> (case q of [] \<Rightarrow> Q (Inr S') s'
          | t # ts \<Rightarrow> cur_thread S' = Some t \<longrightarrow> qe_rep (links S') (equiv_runq S') ts \<longrightarrow>
              Q (Inl (S', eq_regs (threads S' t))) s')"
  shows "wp st (equiv_syscall_handler C U k S r) Q E s"
proof -
  let ?t = "(threads S c)\<lparr>eq_regs := r\<rparr>"
  let ?S = "upd_th c (\<lambda>t. t\<lparr>eq_regs := r\<rparr>) S"
  let ?rest = "\<lambda>t. let S = upd_th c (\<lambda>_. t) ?S in
      bnd (lft (qe_pop (links S) (equiv_runq S))) (\<lambda>(nx, rq).
      let S = S\<lparr>equiv_runq := rq\<rparr> in
      case nx of None \<Rightarrow> ret (Inr S)
      | Some th \<Rightarrow> let S = S\<lparr>cur_thread := Some th\<rparr> in
          bnd (mismatch_run C (can_put8 U) k (eq_regs (threads S th))) (\<lambda>r. ret (Inl (S, r))))"
  have "wp st (bnd (lft (check_hash ?t)) ?rest) Q E s"
  proof (cases "eq_expected_hash (threads S c) \<in> {0, eq_reg_hash (threads S c)}")
    case False
    then have "check_hash ?t = Inl Panic" by (auto simp: check_hash_def)
    with err [OF False] show ?thesis by (auto intro!: wp_bnd wp_fails)
  next
    case True
    let ?d = "?t\<lparr>eq_expected_hash := eq_reg_hash (threads S c)\<rparr>"
    have hash: "check_hash ?t = Inr ?d" using True by (auto simp: check_hash_def)
    let ?S2 = "upd_th c (\<lambda>_. ?d) ?S"
    have S2: "threads ?S2 = (threads S)(c := ?d)" "links ?S2 = links S" "equiv_runq ?S2 = equiv_runq S"
      by (simp_all add: upd_th_def)
    have "wp st (?rest ?d) Q E s"
    proof (cases q)
      case Nil
      let ?S3 = "?S2\<lparr>equiv_runq := equiv_runq S\<rparr>"
      have "Q (Inr ?S3) s" using Q [of ?S3 s] True assms(4) Nil S2 by simp
      then show ?thesis
        using assms(2) Nil qe_pop_nil [of "links S" "equiv_runq S"] S2
        by (simp add: Let_def ret_bnd wp_def)
    next
      case (Cons t ts)
      then obtain rq where pop: "qe_pop (links S) (equiv_runq S) = Inr (Some t, rq)" "qe_rep (links S) rq ts"
        using assms(2) qe_pop_cons by metis
      let ?S3 = "?S2\<lparr>equiv_runq := rq, cur_thread := Some t\<rparr>"
      have t: "threads ?S3 t = threads S t" "resumable ss_exit (eq_regs (threads S t))"
        using assms(3,7) Cons by (auto simp: S2)
      have "Q (Inl (?S3, eq_regs (threads S t))) s'" if "step_on s'" for s'
        using Q [of ?S3 s'] True that Cons pop(2) S2 t(1) by simp
      then have "wp st (bnd (mismatch_run C (can_put8 U) k (eq_regs (threads S t))) (\<lambda>r. ret (Inl (?S3, r)))) Q E s"
        using t(2) assms(4) by (intro wp_bnd wp_resume wp_ret) (simp_all add: resumable_def mismatch_at_def)
      then show ?thesis
        using pop(1) t(1) S2 by (simp add: Let_def ret_bnd)
    qed
    with hash show ?thesis by (simp add: ret_bnd)
  qed
  then have "wp st (thn (flush_tx U) (thn (lft (check_sp ?t)) (bnd (lft (check_hash ?t)) ?rest))) Q E s"
    using assms(6) by (intro wp_thn wp_keeps [OF uart_flush] wp_lft) (simp_all add: check_sp_ok)
  then show ?thesis
    using assms(1,5) by (simp add: equiv_syscall_handler_def upd_th_def EQUIV_EXIT_def EQUIV_PUTC_def)
qed

end

section \<open>All threads\<close>

text \<open>Thread \<open>t\<close> still has to run: alone it would exit with hash \<open>h\<close>.\<close>

definition live :: "u32 \<Rightarrow> 'm user \<Rightarrow> equiv \<Rightarrow> (u32 \<Rightarrow> 'm) \<Rightarrow> nat \<Rightarrow> u32 \<Rightarrow> u32 \<Rightarrow> bool" where
  "live ss_exit user S M n h t \<longleftrightarrow>
     (let th = threads S t in resumable ss_exit (eq_regs th) \<and>
      solo ss_exit user (eq_stack_start th) (eq_stack_end th) n (M t) (eq_regs th) (eq_reg_hash th) = Some h)"

text \<open>Thread \<open>t\<close> has exited with hash \<open>h\<close>, which it was expected to have or which is now its expectation.\<close>

definition exited :: "equiv \<Rightarrow> equiv \<Rightarrow> u32 \<Rightarrow> u32 \<Rightarrow> bool" where
  "exited S S' h t \<longleftrightarrow> eq_expected_hash (threads S t) \<in> {0, h} \<and>
     eq_reg_hash (threads S' t) = h \<and> eq_expected_hash (threads S' t) = h"

lemma live_cong: "threads S' t = threads S t \<Longrightarrow> M' t = M t \<Longrightarrow> live ss_exit user S' M' n h t = live ss_exit user S M n h t"
  by (simp add: live_def)

lemma exited_cong: "eq_expected_hash (threads S1 t) = eq_expected_hash (threads S t) \<Longrightarrow> exited S1 S' h t = exited S S' h t"
  by (simp add: exited_def)

definition wrong :: "equiv \<Rightarrow> (u32 \<Rightarrow> u32) \<Rightarrow> u32 list \<Rightarrow> err \<Rightarrow> bool" where
  "wrong S h q e \<longleftrightarrow> e = Panic \<and> (\<exists>t\<in>set q. eq_expected_hash (threads S t) \<notin> {0, h t})"

definition all_exited :: "equiv \<Rightarrow> equiv \<Rightarrow> (u32 \<Rightarrow> u32) \<Rightarrow> u32 list \<Rightarrow> bool" where
  "all_exited S S' h q \<longleftrightarrow> (\<forall>t\<in>set q. exited S S' (h t) t) \<and> (\<forall>t. t \<notin> set q \<longrightarrow> threads S' t = threads S t)"

context equiv_dev
begin

text \<open>The statement about the loop for a bound \<open>N\<close> on the exceptions.\<close>

definition loop_ok :: "u32 \<Rightarrow> regs_t \<Rightarrow> 'm user \<Rightarrow> (u32 \<Rightarrow> u32) \<Rightarrow> nat \<Rightarrow> bool" where
  "loop_ok ss_exit ss_start user h N \<longleftrightarrow> (\<forall>S M c q n s.
     cur_thread S = Some c \<longrightarrow> qe_rep (links S) (equiv_runq S) q \<longrightarrow> c \<notin> set q \<longrightarrow> step_on s \<longrightarrow>
     (\<forall>t\<in>set (c # q). live ss_exit user S M (n t) (h t) t) \<longrightarrow> sum_list (map n (c # q)) \<le> N \<longrightarrow>
     wp st (equiv_loop C U k ss_exit ss_start user N S M (eq_regs (threads S c)))
       (\<lambda>(S', M') s'. step_on s' \<and> all_exited S S' h (c # q)) (wrong S h (c # q)) s)"

lemma loop_okD:
  assumes "loop_ok ss_exit ss_start user h N" "cur_thread S = Some c" "qe_rep (links S) (equiv_runq S) q" "c \<notin> set q"
    "step_on s" "\<forall>t\<in>set (c # q). live ss_exit user S M (n t) (h t) t" "sum_list (map n (c # q)) \<le> N"
  shows "wp st (equiv_loop C U k ss_exit ss_start user N S M (eq_regs (threads S c)))
       (\<lambda>(S', M') s'. step_on s' \<and> all_exited S S' h (c # q)) (wrong S h (c # q)) s"
  using assms unfolding loop_ok_def by blast

text \<open>The current thread goes on with one exception less and to the end of the queue.\<close>

lemma loop_rotate:
  assumes IH: "loop_ok ss_exit ss_start user h N"
    and "qe_rep ls rq q" "c \<notin> set q" "\<forall>t\<in>set q. live ss_exit user S M (n t) (h t) t" "n c = Suc m"
    and "sum_list (map n (c # q)) \<le> Suc N"
    and S': "threads S' = (threads S)(c := th)" "cur_thread S' = Some (hd (q @ [c]))"
      "qe_rep (links S') (equiv_runq S') (tl (q @ [c]))" "step_on s'"
    and th: "resumable ss_exit (eq_regs th)" "eq_expected_hash th = eq_expected_hash (threads S c)"
      "solo ss_exit user (eq_stack_start th) (eq_stack_end th) m mem (eq_regs th) (eq_reg_hash th) = Some (h c)"
  shows "wp st (equiv_loop C U k ss_exit ss_start user N S' (M(c := mem)) (eq_regs (threads S' (hd (q @ [c])))))
    (\<lambda>(S', M') s'. step_on s' \<and> all_exited S S' h (c # q)) (wrong S h (c # q)) s'"
proof -
  have d: "distinct (q @ [c])" using assms(2,3) by (simp add: qe_rep_def)
  then obtain x xs where x: "q @ [c] = x # xs" "x \<notin> set xs" by (cases "q @ [c]") auto
  have sets: "set (x # xs) = set (c # q)" unfolding x(1) [symmetric] by auto
  have cur: "cur_thread S' = Some x" and rep: "qe_rep (links S') (equiv_runq S') xs"
    using S'(2,3) x(1) by simp_all
  let ?n = "n(c := m)"
  have "sum_list (map ?n (q @ [c])) = sum_list (map n q) + m"
    using assms(3) by (simp add: map_fun_upd)
  then have le: "sum_list (map ?n (x # xs)) \<le> N" using x(1) assms(5,6) by simp
  have lv: "\<forall>t\<in>set (x # xs). live ss_exit user S' (M(c := mem)) (?n t) (h t) t"
    unfolding sets using assms(3,4) th S'(1) by (auto simp: live_def Let_def)
  have ex: "eq_expected_hash (threads S' t) = eq_expected_hash (threads S t)" for t
    using S'(1) th(2) by simp
  have eqs: "all_exited S' S2 h (x # xs) \<Longrightarrow> all_exited S S2 h (c # q)" "wrong S' h (x # xs) = wrong S h (c # q)" for S2
    using exited_cong [OF ex] S'(1) unfolding all_exited_def wrong_def sets ex by (auto simp: fun_eq_iff)
  have "wp st (equiv_loop C U k ss_exit ss_start user N S' (M(c := mem)) (eq_regs (threads S' x)))
     (\<lambda>(S2, M') s'. step_on s' \<and> all_exited S' S2 h (x # xs)) (wrong S' h (x # xs)) s'"
    by (rule loop_okD [OF IH cur rep x(2) S'(4) lv le])
  then show ?thesis
    unfolding eqs(2) x(1) list.sel by (rule wp_conseq) (auto dest: eqs(1))
qed

text \<open>The current thread exits.\<close>

lemma loop_exit:
  assumes "all_exited S1 S' h q" "threads S1 = (threads S)(c := (threads S c)\<lparr>eq_regs := r, eq_expected_hash := h c\<rparr>)"
    and "c \<notin> set q" "eq_expected_hash (threads S c) \<in> {0, h c}" "eq_reg_hash (threads S c) = h c"
  shows "all_exited S S' h (c # q)"
proof -
  have "exited S S' (h c) c"
    using assms unfolding all_exited_def exited_def by simp
  moreover have "exited S S' (h t) t" if "t \<in> set q" for t
  proof -
    have "t \<noteq> c" using that assms(3) by auto
    then show ?thesis using that assms(1,2) by (auto simp: all_exited_def exited_def)
  qed
  ultimately show ?thesis using assms(1,2) by (auto simp: all_exited_def)
qed

text \<open>One round of the loop, for the three things that user code can do.\<close>

lemma loop_step_to:
  assumes IH: "loop_ok ss_exit ss_start user h N"
    and a: "cur_thread S = Some c" "qe_rep (links S) (equiv_runq S) q" "c \<notin> set q" "step_on s"
    and lv: "\<forall>t\<in>set q. live ss_exit user S M (n t) (h t) t" "n c = Suc m" "sum_list (map n (c # q)) \<le> Suc N"
    and ev: "user (M c) (eq_regs (threads S c)) = (Step_to r, mem)" "resumable ss_exit r"
      "solo ss_exit user (eq_stack_start (threads S c)) (eq_stack_end (threads S c)) m mem r
         (fast_hash_inc32 (regs_bytes r) (eq_reg_hash (threads S c))) = Some (h c)"
  shows "wp st (equiv_loop C U k ss_exit ss_start user (Suc N) S M (eq_regs (threads S c)))
       (\<lambda>(S', M') s'. step_on s' \<and> all_exited S S' h (c # q)) (wrong S h (c # q)) s"
proof -
  have res: "\<forall>t\<in>set q. resumable ss_exit (eq_regs (threads S t))"
    using lv(1) by (auto simp: live_def Let_def)
  note rot = loop_rotate [OF IH a(2,3) lv]
  show ?thesis
    unfolding equiv_loop.simps a(1) option.case ev(1) uevent.case prod.case
  proof (rule wp_bnd, rule wp_hash_step [OF a ev(2) res])
    fix S' :: equiv and s' :: dbg
    assume "threads S' = (threads S)(c := hashed r (threads S c))" "cur_thread S' = Some (hd (q @ [c]))"
      "qe_rep (links S') (equiv_runq S') (tl (q @ [c]))" "step_on s'"
    from rot [OF this] ev
    show "wp st (case Inl (S', eq_regs (threads S' (hd (q @ [c])))) of
        Inl (S, r) \<Rightarrow> equiv_loop C U k ss_exit ss_start user N S (M(c := mem)) r | Inr _ \<Rightarrow> fails Undefined)
      (\<lambda>(S', M') s'. step_on s' \<and> all_exited S S' h (c # q)) (wrong S h (c # q)) s'"
      by (simp add: hashed_def)
  qed
qed

lemma loop_putc:
  assumes IH: "loop_ok ss_exit ss_start user h N"
    and a: "cur_thread S = Some c" "qe_rep (links S) (equiv_runq S) q" "c \<notin> set q" "step_on s"
    and lv: "\<forall>t\<in>set q. live ss_exit user S M (n t) (h t) t" "n c = Suc m" "sum_list (map n (c # q)) \<le> Suc N"
    and ev: "user (M c) (eq_regs (threads S c)) = (Svc r, mem)" "r ! 0 = EQUIV_PUTC"
      "sp_ok (eq_stack_start (threads S c)) (eq_stack_end (threads S c)) r" "resumable ss_exit r"
      "solo ss_exit user (eq_stack_start (threads S c)) (eq_stack_end (threads S c)) m mem r (eq_reg_hash (threads S c)) =
         Some (h c)"
  shows "wp st (equiv_loop C U k ss_exit ss_start user (Suc N) S M (eq_regs (threads S c)))
       (\<lambda>(S', M') s'. step_on s' \<and> all_exited S S' h (c # q)) (wrong S h (c # q)) s"
proof -
  have res: "\<forall>t\<in>set q. resumable ss_exit (eq_regs (threads S t))"
    using lv(1) by (auto simp: live_def Let_def)
  note rot = loop_rotate [OF IH a(2,3) lv]
  show ?thesis
    unfolding equiv_loop.simps a(1) option.case ev(1) uevent.case prod.case
  proof (rule wp_bnd, rule wp_putc_step [OF a ev(2-4) res])
    fix S' :: equiv and s' :: dbg
    assume "threads S' = (threads S)(c := (threads S c)\<lparr>eq_regs := r\<rparr>)" "cur_thread S' = Some (hd (q @ [c]))"
      "qe_rep (links S') (equiv_runq S') (tl (q @ [c]))" "step_on s'"
    from rot [OF this] ev
    show "wp st (case Inl (S', eq_regs (threads S' (hd (q @ [c])))) of
        Inl (S, r) \<Rightarrow> equiv_loop C U k ss_exit ss_start user N S (M(c := mem)) r | Inr S \<Rightarrow> ret (S, M(c := mem)))
      (\<lambda>(S', M') s'. step_on s' \<and> all_exited S S' h (c # q)) (wrong S h (c # q)) s'"
      by simp
  qed
qed

lemma loop_svc_exit:
  assumes IH: "loop_ok ss_exit ss_start user h N"
    and a: "cur_thread S = Some c" "qe_rep (links S) (equiv_runq S) q" "c \<notin> set q" "step_on s"
    and lv: "\<forall>t\<in>set q. live ss_exit user S M (n t) (h t) t" "n c = Suc m" "sum_list (map n (c # q)) \<le> Suc N"
    and ev: "user (M c) (eq_regs (threads S c)) = (Svc r, mem)" "r ! 0 = EQUIV_EXIT"
      "sp_ok (eq_stack_start (threads S c)) (eq_stack_end (threads S c)) r" "eq_reg_hash (threads S c) = h c"
  shows "wp st (equiv_loop C U k ss_exit ss_start user (Suc N) S M (eq_regs (threads S c)))
       (\<lambda>(S', M') s'. step_on s' \<and> all_exited S S' h (c # q)) (wrong S h (c # q)) s"
proof -
  have res: "\<forall>t\<in>set q. resumable ss_exit (eq_regs (threads S t))"
    using lv(1) by (auto simp: live_def Let_def)
  show ?thesis
    unfolding equiv_loop.simps a(1) option.case ev(1) uevent.case prod.case
  proof (rule wp_bnd, rule wp_exit_step [OF a ev(2,3) res])
    show "wrong S h (c # q) Panic" if "eq_expected_hash (threads S c) \<notin> {0, eq_reg_hash (threads S c)}"
      using that ev(4) by (simp add: wrong_def)
  next
    fix S' :: equiv and s' :: dbg
    assume e: "eq_expected_hash (threads S c) \<in> {0, eq_reg_hash (threads S c)}" and s': "step_on s'"
      and th: "threads S' = (threads S)(c := (threads S c)\<lparr>eq_regs := r, eq_expected_hash := eq_reg_hash (threads S c)\<rparr>)"
    have fin: "all_exited S S2 h (c # q)" if "all_exited S' S2 h q" for S2
      using loop_exit [OF that, of S c r] th a(3) e ev(4) by simp
    have wr: "wrong S' h q e \<Longrightarrow> wrong S h (c # q) e" for e
      using th a(3) unfolding wrong_def by (metis fun_upd_other list.set_intros(2))
    let ?case = "\<lambda>x. case x of
      Inl (S, r) \<Rightarrow> equiv_loop C U k ss_exit ss_start user N S (M(c := mem)) r | Inr S \<Rightarrow> ret (S, M(c := mem))"
    let ?Q = "\<lambda>(S', M') s'. step_on s' \<and> all_exited S S' h (c # q)"
    show "case q of [] \<Rightarrow> wp st (?case (Inr S')) ?Q (wrong S h (c # q)) s'
      | t # ts \<Rightarrow> cur_thread S' = Some t \<longrightarrow> qe_rep (links S') (equiv_runq S') ts \<longrightarrow>
          wp st (?case (Inl (S', eq_regs (threads S' t)))) ?Q (wrong S h (c # q)) s'"
    proof (cases q)
      case Nil
      then have "all_exited S S' h (c # q)" by (intro fin) (simp add: all_exited_def)
      with s' Nil show ?thesis by (simp add: wp_def)
    next
      case (Cons t ts)
      have lvt: "\<forall>u\<in>set (t # ts). live ss_exit user S' (M(c := mem)) (n u) (h u) u"
        using lv(1) Cons a(3) th by (auto simp: live_def Let_def)
      have le: "sum_list (map n (t # ts)) \<le> N" and nt: "t \<notin> set ts"
        using lv(2,3) Cons a(2) by (simp_all add: qe_rep_def)
      have "wp st (equiv_loop C U k ss_exit ss_start user N S' (M(c := mem)) (eq_regs (threads S' t))) ?Q
          (wrong S h (c # q)) s'"
        if "cur_thread S' = Some t" "qe_rep (links S') (equiv_runq S') ts"
        using fin wr unfolding Cons
        by (intro wp_conseq [OF loop_okD [OF IH that nt s' lvt le]]) auto
      then show ?thesis by (simp add: Cons)
    qed
  qed
qed

theorem loop_correct: "loop_ok ss_exit ss_start user h N"
proof (induction N)
  case 0
  have "n c \<noteq> 0" if "live ss_exit user S M (n c) (h c) c" for S M n c
    using that by (cases "n c") (auto simp: live_def Let_def)
  then show ?case unfolding loop_ok_def by fastforce
next
  case (Suc N)
  show ?case unfolding loop_ok_def
  proof (intro allI impI)
    fix S :: equiv and M :: "u32 \<Rightarrow> 'a" and c q n and s :: dbg
    assume a: "cur_thread S = Some c" "qe_rep (links S) (equiv_runq S) q" "c \<notin> set q" "step_on s"
      and lv: "\<forall>t\<in>set (c # q). live ss_exit user S M (n t) (h t) t" and le: "sum_list (map n (c # q)) \<le> Suc N"
    let ?th = "threads S c"
    obtain m where m: "n c = Suc m"
      using lv by (cases "n c") (auto simp: live_def Let_def)
    have c: "solo ss_exit user (eq_stack_start ?th) (eq_stack_end ?th) (Suc m) (M c) (eq_regs ?th) (eq_reg_hash ?th) = Some (h c)"
      using lv m by (simp add: live_def Let_def)
    have lvq: "\<forall>t\<in>set q. live ss_exit user S M (n t) (h t) t"
      using lv by simp
    obtain ev mem where ev: "user (M c) (eq_regs ?th) = (ev, mem)" by (cases "user (M c) (eq_regs ?th)")
    show "wp st (equiv_loop C U k ss_exit ss_start user (Suc N) S M (eq_regs ?th))
       (\<lambda>(S', M') s'. step_on s' \<and> all_exited S S' h (c # q)) (wrong S h (c # q)) s"
    proof (cases ev)
      case (Step_to r)
      with c ev show ?thesis by (intro loop_step_to [OF Suc a lvq m le]) (simp_all split: if_splits)
    next
      case (Svc r)
      have sp: "sp_ok (eq_stack_start ?th) (eq_stack_end ?th) r"
        using c ev Svc by (simp split: if_splits)
      consider "r ! 0 = EQUIV_EXIT" "eq_reg_hash ?th = h c"
        | "r ! 0 = EQUIV_PUTC" "resumable ss_exit r"
          "solo ss_exit user (eq_stack_start ?th) (eq_stack_end ?th) m mem r (eq_reg_hash ?th) = Some (h c)"
        using c ev Svc by (auto split: if_splits)
      then show ?thesis
        using ev Svc sp by cases (blast intro: loop_svc_exit [OF Suc a lvq m le] loop_putc [OF Suc a lvq m le])+
    qed
  qed
qed

lemma wp_equiv_run:
  assumes rep: "qe_rep (links S) (equiv_runq S) (c # q)" and s: "\<not> step_on s"
    and lv: "\<forall>t\<in>set (c # q). live ss_exit user S M (n t) (h t) t" and le: "sum_list (map n (c # q)) \<le> N"
    and cpsr: "mode_get cpsr = Inr m" "m \<noteq> USER_MODE"
  shows "wp st (equiv_run C U k ss_exit ss_start cpsr user N S M)
    (\<lambda>(S', M') s'. \<not> step_on s' \<and> all_exited S S' h (c # q)) (wrong S h (c # q)) s"
proof -
  obtain rq where pop: "qe_pop (links S) (equiv_runq S) = Inr (Some c, rq)" "qe_rep (links S) rq q"
    using rep qe_pop_cons by metis
  let ?S = "S\<lparr>equiv_runq := rq, cur_thread := Some c\<rparr>"
  let ?r = "eq_regs (threads S c)"
  have r: "word_aligned (?r ! 15)" "mode_ok ?r"
    using lv by (simp_all add: live_def Let_def resumable_def)
  have sw: "switchto_cswitch cpsr ?r = ret ?r"
    using cpsr r(2) by (auto simp: switchto_cswitch_def switchto_def mode_ok_def ret_bnd ret_thn split: sum.splits)
  have lv': "\<forall>t\<in>set (c # q). live ss_exit user ?S M (n t) (h t) t"
    using lv by (simp add: live_def Let_def)
  have cq: "c \<notin> set q" using rep by (simp add: qe_rep_def)
  have eqs: "all_exited ?S S' h (c # q) = all_exited S S' h (c # q)" "wrong ?S h (c # q) = wrong S h (c # q)" for S'
    by (simp_all add: all_exited_def exited_def wrong_def fun_eq_iff)
  have loop: "wp st (equiv_loop C U k ss_exit ss_start user N ?S M ?r)
      (\<lambda>(S', M') s'. step_on s' \<and> all_exited S S' h (c # q)) (wrong S h (c # q)) s1" if "step_on s1" for s1 :: dbg
    using loop_okD [OF loop_correct, of ?S c q s1 ss_exit user M n h N ss_start] pop(2) cq that lv' le
    unfolding eqs by simp
  have body: "wp st (bnd (equiv_loop C U k ss_exit ss_start user N ?S M ?r) (\<lambda>x. thn (mismatch_off C) (ret x)))
      (\<lambda>(S', M') s'. \<not> step_on s' \<and> all_exited S S' h (c # q)) (wrong S h (c # q)) s1" if "step_on s1" for s1 :: dbg
    by (rule wp_bnd, rule wp_conseq [OF loop [OF that]]) (auto intro!: wp_thn wp_mismatch_off wp_ret)
  let ?s1 = "mismatch_at (?r ! 15) (mismatch_at 0 (monitor_on (s\<lparr>step_on := True\<rparr>)))"
  have "step_on ?s1" by (simp add: mismatch_at_def monitor_on_def)
  then have "wp st (bnd (switchto_cswitch cpsr ?r) (\<lambda>r. bnd (equiv_loop C U k ss_exit ss_start user N ?S M r)
      (\<lambda>x. thn (mismatch_off C) (ret x))))
      (\<lambda>(S', M') s'. \<not> step_on s' \<and> all_exited S S' h (c # q)) (wrong S h (c # q)) ?s1"
    unfolding sw ret_bnd by (rule body)
  then have "wp st (thn (mismatch_on C) (thn (void (mismatch_pc_set C (?r ! 15)))
      (bnd (switchto_cswitch cpsr ?r) (\<lambda>r. bnd (equiv_loop C U k ss_exit ss_start user N ?S M r)
      (\<lambda>x. thn (mismatch_off C) (ret x))))))
      (\<lambda>(S', M') s'. \<not> step_on s' \<and> all_exited S S' h (c # q)) (wrong S h (c # q)) s"
    using s r(1) by (intro wp_thn wp_mismatch_on wp_void wp_mismatch_pc_set) (simp_all add: mismatch_at_def monitor_on_def)
  then show ?thesis
    using pop(1) by (simp add: equiv_run_def ret_bnd Let_def)
qed

end

section \<open>Creating threads\<close>

text \<open>The registers with which \<open>equiv_fork\<close> starts a thread: function, argument and the end of the stack.\<close>

definition start_regs :: "u32 \<Rightarrow> u32 \<Rightarrow> u32 \<Rightarrow> u32 \<Rightarrow> u32 \<Rightarrow> regs_t" where
  "start_regs c sys_exit th f a = set_regs [(0, a), (15, f), (13, th + stack_size), (14, sys_exit), (16, c)]"

definition stack_fits :: "u32 \<Rightarrow> bool" where
  "stack_fits th \<longleftrightarrow> unat th mod 8 = 0 \<and> unat th + 65536 < 4294967296"

lemma stack_end:
  assumes "stack_fits th"
  shows "unat (th + stack_size) = unat th + 65536" "(th + stack_size) mod 8 = 0" "th mod 8 = 0" "th \<le> th + stack_size"
proof -
  show u: "unat (th + stack_size) = unat th + 65536"
    using assms by (simp add: stack_fits_def stack_size_def unat_word_ariths)
  then have "unat ((th + stack_size) mod 8) = 0"
    using assms by (simp add: unat_mod stack_fits_def mod_add_eq [symmetric])
  then show "(th + stack_size) mod 8 = 0" by (simp add: unat_eq_0)
  have "unat (th mod 8) = 0" using assms by (simp add: unat_mod stack_fits_def)
  then show "th mod 8 = 0" by (simp add: unat_eq_0)
  show "th \<le> th + stack_size" using u by (simp add: word_le_nat_alt)
qed

lemma start_regs_fields:
  "start_regs c sys_exit th f a ! 13 = th + stack_size" "start_regs c sys_exit th f a ! 15 = f"
  "start_regs c sys_exit th f a ! 16 = c"
  by (simp_all add: start_regs_def set_regs_def)

lemma equiv_fork_ok:
  assumes "cpsr_inherit USER_MODE cpsr = Inr c" "stack_fits th" "qe_rep (links S) (equiv_runq S) q" "th \<notin> set q"
  obtains S' where "equiv_fork cpsr sys_exit th S f a e = Inr S'" "qe_rep (links S') (equiv_runq S') (th # q)"
    "threads S' = (threads S)(th := (threads S th)\<lparr>eq_expected_hash := e, eq_tid := ntids S, eq_fn := f, eq_arg := a,
       eq_stack_start := th, eq_stack_end := th + stack_size, eq_regs := start_regs c sys_exit th f a\<rparr>)"
proof -
  note e = stack_end [OF assms(2)]
  have "equiv_fork cpsr sys_exit th S f a e = Inr ((upd_th th (\<lambda>t. t\<lparr>eq_expected_hash := e, eq_tid := ntids S, eq_fn := f,
       eq_arg := a, eq_stack_start := th, eq_stack_end := th + stack_size, eq_regs := start_regs c sys_exit th f a\<rparr>)
       (S\<lparr>ntids := ntids S + 1\<rparr>))\<lparr>links := fst (qe_push (links S) (equiv_runq S) th),
       equiv_runq := snd (qe_push (links S) (equiv_runq S) th)\<rparr>)"
    using assms(1) e start_regs_fields(1) [of c sys_exit th f a]
    by (simp add: equiv_fork_def Let_def upd_th_def equiv_regs_init_def check_sp_ok sp_ok_def split_def
        start_regs_def [symmetric])
  from that [OF this] show ?thesis
    using qe_push_ok [OF assms(3,4)] by (simp add: upd_th_def)
qed

text \<open>A list of threads to create: the block for the thread, function, argument and expected hash.\<close>

fun fork_all :: "u32 \<Rightarrow> u32 \<Rightarrow> equiv \<Rightarrow> (u32 \<times> u32 \<times> u32 \<times> u32) list \<Rightarrow> equiv res" where
  "fork_all cpsr sys_exit S [] = Inr S"
| "fork_all cpsr sys_exit S ((th, f, a, e) # fs) =
     seq (equiv_fork cpsr sys_exit th S f a e) (\<lambda>S. fork_all cpsr sys_exit S fs)"

lemma fork_all_ok:
  assumes "cpsr_inherit USER_MODE cpsr = Inr c" "\<forall>(th, f, a, e)\<in>set fs. stack_fits th"
    "qe_rep (links S) (equiv_runq S) q" "distinct (map fst fs)" "fst ` set fs \<inter> set q = {}"
  shows "\<exists>S'. fork_all cpsr sys_exit S fs = Inr S' \<and> qe_rep (links S') (equiv_runq S') (rev (map fst fs) @ q) \<and>
    (\<forall>(th, f, a, e)\<in>set fs. eq_expected_hash (threads S' th) = e \<and> eq_reg_hash (threads S' th) = eq_reg_hash (threads S th) \<and>
       eq_stack_start (threads S' th) = th \<and> eq_stack_end (threads S' th) = th + stack_size \<and>
       eq_regs (threads S' th) = start_regs c sys_exit th f a) \<and>
    (\<forall>t. t \<notin> fst ` set fs \<longrightarrow> threads S' t = threads S t)"
  using assms(2-)
proof (induction fs arbitrary: S q)
  case Nil
  then show ?case by simp
next
  case (Cons x fs)
  obtain th f a e where x: "x = (th, f, a, e)" by (cases x)
  have th: "stack_fits th" "th \<notin> set q" using Cons.prems(1,4) x by auto
  obtain S1 where S1: "equiv_fork cpsr sys_exit th S f a e = Inr S1" "qe_rep (links S1) (equiv_runq S1) (th # q)"
    "threads S1 = (threads S)(th := (threads S th)\<lparr>eq_expected_hash := e, eq_tid := ntids S, eq_fn := f, eq_arg := a,
       eq_stack_start := th, eq_stack_end := th + stack_size, eq_regs := start_regs c sys_exit th f a\<rparr>)"
    by (rule equiv_fork_ok [OF assms(1) th(1) Cons.prems(2) th(2)])
  have nin: "th \<notin> fst ` set fs" using Cons.prems(3) x by auto
  then have "fst ` set fs \<inter> set (th # q) = {}" using Cons.prems(4) x by auto
  then obtain S' where S': "fork_all cpsr sys_exit S1 fs = Inr S'"
    "qe_rep (links S') (equiv_runq S') (rev (map fst fs) @ th # q)"
    "\<forall>(t, f, a, e)\<in>set fs. eq_expected_hash (threads S' t) = e \<and> eq_reg_hash (threads S' t) = eq_reg_hash (threads S1 t) \<and>
       eq_stack_start (threads S' t) = t \<and> eq_stack_end (threads S' t) = t + stack_size \<and>
       eq_regs (threads S' t) = start_regs c sys_exit t f a"
    "\<forall>t. t \<notin> fst ` set fs \<longrightarrow> threads S' t = threads S1 t"
    using Cons.IH [OF _ S1(2)] Cons.prems(1,3) by auto
  have old: "threads S1 t = threads S t" if "(t, y) \<in> set fs" for t y
    using S1(3) that nin by force
  show ?case
    using S1(1,3) S' nin old x by (auto simp: split_beta)
qed

text \<open>A thread that would exit with hash \<open>h th\<close> after \<open>n th\<close> exceptions if it ran alone from its start registers.\<close>

definition fork_spec :: "u32 \<Rightarrow> 'm user \<Rightarrow> u32 \<Rightarrow> u32 \<Rightarrow> (u32 \<Rightarrow> 'm) \<Rightarrow> (u32 \<Rightarrow> nat) \<Rightarrow> (u32 \<Rightarrow> u32) \<Rightarrow>
    u32 \<times> u32 \<times> u32 \<times> u32 \<Rightarrow> bool" where
  "fork_spec ss_exit user c sys_exit M n h x = (case x of (th, f, a, e) \<Rightarrow>
     stack_fits th \<and> resumable ss_exit (start_regs c sys_exit th f a) \<and>
     solo ss_exit user th (th + stack_size) (n th) (M th) (start_regs c sys_exit th f a) 0 = Some (h th))"

lemma fork_all_run:
  assumes dev: "equiv_dev C pr U k" and cpsr: "mode_get cpsr = Inr m" "m \<noteq> USER_MODE" "cpsr_inherit USER_MODE cpsr = Inr c"
    and S: "qe_rep (links S) (equiv_runq S) []" "fs \<noteq> []" "distinct (map fst fs)"
      "\<forall>x\<in>set fs. eq_reg_hash (threads S (fst x)) = 0"
    and spec: "\<forall>x\<in>set fs. fork_spec ss_exit user c sys_exit M n h x"
    and N: "sum_list (map n (map fst fs)) \<le> N" and s: "\<not> step_on s"
  shows "\<exists>S1. fork_all cpsr sys_exit S fs = Inr S1 \<and> (\<forall>(th, f, a, e)\<in>set fs. eq_expected_hash (threads S1 th) = e) \<and>
    wp pr (equiv_run C U k ss_exit ss_start cpsr user N S1 M)
      (\<lambda>(S', M') s'. \<not> step_on s' \<and> all_exited S1 S' h (rev (map fst fs))) (wrong S1 h (rev (map fst fs))) s"
proof -
  obtain S1 where S1: "fork_all cpsr sys_exit S fs = Inr S1" "qe_rep (links S1) (equiv_runq S1) (rev (map fst fs))"
    "\<forall>(th, f, a, e)\<in>set fs. eq_expected_hash (threads S1 th) = e \<and> eq_reg_hash (threads S1 th) = eq_reg_hash (threads S th) \<and>
       eq_stack_start (threads S1 th) = th \<and> eq_stack_end (threads S1 th) = th + stack_size \<and>
       eq_regs (threads S1 th) = start_regs c sys_exit th f a"
    using fork_all_ok [OF cpsr(3) _ S(1,3), of sys_exit] spec by (fastforce simp: fork_spec_def)
  obtain t ts where t: "rev (map fst fs) = t # ts" using S(2) by (cases "rev (map fst fs)") auto
  have lv: "live ss_exit user S1 M (n t) (h t) t" if t_in: "t \<in> set (rev (map fst fs))" for t
  proof -
    obtain f a e where x: "(t, f, a, e) \<in> set fs" using t_in by force
    have "eq_reg_hash (threads S t) = 0" using S(4) x by force
    then show ?thesis using S1(3) spec x by (fastforce simp: live_def fork_spec_def)
  qed
  have "sum_list (map n (t # ts)) \<le> N"
    using N unfolding t [symmetric] by (simp flip: rev_map)
  then have "wp pr (equiv_run C U k ss_exit ss_start cpsr user N S1 M)
      (\<lambda>(S', M') s'. \<not> step_on s' \<and> all_exited S1 S' h (rev (map fst fs))) (wrong S1 h (rev (map fst fs))) s"
    using lv S1(2) unfolding t by (intro equiv_dev.wp_equiv_run [OF dev _ s _ _ cpsr(1,2), where n = n]) auto
  then show ?thesis using S1(1,3) by fastforce
qed

section \<open>A simulated processor\<close>

definition sim_uart :: "'d uart_if" where
  "sim_uart = \<lparr>can_put8 = ret True, put8 = (\<lambda>_. ret ()), flush_tx = ret ()\<rparr>"

interpretation sim_equiv: equiv_dev sim_cp id sim_uart 1
proof
  show "keeps id (flush_tx sim_uart)" "keeps id (put8 sim_uart b)" for b
    by (simp_all add: sim_uart_def keeps_ret)
  show "wp id (poll 1 (can_put8 sim_uart)) (\<lambda>_ s'. s' = s) never s" for s :: dbg
    by (rule wp_poll_once) (auto simp: sim_uart_def intro: wp_ret)
qed

section \<open>Properties\<close>

text \<open>C5. C0: The hash of a thread does not depend on how the threads are interleaved. Whatever threads are created, and in
  whatever order they take their turns, each exits with the hash that it has when it runs alone from its start
  registers, provided that every thread has memory of its own; the hash is recorded if none was expected. All of them
  exit: the run ends after at most as many exceptions as the threads raise alone, with single stepping off.\<close>

theorem equiv_run_hashes:
  assumes "equiv_dev C pr U k" "mode_get cpsr = Inr m" "m \<noteq> USER_MODE" "cpsr_inherit USER_MODE cpsr = Inr c"
    and "qe_rep (links S) (equiv_runq S) []" "fs \<noteq> []" "distinct (map fst fs)"
      "\<forall>x\<in>set fs. eq_reg_hash (threads S (fst x)) = 0"
    and "\<forall>x\<in>set fs. fork_spec ss_exit user c sys_exit M n h x"
    and "sum_list (map n (map fst fs)) \<le> N" "\<not> step_on s"
    and "\<forall>(th, f, a, e)\<in>set fs. e \<in> {0, h th}"
  shows "\<exists>S1. fork_all cpsr sys_exit S fs = Inr S1 \<and>
    wp pr (equiv_run C U k ss_exit ss_start cpsr user N S1 M)
      (\<lambda>(S', M') s'. \<not> step_on s' \<and> (\<forall>(th, f, a, e)\<in>set fs.
         eq_reg_hash (threads S' th) = h th \<and> eq_expected_hash (threads S' th) = h th)) never s"
proof -
  obtain S1 where S1: "fork_all cpsr sys_exit S fs = Inr S1" "\<forall>(th, f, a, e)\<in>set fs. eq_expected_hash (threads S1 th) = e"
    and w: "wp pr (equiv_run C U k ss_exit ss_start cpsr user N S1 M)
      (\<lambda>(S', M') s'. \<not> step_on s' \<and> all_exited S1 S' h (rev (map fst fs))) (wrong S1 h (rev (map fst fs))) s"
    using fork_all_run [OF assms(1-11), of ss_start] by blast
  have ok: "\<not> wrong S1 h (rev (map fst fs)) e" for e
    using S1(2) assms(12) by (fastforce simp: wrong_def)
  have ex: "eq_reg_hash (threads S' th) = h th \<and> eq_expected_hash (threads S' th) = h th"
    if "all_exited S1 S' h (rev (map fst fs))" "(th, f, a, e) \<in> set fs" for S' th f a e
    using that by (force simp: all_exited_def exited_def)
  have "wp pr (equiv_run C U k ss_exit ss_start cpsr user N S1 M)
      (\<lambda>(S', M') s'. \<not> step_on s' \<and> (\<forall>(th, f, a, e)\<in>set fs.
         eq_reg_hash (threads S' th) = h th \<and> eq_expected_hash (threads S' th) = h th)) never s"
    by (rule wp_conseq [OF w]) (use ok in \<open>auto dest: ex\<close>)
  with S1(1) show ?thesis by blast
qed

text \<open>C33. C0: A run in which some thread does not have its expected hash never gets past the exit of that thread: it stops with a
  panic, whatever the interleaving.\<close>

theorem equiv_run_detects:
  assumes "equiv_dev C pr U k" "mode_get cpsr = Inr m" "m \<noteq> USER_MODE" "cpsr_inherit USER_MODE cpsr = Inr c"
    and "qe_rep (links S) (equiv_runq S) []" "fs \<noteq> []" "distinct (map fst fs)"
      "\<forall>x\<in>set fs. eq_reg_hash (threads S (fst x)) = 0"
    and "\<forall>x\<in>set fs. fork_spec ss_exit user c sys_exit M n h x"
    and "sum_list (map n (map fst fs)) \<le> N" "\<not> step_on s"
    and "(th, f, a, e) \<in> set fs" "e \<noteq> 0" "e \<noteq> h th"
  shows "\<exists>S1. fork_all cpsr sys_exit S fs = Inr S1 \<and>
    wp pr (equiv_run C U k ss_exit ss_start cpsr user N S1 M) (\<lambda>_ _. False) (\<lambda>e. e = Panic) s"
proof -
  obtain S1 where S1: "fork_all cpsr sys_exit S fs = Inr S1" "\<forall>(th, f, a, e)\<in>set fs. eq_expected_hash (threads S1 th) = e"
    and w: "wp pr (equiv_run C U k ss_exit ss_start cpsr user N S1 M)
      (\<lambda>(S', M') s'. \<not> step_on s' \<and> all_exited S1 S' h (rev (map fst fs))) (wrong S1 h (rev (map fst fs))) s"
    using fork_all_run [OF assms(1-11), of ss_start] by blast
  have "\<not> exited S1 S' (h th) th" for S'
    using S1(2) assms(12-14) by (auto simp: exited_def)
  then have ex: "\<not> all_exited S1 S' h (rev (map fst fs))" for S'
    using assms(12) by (force simp: all_exited_def)
  have "wp pr (equiv_run C U k ss_exit ss_start cpsr user N S1 M) (\<lambda>_ _. False) (\<lambda>e. e = Panic) s"
    by (rule wp_conseq [OF w]) (use ex in \<open>auto simp: wrong_def\<close>)
  with S1(1) show ?thesis by blast
qed

text \<open>
  Two threads with one program: it counts down the number in its memory, adding it to register 1, and exits.
\<close>

fun count_down :: "nat user" where
  "count_down 0 r = (Svc (r[0 := EQUIV_EXIT]), 0)"
| "count_down (Suc m) r = (Step_to (r[1 := r ! 1 + word_of_nat (Suc m), 15 := r ! 15 + 4]), m)"

definition no_thread :: eq_th_t where
  "no_thread = \<lparr>eq_regs = [], eq_expected_hash = 0, eq_reg_hash = 0, eq_tid = 0, eq_fn = 0, eq_arg = 0,
     eq_stack_start = 0, eq_stack_end = 0, eq_refork_cnt = 0, eq_inst_cnt = 0, eq_verbose_p = 0\<rparr>"

definition no_threads :: equiv where
  "no_threads = \<lparr>equiv_runq = \<lparr>qe_head = None, qe_tail = None\<rparr>, links = (\<lambda>_. None), threads = (\<lambda>_. no_thread),
     cur_thread = None, ntids = 1, verbose_on = True\<rparr>"

definition two_mems :: "u32 \<Rightarrow> nat" where
  "two_mems th = (if th = 0x100000 then Suc 0 else Suc (Suc 0))"

definition two_hashes :: "u32 \<Rightarrow> u32" where
  "two_hashes th = the (solo 0x8100 count_down th (th + stack_size) (Suc (Suc (Suc 0))) (two_mems th) (start_regs 0x110 0x8300 th 0x8000 0) 0)"

lemma start_regs_length: "length (start_regs c sys_exit th f a) = 17"
  by (simp add: start_regs_def set_regs_def)

lemma mode_ok_user: "r ! 16 = 0x110 \<Longrightarrow> mode_ok r"
  by (simp add: mode_ok_def mode_get_def bits_get_ok mode_legal_def modes shr_def mask_eq_exp_minus_1)

lemmas count_down_runs = resumable_def mode_ok_user word_aligned_def sp_ok_def
  start_regs_fields start_regs_length

abbreviation runs_alone :: "u32 \<Rightarrow> u32 option" where
  "runs_alone th \<equiv> solo 0x8100 count_down th (th + stack_size) (Suc (Suc (Suc 0))) (two_mems th)
     (start_regs 0x110 0x8300 th 0x8000 0) 0"

lemma two_run: "runs_alone 0x100000 \<noteq> None" "runs_alone 0x110000 \<noteq> None"
  by (simp_all add: count_down_runs stack_size_def two_mems_def)

lemma two_threads:
  assumes "th \<in> {0x100000, 0x110000}"
  shows "fork_spec 0x8100 count_down 0x110 0x8300 two_mems (\<lambda>_. Suc (Suc (Suc 0))) two_hashes (th, 0x8000, 0, e)"
proof -
  have "runs_alone th \<noteq> None" using assms two_run by blast
  then have "runs_alone th = Some (two_hashes th)" unfolding two_hashes_def by (rule option.collapse [symmetric])
  moreover have "resumable 0x8100 (start_regs 0x110 0x8300 th 0x8000 0)"
    by (simp add: count_down_runs)
  moreover have "stack_fits th" using assms by (auto simp: stack_fits_def)
  ultimately show ?thesis unfolding fork_spec_def prod.case by blast
qed

lemma no_queue: "qe_rep (links no_threads) (equiv_runq no_threads) []"
  by (simp add: qe_rep_def no_threads_def)

lemma inherit_witness: "cpsr_inherit USER_MODE 0x113 = Inr 0x110" "mode_get 0x113 = Inr SUPER_MODE"
  by (simp_all add: cpsr_inherit_def mode_legal_def modes cpsr_clear_carry_def bits_clr_ok mode_set_def mode_get_def
      bits_get_ok shr_def shl_def mask_eq_exp_minus_1)

lemma equiv_run_hashes_witness:
  "\<exists>S1. fork_all 0x113 0x8300 no_threads [(0x100000, 0x8000, 0, 0), (0x110000, 0x8000, 0, 0)] = Inr S1 \<and>
    wp id (equiv_run sim_cp sim_uart 1 0x8100 [] 0x113 count_down 6 S1 two_mems)
      (\<lambda>(S', M') s'. \<not> step_on s' \<and> (\<forall>(th, f, a, e)\<in>set [(0x100000, 0x8000, 0, 0), (0x110000, 0x8000 :: u32, 0 :: u32, 0 :: u32)].
         eq_reg_hash (threads S' th) = two_hashes th \<and> eq_expected_hash (threads S' th) = two_hashes th)) never
      \<lparr>dregs = \<lambda>_. 0, step_on = False\<rparr>"
proof (rule equiv_run_hashes [OF sim_equiv.equiv_dev_axioms inherit_witness(2) _ inherit_witness(1) no_queue])
  show "\<forall>x\<in>set [(0x100000, 0x8000, 0, 0), (0x110000, 0x8000, 0, 0)].
      fork_spec 0x8100 count_down 0x110 0x8300 two_mems (\<lambda>_. Suc (Suc (Suc 0))) two_hashes x"
    using two_threads by simp
qed (simp_all add: modes no_threads_def no_thread_def)

text \<open>The second thread is expected to have another hash.\<close>

definition other_hash :: "u32 \<Rightarrow> u32" where
  "other_hash th = (if two_hashes th = 1 then 2 else 1)"

lemma equiv_run_detects_witness:
  "\<exists>S1. fork_all 0x113 0x8300 no_threads [(0x100000, 0x8000, 0, 0), (0x110000, 0x8000, 0, other_hash 0x110000)] = Inr S1 \<and>
    wp id (equiv_run sim_cp sim_uart 1 0x8100 [] 0x113 count_down 6 S1 two_mems) (\<lambda>_ _. False) (\<lambda>e. e = Panic)
      \<lparr>dregs = \<lambda>_. 0, step_on = False\<rparr>"
proof (rule equiv_run_detects [OF sim_equiv.equiv_dev_axioms inherit_witness(2) _ inherit_witness(1) no_queue])
  show "\<forall>x\<in>set [(0x100000, 0x8000, 0, 0), (0x110000, 0x8000, 0, other_hash 0x110000)].
      fork_spec 0x8100 count_down 0x110 0x8300 two_mems (\<lambda>_. Suc (Suc (Suc 0))) two_hashes x"
    using two_threads by simp
  show "(0x110000, 0x8000, 0, other_hash 0x110000) \<in> set [(0x100000, 0x8000, 0, 0), (0x110000, 0x8000, 0, other_hash 0x110000)]"
    by simp
qed (simp_all add: modes no_threads_def no_thread_def other_hash_def)

end
