(* ===== verification/SwUart.thy ===== *)
theory SwUart
  imports Gpio Timer Wp
begin

unbundle bit_operations_syntax

text \<open>
  The software UART of \<open>labs/8-uart/1-sw-uart-put8\<close> (\<open>sw-uart.c\<close>, \<open>wait-routines.h\<close>, \<open>libpi/include/sw-uart.h\<close>,
  \<open>cycle-util.h\<close>): bytes are sent and received by writing and reading a pin at the right times. The cycle counter is a
  parameter \<open>cyc\<close>; the locale \<open>pin_clock\<close> says how reading it and touching the pins takes time.
\<close>

section \<open>Waiting\<close>

text \<open>Loops have \<open>k\<close> rounds. \<open>f\<close> is the function that is called while waiting.\<close>

fun wait_loop :: "('d, u32) io \<Rightarrow> ('d, unit) io option \<Rightarrow> nat \<Rightarrow> u32 \<Rightarrow> u32 \<Rightarrow> ('d, unit) io" where
  "wait_loop cyc f 0 s n = fails Stuck"
| "wait_loop cyc f (Suc k) s n =
     bnd cyc (\<lambda>c. if c - s \<le> n
       then thn (case f of None \<Rightarrow> ret () | Some fn \<Rightarrow> fn) (wait_loop cyc f k s n) else ret ())"

definition wait_ncycles_exact_fn :: "('d, u32) io \<Rightarrow> nat \<Rightarrow> u32 \<Rightarrow> u32 \<Rightarrow> ('d, unit) io option \<Rightarrow> ('d, u32) io" where
  "wait_ncycles_exact_fn cyc k s n f = thn (wait_loop cyc f k s n) cyc"

definition wait_ncycles_exact :: "('d, u32) io \<Rightarrow> nat \<Rightarrow> u32 \<Rightarrow> u32 \<Rightarrow> ('d, u32) io" where
  "wait_ncycles_exact cyc k s n = wait_ncycles_exact_fn cyc k s n None"

definition wait_ncycles_fn :: "('d, u32) io \<Rightarrow> nat \<Rightarrow> u32 \<Rightarrow> ('d, unit) io option \<Rightarrow> ('d, u32) io" where
  "wait_ncycles_fn cyc k n f = bnd cyc (\<lambda>s. wait_ncycles_exact_fn cyc k s n f)"

definition wait_ncycles :: "('d, u32) io \<Rightarrow> nat \<Rightarrow> u32 \<Rightarrow> ('d, u32) io" where
  "wait_ncycles cyc k n = wait_ncycles_fn cyc k n None"

text \<open>\<open>delay_ncycles\<close> returns the reading that ended its loop.\<close>

fun delay_ncycles :: "('d, u32) io \<Rightarrow> nat \<Rightarrow> u32 \<Rightarrow> u32 \<Rightarrow> ('d, u32) io" where
  "delay_ncycles cyc 0 start n = fails Stuck"
| "delay_ncycles cyc (Suc k) start n =
     bnd cyc (\<lambda>c. if c - start < n then delay_ncycles cyc k start n else ret c)"

definition write_cyc_until :: "'d bus \<Rightarrow> ('d, u32) io \<Rightarrow> nat \<Rightarrow> u32 \<Rightarrow> u32 \<Rightarrow> u32 \<Rightarrow> u32 \<Rightarrow> ('d, u32) io" where
  "write_cyc_until B cyc k pin v start ncycles = thn (gpio_write B pin v) (delay_ncycles cyc k start ncycles)"

definition GPIO_READ_RAW :: "'d bus \<Rightarrow> u32 \<Rightarrow> ('d, u32) io" where
  "GPIO_READ_RAW B pin =
     (let off = pin mod 32 in bnd (GET32 B 0x20200034) (\<lambda>v. ret (shr v off AND 1)))"

fun wait_until_cyc :: "'d bus \<Rightarrow> ('d, u32) io \<Rightarrow> nat \<Rightarrow> u32 \<Rightarrow> u32 \<Rightarrow> u32 \<Rightarrow> u32 \<Rightarrow> ('d, bool) io" where
  "wait_until_cyc B cyc 0 pin v s ncycles = fails Stuck"
| "wait_until_cyc B cyc (Suc k) pin v s ncycles =
     bnd (GPIO_READ_RAW B pin) (\<lambda>x. if x = v then ret True else
     bnd cyc (\<lambda>c. if ncycles \<le> c - s then ret False else wait_until_cyc B cyc k pin v s ncycles))"

fun usec_loop :: "'d bus \<Rightarrow> nat \<Rightarrow> u32 \<Rightarrow> u32 \<Rightarrow> u32 \<Rightarrow> u32 \<Rightarrow> ('d, bool) io" where
  "usec_loop B 0 pin v start timeout = fails Stuck"
| "usec_loop B (Suc k) pin v start timeout =
     bnd (GPIO_READ_RAW B pin) (\<lambda>x. if x = v then ret True else
     bnd (timer_get_usec_raw B) (\<lambda>u. if timeout < u - start then ret False
       else usec_loop B k pin v start timeout))"

definition wait_until_usec :: "'d bus \<Rightarrow> nat \<Rightarrow> u32 \<Rightarrow> u32 \<Rightarrow> u32 \<Rightarrow> ('d, bool) io" where
  "wait_until_usec B k pin v timeout =
     bnd (GPIO_READ_RAW B pin) (\<lambda>x. if x = v then ret True else
     bnd (timer_get_usec_raw B) (\<lambda>start. usec_loop B k pin v start timeout))"

section \<open>The driver\<close>

record sw_uart_t =
  sw_tx :: u8
  sw_rx :: u8
  sw_baud :: u32
  cycle_per_bit :: u32
  usec_per_bit :: u32

text \<open>The lines \<open>gpio_write(tx, v); wait_ncycles_exact(s, u); u += n\<close> for a list of values.\<close>

fun put_bits :: "'d bus \<Rightarrow> ('d, u32) io \<Rightarrow> nat \<Rightarrow> u32 \<Rightarrow> u32 \<Rightarrow> u32 \<Rightarrow> u32 \<Rightarrow> u32 list \<Rightarrow> ('d, unit) io" where
  "put_bits B cyc k tx s n u [] = ret ()"
| "put_bits B cyc k tx s n u (v # vs) =
     thn (gpio_write B tx v) (thn (void (wait_ncycles_exact cyc k s u)) (put_bits B cyc k tx s n (u + n) vs))"

definition sw_uart_put8 :: "'d bus \<Rightarrow> ('d, u32) io \<Rightarrow> nat \<Rightarrow> sw_uart_t \<Rightarrow> u8 \<Rightarrow> ('d, unit) io" where
  "sw_uart_put8 B cyc k uart c =
     (let tx = ucast (sw_tx uart); n = cycle_per_bit uart; u = n in
      bnd cyc (\<lambda>s. put_bits B cyc k tx s n u
        (0 # map (\<lambda>i. shr (ucast c) i AND 1) [0, 1, 2, 3, 4, 5, 6, 7] @ [1])))"

text \<open>The lines \<open>int bit = gpio_read(rx) << i; wait_ncycles_exact(s, u); u += n\<close>; the bits are or-ed in the end.\<close>

fun get_bits :: "'d bus \<Rightarrow> ('d, u32) io \<Rightarrow> nat \<Rightarrow> u32 \<Rightarrow> u32 \<Rightarrow> u32 \<Rightarrow> u32 \<Rightarrow> u32 list \<Rightarrow> ('d, u32) io" where
  "get_bits B cyc k rx s n u [] = ret 0"
| "get_bits B cyc k rx s n u (i # is) =
     bnd (gpio_read B rx) (\<lambda>v.
     thn (void (wait_ncycles_exact cyc k s u))
    (bnd (get_bits B cyc k rx s n (u + n) is) (\<lambda>r. ret (r OR shl v i))))"

definition sw_uart_get8_timeout :: "'d bus \<Rightarrow> ('d, u32) io \<Rightarrow> nat \<Rightarrow> sw_uart_t \<Rightarrow> u32 \<Rightarrow> ('d, u32) io" where
  "sw_uart_get8_timeout B cyc k uart timeout =
     (let rx = ucast (sw_rx uart) in
      bnd (wait_until_usec B k rx 0 timeout) (\<lambda>b. if \<not> b then ret (- 1) else
      let n = cycle_per_bit uart; u = n in
      bnd cyc (\<lambda>s.
      thn (void (gpio_read B rx)) (thn (void (wait_ncycles_exact cyc k s u))
     (get_bits B cyc k rx s n (u + n) [0, 1, 2, 3, 4, 5, 6, 7])))))"

text \<open>\<open>c < 0\<close> for an \<open>int\<close>.\<close>

definition sw_uart_get8 :: "'d bus \<Rightarrow> ('d, u32) io \<Rightarrow> nat \<Rightarrow> sw_uart_t \<Rightarrow> ('d, u32) io" where
  "sw_uart_get8 B cyc k uart =
     (let sec = 5 in
      bnd (sw_uart_get8_timeout B cyc k uart (1000 * 1000 * sec)) (\<lambda>c. if sint c < 0 then fails Panic else ret c))"

fun sw_uart_putk :: "'d bus \<Rightarrow> ('d, u32) io \<Rightarrow> nat \<Rightarrow> sw_uart_t \<Rightarrow> u8 list \<Rightarrow> ('d, unit) io" where
  "sw_uart_putk B cyc k uart [] = ret ()"
| "sw_uart_putk B cyc k uart (c # msg) = thn (sw_uart_put8 B cyc k uart c) (sw_uart_putk B cyc k uart msg)"

definition sw_uart_init_helper :: "'d bus \<Rightarrow> u32 \<Rightarrow> u32 \<Rightarrow> u32 \<Rightarrow> u32 \<Rightarrow> u32 \<Rightarrow> ('d, sw_uart_t) io" where
  "sw_uart_init_helper B tx rx baud cyc_bit usec_bit =
     thn (check (tx \<noteq> 0 \<and> tx < 31) Assert_fail)
    (thn (check (rx \<noteq> 0 \<and> rx < 31) Assert_fail)
    (thn (check (cyc_bit \<noteq> 0 \<and> usec_bit < cyc_bit) Assert_fail)
    (thn (check (usec_bit \<noteq> 0) Assert_fail)
    (let mhz = 700 * 1000 * 1000; derived = cyc_bit * baud in
     thn (check (mhz - baud \<le> derived \<and> derived \<le> mhz + baud) Panic)
    (thn (gpio_set_output B tx)
    (thn (gpio_set_on B tx)
    (ret \<lparr>sw_tx = ucast tx, sw_rx = ucast rx, sw_baud = baud, cycle_per_bit = cyc_bit,
       usec_per_bit = usec_bit\<rparr>)))))))"

definition BAUD_TO_CYCLES :: "u32 \<Rightarrow> u32" where
  "BAUD_TO_CYCLES baud = (700 * 1000 * 1000) div baud"

definition BAUD_TO_USEC :: "u32 \<Rightarrow> u32" where
  "BAUD_TO_USEC baud = (1000 * 1000) div baud"

definition sw_uart_init :: "'d bus \<Rightarrow> u32 \<Rightarrow> u32 \<Rightarrow> u32 \<Rightarrow> ('d, sw_uart_t) io" where
  "sw_uart_init B tx rx baud = sw_uart_init_helper B tx rx baud (BAUD_TO_CYCLES baud) (BAUD_TO_USEC baud)"

definition sw_uart_default :: "'d bus \<Rightarrow> ('d, sw_uart_t) io" where
  "sw_uart_default B = sw_uart_init B 14 15 115200"

section \<open>Time and the pins\<close>

text \<open>The cycle of the processor, and the level of the transmit line as a function of the cycle; a write changes it from
  its cycle on.\<close>

record pins =
  now :: nat
  wave :: "nat \<Rightarrow> bool"

definition later :: "nat \<Rightarrow> pins \<Rightarrow> nat \<Rightarrow> bool" where
  "later g p t \<longleftrightarrow> now p < t \<and> t \<le> now p + g"

text \<open>
  Every access takes between one and \<open>g\<close> cycles. The counter returns the lower 32 bits of the cycle; the receive pin has
  the level \<open>L\<close> of the cycle in which it is read; the microsecond counter advances every 700 cycles.
\<close>

text \<open>A program that takes between one and \<open>g\<close> cycles; its value and its effect depend on the cycle in which it ends.\<close>

definition takes :: "('d \<Rightarrow> pins) \<Rightarrow> nat \<Rightarrow> ('d, 'a) io \<Rightarrow> (nat \<Rightarrow> 'a) \<Rightarrow> (nat \<Rightarrow> pins \<Rightarrow> pins) \<Rightarrow> bool" where
  "takes st g m r f \<longleftrightarrow> (\<forall>d. \<exists>t d'. later g (st d) t \<and> m d = Inr (r t, d') \<and> st d' = f t (st d))"

lemma wp_takes:
  assumes "takes st g m r f" "\<And>t. later g p t \<Longrightarrow> Q (r t) (f t p)"
  shows "wp st m Q E p"
  unfolding wp_def
proof (intro allI impI)
  fix d assume d: "st d = p"
  obtain t d' where "later g (st d) t" "m d = Inr (r t, d')" "st d' = f t (st d)"
    using assms(1) unfolding takes_def by blast
  with d assms(2) show "case m d of Inl e \<Rightarrow> E e | Inr (x, d') \<Rightarrow> Q x (st d')" by simp
qed

definition at_time :: "nat \<Rightarrow> pins \<Rightarrow> pins" where
  "at_time t p = p\<lparr>now := t\<rparr>"

definition drive :: "bool \<Rightarrow> nat \<Rightarrow> pins \<Rightarrow> pins" where
  "drive v t p = p\<lparr>now := t, wave := (\<lambda>u. if u < t then wave p u else v)\<rparr>"

lemma at_time_simps [simp]: "now (at_time t p) = t" "wave (at_time t p) = wave p" "at_time u (at_time t p) = at_time u p"
  by (simp_all add: at_time_def)

lemma drive_simps [simp]: "now (drive v t p) = t" "wave (drive v t p) = (\<lambda>u. if u < t then wave p u else v)"
  by (simp_all add: drive_def)

text \<open>
  The counter returns the lower 32 bits of the cycle; the receive pin has the level \<open>L\<close> of the cycle in which it is
  read; the microsecond counter advances every 700 cycles.
\<close>

locale pin_clock =
  fixes B :: "'d bus" and cyc :: "('d, u32) io" and st :: "'d \<Rightarrow> pins" and g :: nat and L :: "nat \<Rightarrow> bool"
    and tx rx :: u32
  assumes cyc_read: "takes st g cyc word_of_nat at_time"
    and pin_write: "takes st g (gpio_write B tx v) (\<lambda>_. ()) (drive (v \<noteq> 0))"
    and pin_read: "takes st g (gpio_read B rx) (\<lambda>t. of_bool (L t)) at_time"
    and pin_raw: "takes st g (GPIO_READ_RAW B rx) (\<lambda>t. of_bool (L t)) at_time"
    and usec_read: "takes st g (timer_get_usec_raw B) (\<lambda>t. word_of_nat (t div 700)) at_time"
begin

text \<open>A wait ends after more than \<open>n\<close> cycles, and at most \<open>g\<close> later or at once if that time has passed.\<close>

lemma wp_wait_loop:
  assumes "s \<le> now p" "now p \<le> s + n + g" "n + 2 * g < 4294967296" "s + n < now p + k" "0 < k"
    and "\<And>t. s + n < t \<Longrightarrow> t \<le> max (now p) (s + n) + g \<Longrightarrow> Q () (at_time t p)"
  shows "wp st (wait_loop cyc None k (word_of_nat s) (word_of_nat n)) Q E p"
  using assms
proof (induction k arbitrary: p)
  case 0
  then show ?case by simp
next
  case (Suc k)
  have "wp st (if word_of_nat t - word_of_nat s \<le> (word_of_nat n :: u32) then thn (ret ())
      (wait_loop cyc None k (word_of_nat s) (word_of_nat n)) else ret ()) Q E (at_time t p)"
    if t: "later g p t" for t
  proof -
    have "unat (word_of_nat t - word_of_nat s :: u32) = t - s"
      using t Suc.prems(1-3) by (intro elapsed_word) (auto simp: later_def)
    then have c: "word_of_nat t - word_of_nat s \<le> (word_of_nat n :: u32) \<longleftrightarrow> t - s \<le> n"
      using Suc.prems(3) by (simp add: word_le_nat_alt unat_of_nat)
    show ?thesis
    proof (cases "t - s \<le> n")
      case True
      have "wp st (wait_loop cyc None k (word_of_nat s) (word_of_nat n)) Q E (at_time t p)"
        using t True Suc.prems by (intro Suc.IH) (auto simp: later_def max_def split: if_splits)
      then show ?thesis using True c by (simp add: ret_thn)
    next
      case False
      then show ?thesis using t c Suc.prems by (auto simp: later_def intro!: wp_ret)
    qed
  qed
  then show ?case unfolding wait_loop.simps option.case by - (rule wp_bnd, rule wp_takes [OF cyc_read])
qed

lemma wp_wait:
  assumes "s \<le> now p" "now p \<le> s + n + g" "n + 2 * g < 4294967296" "s + n < now p + k" "0 < k"
    and "\<And>t. s + n < t \<Longrightarrow> t \<le> max (now p) (s + n) + 2 * g \<Longrightarrow> Q () (at_time t p)"
  shows "wp st (void (wait_ncycles_exact cyc k (word_of_nat s) (word_of_nat n))) Q E p"
  unfolding wait_ncycles_exact_def wait_ncycles_exact_fn_def
  by (intro wp_void wp_thn wp_wait_loop assms(1-5) wp_takes [OF cyc_read]) (use assms(6) in \<open>force simp: later_def\<close>)

end

section \<open>Sending\<close>

text \<open>Bit \<open>i\<close> of a frame that starts in cycle \<open>S\<close>: the line has the level \<open>b\<close> at the latest \<open>\<delta>\<close> cycles after the
  beginning of the bit and until its end.\<close>

definition bit_ok :: "(nat \<Rightarrow> bool) \<Rightarrow> nat \<Rightarrow> nat \<Rightarrow> nat \<Rightarrow> nat \<Rightarrow> bool \<Rightarrow> bool" where
  "bit_ok w S n \<delta> i b \<longleftrightarrow> (\<forall>t. S + i * n + \<delta> \<le> t \<longrightarrow> t \<le> S + (i + 1) * n \<longrightarrow> w t = b)"

definition bits_ok :: "(nat \<Rightarrow> bool) \<Rightarrow> nat \<Rightarrow> nat \<Rightarrow> nat \<Rightarrow> nat \<Rightarrow> bool list \<Rightarrow> bool" where
  "bits_ok w S n \<delta> j bs \<longleftrightarrow> (\<forall>i<length bs. bit_ok w S n \<delta> (j + i) (bs ! i))"

lemma bits_ok_Nil [simp]: "bits_ok w S n \<delta> j []"
  by (simp add: bits_ok_def)

lemma bits_ok_Cons: "bits_ok w S n \<delta> j (b # bs) \<longleftrightarrow> bit_ok w S n \<delta> j b \<and> bits_ok w S n \<delta> (Suc j) bs"
  unfolding bits_ok_def by (auto simp: nth_Cons split: nat.splits)

lemma bit_ok_cong: "(\<And>t. t \<le> S + (i + 1) * n \<Longrightarrow> w' t = w t) \<Longrightarrow> bit_ok w' S n \<delta> i b = bit_ok w S n \<delta> i b"
  by (simp add: bit_ok_def)

context pin_clock
begin

text \<open>One bit: the level changes and stays until the time of the bit is over.\<close>

lemma wp_put_bit:
  assumes p: "S + j * n \<le> now p" "now p \<le> S + j * n + 2 * g" and n: "3 * g \<le> n" "Suc j * n + 2 * g < 4294967296" "n < k"
    and Q: "\<And>p' e. now p < e \<Longrightarrow> e \<le> now p + g \<Longrightarrow> S + Suc j * n < now p' \<Longrightarrow> now p' \<le> S + Suc j * n + 2 * g \<Longrightarrow>
      wave p' = (\<lambda>u. if u < e then wave p u else v \<noteq> 0) \<Longrightarrow> Q () p'"
  shows "wp st (thn (gpio_write B tx v) (void (wait_ncycles_exact cyc k (word_of_nat S) (word_of_nat (Suc j * n))))) Q E p"
proof (rule wp_thn, rule wp_takes [OF pin_write])
  fix e assume e: "later g p e"
  show "wp st (void (wait_ncycles_exact cyc k (word_of_nat S) (word_of_nat (Suc j * n)))) Q E (drive (v \<noteq> 0) e p)"
  proof (rule wp_wait)
    fix t assume "S + Suc j * n < t" "t \<le> max (now (drive (v \<noteq> 0) e p)) (S + Suc j * n) + 2 * g"
    then show "Q () (at_time t (drive (v \<noteq> 0) e p))"
      using e p n by (intro Q [of e]) (auto simp: later_def max_def split: if_splits)
  qed (use e p n in \<open>auto simp: later_def\<close>)
qed

lemma wp_put_bits:
  assumes "S + j * n \<le> now p" "now p \<le> S + j * n + 2 * g" "3 * g \<le> n" "(j + length vs) * n + 2 * g < 4294967296" "n < k"
    and "\<And>p'. bits_ok (wave p') S n (3 * g) j (map (\<lambda>v. v \<noteq> 0) vs) \<Longrightarrow> (\<And>t. t \<le> now p \<Longrightarrow> wave p' t = wave p t) \<Longrightarrow>
      (if vs = [] then p' = p else \<forall>t\<ge>now p'. wave p' t = (last vs \<noteq> 0)) \<Longrightarrow>
      S + (j + length vs) * n \<le> now p' \<Longrightarrow> now p' \<le> S + (j + length vs) * n + 2 * g \<Longrightarrow> Q () p'"
  shows "wp st (put_bits B cyc k tx (word_of_nat S) (word_of_nat n) (word_of_nat (Suc j * n)) vs) Q E p"
  using assms
proof (induction vs arbitrary: j p Q)
  case Nil
  show ?case unfolding put_bits.simps by (rule wp_ret, rule Nil.prems(6)) (use Nil.prems in auto)
next
  case (Cons v vs)
  let ?S = "word_of_nat S :: u32" and ?n = "word_of_nat n :: u32"
  have u: "word_of_nat (Suc j * n) + ?n = word_of_nat (Suc (Suc j) * n)"
    by (simp flip: of_nat_add add: algebra_simps)
  have small: "Suc j * n + 2 * g < 4294967296"
  proof -
    have "Suc j * n \<le> (j + length (v # vs)) * n" by (intro mult_le_mono1) simp
    then show ?thesis using Cons.prems(4) by linarith
  qed
  have rest: "wp st (put_bits B cyc k tx ?S ?n (word_of_nat (Suc (Suc j) * n)) vs) Q E p'"
    if p': "now p < e" "e \<le> now p + g" "S + Suc j * n < now p'" "now p' \<le> S + Suc j * n + 2 * g"
      "wave p' = (\<lambda>u. if u < e then wave p u else v \<noteq> 0)" for p' e
  proof (rule Cons.IH)
    fix p'' assume p'': "bits_ok (wave p'') S n (3 * g) (Suc j) (map (\<lambda>v. v \<noteq> 0) vs)"
      "\<And>t. t \<le> now p' \<Longrightarrow> wave p'' t = wave p' t" "if vs = [] then p'' = p' else \<forall>t\<ge>now p''. wave p'' t = (last vs \<noteq> 0)"
      "S + (Suc j + length vs) * n \<le> now p''" "now p'' \<le> S + (Suc j + length vs) * n + 2 * g"
    have "bit_ok (wave p'') S n (3 * g) j (v \<noteq> 0)"
      unfolding bit_ok_def using p' p''(2) Cons.prems(1-3) by auto
    moreover have "\<forall>t\<ge>now p''. wave p'' t = (last (v # vs) \<noteq> 0)"
      using p''(3) p' Cons.prems(1,2,3) by (auto split: if_splits)
    ultimately show "Q () p''"
      using p' p'' Cons.prems by (intro Cons.prems(6)) (auto simp: bits_ok_Cons)
  qed (use p' Cons.prems in auto)
  have "wp st (bnd (thn (gpio_write B tx v) (void (wait_ncycles_exact cyc k ?S (word_of_nat (Suc j * n)))))
      (\<lambda>_. put_bits B cyc k tx ?S ?n (word_of_nat (Suc (Suc j) * n)) vs)) Q E p"
    by (rule wp_bnd, rule wp_put_bit [OF Cons.prems(1-3) small Cons.prems(5)]) (rule rest)
  then show ?case unfolding put_bits.simps u by (simp add: thn_def bnd_assoc)
qed

end

text \<open>
  A frame with byte \<open>c\<close> on a line that is idle since \<open>t0\<close>: the start bit begins with the edge in cycle \<open>e\<close>, and the
  bits of the byte follow every \<open>m\<close> cycles, lowest first, then the stop bit.
\<close>

definition frame_on :: "(nat \<Rightarrow> bool) \<Rightarrow> nat \<Rightarrow> nat \<Rightarrow> nat \<Rightarrow> nat \<Rightarrow> nat \<Rightarrow> u8 \<Rightarrow> bool" where
  "frame_on w t0 e S m \<delta> c \<longleftrightarrow> S \<le> e \<and> e \<le> S + \<delta> \<and> (\<forall>t. t0 \<le> t \<longrightarrow> t < e \<longrightarrow> w t) \<and>
     (\<forall>t. e \<le> t \<longrightarrow> t \<le> S + m \<longrightarrow> \<not> w t) \<and> bits_ok w S m \<delta> 1 (map (bit c) [0..<8] @ [True])"

lemma byte_bits: "map (\<lambda>v. v \<noteq> 0) (map (\<lambda>i. shr (ucast (c :: u8)) i AND 1) [0, 1, 2, 3, 4, 5, 6, 7] @ [1]) =
  map (bit c) [0..<8] @ [True]"
proof -
  have "(shr (ucast c) i AND 1 \<noteq> 0) = bit c (unat i)" if "unat i < 8" for i
    using that by (simp add: and_one_bit bits_of bit_ucast_iff)
  moreover have "[0..<8] = [0, 1, 2, 3, 4, 5, 6, 7]" by (simp add: upt_rec)
  ultimately show ?thesis by simp
qed

context pin_clock
begin

lemma wp_put8:
  assumes uart: "ucast (sw_tx uart) = tx" "cycle_per_bit uart = word_of_nat n"
    and n: "3 * g \<le> n" "10 * n + 2 * g < 4294967296" "n < k"
    and idle: "\<forall>t\<ge>t0. wave p t" "t0 \<le> now p"
    and Q: "\<And>p' e S. now p < S \<Longrightarrow> S \<le> now p + g \<Longrightarrow> frame_on (wave p') t0 e S n (3 * g) c \<Longrightarrow>
      (\<And>t. t < e \<Longrightarrow> wave p' t = wave p t) \<Longrightarrow> \<forall>t\<ge>now p'. wave p' t \<Longrightarrow>
      S + 10 * n \<le> now p' \<Longrightarrow> now p' \<le> S + 10 * n + 2 * g \<Longrightarrow> Q () p'"
  shows "wp st (sw_uart_put8 B cyc k uart c) Q E p"
proof -
  let ?vs = "map (\<lambda>i. shr (ucast c) i AND 1) [0, 1, 2, 3, 4, 5, 6, 7] @ [1]"
  let ?n = "word_of_nat n :: u32"
  have len: "length ?vs = 9" by simp
  have "wp st (put_bits B cyc k tx (word_of_nat S) ?n ?n (0 # ?vs)) Q E (at_time S p)" if S: "later g p S" for S
  proof -
    have rest: "wp st (put_bits B cyc k tx (word_of_nat S) ?n (?n + ?n) ?vs) Q E p'"
      if p': "S < e" "e \<le> S + g" "S + n < now p'" "now p' \<le> S + n + 2 * g"
        "wave p' = (\<lambda>u. if u < e then wave p u else False)" for p' e
    proof -
      have nn: "?n + ?n = word_of_nat (Suc 1 * n)" by (simp flip: of_nat_add add: algebra_simps)
      show ?thesis unfolding nn
      proof (rule wp_put_bits)
        fix p'' assume p'': "bits_ok (wave p'') S n (3 * g) 1 (map (\<lambda>v. v \<noteq> 0) ?vs)"
          "\<And>t. t \<le> now p' \<Longrightarrow> wave p'' t = wave p' t"
          "if ?vs = [] then p'' = p' else \<forall>t\<ge>now p''. wave p'' t = (last ?vs \<noteq> 0)"
          "S + (1 + length ?vs) * n \<le> now p''" "now p'' \<le> S + (1 + length ?vs) * n + 2 * g"
        have "frame_on (wave p'') t0 e S n (3 * g) c"
          unfolding frame_on_def using p' p''(1,2) idle S n by (auto simp: byte_bits later_def simp del: map_append list.map upt_rec_numeral)
        moreover have "wave p'' t = wave p t" if "t < e" for t
          using p''(2) [of t] p' n that by simp
        ultimately show "Q () p''"
          using p''(3-) p' S by (intro Q [of S p'' e]) (auto simp: later_def len)
      qed (use p' n len in auto)
    qed
    have "wp st (bnd (thn (gpio_write B tx 0) (void (wait_ncycles_exact cyc k (word_of_nat S) (word_of_nat (Suc 0 * n)))))
        (\<lambda>_. put_bits B cyc k tx (word_of_nat S) ?n (?n + ?n) ?vs)) Q E (at_time S p)"
      by (rule wp_bnd, rule wp_put_bit [where j = 0]) (use S n rest in \<open>auto simp: later_def\<close>)
    then show ?thesis unfolding put_bits.simps by (simp add: thn_def bnd_assoc)
  qed
  then show ?thesis
    unfolding sw_uart_put8_def Let_def uart by - (rule wp_bnd, rule wp_takes [OF cyc_read])
qed

end

section \<open>Receiving\<close>

context pin_clock
begin

text \<open>The levels of the line at the times \<open>T i\<close> are the bits of the result.\<close>

definition sampled :: "nat \<Rightarrow> nat \<Rightarrow> nat \<Rightarrow> (nat \<Rightarrow> nat) \<Rightarrow> u32 \<Rightarrow> bool" where
  "sampled S n a T r \<longleftrightarrow> (\<forall>i. a \<le> i \<longrightarrow> i < 8 \<longrightarrow> S + Suc i * n < T i \<and> T i \<le> S + Suc i * n + 3 * g) \<and>
     (\<forall>i. bit r i \<longleftrightarrow> a \<le> i \<and> i < 8 \<and> L (T i))"

lemma sampled_Cons:
  assumes "sampled S n (Suc a) T r" "a < 8" "S + Suc a * n < t" "t \<le> S + Suc a * n + 3 * g"
  shows "sampled S n a (T(a := t)) (r OR shl (of_bool (L t)) (word_of_nat a))"
proof -
  have T: "S + Suc i * n < T i \<and> T i \<le> S + Suc i * n + 3 * g" if "Suc a \<le> i" "i < 8" for i
    using assms(1) that by (simp only: sampled_def)
  have r: "bit r i \<longleftrightarrow> Suc a \<le> i \<and> i < 8 \<and> L (T i)" for i
    using assms(1) by (simp only: sampled_def)
  have "S + Suc i * n < (T(a := t)) i \<and> (T(a := t)) i \<le> S + Suc i * n + 3 * g" if "a \<le> i" "i < 8" for i
  proof (cases "i = a")
    case True
    with assms(3,4) show ?thesis by simp
  next
    case False
    with that T [of i] show ?thesis by simp
  qed
  moreover have "bit (r OR shl (of_bool (L t)) (word_of_nat a)) i \<longleftrightarrow> a \<le> i \<and> i < 8 \<and> L ((T(a := t)) i)" for i
  proof -
    have u: "unat (word_of_nat a :: u32) = a" using assms(2) by (simp add: unat_of_nat)
    have b: "bit (of_bool b :: u32) j \<longleftrightarrow> b \<and> j = 0" for b j by (cases b) (simp_all add: bit_1_iff)
    have "bit (shl (of_bool (L t)) (word_of_nat a)) i \<longleftrightarrow> a \<le> i \<and> i < 32 \<and> L t \<and> i - a = 0"
      by (simp only: bit_shl u b)
    then have "bit (shl (of_bool (L t)) (word_of_nat a)) i \<longleftrightarrow> i = a \<and> L t"
      using assms(2) by linarith
    then show ?thesis using r [of i] assms(2) by (cases "i = a") (auto simp: bit_or_iff)
  qed
  ultimately show ?thesis unfolding sampled_def by blast
qed

lemma wp_get_bits:
  assumes "a \<le> 8" "S + Suc a * n < now p" "now p \<le> S + Suc a * n + 2 * g" "3 * g \<le> n" "10 * n + 2 * g < 4294967296" "n < k"
    and "\<And>r p' T. sampled S n a T r \<Longrightarrow> Q r p'"
  shows "wp st (get_bits B cyc k rx (word_of_nat S) (word_of_nat n) (word_of_nat (Suc (Suc a) * n)) (map word_of_nat [a..<8])) Q E p"
  using assms
proof (induction "8 - a" arbitrary: a p Q)
  case 0
  then have a: "a = 8" "[a..<8] = []" by simp_all
  moreover have "sampled S n 8 (\<lambda>_. 0) 0" by (simp add: sampled_def)
  ultimately have "Q 0 p" by (intro 0(8)) simp
  then show ?case unfolding a(2) list.map get_bits.simps by (rule wp_ret)
next
  case (Suc x)
  then have a: "a < 8" and as: "[a..<8] = a # [Suc a..<8]" by (simp_all add: upt_rec)
  have u: "word_of_nat (Suc (Suc a) * n) + word_of_nat n = (word_of_nat (Suc (Suc (Suc a)) * n) :: u32)"
    by (simp flip: of_nat_add add: algebra_simps)
  have small: "Suc (Suc a) * n + 2 * g < 4294967296"
  proof -
    have "Suc (Suc a) * n \<le> 10 * n" using a by (intro mult_le_mono1) simp
    then show ?thesis using Suc.prems(5) by linarith
  qed
  have step: "wp st (thn (void (wait_ncycles_exact cyc k (word_of_nat S) (word_of_nat (Suc (Suc a) * n))))
      (bnd (get_bits B cyc k rx (word_of_nat S) (word_of_nat n) (word_of_nat (Suc (Suc (Suc a)) * n)) (map word_of_nat [Suc a..<8]))
         (\<lambda>r. ret (r OR shl (of_bool (L t)) (word_of_nat a))))) Q E (at_time t p)"
    if t: "later g p t" for t
  proof (rule wp_thn, rule wp_wait)
    fix t' assume t': "S + Suc (Suc a) * n < t'" "t' \<le> max (now (at_time t p)) (S + Suc (Suc a) * n) + 2 * g"
    show "wp st (bnd (get_bits B cyc k rx (word_of_nat S) (word_of_nat n) (word_of_nat (Suc (Suc (Suc a)) * n)) (map word_of_nat [Suc a..<8]))
         (\<lambda>r. ret (r OR shl (of_bool (L t)) (word_of_nat a)))) Q E (at_time t' (at_time t p))"
    proof (rule wp_bnd, rule Suc.hyps(1))
      fix r p' T assume r: "sampled S n (Suc a) T r"
      have "sampled S n a (T(a := t)) (r OR shl (of_bool (L t)) (word_of_nat a))"
        by (rule sampled_Cons [OF r a]) (use Suc.prems(2,3) t in \<open>auto simp: later_def\<close>)
      then show "wp st (ret (r OR shl (of_bool (L t)) (word_of_nat a))) Q E p'"
        by (intro wp_ret Suc.prems(7))
    next
      show "S + Suc (Suc a) * n < now (at_time t' (at_time t p))" using t'(1) by simp
      show "now (at_time t' (at_time t p)) \<le> S + Suc (Suc a) * n + 2 * g" using t' t Suc.prems(3,4) by (simp add: later_def)
    qed (use Suc.hyps(2) Suc.prems(4-6) a in simp_all)
  qed (use Suc.prems small t in \<open>auto simp: later_def\<close>)
  show ?case
    unfolding as list.map get_bits.simps u by (rule wp_bnd, rule wp_takes [OF pin_read]) (rule step)
qed

text \<open>The wait for the start bit sees the edge in cycle \<open>e\<close> at most two accesses late.\<close>

lemma wp_usec_loop:
  assumes "\<forall>t. t0 \<le> t \<longrightarrow> t < e \<longrightarrow> L t" "\<forall>t. e \<le> t \<longrightarrow> t \<le> e + 2 * g \<longrightarrow> \<not> L t" "t0 \<le> now p" "now p \<le> e + g"
    "e < now p + k" "0 < k" "ts \<le> now p div 700" "(e + g) div 700 - ts \<le> unat timeout"
    and "\<And>t. e \<le> t \<Longrightarrow> t \<le> e + 2 * g \<Longrightarrow> Q True (at_time t p)"
  shows "wp st (usec_loop B k rx 0 (word_of_nat ts) timeout) Q E p"
  using assms(3-)
proof (induction k arbitrary: p)
  case (Suc k)
  have "wp st (if of_bool (L t) = (0 :: u32) then ret True else
     bnd (timer_get_usec_raw B) (\<lambda>u. if timeout < u - word_of_nat ts then ret False
       else usec_loop B k rx 0 (word_of_nat ts) timeout)) Q E (at_time t p)" if t: "later g p t" for t
  proof (cases "t < e")
    case True
    have "L t" using True t assms(1) Suc.prems(1) by (simp add: later_def)
    moreover have "wp st (if timeout < word_of_nat (u div 700) - word_of_nat ts then ret False
       else usec_loop B k rx 0 (word_of_nat ts) timeout) Q E (at_time u p)" if u: "later g (at_time t p) u" for u
    proof -
      have "now p div 700 \<le> u div 700" using t u by (intro div_le_mono) (simp add: later_def)
      then have le: "ts \<le> u div 700" by (rule le_trans [OF Suc.prems(5)])
      have "u div 700 - ts \<le> (e + g) div 700 - ts"
        using u True by (intro diff_le_mono div_le_mono) (simp add: later_def)
      also have "\<dots> \<le> unat timeout" by (rule Suc.prems(6))
      finally have d: "u div 700 - ts \<le> unat timeout" .
      have el: "unat (word_of_nat (u div 700) - word_of_nat ts :: u32) = u div 700 - ts"
        using d unat_u32_lt [of timeout] by (intro elapsed_word le) linarith
      have "\<not> timeout < word_of_nat (u div 700) - word_of_nat ts"
        using d by (simp only: word_less_nat_alt el not_less)
      moreover have "wp st (usec_loop B k rx 0 (word_of_nat ts) timeout) Q E (at_time u p)"
        using t u True Suc.prems le by (intro Suc.IH) (simp_all add: later_def)
      ultimately show ?thesis by simp
    qed
    ultimately show ?thesis by (auto intro!: wp_bnd wp_takes [OF usec_read])
  next
    case False
    then have "\<not> L t" using t Suc.prems(2) assms(2) by (simp add: later_def)
    then show ?thesis using False t Suc.prems by (auto intro!: wp_ret simp: later_def)
  qed
  then show ?case unfolding usec_loop.simps by - (rule wp_bnd, rule wp_takes [OF pin_raw])
qed simp

lemma wp_wait_until_usec:
  assumes "\<forall>t. t0 \<le> t \<longrightarrow> t < e \<longrightarrow> L t" "\<forall>t. e \<le> t \<longrightarrow> t \<le> e + 2 * g \<longrightarrow> \<not> L t" "t0 \<le> now p" "now p < e"
    "e < now p + k" "(e + g) div 700 - now p div 700 \<le> unat timeout"
    and "\<And>t. e \<le> t \<Longrightarrow> t \<le> e + 2 * g \<Longrightarrow> Q True (at_time t p)"
  shows "wp st (wait_until_usec B k rx 0 timeout) Q E p"
proof -
  have "wp st (if of_bool (L t) = (0 :: u32) then ret True else
     bnd (timer_get_usec_raw B) (\<lambda>start. usec_loop B k rx 0 start timeout)) Q E (at_time t p)" if t: "later g p t" for t
  proof (cases "t < e")
    case True
    have "L t" using True t assms(1,3) by (simp add: later_def)
    moreover have "wp st (usec_loop B k rx 0 (word_of_nat (u div 700)) timeout) Q E (at_time u p)"
      if u: "later g (at_time t p) u" for u
    proof (rule wp_usec_loop [OF assms(1,2)])
      have "now p div 700 \<le> u div 700" using t u by (intro div_le_mono) (simp add: later_def)
      then show "(e + g) div 700 - u div 700 \<le> unat timeout" using assms(6) by linarith
    qed (use t u True assms(3-5,7) in \<open>auto simp: later_def\<close>)
    ultimately show ?thesis by (auto intro!: wp_bnd wp_takes [OF usec_read])
  next
    case False
    then have "\<not> L t" using t assms(2,4) by (simp add: later_def)
    then show ?thesis using False t assms(4,7) by (auto intro!: wp_ret simp: later_def)
  qed
  then show ?thesis unfolding wait_until_usec_def by - (rule wp_bnd, rule wp_takes [OF pin_raw])
qed

text \<open>What \<open>sw_uart_get8_timeout\<close> returns are the levels of the line one bit after the edge was noticed, two bits after
  it, and so on.\<close>

lemma wp_sw_get8:
  assumes uart: "ucast (sw_rx uart) = rx" "cycle_per_bit uart = word_of_nat n"
    and n: "3 * g \<le> n" "10 * n + 2 * g < 4294967296" "n < k"
    and line: "\<forall>t. t0 \<le> t \<longrightarrow> t < e \<longrightarrow> L t" "\<forall>t. e \<le> t \<longrightarrow> t \<le> e + 2 * g \<longrightarrow> \<not> L t" "t0 \<le> now p" "now p < e"
      "e < now p + k" "(e + g) div 700 - now p div 700 \<le> unat timeout"
    and Q: "\<And>S T r p'. e < S \<Longrightarrow> S \<le> e + 3 * g \<Longrightarrow> sampled S n 0 T r \<Longrightarrow> Q r p'"
  shows "wp st (sw_uart_get8_timeout B cyc k uart timeout) Q E p"
proof -
  have up: "[0, 1, 2, 3, 4, 5, 6, 7] = map word_of_nat [0..<8]" by (simp add: upt_rec)
  have nn: "word_of_nat n + word_of_nat n = (word_of_nat (Suc (Suc 0) * n) :: u32)"
    by (simp flip: of_nat_add add: algebra_simps)
  have rest: "wp st (thn (void (gpio_read B rx)) (thn (void (wait_ncycles_exact cyc k (word_of_nat S) (word_of_nat n)))
     (get_bits B cyc k rx (word_of_nat S) (word_of_nat n) (word_of_nat (Suc (Suc 0) * n)) (map word_of_nat [0..<8]))))
     Q E (at_time S p)" if S: "e < S" "S \<le> e + 3 * g" for S
  proof (rule wp_thn, rule wp_void, rule wp_takes [OF pin_read], rule wp_thn, rule wp_wait)
    fix t t' assume t: "later g (at_time S p) t" "S + n < t'" "t' \<le> max (now (at_time t (at_time S p))) (S + n) + 2 * g"
    show "wp st (get_bits B cyc k rx (word_of_nat S) (word_of_nat n) (word_of_nat (Suc (Suc 0) * n)) (map word_of_nat [0..<8]))
        Q E (at_time t' (at_time t (at_time S p)))"
      by (rule wp_get_bits) (use t n Q [OF S] in \<open>auto simp: later_def\<close>)
  qed (use n in \<open>auto simp: later_def\<close>)
  have "wp st (bnd cyc (\<lambda>s. thn (void (gpio_read B rx)) (thn (void (wait_ncycles_exact cyc k s (word_of_nat n)))
     (get_bits B cyc k rx s (word_of_nat n) (word_of_nat (Suc (Suc 0) * n)) (map word_of_nat [0..<8])))))
     Q E (at_time t p)" if t: "e \<le> t" "t \<le> e + 2 * g" for t
    by (rule wp_bnd, rule wp_takes [OF cyc_read]) (use t rest in \<open>simp add: later_def\<close>)
  then show ?thesis
    unfolding sw_uart_get8_timeout_def Let_def uart nn up
    by - (rule wp_bnd, rule wp_wait_until_usec [OF line], simp)
qed

text \<open>Every sample of a receiver whose bits are at least as long as those of the sender falls into its bit.\<close>

lemma sample_in_bit:
  assumes f: "frame_on L t0 e S m \<delta> c" and r: "sampled S' n 0 T r" "e < S'" "S' \<le> e + 3 * g"
    and n: "m + \<delta> \<le> n" "\<delta> + 6 * g + 8 * (n - m) \<le> m"
  shows "r = ucast c"
proof (rule u32_eqI)
  fix i :: nat assume "i < 32"
  show "bit r i = bit (ucast c :: u32) i"
  proof (cases "i < 8")
    case True
    have e: "S \<le> e" "e \<le> S + \<delta>" using f by (simp_all add: frame_on_def)
    have T: "S' + Suc i * n < T i" "T i \<le> S' + Suc i * n + 3 * g"
      using r(1) True unfolding sampled_def by blast+
    obtain d where d: "n = m + d" using n(1) by (metis add_leD1 le_Suc_ex)
    have dd: "\<delta> \<le> d" "\<delta> + 6 * g + 8 * d \<le> m" using n d by simp_all
    have "Suc i * d \<le> 8 * d" using True by (intro mult_le_mono1) simp
    moreover have "Suc i * n = Suc i * m + Suc i * d" by (simp add: d algebra_simps)
    moreover have "d \<le> Suc i * d" by simp
    ultimately have "S + Suc i * m + \<delta> \<le> T i" "T i \<le> S + Suc (Suc i) * m"
      using T e r(2,3) dd unfolding mult_Suc [of "Suc i" m] by linarith+
    moreover have "bit_ok L S m \<delta> (Suc i) (bit c i)"
      using f True unfolding frame_on_def bits_ok_def
      by (auto simp: nth_append dest!: spec [of _ i])
    ultimately have "L (T i) = bit c i" by (simp add: bit_ok_def)
    with True r(1) show ?thesis by (simp add: sampled_def bit_ucast_iff)
  next
    case False
    then have "\<not> bit c i" using bit_imp_le_length [of c i] by auto
    with False r(1) show ?thesis by (simp add: sampled_def bit_ucast_iff)
  qed
qed

text \<open>When the sender is slower, the last sample falls into the bit before.\<close>

lemma sample_before_bit:
  assumes f: "frame_on L t0 e S m \<delta> c" and r: "sampled S' n 0 T r" "e < S'" "S' \<le> e + 3 * g"
    and n: "n \<le> m" "\<delta> + 6 * g \<le> 8 * (m - n)" "7 * (m - n) + \<delta> \<le> n"
  shows "bit r 7 = bit c 6"
proof -
  have e: "S \<le> e" "e \<le> S + \<delta>" using f by (simp_all add: frame_on_def)
  have T: "S' + 8 * n < T 7" "T 7 \<le> S' + 8 * n + 3 * g"
    using r(1) unfolding sampled_def by (auto dest!: spec [of _ 7])
  have "S + 7 * m + \<delta> \<le> T 7" "T 7 \<le> S + 8 * m"
    using T e r(2,3) n by linarith+
  moreover have "bit_ok L S m \<delta> 7 (bit c 6)"
    using f unfolding frame_on_def bits_ok_def
    by (auto simp: nth_append dest!: spec [of _ 6])
  ultimately have "L (T 7) = bit c 6" by (simp add: bit_ok_def)
  with r(1) show ?thesis by (simp add: sampled_def)
qed

lemma get8_frame:
  assumes uart: "ucast (sw_rx uart) = rx" "cycle_per_bit uart = word_of_nat n"
    and n: "3 * g \<le> n" "10 * n + 2 * g < 4294967296" "n < k"
    and f: "frame_on L t0 e S m \<delta> c" "\<delta> + 2 * g \<le> m"
    and p: "t0 \<le> now p" "now p < e" "e < now p + k" "(e + g) div 700 - now p div 700 \<le> unat timeout"
    and Q: "\<And>S' T r p'. e < S' \<Longrightarrow> S' \<le> e + 3 * g \<Longrightarrow> sampled S' n 0 T r \<Longrightarrow> Q r p'"
  shows "wp st (sw_uart_get8_timeout B cyc k uart timeout) Q E p"
proof (rule wp_sw_get8 [OF uart n _ _ p])
  show "\<forall>t. t0 \<le> t \<longrightarrow> t < e \<longrightarrow> L t" using f(1) by (simp add: frame_on_def)
  show "\<forall>t. e \<le> t \<longrightarrow> t \<le> e + 2 * g \<longrightarrow> \<not> L t" using f by (auto simp: frame_on_def)
qed (use Q in blast)

end

section \<open>A simulated processor\<close>

text \<open>Every access takes one cycle; pin 14 sends and pin 15 receives.\<close>

definition sim_pins :: "(nat \<Rightarrow> bool) \<Rightarrow> pins bus" where
  "sim_pins L = \<lparr>
     GET32 = (\<lambda>a p. let t = Suc (now p) in Inr (
        if a = gpio_lev0 then shl (of_bool (L t)) 15 else if a = 0x20003004 then word_of_nat (t div 700) else 0, at_time t p)),
     PUT32 = (\<lambda>a v p. let t = Suc (now p) in Inr ((),
        if a = gpio_set0 \<and> bit v 14 then drive True t p else if a = gpio_clr0 \<and> bit v 14 then drive False t p else at_time t p)),
     dev_barrier = ret (), DEV_VAL32 = ret\<rparr>"

definition sim_cyc :: "(pins, u32) io" where
  "sim_cyc p = (let t = Suc (now p) in Inr (word_of_nat t, at_time t p))"

lemma sim_takes: "(\<And>p. m p = Inr (r (Suc (now p)), f (Suc (now p)) p)) \<Longrightarrow> takes id 1 m r f"
  unfolding takes_def later_def by (metis add.commute id_apply lessI order_refl plus_1_eq_Suc)

interpretation sim_pins: pin_clock "sim_pins L" sim_cyc id 1 L 14 15 for L
proof
  have lev: "gpio_lev0 = 0x20200034" by (simp add: gpio_lev0_def GPIO_BASE_def)
  have bit: "shr (shl (of_bool b) 15) 15 AND 1 = (of_bool b :: u32)" for b
    by (cases b) (simp_all add: shr_def shl_def)
  show "takes id 1 sim_cyc word_of_nat at_time"
    by (rule sim_takes) (simp add: sim_cyc_def)
  show "takes id 1 (gpio_write (sim_pins L) 14 v) (\<lambda>_. ()) (drive (v \<noteq> 0))" for v
    by (rule sim_takes) (simp add: gpio_write_def gpio_set_on_def gpio_set_off_def sim_pins_def gpio_set0_def gpio_clr0_def
        GPIO_BASE_def bit_shl)
  show "takes id 1 (gpio_read (sim_pins L) 15) (\<lambda>t. of_bool (L t)) at_time"
    by (rule sim_takes) (simp add: gpio_read_def sim_pins_def bnd_def thn_def bit)
  show "takes id 1 (GPIO_READ_RAW (sim_pins L) 15) (\<lambda>t. of_bool (L t)) at_time"
    by (rule sim_takes) (simp add: GPIO_READ_RAW_def sim_pins_def bnd_def bit lev)
  show "takes id 1 (timer_get_usec_raw (sim_pins L)) (\<lambda>t. word_of_nat (t div 700)) at_time"
    by (rule sim_takes) (simp add: timer_get_usec_raw_def sim_pins_def lev)
qed

section \<open>Properties\<close>

text \<open>A receiver that starts to listen while the sender is about to send, with bits of \<open>n\<close> cycles; \<open>T\<close> is the cycle in
  which the sender is called, \<open>m\<close> its cycles per bit and \<open>g0\<close> the cycles of its accesses.\<close>

definition listens :: "sw_uart_t \<Rightarrow> u32 \<Rightarrow> nat \<Rightarrow> nat \<Rightarrow> nat \<Rightarrow> u32 \<Rightarrow> pins \<Rightarrow> nat \<Rightarrow> nat \<Rightarrow> nat \<Rightarrow> nat \<Rightarrow> bool" where
  "listens uart rx n g k timeout p t0 T m g0 \<longleftrightarrow>
     ucast (sw_rx uart) = rx \<and> cycle_per_bit uart = word_of_nat n \<and>
     3 * g \<le> n \<and> 10 * n + 2 * g < 4294967296 \<and> n < k \<and> t0 \<le> now p \<and> now p \<le> T \<and> T + 4 * g0 < now p + k \<and>
     (T + 4 * g0 + g) div 700 - now p div 700 \<le> unat timeout \<and>
     m + 3 * g0 \<le> n \<and> 3 * g0 + 6 * g + 8 * (n - m) \<le> m"

lemma listensD:
  assumes "listens uart rx n g k timeout p t0 T m g0"
  shows "ucast (sw_rx uart) = rx" "cycle_per_bit uart = word_of_nat n" "3 * g \<le> n" "10 * n + 2 * g < 4294967296" "n < k"
    "t0 \<le> now p" "now p \<le> T" "T + 4 * g0 < now p + k" "(T + 4 * g0 + g) div 700 - now p div 700 \<le> unat timeout"
    "m + 3 * g0 \<le> n" "3 * g0 + 6 * g + 8 * (n - m) \<le> m"
  using assms by (simp_all add: listens_def)



text \<open>C34. C0: The receiver has no margin for slower senders, since it waits for one bit instead of one and a half before its
  first sample: when the bits of the sender are longer by more than an eighth of the latency, the last sample falls into
  the bit before, and a byte whose two highest bits differ is read wrongly, without any error.\<close>

theorem sw_uart_get8_no_margin:
  assumes "pin_clock B cyc pr g L tx rx" "ucast (sw_rx uart) = rx" "cycle_per_bit uart = word_of_nat n"
    and "3 * g \<le> n" "10 * n + 2 * g < 4294967296" "n < k"
    and "frame_on L ti e S m \<delta> c" "ti \<le> now p" "now p < e" "e < now p + k" "(e + g) div 700 - now p div 700 \<le> unat timeout"
    and "n \<le> m" "\<delta> + 6 * g \<le> 8 * (m - n)" "7 * (m - n) + \<delta> \<le> n" "bit c 6 \<noteq> bit c 7"
  shows "wp pr (sw_uart_get8_timeout B cyc k uart timeout) (\<lambda>r _. r \<noteq> - 1 \<and> r \<noteq> ucast c) never p"
proof (rule pin_clock.get8_frame [OF assms(1-7)])
  show "\<delta> + 2 * g \<le> m" using assms(4,12-14) by linarith
  show "r \<noteq> - 1 \<and> r \<noteq> ucast c" if "e < S'" "S' \<le> e + 3 * g" "pin_clock.sampled g L S' n 0 T r" for S' T r
  proof -
    have "bit r 7 = bit c 6"
      using assms(12-14) by (intro pin_clock.sample_before_bit [OF assms(1,7) that(3,1,2)]) simp_all
    moreover have "\<not> bit r 8" using that(3) pin_clock.sampled_def [OF assms(1)] by simp
    ultimately show ?thesis using assms(15) by (auto simp: bit_ucast_iff)
  qed
qed (use assms in simp_all)

text \<open>The line of a sender with exact bits of \<open>m\<close> cycles.\<close>

definition ideal_line :: "nat \<Rightarrow> nat \<Rightarrow> u8 \<Rightarrow> nat \<Rightarrow> bool" where
  "ideal_line m S c t = (t < S \<or> (let i = (t - S - 1) div m in 0 < i \<and> (8 < i \<or> bit c (i - 1))))"

lemma ideal_frame:
  assumes "0 < m"
  shows "frame_on (ideal_line m S c) 0 S S m 1 c"
proof -
  have i: "(t - S - 1) div m = i" if "S + i * m + 1 \<le> t" "t \<le> S + (i + 1) * m" for t i
    using that assms by (intro div_nat_eqI) (simp_all add: algebra_simps)
  have "bit_ok (ideal_line m S c) S m 1 (1 + k) ((map (bit c) [0..<8] @ [True]) ! k)" if "k < 9" for k
    using i [of "1 + k"] that by (auto simp: bit_ok_def ideal_line_def nth_append)
  moreover have "(t - S - 1) div m = 0" if "t \<le> S + m" for t
    using that assms by simp
  ultimately show ?thesis by (auto simp: frame_on_def bits_ok_def ideal_line_def Let_def)
qed

lemma sw_uart_get8_no_margin_witness:
  "wp id (sw_uart_get8_timeout (sim_pins (ideal_line 101 1000 0x40)) sim_cyc 2000
     \<lparr>sw_tx = 14, sw_rx = 15, sw_baud = 0, cycle_per_bit = 100, usec_per_bit = 1\<rparr> 100)
   (\<lambda>r _. r \<noteq> - 1 \<and> r \<noteq> ucast (0x40 :: u8)) never \<lparr>now = 0, wave = \<lambda>_. True\<rparr>"
  by (rule sw_uart_get8_no_margin [OF sim_pins.pin_clock_axioms _ _ _ _ _ ideal_frame, where n = 100])
    (simp_all)

end
