(* ===== verification/Handlers.thy ===== *)
theory Handlers
  imports Watchdog Gpio Circular DebugHw
begin

unbundle bit_operations_syntax

text \<open>
  Interrupt handlers. The status register and the vector base register (\<open>libpi/include/rpi-inline-asm.h\<close>,
  \<open>libpi/src/vector-base.h\<close>, \<open>9-device-int/3-handlers-gpio-int\<close>), the timer interrupt and the statistical profiler of
  \<open>5-interrupts\<close>, its system calls, the handlers for edges of a pin with their composition, and the logic analyzer of
  \<open>9-device-int\<close>. A handler is a program that returns its static variables updated.

  When handlers run: the locale \<open>edge_dev\<close> says what the pins, their event register and the timer do, for any behaviour of
  the input pin; \<open>take_irqs\<close> runs the vector as long as an enabled interrupt is pending. The theorems are about the loop
  from the output pin back to the input pin, on which the lab runs its tests, and about a pin that changes while the
  handler runs.
\<close>

section \<open>The status register\<close>

text \<open>\<open>cpsr_get\<close> is the argument and \<open>cpsr_set\<close> the second component of the result; the first is the value returned.\<close>

definition cpsr_int_enabled :: "u32 \<Rightarrow> bool" where
  "cpsr_int_enabled cpsr \<longleftrightarrow> shr cpsr 7 AND 1 = 0"

definition cpsr_int_enable :: "u32 \<Rightarrow> u32 \<times> u32" where
  "cpsr_int_enable cpsr = (cpsr, cpsr AND NOT (shl 1 7))"

definition cpsr_int_disable :: "u32 \<Rightarrow> u32 \<times> u32" where
  "cpsr_int_disable cpsr = (cpsr, cpsr OR shl 1 7)"

definition cpsr_int_reset :: "u32 \<Rightarrow> u32 \<Rightarrow> u32 \<times> u32" where
  "cpsr_int_reset old cpsr = (if old AND shl 1 7 \<noteq> 0 then cpsr_int_disable cpsr else cpsr_int_enable cpsr)"

definition set_all_interrupts_off :: "'d bus \<Rightarrow> u32 \<Rightarrow> ('d, u32 \<times> u32) io" where
  "set_all_interrupts_off B cpsr = thn (bcm_set_interrupts_off B) (ret (cpsr_int_disable cpsr))"

section \<open>The vector base register\<close>

text \<open>The register is passed in and returned; the read back of what was written is the value written.\<close>

definition vector_base_chk :: "u32 \<Rightarrow> bool res" where
  "vector_base_chk v =
     (if v = 0 then Inr False else seq (bits_get v 0 4) (\<lambda>b. Inr (b = 0)))"

definition vector_base_set :: "u32 \<Rightarrow> u32 \<Rightarrow> u32 res" where
  "vector_base_set vec vbar =
     seq (vector_base_chk vec) (\<lambda>ok.
     seq (require ok Panic) (\<lambda>_.
     if vbar = vec then Inr vbar
     else seq (require (vbar = 0) Panic) (\<lambda>_. Inr vec)))"

text \<open>The copy of the header in \<open>3-handlers-gpio-int\<close> refuses a second time even with the same vector.\<close>

definition vector_base_set_lab :: "u32 \<Rightarrow> u32 \<Rightarrow> u32 res" where
  "vector_base_set_lab vec vbar =
     seq (vector_base_chk vec) (\<lambda>ok.
     seq (require ok Panic) (\<lambda>_.
     seq (require (vbar = 0) Panic) (\<lambda>_. Inr vec)))"

definition vector_base_reset :: "u32 \<Rightarrow> u32 \<Rightarrow> (u32 \<times> u32) res" where
  "vector_base_reset vec vbar =
     seq (vector_base_chk vec) (\<lambda>ok. seq (require ok Panic) (\<lambda>_. Inr (vbar, vec)))"

definition int_vec_reset :: "u32 \<Rightarrow> u32 \<Rightarrow> (u32 \<times> u32) res" where
  "int_vec_reset vec vbar = vector_base_reset vec vbar"

record cpu =
  cpu_psr :: u32
  cpu_vbar :: u32

definition int_vec_init :: "'d bus \<Rightarrow> u32 \<Rightarrow> cpu \<Rightarrow> ('d, cpu) io" where
  "int_vec_init B v c =
     (let c = c\<lparr>cpu_psr := snd (cpsr_int_disable (cpu_psr c))\<rparr> in
      thn (dev_barrier B) (thn (PUT32 B Disable_IRQs_1 0xffffffff) (thn (PUT32 B Disable_IRQs_2 0xffffffff)
      (thn (dev_barrier B) (bnd (lft (vector_base_set_lab v (cpu_vbar c))) (\<lambda>b. ret (c\<lparr>cpu_vbar := b\<rparr>)))))))"

section \<open>The timer interrupt\<close>

definition IRQ_basic_pending :: u32 where "IRQ_basic_pending = IRQ_Base + 0"
definition arm_timer_IRQClear :: u32 where "arm_timer_IRQClear = arm_timer_Base + 12"

record timer_stats =
  cnt :: u32
  period :: u32
  period_sum :: u32
  last_clk :: u32

definition timer_vector :: "'d bus \<Rightarrow> timer_stats \<Rightarrow> ('d, timer_stats) io" where
  "timer_vector B s =
     thn (dev_barrier B) (bnd (GET32 B IRQ_basic_pending) (\<lambda>pending.
     if pending AND RPI_BASIC_ARM_TIMER_IRQ = 0 then ret s
     else thn (PUT32 B arm_timer_IRQClear 1) (thn (dev_barrier B)
       (let s = s\<lparr>cnt := cnt s + 1\<rparr> in
        bnd (timer_get_usec B) (\<lambda>clk.
        let s = s\<lparr>period := if last_clk s \<noteq> 0 then clk - last_clk s else 0\<rparr>;
            s = s\<lparr>period_sum := period_sum s + period s\<rparr>
        in ret (s\<lparr>last_clk := clk\<rparr>))))))"

section \<open>The profiler\<close>

text \<open>\<open>gprof_init\<close> returns the table; \<open>gprof_dump\<close> the status register and the lines it prints, as pairs of an address
  and a count. The difference of the two labels, which are arrays of words, counts words.\<close>

definition gprof_init :: "u32 \<Rightarrow> u32 \<Rightarrow> u32 list" where
  "gprof_init code_start code_end = replicate (unat ((code_end - code_start) div 4)) 0"

definition gprof_inc :: "u32 \<Rightarrow> u32 \<Rightarrow> u32 list \<Rightarrow> u32 list res" where
  "gprof_inc code_start pc arr =
     (let index = unat ((pc - code_start) div 4) in
      seq (arr_get arr index) (\<lambda>c. arr_set arr index (c + 1)))"

definition gprof_dump :: "u32 \<Rightarrow> u32 list \<Rightarrow> u32 \<Rightarrow> u32 \<Rightarrow> u32 \<times> (u32 \<times> u32) list" where
  "gprof_dump code_start arr min_val cpsr =
     (let cpsr = snd (cpsr_int_disable cpsr);
          lines = map (\<lambda>i. (code_start + 4 * word_of_nat i, arr ! i)) (filter (\<lambda>i. min_val \<le> arr ! i) [0..<length arr])
      in (snd (cpsr_int_enable cpsr), lines))"

definition gprof_vector :: "'d bus \<Rightarrow> u32 \<Rightarrow> u32 \<Rightarrow> timer_stats \<times> u32 list \<Rightarrow> ('d, timer_stats \<times> u32 list) io" where
  "gprof_vector B code_start pc = (\<lambda>(s, arr).
     thn (dev_barrier B) (bnd (GET32 B IRQ_basic_pending) (\<lambda>pending.
     if pending AND RPI_BASIC_ARM_TIMER_IRQ = 0 then ret (s, arr)
     else thn (PUT32 B arm_timer_IRQClear 1)
       (let s = s\<lparr>cnt := cnt s + 1\<rparr> in
        bnd (lft (gprof_inc code_start pc arr)) (\<lambda>arr.
        bnd (timer_get_usec B) (\<lambda>clk.
        let s = s\<lparr>period := if last_clk s \<noteq> 0 then clk - last_clk s else 0\<rparr>
        in ret (s\<lparr>last_clk := clk\<rparr>, arr)))))))"

section \<open>System calls\<close>

text \<open>\<open>mem\<close> reads the word at the program counter of the \<open>swi\<close>. The result is the return value of the vector; the second
  vector reboots for call 2.\<close>

definition syscall_vector0 :: "(u32 \<Rightarrow> u32) \<Rightarrow> u32 \<Rightarrow> u32 \<Rightarrow> u32 res" where
  "syscall_vector0 mem pc r0 =
     (let inst = mem pc; sys_num = inst AND 0xFFFFFF in
      if sys_num = 1 then Inr 0 else Inr (- 1))"

definition syscall_vector1 :: "(u32 \<Rightarrow> u32) \<Rightarrow> u32 \<Rightarrow> u32 \<Rightarrow> u32 \<Rightarrow> u32 res" where
  "syscall_vector1 mem spsr pc r0 =
     (let mode = spsr AND 0x1F; inst = mem pc; sys_num = inst AND 0xFFFFFF in
      seq (require (mode = USER_MODE) Panic) (\<lambda>_.
      if sys_num = 1 then Inr 0
      else if sys_num = 2 then Inl Rebooted
      else Inr (- 1)))"

text \<open>\<open>asm\<close> is what \<open>run_user_code_asm\<close> does; control does not come back from it.\<close>

definition run_user_code :: "(u32 \<Rightarrow> u32 \<Rightarrow> ('d, unit) io) \<Rightarrow> u32 \<Rightarrow> u32 \<Rightarrow> ('d, unit) io" where
  "run_user_code asm fn stack =
     thn (check (stack \<noteq> 0) Assert_fail) (thn (check (stack mod 8 = 0) Assert_fail)
     (thn (asm fn stack) (fails Panic)))"

text \<open>\<open>user_fn\<close>: \<open>var\<close> is the address of its local variable; \<open>swi1\<close> and \<open>swi2\<close> are the addresses of its two system
  calls, which save the status register as it is.\<close>

definition user_fn :: "(u32 \<Rightarrow> u32) \<Rightarrow> u32 \<Rightarrow> u32 \<Rightarrow> u32 \<Rightarrow> u32 \<Rightarrow> u32 \<Rightarrow> unit res" where
  "user_fn mem stack var cpsr swi1 swi2 =
     seq (require (stack \<le> var) Assert_fail) (\<lambda>_.
     seq (require (var < stack + 8 * (1024 * 64)) Assert_fail) (\<lambda>_.
     let mode = cpsr AND 0x1F in
     seq (require (mode = USER_MODE) Panic) (\<lambda>_.
     seq (syscall_vector1 mem cpsr swi1 0) (\<lambda>r.
     seq (syscall_vector1 mem cpsr swi2 r) (\<lambda>_. Inl Panic)))))"

section \<open>Edges of a pin\<close>

definition out_pin :: u32 where "out_pin = 21"
definition in_pin :: u32 where "in_pin = 20"

record counts =
  n_interrupt :: u32
  n_falling :: u32
  n_rising :: u32

text \<open>A handler returns 1 if there was something to handle. The result of a read is compared, so it is read only if an
  event was detected.\<close>

type_synonym 'd handler = "counts \<Rightarrow> ('d, u32 \<times> counts) io"

definition falling_handler :: "'d bus \<Rightarrow> 'd handler" where
  "falling_handler B s =
     bnd (gpio_event_detected B in_pin) (\<lambda>e.
     if e \<noteq> 0 then bnd (gpio_read B in_pin) (\<lambda>v.
       if v = 0 then thn (gpio_event_clear B in_pin) (ret (1, s\<lparr>n_falling := n_falling s + 1\<rparr>)) else ret (0, s))
     else ret (0, s))"

definition falling_init :: "'d bus \<Rightarrow> ('d, unit) io" where
  "falling_init B = thn (gpio_write B out_pin 1) (gpio_int_falling_edge B in_pin)"

definition rising_handler :: "'d bus \<Rightarrow> 'd handler" where
  "rising_handler B s =
     bnd (gpio_event_detected B in_pin) (\<lambda>e.
     if e \<noteq> 0 then bnd (gpio_read B in_pin) (\<lambda>v.
       if v = 1 then thn (gpio_event_clear B in_pin) (ret (1, s\<lparr>n_rising := n_rising s + 1\<rparr>)) else ret (0, s))
     else ret (0, s))"

definition rising_init :: "'d bus \<Rightarrow> ('d, unit) io" where
  "rising_init B = thn (gpio_write B out_pin 0) (gpio_int_rising_edge B in_pin)"

definition timer_test_init :: "'d bus \<Rightarrow> ('d, unit) io" where
  "timer_test_init B = timer_interrupt_init B 0x4"

definition timer_test_handler :: "'d bus \<Rightarrow> 'd handler" where
  "timer_test_handler B s =
     thn (dev_barrier B) (bnd (GET32 B IRQ_basic_pending) (\<lambda>pending.
     if pending AND RPI_BASIC_ARM_TIMER_IRQ \<noteq> 0
     then thn (PUT32 B arm_timer_IRQClear 1) (thn (dev_barrier B) (ret (1, s)))
     else ret (0, s)))"

text \<open>\<open>|\<close> evaluates both operands; C leaves the order open, here it is from left to right.\<close>

definition or_handlers :: "'d handler \<Rightarrow> 'd handler \<Rightarrow> 'd handler" where
  "or_handlers h h' s = bnd (h s) (\<lambda>(a, s). bnd (h' s) (\<lambda>(b, s). ret (a OR b, s)))"

definition rise_fall_init :: "'d bus \<Rightarrow> ('d, unit) io" where
  "rise_fall_init B =
     thn (rising_init B) (thn (falling_init B) (bnd (gpio_read B in_pin) (\<lambda>v. check (v = 1) Assert_fail)))"

definition rise_fall_handler :: "'d bus \<Rightarrow> 'd handler" where
  "rise_fall_handler B = or_handlers (rising_handler B) (falling_handler B)"

definition rise_fall_timer_init :: "'d bus \<Rightarrow> ('d, unit) io" where
  "rise_fall_timer_init B = thn (rise_fall_init B) (timer_test_init B)"

definition rise_fall_timer_handler :: "'d bus \<Rightarrow> 'd handler" where
  "rise_fall_timer_handler B = or_handlers (rise_fall_handler B) (timer_test_handler B)"

definition interrupt_vector :: "'d bus \<Rightarrow> 'd handler \<Rightarrow> counts \<Rightarrow> ('d, counts) io" where
  "interrupt_vector B interrupt_fn s =
     thn (dev_barrier B) (let s = s\<lparr>n_interrupt := n_interrupt s + 1\<rparr> in
     bnd (interrupt_fn s) (\<lambda>(r, s). thn (check (r \<noteq> 0) Panic) (thn (dev_barrier B) (ret s))))"

text \<open>\<open>vec\<close> is the address of \<open>interrupt_vec\<close>. At the end interrupts are enabled: from then on \<open>take_irqs\<close>
  below runs the vector.\<close>

definition test_startup :: "'d bus \<Rightarrow> u32 \<Rightarrow> ('d, unit) io \<Rightarrow> cpu \<Rightarrow> ('d, cpu) io" where
  "test_startup B vec init_fn c =
     bnd (int_vec_init B vec c) (\<lambda>c. thn (run_all
       [gpio_set_output B out_pin, gpio_set_input B in_pin, init_fn, gpio_event_clear B in_pin])
     (ret (c\<lparr>cpu_psr := snd (cpsr_int_enable (cpu_psr c))\<rparr>)))"

section \<open>The logic analyzer\<close>

text \<open>\<open>cyc\<close> reads the cycle counter; \<open>q\<close> is the queue, \<open>prev\<close> the cycle of the previous event. What \<open>cq_push32\<close>
  returns is not looked at.\<close>

definition analyzer_vector :: "'d bus \<Rightarrow> ('d, u32) io \<Rightarrow> u8 cq \<times> u32 \<Rightarrow> ('d, u8 cq \<times> u32) io" where
  "analyzer_vector B cyc = (\<lambda>(q, prev).
     bnd cyc (\<lambda>s. thn (dev_barrier B)
     (let cycles = s - prev; prev = s in
      bnd (lft (cq_push32 CQ_N q cycles)) (\<lambda>(_, q).
      bnd (gpio_read B in_pin) (\<lambda>pin_val.
      bnd (lft (cq_push32 CQ_N q (1 - pin_val))) (\<lambda>(_, q).
      thn (gpio_event_clear B in_pin) (thn (dev_barrier B) (ret (q, prev)))))))))"

text \<open>The loop that empties the queue, as the list of the values and cycles it prints.\<close>

fun analyzer_print :: "nat \<Rightarrow> u8 cq \<Rightarrow> ((u32 \<times> u32) list \<times> u8 cq) res" where
  "analyzer_print 0 q = Inl Stuck"
| "analyzer_print (Suc k) q =
     (if cq_empty q then Inr ([], q)
      else seq (cq_pop32 CQ_N True [] q) (\<lambda>(ncycles, _, q).
           seq (cq_pop32 CQ_N True [] q) (\<lambda>(v, _, q).
           seq (analyzer_print k q) (\<lambda>(rest, q). Inr ((v, ncycles) # rest, q)))))"

section \<open>Interrupts between instructions\<close>

text \<open>As long as an enabled interrupt is pending the vector runs; \<open>k\<close> bounds how often.\<close>

fun take_irqs :: "('d \<Rightarrow> bool) \<Rightarrow> ('s \<Rightarrow> ('d, 's) io) \<Rightarrow> nat \<Rightarrow> 's \<Rightarrow> ('d, 's) io" where
  "take_irqs irq vec 0 s = (\<lambda>d. if irq d then Inl Stuck else Inr (s, d))"
| "take_irqs irq vec (Suc k) s = (\<lambda>d. if irq d then bnd (vec s) (take_irqs irq vec k) d else Inr (s, d))"

text \<open>The output pin is written with the given levels, with interrupts enabled.\<close>

fun write_levels :: "'d bus \<Rightarrow> ('d \<Rightarrow> bool) \<Rightarrow> ('s \<Rightarrow> ('d, 's) io) \<Rightarrow> nat \<Rightarrow> bool list \<Rightarrow> 's \<Rightarrow> ('d, 's) io" where
  "write_levels B irq vec k [] s = ret s"
| "write_levels B irq vec k (v # vs) s =
     thn (gpio_write B out_pin (of_bool v)) (bnd (take_irqs irq vec k s) (write_levels B irq vec k vs))"

section \<open>Pins, events and the timer\<close>

text \<open>
  The state of the devices: the number of accesses so far, the level written to the output pin, the level of the input pin
  when it was last sampled, the event bit, which edges set it, the request of the timer, and which of the two requests the
  interrupt controller passes on.
\<close>

record edge =
  now :: nat
  out :: bool
  lvl :: bool
  ev :: bool
  ren :: bool
  fen :: bool
  tmr :: bool
  gon :: bool
  ton :: bool

text \<open>With every access time advances; the input has the level \<open>src\<close> then, and the timer requests an interrupt if
  \<open>fire\<close> says so. A change of the level that is enabled sets the event bit.\<close>

definition tick :: "(edge \<Rightarrow> bool) \<Rightarrow> (nat \<Rightarrow> bool) \<Rightarrow> edge \<Rightarrow> edge" where
  "tick src fire p =
     (let p = p\<lparr>now := Suc (now p), tmr := tmr p \<or> fire (Suc (now p))\<rparr>; l = src p in
      p\<lparr>lvl := l, ev := ev p \<or> l \<noteq> lvl p \<and> (if l then ren p else fen p)\<rparr>)"

lemma tick_keeps [simp]:
  "out (tick src fire p) = out p" "ren (tick src fire p) = ren p" "fen (tick src fire p) = fen p"
  "gon (tick src fire p) = gon p" "ton (tick src fire p) = ton p" "now (tick src fire p) = Suc (now p)"
  "tmr (tick src fire p) = (tmr p \<or> fire (Suc (now p)))"
  by (simp_all add: tick_def Let_def)

definition irq_on :: "edge \<Rightarrow> bool" where
  "irq_on p \<longleftrightarrow> gon p \<and> ev p \<or> ton p \<and> tmr p"

text \<open>The GPIO part of the manual: level, event, edge enable, set and clear registers, and the interrupt controller.\<close>

locale edge_dev =
  fixes B :: "'d bus" and st :: "'d \<Rightarrow> edge" and src :: "edge \<Rightarrow> bool" and fire :: "nat \<Rightarrow> bool"
  assumes get_event: "yields st (GET32 B GPEDS0) (\<lambda>v p. bit v 20 = ev p) (tick src fire)"
    and get_level: "yields st (GET32 B gpio_lev0) (\<lambda>v p. bit v 20 = lvl p) (tick src fire)"
    and get_pending: "yields st (GET32 B IRQ_basic_pending) (\<lambda>v p. bit v 0 = (ton p \<and> tmr p)) (tick src fire)"
    and get_rising: "yields st (GET32 B GPREN0) (\<lambda>v p. bit v 20 = ren p) (tick src fire)"
    and get_falling: "yields st (GET32 B GPFEN0) (\<lambda>v p. bit v 20 = fen p) (tick src fire)"
    and put_event: "acts st (PUT32 B GPEDS0 v) (\<lambda>_. ()) (\<lambda>p. let p = tick src fire p in p\<lparr>ev := ev p \<and> \<not> bit v 20\<rparr>)"
    and put_rising: "acts st (PUT32 B GPREN0 v) (\<lambda>_. ()) (\<lambda>p. (tick src fire p)\<lparr>ren := bit v 20\<rparr>)"
    and put_falling: "acts st (PUT32 B GPFEN0 v) (\<lambda>_. ()) (\<lambda>p. (tick src fire p)\<lparr>fen := bit v 20\<rparr>)"
    and put_set: "acts st (PUT32 B gpio_set0 v) (\<lambda>_. ()) (\<lambda>p. tick src fire (p\<lparr>out := out p \<or> bit v 21\<rparr>))"
    and put_clr: "acts st (PUT32 B gpio_clr0 v) (\<lambda>_. ()) (\<lambda>p. tick src fire (p\<lparr>out := out p \<and> \<not> bit v 21\<rparr>))"
    and put_timer: "acts st (PUT32 B arm_timer_IRQClear v) (\<lambda>_. ()) (\<lambda>p. (tick src fire p)\<lparr>tmr := False\<rparr>)"
    and put_enable2: "acts st (PUT32 B enable_irqs2 v) (\<lambda>_. ()) (\<lambda>p. (tick src fire p)\<lparr>gon := gon p \<or> bit v 17\<rparr>)"
    and put_basic: "acts st (PUT32 B Enable_Basic_IRQs v) (\<lambda>_. ()) (\<lambda>p. (tick src fire p)\<lparr>ton := ton p \<or> bit v 0\<rparr>)"
    and put_disable1: "acts st (PUT32 B Disable_IRQs_1 v) (\<lambda>_. ()) (tick src fire)"
    and put_disable2: "acts st (PUT32 B Disable_IRQs_2 v) (\<lambda>_. ()) (\<lambda>p. (tick src fire p)\<lparr>gon := gon p \<and> \<not> bit v 17\<rparr>)"
    and get_fsel: "a \<in> fsel_regs \<Longrightarrow> yields st (GET32 B a) (\<lambda>_ _. True) (tick src fire)"
    and put_fsel: "a \<in> fsel_regs \<Longrightarrow> acts st (PUT32 B a v) (\<lambda>_. ()) (tick src fire)"
    and put_load: "acts st (PUT32 B arm_timer_Load v) (\<lambda>_. ()) (tick src fire)"
    and put_control: "acts st (PUT32 B arm_timer_Control v) (\<lambda>_. ()) (tick src fire)"
    and bar: "acts st (dev_barrier B) (\<lambda>_. ()) id"
    and val: "acts st (DEV_VAL32 B v) (\<lambda>_. v) id"
begin

lemma wp_bar: "Q () p \<Longrightarrow> wp st (dev_barrier B) Q E p"
  by (rule wp_acts [OF bar]) simp

lemma wp_val: "Q v p \<Longrightarrow> wp st (DEV_VAL32 B v) Q E p"
  by (rule wp_acts [OF val]) simp

text \<open>The driver's operations on the two pins.\<close>

lemma wp_detected:
  assumes "\<And>p'. p' = tick src fire p \<Longrightarrow> Q (of_bool (ev p')) p'"
  shows "wp st (gpio_event_detected B in_pin) Q E p"
  using assms [OF refl] unfolding gpio_event_detected_def in_pin_def
  by (auto intro!: wp_thn wp_bar wp_bnd wp_yields [OF get_event] wp_val simp: and_one_bit bits_of)

lemma wp_level:
  assumes "\<And>p'. p' = tick src fire p \<Longrightarrow> Q (of_bool (lvl p')) p'"
  shows "wp st (gpio_read B in_pin) Q E p"
  using assms [OF refl] unfolding gpio_read_def in_pin_def
  by (auto intro!: wp_thn wp_ret wp_bnd wp_yields [OF get_level] wp_val simp: and_one_bit bits_of)

lemma wp_clear:
  assumes "Q () ((tick src fire p)\<lparr>ev := False\<rparr>)"
  shows "wp st (gpio_event_clear B in_pin) Q E p"
  unfolding gpio_event_clear_def in_pin_def
  by (auto intro!: wp_rules wp_bar wp_acts [OF put_event] simp: bits_of assms Let_def)

lemma wp_out:
  assumes "Q () (tick src fire (p\<lparr>out := b\<rparr>))"
  shows "wp st (gpio_write B out_pin (of_bool b)) Q E p"
  using assms unfolding gpio_write_def gpio_set_on_def gpio_set_off_def out_pin_def
  by (cases b) (auto intro!: wp_acts [OF put_set] wp_acts [OF put_clr] simp: bits_of)

text \<open>The pending bit of the timer.\<close>

lemma wp_pending:
  assumes "\<And>v p'. p' = tick src fire p \<Longrightarrow> (v AND RPI_BASIC_ARM_TIMER_IRQ = 0) = (\<not> (ton p' \<and> tmr p')) \<Longrightarrow> Q v p'"
  shows "wp st (GET32 B IRQ_basic_pending) Q E p"
proof (rule wp_yields [OF get_pending], rule assms [OF refl])
  fix v assume b: "bit (v :: u32) 0 = (ton (tick src fire p) \<and> tmr (tick src fire p))"
  have "v AND RPI_BASIC_ARM_TIMER_IRQ = v AND 1" by (simp add: RPI_BASIC_ARM_TIMER_IRQ_def shl_def)
  then show "(v AND RPI_BASIC_ARM_TIMER_IRQ = 0) = (\<not> (ton (tick src fire p) \<and> tmr (tick src fire p)))"
    using b by (simp add: and_one_bit)
qed

text \<open>The handlers, on any behaviour of the pin: what they see is the level after two accesses.\<close>

definition edge_seen :: "bool \<Rightarrow> edge \<Rightarrow> bool \<times> edge" where
  "edge_seen b p =
     (let p = tick src fire p in
      if ev p then let p = tick src fire p in if lvl p = b then (True, (tick src fire p)\<lparr>ev := False\<rparr>) else (False, p)
      else (False, p))"

lemma wp_rising:
  assumes "\<And>r p'. edge_seen True p = (r, p') \<Longrightarrow> Q (of_bool r, s\<lparr>n_rising := n_rising s + of_bool r\<rparr>) p'"
  shows "wp st (rising_handler B s) Q E p"
  using assms unfolding rising_handler_def edge_seen_def
  by (auto intro!: wp_bnd wp_thn wp_detected wp_level wp_clear wp_ret simp: Let_def split: if_splits)

lemma wp_falling:
  assumes "\<And>r p'. edge_seen False p = (r, p') \<Longrightarrow> Q (of_bool r, s\<lparr>n_falling := n_falling s + of_bool r\<rparr>) p'"
  shows "wp st (falling_handler B s) Q E p"
proof -
  obtain r p' where e: "edge_seen False p = (r, p')" by fastforce
  show ?thesis
    using assms [OF e] e unfolding falling_handler_def edge_seen_def
    by (auto intro!: wp_bnd wp_thn wp_detected wp_level wp_clear wp_ret simp: Let_def split: if_splits)
qed

definition timer_seen :: "edge \<Rightarrow> bool \<times> edge" where
  "timer_seen p =
     (let p = tick src fire p in if ton p \<and> tmr p then (True, (tick src fire p)\<lparr>tmr := False\<rparr>) else (False, p))"

lemma wp_timer_test:
  assumes "\<And>r p'. timer_seen p = (r, p') \<Longrightarrow> Q (of_bool r, s) p'"
  shows "wp st (timer_test_handler B s) Q E p"
proof -
  obtain r p' where t: "timer_seen p = (r, p')" by fastforce
  show ?thesis
    using assms [OF t] t unfolding timer_test_handler_def timer_seen_def
    by (auto intro!: wp_bnd wp_thn wp_bar wp_pending wp_acts [OF put_timer] wp_ret simp: Let_def split: if_splits)
qed


end

lemma bnd_thn: "thn a (bnd m f) = bnd (thn a m) f"
  by (simp add: thn_def bnd_assoc)

lemma of_bool_or: "of_bool a OR of_bool b = (of_bool (a \<or> b) :: u32)"
  by (cases a; cases b) simp_all

lemma wp_or_handlers:
  assumes "wp st (h s) (\<lambda>(a, s'). wp st (h' s') (\<lambda>(b, s''). Q (a OR b, s'')) E) E p"
  shows "wp st (or_handlers h h' s) Q E p"
proof -
  have "wp st (case y of (a, s') \<Rightarrow> bnd (h' s') (\<lambda>(b, s''). ret (a OR b, s''))) Q E p'"
    if w: "case y of (a, s') \<Rightarrow> wp st (h' s') (\<lambda>(b, s''). Q (a OR b, s'')) E p'" for y p'
    using w by (cases y) (auto intro!: wp_bnd wp_ret elim!: wp_conseq)
  then show ?thesis
    unfolding or_handlers_def by - (rule wp_bnd, rule wp_conseq [OF assms], auto)
qed

lemma wp_vector:
  assumes bar: "\<And>p E Q. Q () p \<Longrightarrow> wp st (dev_barrier B) Q E p"
    and w: "wp st (h (s\<lparr>n_interrupt := n_interrupt s + 1\<rparr>)) (\<lambda>(r, s') p'. if r \<noteq> 0 then Q s' p' else E Panic) E p"
  shows "wp st (interrupt_vector B h s) Q E p"
  unfolding interrupt_vector_def Let_def
  by (intro wp_thn wp_bnd bar) (rule wp_conseq [OF w], auto intro!: wp_thn bar wp_ret wp_check split: if_splits)

text \<open>\<open>take_irqs\<close> runs the vector once and then again as long as a request is there.\<close>

lemma wp_take_irqs_off: "\<not> irq_on p \<Longrightarrow> Q s p \<Longrightarrow> wp st (take_irqs (\<lambda>d. irq_on (st d)) vec k s) Q E p"
  by (cases k) (auto simp: wp_def)

lemma wp_take_irqs_once:
  assumes "irq_on p" "0 < k" "wp st (vec s) (\<lambda>s' p'. \<not> irq_on p' \<and> Q s' p') E p"
  shows "wp st (take_irqs (\<lambda>d. irq_on (st d)) vec k s) Q E p"
proof -
  obtain j where k: "k = Suc j" using assms(2) by (cases k) auto
  have "wp st (bnd (vec s) (take_irqs (\<lambda>d. irq_on (st d)) vec j)) Q E p"
    by (rule wp_bnd, rule wp_conseq [OF assms(3)]) (auto intro: wp_take_irqs_off)
  then show ?thesis using assms(1) unfolding k wp_def by simp
qed

section \<open>The pins connected to each other\<close>

locale loopback = edge_dev +
  assumes loop: "src = out"
begin

text \<open>What the handlers leave alone; a request of the timer stays.\<close>

definition same :: "edge \<Rightarrow> edge \<Rightarrow> bool" where
  "same p p' \<longleftrightarrow> out p' = out p \<and> lvl p' = out p \<and> ren p' = ren p \<and> fen p' = fen p \<and> gon p' = gon p \<and> ton p' = ton p"

lemma tick_settled: "lvl p = out p \<Longrightarrow> tick src fire p = p\<lparr>now := Suc (now p), tmr := tmr p \<or> fire (Suc (now p))\<rparr>"
  by (cases p) (simp add: tick_def loop Let_def)

lemma edge_seen_settled:
  assumes "lvl p = out p" "edge_seen b p = (r, p')"
  shows "r = (ev p \<and> out p = b)" "same p p'" "ev p' = (ev p \<and> out p \<noteq> b)" "tmr p \<Longrightarrow> tmr p'"
  using assms by (auto simp: edge_seen_def tick_settled same_def Let_def split: if_splits)

lemma sameD: "same p p' \<Longrightarrow> out p' = out p \<and> lvl p' = out p' \<and> ton p' = ton p"
  by (simp add: same_def)

lemma same_trans: "same p q \<Longrightarrow> same q r \<Longrightarrow> same p r"
  by (simp add: same_def)

lemma wp_rise_fall:
  assumes "lvl p = out p"
    and "\<And>p'. same p p' \<Longrightarrow> \<not> ev p' \<Longrightarrow> (tmr p \<Longrightarrow> tmr p') \<Longrightarrow> Q (of_bool (ev p), s\<lparr>n_rising := n_rising s + of_bool (ev p \<and> out p),
      n_falling := n_falling s + of_bool (ev p \<and> \<not> out p)\<rparr>) p'"
  shows "wp st (rise_fall_handler B s) Q E p"
  unfolding rise_fall_handler_def
proof (rule wp_or_handlers, rule wp_rising, unfold prod.case, rule wp_falling, unfold prod.case of_bool_or)
  fix r1 p1 r2 p2
  assume r: "edge_seen True p = (r1, p1)" and f: "edge_seen False p1 = (r2, p2)"
  note 1 = edge_seen_settled [OF assms(1) r]
  have l: "lvl p1 = out p1" "out p1 = out p" using sameD [OF 1(2)] by simp_all
  note 2 = edge_seen_settled [OF l(1) f]
  have r2: "r2 = (ev p \<and> \<not> out p)" using 2(1) 1(3) l(2) by auto
  have e: "\<not> ev p2" using 2(3) 1(3) l(2) by auto
  have or: "(r1 \<or> r2) = ev p" using 1(1) r2 by auto
  have r1: "r1 = (ev p \<and> out p)" using 1(1) by simp
  have "Q (of_bool (ev p), s\<lparr>n_rising := n_rising s + of_bool (ev p \<and> out p),
      n_falling := n_falling s + of_bool (ev p \<and> \<not> out p)\<rparr>) p2"
    using same_trans [OF 1(2) 2(2)] e 1(4) 2(4) by (intro assms(2)) simp_all
  then show "Q (of_bool (r1 \<or> r2), s\<lparr>n_rising := n_rising s + of_bool r1, n_falling :=
      n_falling (s\<lparr>n_rising := n_rising s + of_bool r1\<rparr>) + of_bool r2\<rparr>) p2"
    unfolding or unfolding r1 r2 by (simp del: of_bool_conj)
qed

lemma timer_seen_settled:
  assumes "lvl p = out p" "timer_seen p = (r, p')"
  shows "same p p'" "ev p' = ev p" "\<not> (ton p' \<and> tmr p')" "ton p \<Longrightarrow> tmr p \<Longrightarrow> r"
  using assms by (auto simp: timer_seen_def tick_settled same_def Let_def split: if_splits)

text \<open>One run of the vector with everything enabled counts the edge, if there was one, and leaves no request.\<close>

lemma wp_rise_fall_timer:
  assumes "lvl p = out p" "irq_on p"
    and "\<And>p'. same p p' \<Longrightarrow> \<not> ev p' \<Longrightarrow> \<not> irq_on p' \<Longrightarrow> Q (1, s\<lparr>n_rising := n_rising s + of_bool (ev p \<and> out p),
      n_falling := n_falling s + of_bool (ev p \<and> \<not> out p)\<rparr>) p'"
  shows "wp st (rise_fall_timer_handler B s) Q E p"
  unfolding rise_fall_timer_handler_def
proof (rule wp_or_handlers, rule wp_rise_fall [OF assms(1)], unfold prod.case, rule wp_timer_test, unfold prod.case of_bool_or)
  fix p1 r p2
  assume 1: "same p p1" "\<not> ev p1" "tmr p \<Longrightarrow> tmr p1" and t: "timer_seen p1 = (r, p2)"
  have l: "lvl p1 = out p1" "ton p1 = ton p" using sameD [OF 1(1)] by simp_all
  note 2 = timer_seen_settled [OF l(1) t]
  have "ev p \<or> r" using assms(2) 1(3) 2(4) l(2) by (auto simp: irq_on_def)
  then have or: "of_bool (ev p \<or> r) = (1 :: u32)" by simp
  show "Q (of_bool (ev p \<or> r), s\<lparr>n_rising := n_rising s + of_bool (ev p \<and> out p),
      n_falling := n_falling s + of_bool (ev p \<and> \<not> out p)\<rparr>) p2"
    unfolding or using same_trans [OF 1(1) 2(1)] 1(2) 2(2,3) by (intro assms(3)) (auto simp: irq_on_def)
qed

text \<open>Writing a level: at most one run of the vector.\<close>

definition counted :: "bool \<Rightarrow> bool \<Rightarrow> counts \<Rightarrow> counts \<Rightarrow> bool" where
  "counted l v s s' \<longleftrightarrow> n_rising s' = n_rising s + of_bool (\<not> l \<and> v) \<and> n_falling s' = n_falling s + of_bool (l \<and> \<not> v) \<and>
     (\<exists>j \<le> Suc 0. of_bool (l \<noteq> v) \<le> j \<and> n_interrupt s' = n_interrupt s + word_of_nat j)"

definition armed :: "edge \<Rightarrow> bool" where
  "armed p \<longleftrightarrow> ren p \<and> fen p \<and> gon p \<and> lvl p = out p \<and> \<not> ev p"

lemma wp_write_level:
  assumes "armed p" "0 < k" and Q: "\<And>s' p'. armed p' \<Longrightarrow> out p' = v \<Longrightarrow> counted (out p) v s s' \<Longrightarrow> Q s' p'"
  shows "wp st (thn (gpio_write B out_pin (of_bool v))
    (take_irqs (\<lambda>d. irq_on (st d)) (interrupt_vector B (rise_fall_timer_handler B)) k s)) Q E p"
proof (rule wp_thn, rule wp_out)
  let ?p = "tick src fire (p\<lparr>out := v\<rparr>)"
  have p: "lvl ?p = out ?p" "out ?p = v" "ev ?p = (out p \<noteq> v)" "ren ?p" "fen ?p" "gon ?p"
    using assms(1) by (auto simp: tick_def loop armed_def Let_def)
  show "wp st (take_irqs (\<lambda>d. irq_on (st d)) (interrupt_vector B (rise_fall_timer_handler B)) k s) Q E ?p"
  proof (cases "irq_on ?p")
    case False
    then have "\<not> ev ?p" using p by (simp add: irq_on_def)
    then show ?thesis using False p
      by (intro wp_take_irqs_off Q) (auto simp: armed_def counted_def intro: exI [of _ 0])
  next
    case True
    show ?thesis
    proof (intro wp_take_irqs_once [OF True assms(2)] wp_vector wp_bar wp_rise_fall_timer [OF p(1) True], assumption)
      fix p' assume s: "same ?p p'" "\<not> ev p'" "\<not> irq_on p'"
      let ?s = "(s\<lparr>n_interrupt := n_interrupt s + 1\<rparr>)\<lparr>n_rising := n_rising (s\<lparr>n_interrupt := n_interrupt s + 1\<rparr>) +
        of_bool (ev ?p \<and> out ?p), n_falling := n_falling (s\<lparr>n_interrupt := n_interrupt s + 1\<rparr>) + of_bool (ev ?p \<and> \<not> out ?p)\<rparr>"
      have a: "armed p'" "out p' = v" using s p by (simp_all add: same_def armed_def)
      have c: "counted (out p) v s ?s"
        unfolding counted_def p(2,3) by (auto intro!: exI [of _ "Suc 0"])
      show "(case (1 :: u32, ?s) of (r, s') \<Rightarrow> \<lambda>p'. if r \<noteq> 0 then \<not> irq_on p' \<and> Q s' p' else E Panic) p'"
        using Q [OF a c] s(3) by simp
    qed
  qed
qed

end

text \<open>The rising (\<open>b\<close>) or falling edges of a sequence of levels that starts from \<open>l\<close>.\<close>

fun edges :: "bool \<Rightarrow> bool \<Rightarrow> bool list \<Rightarrow> nat" where
  "edges b l [] = 0"
| "edges b l (v # vs) = of_bool (l \<noteq> v \<and> v = b) + edges b v vs"

definition counts_edges :: "bool \<Rightarrow> bool list \<Rightarrow> counts \<Rightarrow> counts \<Rightarrow> bool" where
  "counts_edges l vs s s' \<longleftrightarrow>
     n_rising s' = n_rising s + word_of_nat (edges True l vs) \<and>
     n_falling s' = n_falling s + word_of_nat (edges False l vs) \<and>
     (\<exists>j. edges True l vs + edges False l vs \<le> j \<and> j \<le> length vs \<and> n_interrupt s' = n_interrupt s + word_of_nat j)"

context loopback
begin

lemma wp_write_levels:
  assumes "armed p" "0 < k" "\<And>s' p'. armed p' \<Longrightarrow> counts_edges (out p) vs s s' \<Longrightarrow> Q s' p'"
  shows "wp st (write_levels B (\<lambda>d. irq_on (st d)) (interrupt_vector B (rise_fall_timer_handler B)) k vs s) Q E p"
  using assms
proof (induction vs arbitrary: p s)
  case Nil
  show ?case unfolding write_levels.simps
    by (rule wp_ret, rule Nil.prems(3) [OF Nil.prems(1)]) (simp add: counts_edges_def)
next
  case (Cons v vs)
  show ?case
    unfolding write_levels.simps
  proof (subst bnd_thn, rule wp_bnd, rule wp_write_level [OF Cons.prems(1,2)])
    fix s1 p1
    assume 1: "armed p1" "out p1 = v" "counted (out p) v s s1"
    show "wp st (write_levels B (\<lambda>d. irq_on (st d)) (interrupt_vector B (rise_fall_timer_handler B)) k vs s1) Q E p1"
    proof (rule Cons.IH [OF 1(1) Cons.prems(2)], rule Cons.prems(3), assumption)
      fix s2 assume 2: "counts_edges (out p1) vs s1 s2"
      obtain i where i: "i \<le> Suc 0" "of_bool (out p \<noteq> v) \<le> i" "n_interrupt s1 = n_interrupt s + word_of_nat i"
        using 1(3) unfolding counted_def by blast
      obtain j where j: "edges True v vs + edges False v vs \<le> j" "j \<le> length vs"
        "n_interrupt s2 = n_interrupt s1 + word_of_nat j" using 2 1(2) unfolding counts_edges_def by blast
      show "counts_edges (out p) (v # vs) s s2"
        unfolding counts_edges_def
      proof (intro conjI exI [of _ "i + j"])
        show "edges True (out p) (v # vs) + edges False (out p) (v # vs) \<le> i + j"
          using i(2) j(1) by (cases v; cases "out p") simp_all
        show "i + j \<le> length (v # vs)" using i(1) j(2) by simp
      qed (use 1 2 i(3) j(3) in \<open>auto simp: counted_def counts_edges_def\<close>)
    qed
  qed
qed

text \<open>Start-up.\<close>

definition up :: "edge \<Rightarrow> edge \<Rightarrow> bool" where
  "up p p' \<longleftrightarrow> out p' = out p \<and> lvl p' = out p \<and> (ren p \<longrightarrow> ren p') \<and> (fen p \<longrightarrow> fen p') \<and> (gon p \<longrightarrow> gon p')"

lemma up_tick: "up p (tick src fire p)"
  by (simp add: up_def tick_def loop Let_def)

lemma up_trans: "up p q \<Longrightarrow> up q r \<Longrightarrow> up p r"
  by (simp add: up_def)

lemma wp_enable_rising:
  assumes "\<And>p'. up p p' \<Longrightarrow> ren p' \<Longrightarrow> gon p' \<Longrightarrow> Q () p'"
  shows "wp st (gpio_int_rising_edge B in_pin) Q E p"
  unfolding gpio_int_rising_edge_def in_pin_def
  by (auto intro!: wp_rules wp_bar wp_yields [OF get_rising] wp_acts [OF put_rising] wp_acts [OF put_enable2] assms
      simp: up_def tick_def loop Let_def bits_of)

lemma wp_enable_falling:
  assumes "\<And>p'. up p p' \<Longrightarrow> fen p' \<Longrightarrow> gon p' \<Longrightarrow> Q () p'"
  shows "wp st (gpio_int_falling_edge B in_pin) Q E p"
  unfolding gpio_int_falling_edge_def in_pin_def
  by (auto intro!: wp_rules wp_bar wp_yields [OF get_falling] wp_acts [OF put_falling] wp_acts [OF put_enable2] assms
      simp: up_def tick_def loop Let_def bits_of)

lemma wp_out_high: "Q () (tick src fire (p\<lparr>out := True\<rparr>)) \<Longrightarrow> wp st (gpio_write B out_pin 1) Q E p"
  using wp_out [where b = True] by simp

lemma wp_out_low: "Q () (tick src fire (p\<lparr>out := False\<rparr>)) \<Longrightarrow> wp st (gpio_write B out_pin 0) Q E p"
  using wp_out [where b = False] by simp

lemma wp_rise_fall_init:
  assumes "\<And>p'. ren p' \<Longrightarrow> fen p' \<Longrightarrow> gon p' \<Longrightarrow> out p' \<Longrightarrow> lvl p' \<Longrightarrow> Q () p'"
  shows "wp st (rise_fall_init B) Q E p"
  unfolding rise_fall_init_def rising_init_def falling_init_def
  by (intro wp_thn wp_out_low wp_enable_rising wp_out_high wp_enable_falling wp_bnd wp_level wp_check)
    (auto intro!: assms simp: up_def tick_def loop Let_def)

lemma wp_timer_init:
  assumes "\<And>p'. up p p' \<Longrightarrow> Q () p'"
  shows "wp st (timer_interrupt_init B n) Q E p"
proof -
  have "field_at ''use_32bit_counter'' 0 rpi_arm_timer_ctrl_t = Some (1, 1)" "field_at ''prescaler'' 0 rpi_arm_timer_ctrl_t = Some (2, 2)"
    "field_at ''int_enabled'' 0 rpi_arm_timer_ctrl_t = Some (5, 1)" "field_at ''timer_enabled'' 0 rpi_arm_timer_ctrl_t = Some (7, 1)"
    "field_at ''counter_enabled'' 0 rpi_arm_timer_ctrl_t = Some (9, 1)" "field_at ''counter_prescaler'' 0 rpi_arm_timer_ctrl_t = Some (16, 7)"
    by (simp_all add: rpi_arm_timer_ctrl_t_def)
  then have c: "wp st timer_check_offsets Q' E p" if "Q' () p" for Q'
    unfolding timer_check_offsets_def check_bitfield_def using that by (auto intro!: wp_rules)
  then show ?thesis
    unfolding timer_interrupt_init_def
    by (auto intro!: wp_rules c wp_bar wp_acts [OF put_basic] wp_acts [OF put_load] wp_acts [OF put_control] assms
        simp: up_def tick_def loop Let_def)
qed

lemma wp_pin_function:
  assumes "pin \<in> {out_pin, in_pin}" "f \<in> {GPIO_FUNC_INPUT, GPIO_FUNC_OUTPUT}" "\<And>p'. Q () p'"
  shows "wp st (gpio_set_function B pin f) Q E p"
proof -
  have a: "GPIO_BASE + 4 * (pin div 10) \<in> fsel_regs" "\<not> 32 \<le> pin" "\<not> 8 \<le> f"
    using assms(1,2) by (auto simp: fsel_regs_def out_pin_def in_pin_def GPIO_FUNC_INPUT_def GPIO_FUNC_OUTPUT_def word_le_nat_alt)
  show ?thesis
    unfolding gpio_set_function_def Let_def using a(2,3)
    by (auto intro!: wp_bnd wp_yields [OF get_fsel [OF a(1)]] wp_acts [OF put_fsel [OF a(1)]] assms(3))
qed

end

text \<open>A vector is accepted if it is not null and aligned to 32 bytes, and if no other was set.\<close>

definition vec_ok :: "u32 \<Rightarrow> bool" where
  "vec_ok vec \<longleftrightarrow> vec \<noteq> 0 \<and> vec AND 31 = 0"

lemma vector_base_chk_ok: "vector_base_chk vec = Inr (vec_ok vec)"
proof -
  have "bits_get vec 0 4 = Inr (shr vec 0 AND mask (unat (4 :: u32) - unat (0 :: u32) + 1))"
    by (rule bits_get_ok) simp_all
  moreover have "mask 5 = (31 :: u32)" by (simp add: mask_eq_exp_minus_1)
  ultimately show ?thesis by (simp add: vector_base_chk_def vec_ok_def shr_def)
qed

lemma vector_base_set_cases:
  "vector_base_set vec vbar = (if vec_ok vec \<and> (vbar = vec \<or> vbar = 0) then Inr vec else Inl Panic)"
  "vector_base_set_lab vec vbar = (if vec_ok vec \<and> vbar = 0 then Inr vec else Inl Panic)"
  "vector_base_reset vec vbar = (if vec_ok vec then Inr (vbar, vec) else Inl Panic)"
  by (auto simp: vector_base_set_def vector_base_set_lab_def vector_base_reset_def vector_base_chk_ok require_def)

lemma cpsr_int_bits:
  "cpsr_int_enabled c \<longleftrightarrow> \<not> bit c 7"
  "bit (snd (cpsr_int_enable c)) i \<longleftrightarrow> i \<noteq> 7 \<and> bit c i"
  "i < 32 \<Longrightarrow> bit (snd (cpsr_int_disable c)) i \<longleftrightarrow> i = 7 \<or> bit c i"
  by (auto simp: cpsr_int_enabled_def cpsr_int_enable_def cpsr_int_disable_def and_one_bit bits_of dest: bit_u32_bound)

text \<open>A section between disabling and resetting restores the interrupt bit and leaves the others alone.\<close>

lemma cpsr_int_reset_restores:
  "fst (cpsr_int_disable c) = c \<and> snd (cpsr_int_reset c (snd (cpsr_int_disable c))) = c"
proof -
  have "snd (cpsr_int_reset c (snd (cpsr_int_disable c))) = c"
  proof (rule u32_eqI)
    fix i :: nat assume i: "i < 32"
    have "c AND shl 1 7 \<noteq> 0 \<longleftrightarrow> bit c 7"
      using and_exp_eq_0_iff_not_bit [of c 7] by (simp add: shl_def)
    then show "bit (snd (cpsr_int_reset c (snd (cpsr_int_disable c)))) i = bit c i"
      using i by (auto simp: cpsr_int_reset_def cpsr_int_bits)
  qed
  then show ?thesis by (simp add: cpsr_int_disable_def)
qed

context loopback
begin

lemma wp_int_vec_init:
  assumes "vec_ok vec" "cpu_vbar c = 0" "\<And>p'. up (p\<lparr>gon := False\<rparr>) p' \<Longrightarrow>
    Q (c\<lparr>cpu_psr := snd (cpsr_int_disable (cpu_psr c)), cpu_vbar := vec\<rparr>) p'"
  shows "wp st (int_vec_init B vec c) Q E p"
  unfolding int_vec_init_def Let_def
  by (intro wp_thn wp_bar wp_acts [OF put_disable1] wp_acts [OF put_disable2] wp_bnd wp_lft wp_ret)
    (use assms in \<open>auto simp: vector_base_set_cases up_def tick_def loop Let_def\<close>)

text \<open>Start-up of the last test: afterwards the pin is high, both edges are armed and no edge is pending.\<close>

lemma wp_startup:
  assumes "vec_ok vec" "cpu_vbar c = 0"
    and "\<And>c' p'. armed p' \<Longrightarrow> out p' \<Longrightarrow> cpsr_int_enabled (cpu_psr c') \<Longrightarrow> cpu_vbar c' = vec \<Longrightarrow> Q c' p'"
  shows "wp st (test_startup B vec (rise_fall_timer_init B) c) Q E p"
  unfolding test_startup_def gpio_set_output_def gpio_set_input_def rise_fall_timer_init_def timer_test_init_def
  by (intro wp_bnd wp_int_vec_init assms(1,2) wp_thn wp_run_all_Cons wp_run_all_Nil wp_pin_function wp_rise_fall_init
      wp_timer_init wp_clear wp_ret assms(3))
    (auto simp: armed_def up_def tick_def loop Let_def cpsr_int_bits)

end

section \<open>A simulated device\<close>

text \<open>The registers that the model does not keep read as zero.\<close>

definition sim_edge :: "(edge \<Rightarrow> bool) \<Rightarrow> (nat \<Rightarrow> bool) \<Rightarrow> edge bus" where
  "sim_edge src fire = \<lparr>
     GET32 = (\<lambda>a p. let p = tick src fire p in Inr (
        if a = GPEDS0 then shl (of_bool (ev p)) 20 else if a = gpio_lev0 then shl (of_bool (lvl p)) 20
        else if a = GPREN0 then shl (of_bool (ren p)) 20 else if a = GPFEN0 then shl (of_bool (fen p)) 20
        else if a = IRQ_basic_pending then of_bool (ton p \<and> tmr p) else 0, p)),
     PUT32 = (\<lambda>a v p. let q = tick src fire p in Inr ((),
        if a = GPEDS0 then q\<lparr>ev := ev q \<and> \<not> bit v 20\<rparr>
        else if a = GPREN0 then q\<lparr>ren := bit v 20\<rparr> else if a = GPFEN0 then q\<lparr>fen := bit v 20\<rparr>
        else if a = gpio_set0 then tick src fire (p\<lparr>out := out p \<or> bit v 21\<rparr>)
        else if a = gpio_clr0 then tick src fire (p\<lparr>out := out p \<and> \<not> bit v 21\<rparr>)
        else if a = arm_timer_IRQClear then q\<lparr>tmr := False\<rparr>
        else if a = enable_irqs2 then q\<lparr>gon := gon q \<or> bit v 17\<rparr>
        else if a = Enable_Basic_IRQs then q\<lparr>ton := ton q \<or> bit v 0\<rparr>
        else if a = Disable_IRQs_2 then q\<lparr>gon := gon q \<and> \<not> bit v 17\<rparr> else q)),
     dev_barrier = ret (), DEV_VAL32 = ret\<rparr>"

lemmas edge_regs = GPEDS0_def gpio_lev0_def GPREN0_def GPFEN0_def IRQ_basic_pending_def gpio_set0_def gpio_clr0_def
  arm_timer_IRQClear_def enable_irqs2_def Enable_Basic_IRQs_def Disable_IRQs_1_def Disable_IRQs_2_def
  arm_timer_Load_def arm_timer_Control_def GPIO_BASE_def IRQ_Base_def arm_timer_Base_def fsel_regs_def

lemma sim_edge_get:
  "GET32 (sim_edge src fire) a p = Inr (
      if a = GPEDS0 then shl (of_bool (ev (tick src fire p))) 20 else if a = gpio_lev0 then shl (of_bool (lvl (tick src fire p))) 20
      else if a = GPREN0 then shl (of_bool (ren (tick src fire p))) 20 else if a = GPFEN0 then shl (of_bool (fen (tick src fire p))) 20
      else if a = IRQ_basic_pending then of_bool (ton (tick src fire p) \<and> tmr (tick src fire p)) else 0, tick src fire p)"
  unfolding sim_edge_def bus.select_convs Let_def by (rule refl)

lemma sim_edge_bar: "dev_barrier (sim_edge src fire) p = Inr ((), p)"
  by (simp add: sim_edge_def)

lemma sim_edge_val: "DEV_VAL32 (sim_edge src fire) v p = Inr (v, p)"
  by (simp add: sim_edge_def)

lemmas sim_edge_simps = sim_edge_get sim_edge_bar sim_edge_val

lemma bit_20: "bit (shl (of_bool b) 20 :: u32) 20 = b" "bit (of_bool b :: u32) 0 = b"
  by (cases b; simp add: bits_of)+

lemma fsel_other:
  "a \<in> fsel_regs \<Longrightarrow> a \<noteq> GPEDS0 \<and> a \<noteq> GPREN0 \<and> a \<noteq> GPFEN0 \<and> a \<noteq> gpio_set0 \<and> a \<noteq> gpio_clr0 \<and>
     a \<noteq> arm_timer_IRQClear \<and> a \<noteq> enable_irqs2 \<and> a \<noteq> Enable_Basic_IRQs \<and> a \<noteq> Disable_IRQs_2"
  unfolding fsel_regs_def insert_iff empty_iff by (elim disjE) (simp_all add: edge_regs)

interpretation sim_edge: edge_dev "sim_edge src fire" id src fire for src fire
proof
  fix a v :: u32
  assume a: "a \<in> fsel_regs"
  then show "yields id (GET32 (sim_edge src fire) a) (\<lambda>_ _. True) (tick src fire)" by (simp add: yields_def sim_edge_simps)
  show "acts id (PUT32 (sim_edge src fire) a v) (\<lambda>_. ()) (tick src fire)"
    using fsel_other [OF a] by (simp add: acts_def sim_edge_def Let_def)
next
  fix v :: u32
  show "yields id (GET32 (sim_edge src fire) GPEDS0) (\<lambda>v p. bit v 20 = ev p) (tick src fire)"
    "yields id (GET32 (sim_edge src fire) gpio_lev0) (\<lambda>v p. bit v 20 = lvl p) (tick src fire)"
    "yields id (GET32 (sim_edge src fire) IRQ_basic_pending) (\<lambda>v p. bit v 0 = (ton p \<and> tmr p)) (tick src fire)"
    "yields id (GET32 (sim_edge src fire) GPREN0) (\<lambda>v p. bit v 20 = ren p) (tick src fire)"
    "yields id (GET32 (sim_edge src fire) GPFEN0) (\<lambda>v p. bit v 20 = fen p) (tick src fire)"
    by (simp_all add: yields_def sim_edge_simps bit_20 edge_regs del: of_bool_conj)
qed (simp_all add: acts_def sim_edge_def Let_def edge_regs)

interpretation sim_loop: loopback "sim_edge out fire" id out fire for fire
  by unfold_locales simp

section \<open>Properties\<close>



text \<open>C35. C0: the handlers take the direction of an edge from the level of the pin at that moment, each with a read of its own: a
  pulse that is low when the first looks and high when the second looks is taken for neither, and the vector panics.\<close>

theorem rise_fall_panics_on_pulse:
  assumes "edge_dev B st (\<lambda>p. L (now p)) fire" "ev (st d)" "\<not> L (now (st d) + 2)" "L (now (st d) + 4)"
  shows "interrupt_vector B (rise_fall_handler B) s d = Inl Panic"
proof -
  let ?t = "tick (\<lambda>p. L (now p)) fire"
  have ev: "ev p \<Longrightarrow> ev (?t p)" and lvl: "lvl (?t p) = L (Suc (now p))" for p
    by (simp_all add: tick_def Let_def)
  have "wp st (interrupt_vector B (rise_fall_handler B) s) (\<lambda>_ _. False) (\<lambda>e. e = Panic) (st d)"
    unfolding rise_fall_handler_def
    by (intro wp_vector wp_or_handlers edge_dev.wp_bar [OF assms(1)] edge_dev.wp_rising [OF assms(1)])
      (use assms(2-4) in \<open>auto intro!: edge_dev.wp_falling [OF assms(1)]
        simp: edge_dev.edge_seen_def [OF assms(1)] Let_def ev lvl numeral_eq_Suc split: if_splits\<close>)
  then show ?thesis by (cases "interrupt_vector B (rise_fall_handler B) s d") (auto simp: wp_def)
qed

theorem rise_fall_panics_on_pulse_witness:
  "interrupt_vector (sim_edge (\<lambda>p. 3 \<le> now p) (\<lambda>_. False)) (rise_fall_handler (sim_edge (\<lambda>p. 3 \<le> now p) (\<lambda>_. False)))
      \<lparr>n_interrupt = 0, n_falling = 0, n_rising = 0\<rparr>
      \<lparr>now = 0, out = False, lvl = False, ev = True, ren = True, fen = True, tmr = False, gon = True, ton = False\<rparr> = Inl Panic"
  by (rule rise_fall_panics_on_pulse [OF sim_edge.edge_dev_axioms]) simp_all

text \<open>An edge between the read of the level and the clearing of the event is lost.\<close>

lemma rising_loses_edge:
  assumes "edge_dev B st (\<lambda>p. L (now p)) fire" "ev (st d)" "L (now (st d) + 2)" "\<not> L (now (st d) + 3)"
  shows "\<exists>d'. rising_handler B s d = Inr ((1, s\<lparr>n_rising := n_rising s + 1\<rparr>), d') \<and> \<not> ev (st d') \<and> \<not> lvl (st d')"
proof -
  let ?t = "tick (\<lambda>p. L (now p)) fire"
  have ev: "ev p \<Longrightarrow> ev (?t p)" and lvl: "lvl (?t p) = L (Suc (now p))" for p
    by (simp_all add: tick_def Let_def)
  have "wp st (rising_handler B s) (\<lambda>x p. x = (1, s\<lparr>n_rising := n_rising s + 1\<rparr>) \<and> \<not> ev p \<and> \<not> lvl p) never (st d)"
    by (intro edge_dev.wp_rising [OF assms(1)])
      (use assms(2-4) in \<open>auto simp: edge_dev.edge_seen_def [OF assms(1)] Let_def ev lvl numeral_eq_Suc split: if_splits\<close>)
  from wp_total [OF this] show ?thesis by blast
qed

section \<open>Time between interrupts\<close>

text \<open>The timer vector is called once for each pair of a pending word and a time.\<close>

fun vectors :: "nat \<Rightarrow> ('s \<Rightarrow> ('d, 's) io) \<Rightarrow> 's \<Rightarrow> ('d, 's) io" where
  "vectors 0 vec s = ret s"
| "vectors (Suc n) vec s = bnd (vec s) (vectors n vec)"

lemma timer_vector_fires:
  assumes "bit w 0"
  shows "\<exists>l'. timer_vector script_bus s \<lparr>replies = w # c # rs, log = l\<rparr> = Inr (\<lparr>cnt = cnt s + 1,
      period = (if last_clk s \<noteq> 0 then c - last_clk s else 0),
      period_sum = period_sum s + (if last_clk s \<noteq> 0 then c - last_clk s else 0), last_clk = c\<rparr>, \<lparr>replies = rs, log = l'\<rparr>)"
proof -
  have "w AND RPI_BASIC_ARM_TIMER_IRQ \<noteq> 0"
    using assms by (simp add: RPI_BASIC_ARM_TIMER_IRQ_def shl_def and_one_bit)
  then show ?thesis
    by (simp add: timer_vector_def timer_get_usec_def timer_get_usec_raw_def Let_def)
qed

lemma timer_vectors_from:
  assumes "last_clk s \<noteq> 0" "list_all (\<lambda>(w, c). bit w 0 \<and> c \<noteq> 0) wcs"
  shows "\<exists>s' l'. vectors (length wcs) (timer_vector script_bus) s
      \<lparr>replies = concat (map (\<lambda>(w, c). [w, c]) wcs), log = l\<rparr> = Inr (s', \<lparr>replies = [], log = l'\<rparr>) \<and>
    cnt s' = cnt s + word_of_nat (length wcs) \<and> last_clk s' = last (last_clk s # map snd wcs) \<and>
    period_sum s' = period_sum s + (last_clk s' - last_clk s)"
  using assms
proof (induction wcs arbitrary: s l)
  case (Cons wc wcs)
  obtain w c where wc: "wc = (w, c)" "bit w 0" "c \<noteq> 0" using Cons.prems(2) by (cases wc) auto
  let ?s = "\<lparr>cnt = cnt s + 1, period = c - last_clk s, period_sum = period_sum s + (c - last_clk s), last_clk = c\<rparr>"
  obtain l1 where 1: "timer_vector script_bus s \<lparr>replies = w # c # concat (map (\<lambda>(w, c). [w, c]) wcs), log = l\<rparr> =
      Inr (?s, \<lparr>replies = concat (map (\<lambda>(w, c). [w, c]) wcs), log = l1\<rparr>)"
    using timer_vector_fires [OF wc(2), where s = s and c = c and l = l and rs = "concat (map (\<lambda>(w, c). [w, c]) wcs)"]
      Cons.prems(1) by auto
  have "list_all (\<lambda>(w, c). bit w 0 \<and> c \<noteq> 0) wcs" using Cons.prems(2) by simp
  then obtain s' l' where "vectors (length wcs) (timer_vector script_bus) ?s
      \<lparr>replies = concat (map (\<lambda>(w, c). [w, c]) wcs), log = l1\<rparr> = Inr (s', \<lparr>replies = [], log = l'\<rparr>)"
    "cnt s' = cnt ?s + word_of_nat (length wcs)" "last_clk s' = last (last_clk ?s # map snd wcs)"
    "period_sum s' = period_sum ?s + (last_clk s' - last_clk ?s)"
    using Cons.IH [of ?s l1] wc(3) by auto
  then show ?case using 1 wc(1) by (auto simp: algebra_simps)
qed simp

text \<open>The sum of the periods of the interrupts after the first is the time between the first and the last, modulo the
  width of the counter, if no interrupt comes when the counter reads zero.\<close>

theorem timer_periods_sum:
  assumes "list_all (\<lambda>(w, c). bit w 0 \<and> c \<noteq> 0) (wc # wcs)"
  shows "\<exists>s' d'. vectors (Suc (length wcs)) (timer_vector script_bus) \<lparr>cnt = 0, period = 0, period_sum = 0, last_clk = 0\<rparr>
      \<lparr>replies = concat (map (\<lambda>(w, c). [w, c]) (wc # wcs)), log = []\<rparr> = Inr (s', d') \<and>
    cnt s' = word_of_nat (Suc (length wcs)) \<and> period_sum s' = last (map snd (wc # wcs)) - snd wc"
proof -
  obtain w c where wc: "wc = (w, c)" "bit w 0" "c \<noteq> 0" "list_all (\<lambda>(w, c). bit w 0 \<and> c \<noteq> 0) wcs"
    using assms by (cases wc) auto
  let ?s = "\<lparr>cnt = 0, period = 0, period_sum = 0, last_clk = 0\<rparr> :: timer_stats"
    and ?s1 = "\<lparr>cnt = 1, period = 0, period_sum = 0, last_clk = c\<rparr> :: timer_stats"
  obtain l1 where 1: "timer_vector script_bus ?s \<lparr>replies = w # c # concat (map (\<lambda>(w, c). [w, c]) wcs), log = []\<rparr> =
      Inr (?s1, \<lparr>replies = concat (map (\<lambda>(w, c). [w, c]) wcs), log = l1\<rparr>)"
    using timer_vector_fires [OF wc(2), where s = ?s and c = c and l = "[]" and rs = "concat (map (\<lambda>(w, c). [w, c]) wcs)"]
    by auto
  obtain s' l' where "vectors (length wcs) (timer_vector script_bus) ?s1
      \<lparr>replies = concat (map (\<lambda>(w, c). [w, c]) wcs), log = l1\<rparr> = Inr (s', \<lparr>replies = [], log = l'\<rparr>)"
    "cnt s' = 1 + word_of_nat (length wcs)" "last_clk s' = last (c # map snd wcs)" "period_sum s' = last_clk s' - c"
    using timer_vectors_from [of ?s1 wcs l1] wc(3,4) by auto
  then show ?thesis using 1 wc(1) by (intro exI [of _ s'] exI [of _ "\<lparr>replies = [], log = l'\<rparr>"]) simp
qed

section \<open>Profiles\<close>

text \<open>The addresses of the words between two labels.\<close>

definition code_ok :: "u32 \<Rightarrow> u32 list \<Rightarrow> bool" where
  "code_ok code_start arr \<longleftrightarrow> unat code_start + 4 * length arr < 2 ^ 32"

definition in_code :: "u32 \<Rightarrow> u32 list \<Rightarrow> u32 \<Rightarrow> bool" where
  "in_code code_start arr pc \<longleftrightarrow> (\<exists>i<length arr. pc = code_start + 4 * word_of_nat i)"

lemma code_index:
  assumes "code_ok code_start arr" "i < length arr"
  shows "unat ((code_start + 4 * word_of_nat i - code_start) div 4) = i"
proof -
  have "4 * i < 4294967296" using assms by (simp add: code_ok_def)
  then have "unat (4 * word_of_nat i :: u32) = 4 * i"
    by (metis of_nat_mult of_nat_numeral unat_nat_u32)
  then show ?thesis by (simp add: unat_div)
qed

lemma gprof_inc_at:
  assumes "code_ok code_start arr" "i < length arr"
  shows "gprof_inc code_start (code_start + 4 * word_of_nat i) arr = Inr (arr[i := arr ! i + 1])"
  unfolding gprof_inc_def Let_def code_index [OF assms] using assms(2) by simp

fun gprof_samples :: "u32 \<Rightarrow> u32 list \<Rightarrow> u32 list \<Rightarrow> u32 list res" where
  "gprof_samples code_start [] arr = Inr arr"
| "gprof_samples code_start (pc # pcs) arr = seq (gprof_inc code_start pc arr) (gprof_samples code_start pcs)"

lemma gprof_samples_count:
  assumes "code_ok code_start arr" "list_all (in_code code_start arr) pcs"
  shows "\<exists>arr'. gprof_samples code_start pcs arr = Inr arr' \<and> length arr' = length arr \<and>
    (\<forall>i<length arr. arr' ! i = arr ! i + word_of_nat (count_list pcs (code_start + 4 * word_of_nat i)))"
  using assms
proof (induction pcs arbitrary: arr)
  case (Cons pc pcs)
  obtain j where j: "j < length arr" "pc = code_start + 4 * word_of_nat j" using Cons.prems(2) by (auto simp: in_code_def)
  let ?arr = "arr[j := arr ! j + 1]"
  have "in_code code_start ?arr = in_code code_start arr" by (simp add: in_code_def fun_eq_iff)
  then have "code_ok code_start ?arr" "list_all (in_code code_start ?arr) pcs"
    using Cons.prems by (simp_all add: code_ok_def)
  from Cons.IH [OF this] obtain arr' where a: "gprof_samples code_start pcs ?arr = Inr arr'" "length arr' = length arr"
    "\<forall>i<length arr. arr' ! i = ?arr ! i + word_of_nat (count_list pcs (code_start + 4 * word_of_nat i))" by auto
  have "code_start + 4 * word_of_nat i = pc \<longleftrightarrow> i = j" if "i < length arr" for i
    using code_index [OF Cons.prems(1) that] code_index [OF Cons.prems(1) j(1)] j(2) by metis
  then show ?case
    using a gprof_inc_at [OF Cons.prems(1) j(1)] j by (auto simp: nth_list_update eq_commute [of pc])
qed simp

text \<open>C36. C0: the profiler counts samples: after any samples in the code it prints, in the order of the addresses, exactly the
  addresses that were sampled at least \<open>min_val\<close> times, with the number of their samples.\<close>

theorem gprof_counts_samples:
  assumes "code_ok code_start (gprof_init code_start code_end)" "list_all (in_code code_start (gprof_init code_start code_end)) pcs"
    "length pcs < 2 ^ 32"
  shows "\<exists>arr. gprof_samples code_start pcs (gprof_init code_start code_end) = Inr arr \<and>
    snd (gprof_dump code_start arr min_val cpsr) = map (\<lambda>a. (a, word_of_nat (count_list pcs a)))
      (filter (\<lambda>a. unat min_val \<le> count_list pcs a)
        (map (\<lambda>i. code_start + 4 * word_of_nat i) [0..<unat ((code_end - code_start) div 4)]))"
proof -
  let ?a = "gprof_init code_start code_end" and ?pc = "\<lambda>i. code_start + 4 * word_of_nat i"
  obtain arr where a: "gprof_samples code_start pcs ?a = Inr arr" "length arr = length ?a"
    "\<forall>i<length ?a. arr ! i = ?a ! i + word_of_nat (count_list pcs (?pc i))"
    using gprof_samples_count [OF assms(1,2)] by blast
  have n: "arr ! i = word_of_nat (count_list pcs (?pc i))" if "i < length arr" for i
    using a that by (simp add: gprof_init_def)
  have le: "min_val \<le> arr ! i \<longleftrightarrow> unat min_val \<le> count_list pcs (?pc i)" if "i < length arr" for i
    using n [OF that] assms(3) le_less_trans [OF count_le_length, of pcs "2 ^ 32" "?pc i"]
    by (simp add: word_le_nat_alt unat_nat_u32)
  have l: "length arr = unat ((code_end - code_start) div 4)" using a(2) by (simp add: gprof_init_def)
  have "snd (gprof_dump code_start arr min_val cpsr) = map (\<lambda>i. (?pc i, arr ! i)) (filter (\<lambda>i. min_val \<le> arr ! i) [0..<length arr])"
    by (simp add: gprof_dump_def Let_def)
  also have "\<dots> = map (\<lambda>i. (?pc i, word_of_nat (count_list pcs (?pc i)))) (filter (\<lambda>i. unat min_val \<le> count_list pcs (?pc i)) [0..<length arr])"
    using n le by (intro map_cong filter_cong) auto
  finally show ?thesis using a(1) l by (intro exI [of _ arr]) (simp add: filter_map comp_def)
qed

theorem gprof_counts_samples_witness:
  "\<exists>arr. gprof_samples 0x8000 [0x8004, 0x8000, 0x8004] (gprof_init 0x8000 0x800c) = Inr arr \<and>
    snd (gprof_dump 0x8000 arr 2 0x13) = [(0x8004, 2)]"
proof -
  have "unat ((0x800c - 0x8000 :: u32) div 4) = 3" by simp
  then have c: "gprof_init 0x8000 0x800c = [0, 0, 0]" unfolding gprof_init_def by (simp only:) (simp add: numeral_3_eq_3)
  have ok: "code_ok 0x8000 [0, 0, 0]" by (simp add: code_ok_def)
  have "in_code 0x8000 [0, 0, 0] (0x8000 + 4 * word_of_nat i)" if "i < 3" for i
    using that unfolding in_code_def by (intro exI [of _ i]) simp
  from this [of 0] this [of 1] have "list_all (in_code 0x8000 [0, 0, 0]) [0x8004, 0x8000, 0x8004]" by simp
  with ok gprof_counts_samples [of "0x8000" "0x800c" "[0x8004, 0x8000, 0x8004]" 2 "0x13"] show ?thesis
    unfolding c by (simp add: upt_rec)
qed

section \<open>System calls\<close>

text \<open>A system call from user mode is told by the low 24 bits of its instruction; from any other mode it panics.\<close>

lemma syscall_vector1_cases:
  "syscall_vector1 mem spsr pc r0 =
     (if spsr AND 0x1F \<noteq> USER_MODE then Inl Panic
      else if mem pc AND 0xFFFFFF = 1 then Inr 0 else if mem pc AND 0xFFFFFF = 2 then Inl Rebooted else Inr (- 1))"
  by (simp add: syscall_vector1_def Let_def)

text \<open>The user program of the lab, on its stack and in user mode, says hello and exits by rebooting; in any other mode it
  panics before its first call.\<close>

lemma user_fn_exits:
  assumes "stack \<le> var" "var < stack + 8 * (1024 * 64)" "mem swi1 AND 0xFFFFFF = 1" "mem swi2 AND 0xFFFFFF = 2"
  shows "user_fn mem stack var cpsr swi1 swi2 = Inl (if cpsr AND 0x1F = USER_MODE then Rebooted else Panic)"
  using assms by (simp add: user_fn_def syscall_vector1_cases Let_def)

section \<open>The analyzer\<close>

text \<open>What one interrupt of the analyzer puts into the queue: the cycles since the last and the level before it.\<close>

definition event_bytes :: "u32 \<times> u32 \<Rightarrow> u8 list" where
  "event_bytes e = le_bytes (snd e) @ le_bytes (fst e)"

text \<open>The events of interrupts at the cycles and with the level words given, after an event in cycle \<open>prev\<close>.\<close>

fun pin_events :: "u32 \<Rightarrow> (u32 \<times> u32) list \<Rightarrow> (u32 \<times> u32) list" where
  "pin_events prev [] = []"
| "pin_events prev ((s, v) # ivs) = (1 - of_bool (bit v 20), s - prev) # pin_events s ivs"

lemma length_event_bytes [simp]: "length (event_bytes e) = 8"
  by (simp add: event_bytes_def)

lemma length_events [simp]: "length (concat (map event_bytes es)) = 8 * length es"
  by (induction es) auto

lemma length_pin_events [simp]: "length (pin_events prev ivs) = length ivs"
  by (induction prev ivs rule: pin_events.induct) auto

lemma size_ok_8192: "size_ok CQ_N" "unat CQ_N = 8192"
  by (simp_all add: size_ok_CQ_N) (simp add: CQ_N_def)

lemma le_bytes_ne: "le_bytes x \<noteq> []"
  by (simp add: le_bytes_def)

lemma push32_room:
  assumes "cq_inv CQ_N q" "length (cq_items q) + 4 \<le> 8191"
  shows "\<exists>q'. cq_push32 CQ_N q x = Inr (True, q') \<and> cq_inv CQ_N q' \<and> cq_items q' = cq_items q @ le_bytes x"
  using cq_push_n_spec [OF size_ok_8192(1) assms(1) le_bytes_ne, of x] assms(2) length_le_bytes [of x]
  by (auto simp: cq_push32_def size_ok_8192)

lemma push32_full:
  assumes "cq_inv CQ_N q" "8191 < length (cq_items q) + 4"
  shows "cq_push32 CQ_N q x = Inr (False, q)"
  using cq_push_n_spec [OF size_ok_8192(1) assms(1) le_bytes_ne, of x] assms(2) length_le_bytes [of x]
  by (auto simp: cq_push32_def size_ok_8192)

lemma pop32_front:
  assumes "cq_inv CQ_N q" "cq_items q = le_bytes x @ rest"
  shows "\<exists>q'. cq_pop32 CQ_N ie irqs q = Inr (x, irqs, q') \<and> cq_inv CQ_N q' \<and> cq_items q' = rest"
proof -
  have n: "4 \<le> cq_cnt q" using assms(2) length_cq_items [of q] by simp
  have v: "size_ok CQ_N \<and> cq_inv CQ_N q" using assms(1) size_ok_8192 by simp
  have w: "word_of_bytes (le_bytes x) = x" by (simp add: le_bytes_eq le_word_bytes)
  from cq_pop_n_drain [OF v n, of ie irqs] cqf.drain_take [OF v, of 4] n assms(2) w show ?thesis
    by (auto simp: cq_pop32_def)
qed

text \<open>The cycle counter of the recording bus is a read of its own.\<close>

definition script_cyc :: "(script, u32) io" where
  "script_cyc = GET32 script_bus 0"

lemma analyzer_vector_runs:
  assumes "cq_push32 CQ_N q (s - prev) = Inr (b1, q1)" "cq_push32 CQ_N q1 (1 - of_bool (bit v 20)) = Inr (b2, q2)"
  shows "\<exists>l'. analyzer_vector script_bus script_cyc (q, prev) \<lparr>replies = s # v # rs, log = l\<rparr> = Inr ((q2, s), \<lparr>replies = rs, log = l'\<rparr>)"
proof -
  have "gpio_read script_bus in_pin \<lparr>replies = v # rs, log = l\<rparr> =
      Inr (of_bool (bit v 20), \<lparr>replies = rs, log = l @ [Rd gpio_lev0 v, Val (of_bool (bit v 20))]\<rparr>)" for l
    using gpio_read_level [of in_pin v rs l] by (simp add: in_pin_def Let_def)
  then show ?thesis
    using assms by (simp add: analyzer_vector_def Let_def gpio_event_clear_def in_pin_def script_cyc_def)
qed

lemma analyzer_vectors_run:
  assumes "cq_inv CQ_N q" "length (cq_items q) + 8 * length ivs \<le> 8191"
  shows "\<exists>q' prev' l'. vectors (length ivs) (analyzer_vector script_bus script_cyc) (q, prev)
      \<lparr>replies = concat (map (\<lambda>(s, v). [s, v]) ivs) @ rs, log = l\<rparr> = Inr ((q', prev'), \<lparr>replies = rs, log = l'\<rparr>) \<and>
    cq_inv CQ_N q' \<and> cq_items q' = cq_items q @ concat (map event_bytes (pin_events prev ivs))"
  using assms
proof (induction ivs arbitrary: q prev l)
  case (Cons iv ivs)
  obtain s v where iv: "iv = (s, v)" by fastforce
  let ?rs = "concat (map (\<lambda>(s, v). [s, v]) ivs) @ rs"
  obtain q1 where 1: "cq_push32 CQ_N q (s - prev) = Inr (True, q1)" "cq_inv CQ_N q1" "cq_items q1 = cq_items q @ le_bytes (s - prev)"
    using push32_room [OF Cons.prems(1)] Cons.prems(2) by fastforce
  obtain q2 where 2: "cq_push32 CQ_N q1 (1 - of_bool (bit v 20)) = Inr (True, q2)" "cq_inv CQ_N q2"
      "cq_items q2 = cq_items q1 @ le_bytes (1 - of_bool (bit v 20))"
    using push32_room [OF 1(2)] Cons.prems(2) 1(3) by fastforce
  obtain l1 where r: "analyzer_vector script_bus script_cyc (q, prev) \<lparr>replies = s # v # ?rs, log = l\<rparr> = Inr ((q2, s), \<lparr>replies = ?rs, log = l1\<rparr>)"
    using analyzer_vector_runs [OF 1(1) 2(1)] by blast
  have "length (cq_items q2) + 8 * length ivs \<le> 8191" using Cons.prems(2) 1(3) 2(3) by simp
  from Cons.IH [OF 2(2) this, of s l1] obtain q' prev' l' where
    "vectors (length ivs) (analyzer_vector script_bus script_cyc) (q2, s) \<lparr>replies = ?rs, log = l1\<rparr> = Inr ((q', prev'), \<lparr>replies = rs, log = l'\<rparr>)"
    "cq_inv CQ_N q'" "cq_items q' = cq_items q2 @ concat (map event_bytes (pin_events s ivs))" by blast
  moreover have "cq_items q2 = cq_items q @ event_bytes (1 - of_bool (bit v 20), s - prev)"
    using 1(3) 2(3) by (simp add: event_bytes_def)
  ultimately show ?case using r iv by (intro exI [of _ q'] exI [of _ prev'] exI [of _ l']) simp
qed simp

lemma analyzer_print_events:
  assumes "cq_inv CQ_N q" "cq_items q = concat (map event_bytes es)" "length es < k"
  shows "\<exists>q'. analyzer_print k q = Inr (es, q') \<and> cq_inv CQ_N q' \<and> cq_items q' = []"
  using assms
proof (induction es arbitrary: q k)
  case Nil
  then obtain j where "k = Suc j" by (cases k) auto
  then show ?case using Nil cq_empty_iff [OF Nil(1)] by simp
next
  case (Cons e es)
  then obtain j where k: "k = Suc j" by (cases k) auto
  have ne: "\<not> cq_empty q" using cq_empty_iff [OF Cons.prems(1)] Cons.prems(2) by (simp add: event_bytes_def le_bytes_ne)
  have "cq_items q = le_bytes (snd e) @ le_bytes (fst e) @ concat (map event_bytes es)"
    using Cons.prems(2) by (simp add: event_bytes_def [of e])
  from pop32_front [OF Cons.prems(1) this] obtain q1 where 1: "cq_pop32 CQ_N True [] q = Inr (snd e, [], q1)" "cq_inv CQ_N q1"
    "cq_items q1 = le_bytes (fst e) @ concat (map event_bytes es)" by blast
  obtain q2 where 2: "cq_pop32 CQ_N True [] q1 = Inr (fst e, [], q2)" "cq_inv CQ_N q2" "cq_items q2 = concat (map event_bytes es)"
    using pop32_front [OF 1(2,3)] by blast
  obtain q' where "analyzer_print j q2 = Inr (es, q')" "cq_inv CQ_N q'" "cq_items q' = []"
    using Cons.IH [OF 2(2,3), of j] Cons.prems(3) k by auto
  then show ?case using k ne 1(1) 2(1) by simp
qed

text \<open>C37. C0: the analyzer prints what happened on the pin: for up to 1023 interrupts since the queue was empty the loop prints
  for each the level before the edge and the cycles since the previous one, in order, and leaves the queue empty.\<close>

theorem analyzer_roundtrip:
  assumes "cq_inv CQ_N q" "cq_items q = []" "length ivs \<le> 1023"
  shows "\<exists>q' prev' d'. vectors (length ivs) (analyzer_vector script_bus script_cyc) (q, prev)
      \<lparr>replies = concat (map (\<lambda>(s, v). [s, v]) ivs), log = l\<rparr> = Inr ((q', prev'), d') \<and>
    (\<exists>q''. analyzer_print (Suc (length ivs)) q' = Inr (pin_events prev ivs, q'') \<and> cq_items q'' = [])"
proof -
  have room: "length (cq_items q) + 8 * length ivs \<le> 8191" using assms(2,3) by simp
  from analyzer_vectors_run [OF assms(1) this, of prev "[]" l] obtain q' prev' l' where
    v: "vectors (length ivs) (analyzer_vector script_bus script_cyc) (q, prev)
      \<lparr>replies = concat (map (\<lambda>(s, v). [s, v]) ivs), log = l\<rparr> = Inr ((q', prev'), \<lparr>replies = [], log = l'\<rparr>)"
    and q': "cq_inv CQ_N q'" "cq_items q' = concat (map event_bytes (pin_events prev ivs))"
    using assms(2) by auto
  from analyzer_print_events [OF q', of "Suc (length ivs)"] v show ?thesis by fastforce
qed

definition fresh_q :: "u8 cq" where
  "fresh_q = \<lparr>c_buf = replicate 8192 0, fence = 0x12345678, head = 0, tail = 0, overflow = 0, errors_fatal_p = True\<rparr>"

lemma fresh_q: "cq_inv CQ_N fresh_q" "cq_items fresh_q = []"
  by (simp_all add: fresh_q_def cq_inv_def CQ_N_def cq_items_def cq_cnt_def ring_cnt_def ring_list_def)

theorem analyzer_roundtrip_witness:
  "\<exists>q' prev' d' q''. vectors 2 (analyzer_vector script_bus script_cyc) (fresh_q, 100)
      \<lparr>replies = [150, 0, 210, 0x100000], log = []\<rparr> = Inr ((q', prev'), d') \<and>
    analyzer_print 3 q' = Inr ([(1, 50), (0, 60)], q'')"
proof -
  let ?ivs = "[(150, 0), (210, 0x100000)] :: (u32 \<times> u32) list"
  have e: "pin_events 100 ?ivs = [(1, 50), (0, 60)]" by (simp add: bit_iff_odd)
  have n: "length ?ivs = 2" "Suc 2 = 3" "length ?ivs \<le> 1023" by simp_all
  have r: "concat (map (\<lambda>(s, v). [s, v]) ?ivs) = [150, 0, 210, 0x100000]" by simp
  from analyzer_roundtrip [OF fresh_q n(3), of 100 "[]"] show ?thesis unfolding r e n(1,2) by blast
qed

text \<open>One interrupt more: the cycles still fit and the level does not, so that the loop at the end waits for a level
  that is not there.\<close>

lemma analyzer_tears:
  assumes "cq_inv CQ_N q" "cq_items q = concat (map event_bytes es)" "length es = 1023"
  shows "\<exists>q1 l'. analyzer_vector script_bus script_cyc (q, prev) \<lparr>replies = [s, v], log = l\<rparr> = Inr ((q1, s), \<lparr>replies = [], log = l'\<rparr>) \<and>
    cq_inv CQ_N q1 \<and> cq_items q1 = concat (map event_bytes es) @ le_bytes (s - prev)"
proof -
  have l: "length (cq_items q) = 8184" unfolding assms(2) using assms(3) by simp
  obtain q1 where 1: "cq_push32 CQ_N q (s - prev) = Inr (True, q1)" "cq_inv CQ_N q1" "cq_items q1 = cq_items q @ le_bytes (s - prev)"
    using push32_room [OF assms(1)] l by fastforce
  have "cq_push32 CQ_N q1 (1 - of_bool (bit v 20)) = Inr (False, q1)"
    using push32_full [OF 1(2)] 1(3) l by simp
  from analyzer_vector_runs [OF 1(1) this, of "[]" l] 1(2,3) assms(2) show ?thesis by auto
qed

lemma analyzer_print_torn:
  assumes "cq_inv CQ_N q" "cq_items q = concat (map event_bytes es) @ le_bytes c"
  shows "analyzer_print k q = Inl Stuck"
  using assms
proof (induction es arbitrary: q k)
  case Nil
  show ?case
  proof (cases k)
    case (Suc j)
    have ne: "\<not> cq_empty q" using cq_empty_iff [OF Nil(1)] Nil(2) by (simp add: le_bytes_ne)
    obtain q1 where 1: "cq_pop32 CQ_N True [] q = Inr (c, [], q1)" "cq_inv CQ_N q1" "cq_items q1 = []"
      using pop32_front [OF Nil(1), of c "[]"] Nil(2) by auto
    have "cq_pop32 CQ_N True [] q1 = Inl Stuck"
      using cq_pop_empty [OF 1(2,3)] by (simp add: cq_pop32_def numeral_eq_Suc cq_pop.simps)
    then show ?thesis using Suc ne 1(1) by simp
  qed simp
next
  case (Cons e es)
  show ?case
  proof (cases k)
    case (Suc j)
    have ne: "\<not> cq_empty q" using cq_empty_iff [OF Cons.prems(1)] Cons.prems(2) by (simp add: event_bytes_def le_bytes_ne)
    have "cq_items q = le_bytes (snd e) @ le_bytes (fst e) @ concat (map event_bytes es) @ le_bytes c"
      using Cons.prems(2) by (simp add: event_bytes_def [of e])
    from pop32_front [OF Cons.prems(1) this] obtain q1 where 1: "cq_pop32 CQ_N True [] q = Inr (snd e, [], q1)" "cq_inv CQ_N q1"
      "cq_items q1 = le_bytes (fst e) @ concat (map event_bytes es) @ le_bytes c" by blast
    from pop32_front [OF 1(2,3)] obtain q2 where 2: "cq_pop32 CQ_N True [] q1 = Inr (fst e, [], q2)" "cq_inv CQ_N q2"
      "cq_items q2 = concat (map event_bytes es) @ le_bytes c" by blast
    show ?thesis using Suc ne 1(1) 2(1) Cons.IH [OF 2(2,3), of j] by simp
  qed simp
qed

end
