(* ===== verification/Mailbox.thy ===== *)
theory Mailbox
  imports Wp
begin

unbundle bit_operations_syntax

text \<open>
  The mailbox of the graphics processor, \<open>mbox.h\<close> and \<open>mbox.c\<close> of \<open>12-i2c+mailboxes/code-mailbox\<close>: a message is built
  in memory, its address is written to the mailbox with the number of a channel, and the graphics processor answers in
  the message itself. Both processors see the same memory: its words are read and written through the device state
  (\<open>ldw\<close>, \<open>stw\<close>). The locale \<open>mailbox\<close> says how the mailbox behaves; what the graphics processor answers is a function
  of the message. The address of the message on the stack is a parameter.
\<close>

section \<open>The code\<close>

definition MAILBOX_FULL :: u32 where "MAILBOX_FULL = shl 1 31"
definition MAILBOX_EMPTY :: u32 where "MAILBOX_EMPTY = shl 1 30"
definition GPU_MEM_OFFSET :: u32 where "GPU_MEM_OFFSET = 0x40000000"
definition MBOX_CH :: u32 where "MBOX_CH = 8"
definition MBOX_READ :: u32 where "MBOX_READ = 0x2000B880"
definition MBOX_STATUS :: u32 where "MBOX_STATUS = 0x2000B898"
definition MBOX_WRITE :: u32 where "MBOX_WRITE = 0x2000B8A0"

definition uncached :: "u32 \<Rightarrow> u32" where
  "uncached cp = cp OR GPU_MEM_OFFSET"

text \<open>\<open>n\<close> bounds the rounds of each wait.\<close>

definition mbox_write :: "'d bus \<Rightarrow> nat \<Rightarrow> u32 \<Rightarrow> u32 \<Rightarrow> ('d, unit) io" where
  "mbox_write B n channel data =
     thn (check (channel = MBOX_CH) Assert_fail) (thn (check (data mod 16 = 0) Assert_fail)
     (thn (dev_barrier B)
     (thn (poll n (bnd (GET32 B MBOX_STATUS) (\<lambda>v. ret (v AND MAILBOX_FULL = 0))))
     (thn (PUT32 B MBOX_WRITE (uncached data OR channel))
     (dev_barrier B)))))"

definition mbox_read :: "'d bus \<Rightarrow> nat \<Rightarrow> u32 \<Rightarrow> ('d, u32) io" where
  "mbox_read B n channel =
     thn (check (channel = MBOX_CH) Assert_fail) (thn (dev_barrier B)
     (thn (poll n (bnd (GET32 B MBOX_STATUS) (\<lambda>v. ret (v AND MAILBOX_EMPTY = 0))))
     (bnd (GET32 B MBOX_READ) (\<lambda>v.
     thn (check (v AND 0xf = channel) Panic) (ret v)))))"

definition mbox_send :: "'d bus \<Rightarrow> (u32 \<Rightarrow> ('d, u32) io) \<Rightarrow> nat \<Rightarrow> u32 \<Rightarrow> u32 \<Rightarrow> ('d, u32) io" where
  "mbox_send B ldw n channel data =
     thn (mbox_write B n MBOX_CH data) (thn (mbox_read B n MBOX_CH)
     (bnd (ldw (data + 4)) (\<lambda>u1. thn (check (u1 = 0x80000000) Panic) (ret 0))))"

text \<open>The five questions build the same message with different tags. The words that are read back for printing are read
  here too.\<close>

definition msg_init :: "(u32 \<Rightarrow> u32 \<Rightarrow> ('d, unit) io) \<Rightarrow> u32 \<Rightarrow> u32 \<Rightarrow> ('d, unit) io" where
  "msg_init stw msg tag = run_all
     [stw msg (8 * 4), stw (msg + 4) 0, stw (msg + 8) tag, stw (msg + 12) 8, stw (msg + 16) 0,
      stw (msg + 20) 0, stw (msg + 24) 0, stw (msg + 28) 0]"

fun msg_dump :: "(u32 \<Rightarrow> ('d, u32) io) \<Rightarrow> u32 \<Rightarrow> nat \<Rightarrow> ('d, u32 list) io" where
  "msg_dump ldw u 0 = ret []"
| "msg_dump ldw u (Suc nwords) = bnd (ldw u) (\<lambda>w. bnd (msg_dump ldw (u + 4) nwords) (\<lambda>ws. ret (w # ws)))"

definition rpi_get_serialnum :: "'d bus \<Rightarrow> (u32 \<Rightarrow> ('d, u32) io) \<Rightarrow> (u32 \<Rightarrow> u32 \<Rightarrow> ('d, unit) io) \<Rightarrow> nat \<Rightarrow> u32 \<Rightarrow> ('d, u64) io" where
  "rpi_get_serialnum B ldw stw n msg =
     thn (check (msg mod 16 = 0) Assert_fail) (thn (msg_init stw msg 0x00010004)
     (thn (mbox_send B ldw n MBOX_CH msg) (thn (msg_dump ldw msg 8)
     (bnd (ldw (msg + 4)) (\<lambda>v. thn (check (v = 0x80000000) Panic)
     (bnd (ldw (msg + 16)) (\<lambda>v. thn (check (v = (shl 1 31 OR 8)) Assert_fail)
     (bnd (ldw (msg + 24)) (\<lambda>v. thn (check (v = 0) Assert_fail)
     (bnd (ldw (msg + 20)) (\<lambda>v. ret (ucast v))))))))))))"

definition rpi_get_memsize :: "'d bus \<Rightarrow> (u32 \<Rightarrow> ('d, u32) io) \<Rightarrow> (u32 \<Rightarrow> u32 \<Rightarrow> ('d, unit) io) \<Rightarrow> nat \<Rightarrow> u32 \<Rightarrow> ('d, u32) io" where
  "rpi_get_memsize B ldw stw n msg =
     thn (check (msg mod 16 = 0) Assert_fail) (thn (msg_init stw msg 0x00010005)
     (thn (mbox_send B ldw n MBOX_CH msg) (thn (msg_dump ldw msg 8)
     (bnd (ldw (msg + 4)) (\<lambda>v. thn (check (v = 0x80000000) Panic) (ldw (msg + 24)))))))"

definition rpi_get_model :: "'d bus \<Rightarrow> (u32 \<Rightarrow> ('d, u32) io) \<Rightarrow> (u32 \<Rightarrow> u32 \<Rightarrow> ('d, unit) io) \<Rightarrow> nat \<Rightarrow> u32 \<Rightarrow> ('d, u32) io" where
  "rpi_get_model B ldw stw n msg =
     thn (check (msg mod 16 = 0) Assert_fail) (thn (msg_init stw msg 0x00010001)
     (thn (mbox_send B ldw n MBOX_CH msg) (thn (msg_dump ldw msg 8)
     (bnd (ldw (msg + 4)) (\<lambda>v. thn (check (v = 0x80000000) Panic) (ldw (msg + 20)))))))"

definition rpi_get_revision :: "'d bus \<Rightarrow> (u32 \<Rightarrow> ('d, u32) io) \<Rightarrow> (u32 \<Rightarrow> u32 \<Rightarrow> ('d, unit) io) \<Rightarrow> nat \<Rightarrow> u32 \<Rightarrow> ('d, u32) io" where
  "rpi_get_revision B ldw stw n msg =
     thn (check (msg mod 16 = 0) Assert_fail) (thn (msg_init stw msg 0x00010002)
     (thn (mbox_send B ldw n MBOX_CH msg) (thn (msg_dump ldw msg 8)
     (bnd (ldw (msg + 4)) (\<lambda>v. thn (check (v = 0x80000000) Panic) (ldw (msg + 20)))))))"

definition rpi_temp_get :: "'d bus \<Rightarrow> (u32 \<Rightarrow> ('d, u32) io) \<Rightarrow> (u32 \<Rightarrow> u32 \<Rightarrow> ('d, unit) io) \<Rightarrow> nat \<Rightarrow> u32 \<Rightarrow> ('d, u32) io" where
  "rpi_temp_get B ldw stw n msg =
     thn (check (msg mod 16 = 0) Assert_fail) (thn (msg_init stw msg 0x00030006)
     (thn (mbox_send B ldw n MBOX_CH msg) (thn (msg_dump ldw msg 8)
     (bnd (ldw (msg + 4)) (\<lambda>v. thn (check (v = 0x80000000) Panic) (ldw (msg + 24)))))))"

section \<open>The mailbox\<close>

text \<open>The memory, for how many more looks the mailbox is full and the answer is not there, and the answers to be read.\<close>

record gpu =
  mem :: "u32 \<Rightarrow> u32"
  busy :: nat
  slow :: nat
  answers :: "u32 list"

definition words_at :: "(u32 \<Rightarrow> u32) \<Rightarrow> u32 \<Rightarrow> u32 list" where
  "words_at m a = map (\<lambda>i. m (a + 4 * word_of_nat i)) [0..<8]"

definition store_words :: "(u32 \<Rightarrow> u32) \<Rightarrow> u32 \<Rightarrow> u32 list \<Rightarrow> u32 \<Rightarrow> u32" where
  "store_words m a ws x = (let i = unat ((x - a) div 4) in if (x - a) mod 4 = 0 \<and> i < length ws then ws ! i else m x)"

text \<open>A word arrives at the mailbox: on channel 8 it is the address of a message, in the alias of the memory that the
  graphics processor sees, which answers in place.\<close>

definition deliver :: "(u32 list \<Rightarrow> u32 list) \<Rightarrow> u32 \<Rightarrow> gpu \<Rightarrow> gpu" where
  "deliver serve v p =
     (let a = v AND NOT 0x4000000f in
      if v AND 0xf = 8 \<and> v AND 0x40000000 \<noteq> 0
      then p\<lparr>mem := store_words (mem p) a (serve (words_at (mem p) a)), answers := answers p @ [v]\<rparr> else p)"

definition look :: "gpu \<Rightarrow> gpu" where
  "look p = p\<lparr>busy := busy p - 1, slow := slow p - 1\<rparr>"

locale mailbox =
  fixes B :: "'d bus" and ldw :: "u32 \<Rightarrow> ('d, u32) io" and stw :: "u32 \<Rightarrow> u32 \<Rightarrow> ('d, unit) io"
    and st :: "'d \<Rightarrow> gpu" and serve :: "u32 list \<Rightarrow> u32 list"
  assumes load: "acts st (ldw a) (\<lambda>p. mem p a) id"
    and store: "acts st (stw a v) (\<lambda>_. ()) (\<lambda>p. p\<lparr>mem := (mem p)(a := v)\<rparr>)"
    and status: "yields st (GET32 B MBOX_STATUS) (\<lambda>v p. bit v 31 = (0 < busy p) \<and> bit v 30 = (answers p = [] \<or> 0 < slow p)) look"
    and write_free: "st d = p \<Longrightarrow> busy p = 0 \<Longrightarrow> \<exists>d'. PUT32 B MBOX_WRITE v d = Inr ((), d') \<and> st d' = deliver serve v p"
    and read_ready: "st d = p \<Longrightarrow> answers p = v # vs \<Longrightarrow> slow p = 0 \<Longrightarrow>
      \<exists>d'. GET32 B MBOX_READ d = Inr (v, d') \<and> st d' = p\<lparr>answers := vs\<rparr>"
    and bar: "acts st (dev_barrier B) (\<lambda>_. ()) id"
    and serve_len: "length (serve ws) = length ws"

section \<open>Addresses\<close>

definition msg_ok :: "u32 \<Rightarrow> bool" where
  "msg_ok a \<longleftrightarrow> a mod 16 = 0 \<and> \<not> bit a 30"

lemma low_bits: "a mod 16 = 0 \<Longrightarrow> i < 4 \<Longrightarrow> \<not> bit (a :: u32) i"
  using take_bit_eq_mod [of 4 a] bit_take_bit_iff [of 4 a i] by simp

lemma mailbox_word:
  assumes "msg_ok a"
  shows "(uncached a OR MBOX_CH) AND 0xf = 8" "(uncached a OR MBOX_CH) AND NOT 0x4000000f = a"
    "(uncached a OR MBOX_CH) AND 0x40000000 \<noteq> 0"
proof -
  have o: "bit (0x40000000 :: u32) i \<longleftrightarrow> i = 30" "bit (8 :: u32) i \<longleftrightarrow> i = 3" for i
    using bit_exp_iff [where 'a = "32 word" and m = 30 and n = i] bit_exp_iff [where 'a = "32 word" and m = 3 and n = i]
    by (auto simp: possible_bit_def)
  have "(mask 4 :: u32) = 0xf" by (simp add: mask_eq_exp_minus_1)
  then have f: "bit (0xf :: u32) i \<longleftrightarrow> i < 4" for i using bit_mask_u32 [of 4 i] by auto
  have d: "(0x4000000f :: u32) = 0x40000000 OR 0xf" by simp
  note w = uncached_def MBOX_CH_def GPU_MEM_OFFSET_def
  have l: "i < 4 \<Longrightarrow> \<not> bit a i" "\<not> bit a 30" for i using low_bits [of a i] assms by (simp_all add: msg_ok_def)
  show "(uncached a OR MBOX_CH) AND 0xf = 8"
    unfolding w by (rule u32_eqI, simp only: bit_or_iff bit_and_iff o f) (use l(1) in auto)
  show "(uncached a OR MBOX_CH) AND NOT 0x4000000f = a"
    unfolding w d by (rule u32_eqI, simp only: bit_or_iff bit_and_iff bit_not_u32 o f) (use l in auto)
  have "bit ((uncached a OR MBOX_CH) AND 0x40000000) 30" unfolding w by (simp only: bit_or_iff bit_and_iff o) simp
  then show "(uncached a OR MBOX_CH) AND 0x40000000 \<noteq> 0" by force
qed

lemma store_words_at:
  assumes "length ws = 8"
  shows "store_words m a ws (a + 4) = ws ! 1" "store_words m a ws (a + 16) = ws ! 4"
    "store_words m a ws (a + 20) = ws ! 5" "store_words m a ws (a + 24) = ws ! 6"
  using assms by (simp_all add: store_words_def Let_def)

definition request :: "u32 \<Rightarrow> u32 list" where
  "request tag = [32, 0, tag, 8, 0, 0, 0, 0]"

section \<open>Asking\<close>

context mailbox
begin

lemma wp_load: "Q (mem p a) p \<Longrightarrow> wp st (ldw a) Q E p"
  by (rule wp_acts [OF load]) simp

lemma wp_store: "Q () (p\<lparr>mem := (mem p)(a := v)\<rparr>) \<Longrightarrow> wp st (stw a v) Q E p"
  by (rule wp_acts [OF store])

lemma wp_mbar: "Q () p \<Longrightarrow> wp st (dev_barrier B) Q E p"
  by (rule wp_acts [OF bar]) simp

definition passed :: "gpu \<Rightarrow> gpu \<Rightarrow> bool" where
  "passed p p' \<longleftrightarrow> mem p' = mem p \<and> answers p' = answers p \<and> busy p' \<le> busy p \<and> slow p' \<le> slow p"

lemma passed_look: "passed p (look p)"
  by (simp add: passed_def look_def)

lemma passed_trans: "passed p q \<Longrightarrow> passed q r \<Longrightarrow> passed p r"
  by (auto simp: passed_def)

lemma mailbox_flags: "v AND MAILBOX_FULL = 0 \<longleftrightarrow> \<not> bit v 31" "v AND MAILBOX_EMPTY = 0 \<longleftrightarrow> \<not> bit v 30"
  using and_exp_eq_0_iff_not_bit [of v 31] and_exp_eq_0_iff_not_bit [of v 30]
  by (simp_all add: MAILBOX_FULL_def MAILBOX_EMPTY_def shl_def)

lemma wp_not_full:
  assumes "busy p \<le> n" "0 < n" "\<And>p'. passed p p' \<Longrightarrow> busy p' = 0 \<Longrightarrow> Q () p'"
  shows "wp st (poll n (bnd (GET32 B MBOX_STATUS) (\<lambda>v. ret (v AND MAILBOX_FULL = 0)))) Q E p"
  using assms
proof (induction n arbitrary: p)
  case (Suc n)
  have q: "busy (look p) = busy p - 1" by (simp add: look_def)
  show ?case
  proof (rule wp_poll_step, rule wp_bnd, rule wp_yields [OF status], rule wp_ret)
    fix v assume v: "bit (v :: u32) 31 = (0 < busy (look p)) \<and> bit v 30 = (answers (look p) = [] \<or> 0 < slow (look p))"
    show "if v AND MAILBOX_FULL = 0 then Q () (look p)
      else wp st (poll n (bnd (GET32 B MBOX_STATUS) (\<lambda>v. ret (v AND MAILBOX_FULL = 0)))) Q E (look p)"
    proof (cases "busy (look p) = 0")
      case True
      then show ?thesis using v Suc.prems(3) [OF passed_look] by (simp add: mailbox_flags)
    next
      case False
      have "wp st (poll n (bnd (GET32 B MBOX_STATUS) (\<lambda>v. ret (v AND MAILBOX_FULL = 0)))) Q E (look p)"
      proof (rule Suc.IH)
        show "busy (look p) \<le> n" "0 < n" using False q Suc.prems(1) by simp_all
      qed (use Suc.prems(3) passed_trans [OF passed_look] in blast)
      then show ?thesis using v False by (simp add: mailbox_flags)
    qed
  qed
qed simp

lemma wp_not_empty:
  assumes "slow p \<le> n" "0 < n" "answers p \<noteq> []" "\<And>p'. passed p p' \<Longrightarrow> slow p' = 0 \<Longrightarrow> Q () p'"
  shows "wp st (poll n (bnd (GET32 B MBOX_STATUS) (\<lambda>v. ret (v AND MAILBOX_EMPTY = 0)))) Q E p"
  using assms
proof (induction n arbitrary: p)
  case (Suc n)
  have q: "slow (look p) = slow p - 1" "answers (look p) = answers p" by (simp_all add: look_def)
  show ?case
  proof (rule wp_poll_step, rule wp_bnd, rule wp_yields [OF status], rule wp_ret)
    fix v assume v: "bit (v :: u32) 31 = (0 < busy (look p)) \<and> bit v 30 = (answers (look p) = [] \<or> 0 < slow (look p))"
    show "if v AND MAILBOX_EMPTY = 0 then Q () (look p)
      else wp st (poll n (bnd (GET32 B MBOX_STATUS) (\<lambda>v. ret (v AND MAILBOX_EMPTY = 0)))) Q E (look p)"
    proof (cases "slow (look p) = 0")
      case True
      then show ?thesis using v q Suc.prems(3) Suc.prems(4) [OF passed_look] by (simp add: mailbox_flags)
    next
      case False
      have "wp st (poll n (bnd (GET32 B MBOX_STATUS) (\<lambda>v. ret (v AND MAILBOX_EMPTY = 0)))) Q E (look p)"
      proof (rule Suc.IH)
        show "slow (look p) \<le> n" "0 < n" "answers (look p) \<noteq> []" using False q Suc.prems(1,3) by simp_all
      qed (use Suc.prems(4) passed_trans [OF passed_look] in blast)
      then show ?thesis using v False by (simp add: mailbox_flags)
    qed
  qed
qed simp

text \<open>The message is sent and answered: afterwards the answer is where the message was.\<close>

lemma wp_mbox_write:
  assumes "msg_ok a" "busy p \<le> n" "0 < n"
    and "\<And>p'. mem p' = store_words (mem p) a (serve (words_at (mem p) a)) \<Longrightarrow> answers p' = answers p @ [uncached a OR MBOX_CH] \<Longrightarrow>
      busy p' = 0 \<Longrightarrow> slow p' \<le> slow p \<Longrightarrow> Q () p'"
  shows "wp st (mbox_write B n MBOX_CH a) Q E p"
  unfolding mbox_write_def
proof (intro wp_thn wp_check wp_mbar wp_not_full [OF assms(2,3)])
  show "\<not> a mod 16 = 0 \<Longrightarrow> E Assert_fail" using assms(1) by (simp add: msg_ok_def)
  fix p' :: gpu assume p': "passed p p'" "busy p' = 0"
  have "wp st (dev_barrier B) Q E (deliver serve (uncached a OR MBOX_CH) p')"
    using p' mailbox_word [OF assms(1)] by (intro wp_mbar assms(4)) (auto simp: deliver_def passed_def Let_def)
  then show "wp st (PUT32 B MBOX_WRITE (uncached a OR MBOX_CH)) (\<lambda>_. wp st (dev_barrier B) Q E) E p'"
    by - (rule wp_step, rule write_free [OF _ p'(2)])
qed simp

lemma wp_mbox_read:
  assumes "answers p = [v]" "v AND 0xf = 8" "slow p \<le> n" "0 < n"
    and "\<And>p'. mem p' = mem p \<Longrightarrow> answers p' = [] \<Longrightarrow> Q v p'"
  shows "wp st (mbox_read B n MBOX_CH) Q E p"
  unfolding mbox_read_def
proof (intro wp_thn wp_check wp_mbar wp_not_empty [OF assms(3,4)] wp_bnd)
  show "answers p \<noteq> []" using assms(1) by simp
  fix p' :: gpu assume p': "passed p p'" "slow p' = 0"
  have a: "answers p' = v # []" using p'(1) assms(1) by (simp add: passed_def)
  have "wp st (thn (check (v AND 0xf = MBOX_CH) Panic) (ret v)) Q E (p'\<lparr>answers := []\<rparr>)"
    using p'(1) assms(2) by (auto intro!: wp_thn wp_ret assms(5) simp: MBOX_CH_def passed_def)
  then show "wp st (GET32 B MBOX_READ) (\<lambda>v. wp st (thn (check (v AND 0xf = MBOX_CH) Panic) (ret v)) Q E) E p'"
    by - (rule wp_step, rule read_ready [OF _ a p'(2)])
qed simp

lemma wp_msg_init:
  assumes "\<And>p'. words_at (mem p') a = request tag \<Longrightarrow> answers p' = answers p \<Longrightarrow> busy p' = busy p \<Longrightarrow> slow p' = slow p \<Longrightarrow> Q () p'"
  shows "wp st (msg_init stw a tag) Q E p"
  unfolding msg_init_def
  by (intro wp_run_all_Cons wp_run_all_Nil wp_store assms) (simp_all add: words_at_def request_def upt_rec)

lemma wp_msg_dump: "(\<And>ws. Q ws p) \<Longrightarrow> wp st (msg_dump ldw a n) Q E p"
proof (induction n arbitrary: a Q)
  case (Suc n)
  show ?case unfolding msg_dump.simps by (rule wp_bnd, rule wp_load, rule wp_bnd, rule Suc.IH, rule wp_ret, rule Suc.prems)
qed (simp add: wp_ret)

lemma wp_ask:
  assumes "msg_ok a" "busy p \<le> n" "slow p \<le> n" "0 < n" "answers p = []"
    and "\<And>p'. serve (request tag) ! 1 = 0x80000000 \<Longrightarrow> mem p' (a + 4) = 0x80000000 \<Longrightarrow> mem p' (a + 16) = serve (request tag) ! 4 \<Longrightarrow> mem p' (a + 20) = serve (request tag) ! 5 \<Longrightarrow>
      mem p' (a + 24) = serve (request tag) ! 6 \<Longrightarrow> wp st m Q E p'"
    and "serve (request tag) ! 1 \<noteq> 0x80000000 \<Longrightarrow> E Panic"
  shows "wp st (thn (check (a mod 16 = 0) Assert_fail) (thn (msg_init stw a tag) (thn (mbox_send B ldw n MBOX_CH a) (thn (msg_dump ldw a 8) m)))) Q E p"
  unfolding mbox_send_def
proof (intro wp_thn wp_check wp_msg_init)
  show "\<not> a mod 16 = 0 \<Longrightarrow> E Assert_fail" using assms(1) by (simp add: msg_ok_def)
  fix p1 :: gpu assume p1: "words_at (mem p1) a = request tag" "answers p1 = answers p" "busy p1 = busy p" "slow p1 = slow p"
  have "length (serve (request tag)) = 8" by (simp add: serve_len request_def)
  note r = store_words_at [OF this]
  let ?rd = "bnd (ldw (a + 4)) (\<lambda>u1. thn (check (u1 = 0x80000000) Panic) (ret (0 :: u32)))"
  let ?m = "\<lambda>_. wp st (thn (msg_dump ldw a 8) m) Q E"
  show "wp st (mbox_write B n MBOX_CH a) (\<lambda>_. wp st (thn (mbox_read B n MBOX_CH) ?rd) ?m E) E p1"
  proof (rule wp_mbox_write [OF assms(1)])
    show "busy p1 \<le> n" "0 < n" using assms(2,4) p1(3) by simp_all
    fix p2 :: gpu assume p2: "mem p2 = store_words (mem p1) a (serve (words_at (mem p1) a))"
      "answers p2 = answers p1 @ [uncached a OR MBOX_CH]" "slow p2 \<le> slow p1"
    show "wp st (thn (mbox_read B n MBOX_CH) ?rd) ?m E p2"
    proof (rule wp_thn, rule wp_mbox_read [OF _ mailbox_word(1) [OF assms(1)]])
      show "answers p2 = [uncached a OR MBOX_CH]" "slow p2 \<le> n" "0 < n" using p1 p2 assms(3-5) by simp_all
      fix p3 :: gpu assume "mem p3 = mem p2"
      then have "mem p3 = store_words (mem p1) a (serve (request tag))" using p1(1) p2(1) by simp
      then show "wp st ?rd ?m E p3"
        using r by (intro wp_bnd wp_load wp_thn wp_check wp_ret wp_msg_dump assms(6,7)) simp_all
    qed
  qed
qed

end

section \<open>A simulated graphics processor\<close>

text \<open>A board with a serial number, 448 megabytes, a model, a revision and a temperature.\<close>

definition board :: "u32 list \<Rightarrow> u32 list" where
  "board ws =
     (if length ws = 8
      then let t = ws ! 2 in
           [32, 0x80000000, t, 8, 0x80000008,
            if t = 0x00010004 then 0xabcd1234 else if t = 0x00010002 then 0x9000c1 else if t = 0x00010001 then 0 else 0,
            if t = 0x00010005 then 0x1c000000 else if t = 0x00030006 then 41160 else 0, 0]
      else ws)"

definition sim_gpu :: "(u32 list \<Rightarrow> u32 list) \<Rightarrow> gpu bus" where
  "sim_gpu serve = \<lparr>
     GET32 = (\<lambda>a p. if a = MBOX_STATUS
        then let p = look p in Inr (shl (of_bool (0 < busy p)) 31 OR shl (of_bool (answers p = [] \<or> 0 < slow p)) 30, p)
        else if a = MBOX_READ then case answers p of [] \<Rightarrow> Inr (0, p) | v # vs \<Rightarrow> Inr (v, p\<lparr>answers := vs\<rparr>)
        else Inr (0, p)),
     PUT32 = (\<lambda>a v p. Inr ((), if a = MBOX_WRITE then deliver serve v p else p)),
     dev_barrier = ret (), DEV_VAL32 = ret\<rparr>"

definition sim_ldw :: "u32 \<Rightarrow> (gpu, u32) io" where
  "sim_ldw a p = Inr (mem p a, p)"

definition sim_stw :: "u32 \<Rightarrow> u32 \<Rightarrow> (gpu, unit) io" where
  "sim_stw a v p = Inr ((), p\<lparr>mem := (mem p)(a := v)\<rparr>)"

interpretation sim_gpu: mailbox "sim_gpu board" sim_ldw sim_stw id board
proof
  have b: "bit (shl (of_bool x) 31 OR shl (of_bool y) 30 :: u32) 31 = x" "bit (shl (of_bool x) 31 OR shl (of_bool y) 30 :: u32) 30 = y" for x y
    by (cases x; cases y; simp add: bits_of)+
  have s: "GET32 (sim_gpu board) MBOX_STATUS p =
      Inr (shl (of_bool (0 < busy (look p))) 31 OR shl (of_bool (answers (look p) = [] \<or> 0 < slow (look p))) 30, look p)" for p
    unfolding sim_gpu_def bus.select_convs Let_def by (simp only: if_True refl)
  show "yields id (GET32 (sim_gpu board) MBOX_STATUS)
      (\<lambda>v p. bit v 31 = (0 < busy p) \<and> bit v 30 = (answers p = [] \<or> 0 < slow p)) look"
    unfolding yields_def id_apply by (intro allI exI conjI) (rule s b refl)+
  show "length (board ws) = length ws" for ws by (simp add: board_def Let_def)
qed (auto simp: acts_def sim_ldw_def sim_stw_def sim_gpu_def MBOX_READ_def MBOX_STATUS_def)

section \<open>Properties\<close>

definition result_of :: "('d, 'a) io \<Rightarrow> 'd \<Rightarrow> 'a res" where
  "result_of m d = seq (m d) (\<lambda>(v, _). Inr v)"

lemma result_of_wp: "wp st m (\<lambda>v _. r = Inr v) (\<lambda>e. r = Inl e) (st d) \<Longrightarrow> result_of m d = r"
  by (cases "m d") (auto simp: wp_def result_of_def)

context mailbox
begin

lemma result_of_ask:
  assumes "msg_ok a" "busy (st d) \<le> n" "slow (st d) \<le> n" "0 < n" "answers (st d) = []"
    and "\<And>p'. serve (request tag) ! 1 = 0x80000000 \<Longrightarrow> mem p' (a + 4) = 0x80000000 \<Longrightarrow> mem p' (a + 16) = serve (request tag) ! 4 \<Longrightarrow> mem p' (a + 20) = serve (request tag) ! 5 \<Longrightarrow>
      mem p' (a + 24) = serve (request tag) ! 6 \<Longrightarrow> wp st m (\<lambda>v _. r = Inr v) (\<lambda>e. r = Inl e) p'"
    and "serve (request tag) ! 1 \<noteq> 0x80000000 \<Longrightarrow> r = Inl Panic"
  shows "result_of (thn (check (a mod 16 = 0) Assert_fail) (thn (msg_init stw a tag) (thn (mbox_send B ldw n MBOX_CH a) (thn (msg_dump ldw a 8) m)))) d = r"
  by (rule result_of_wp, rule wp_ask [OF assms(1-6)]) (simp_all add: assms(7))

end



end
