(* ===== verification/SuperPt.thy ===== *)
theory SuperPt
  imports PageTable
begin

unbundle bit_operations_syntax

text \<open>
  Two variants of the page table. \<open>labs/16-vm-page-table-16MB\<close> maps supersections of 16 MB, each by sixteen equal
  entries; \<open>labs/16-vm-page-table-offset\<close> maps sections without asking for aligned addresses. The rest of the code is that
  of \<open>16-vm-page-table\<close> (theory PageTable). The word of an entry is the same except that the upper field is split: its
  lower four bits are the field \<open>_sbz2\<close>, the upper eight \<open>sec_base_addr\<close>. \<open>hw_walk\<close> is the translation by the
  processor as the architecture manual describes it, to which the mappings are compared.
\<close>

section \<open>Entries\<close>

definition sbz2 :: "fld_t \<Rightarrow> 4 word" where
  "sbz2 f = ucast (sec_base_addr f)"

definition base8 :: "fld_t \<Rightarrow> 8 word" where
  "base8 f = ucast (drop_bit 4 (sec_base_addr f))"

definition set_base8 :: "8 word \<Rightarrow> fld_t \<Rightarrow> fld_t" where
  "set_base8 b f = f\<lparr>sec_base_addr := push_bit 4 (ucast b) OR (sec_base_addr f AND mask 4)\<rparr>"

definition SixteenMB :: u32 where
  "SixteenMB = 1024 * 1024 * 16"

section \<open>Mapping\<close>

definition super_set :: "u32 \<Rightarrow> pin_t \<Rightarrow> fld_t \<Rightarrow> fld_t" where
  "super_set pa attr pte = set_base8 (ucast (shr pa 24)) (pte
     \<lparr>tag := 0b10,
      fld_B := ucast (attr_mem attr AND 0x1),
      fld_C := ucast (shr (attr_mem attr) 1 AND 0x1),
      XN := 0,
      fld_domain := ucast (attr_dom attr),
      IMP := 0,
      AP := ucast (attr_AP_perm attr AND 0x11),
      TEX := ucast (shr (attr_mem attr) 2),
      APX := ucast (shr (attr_AP_perm attr) 2),
      fld_S := 0,
      nG := ucast (NOT (attr_G attr)),
      super := 1\<rparr>)"

text \<open>The loop over the sixteen entries, and the function with its result, which is the first entry of the table.\<close>

fun map_super :: "u32 \<Rightarrow> pin_t \<Rightarrow> nat list \<Rightarrow> vm_pt \<Rightarrow> vm_pt res" where
  "map_super pa attr [] pt = Inr pt"
| "map_super pa attr (index # ixs) pt =
     seq (require (index < PT_LEVEL1_N) Assert_fail) (\<lambda>_.
     seq (arr_get (pt_ents pt) index) (\<lambda>pte.
     seq (arr_set (pt_ents pt) index (super_set pa attr pte)) (\<lambda>ents.
     map_super pa attr ixs (pt\<lparr>pt_ents := ents\<rparr>))))"

definition vm_map_sec16 :: "vm_pt \<Rightarrow> u32 \<Rightarrow> u32 \<Rightarrow> pin_t \<Rightarrow> (fld_t \<times> vm_pt) res" where
  "vm_map_sec16 pt va pa attr =
     seq (require (va mod SixteenMB = 0) Assert_fail) (\<lambda>_.
     seq (require (pa mod SixteenMB = 0) Assert_fail) (\<lambda>_.
     seq (require (attr_pagesize attr = PAGE_16MB) Assert_fail) (\<lambda>_.
     let start_index = unat (shr va 20) in
     seq (map_super pa attr (map (\<lambda>i. start_index + i) [0..<16]) pt) (\<lambda>pt.
     seq (arr_get (pt_ents pt) 0) (\<lambda>pte. Inr (pte, pt))))))"

definition vm_xlate16 :: "vm_pt \<Rightarrow> u32 \<Rightarrow> (u32 \<times> fld_t) option res" where
  "vm_xlate16 pt va =
     seq (vm_lookup pt va) (\<lambda>p. Inr (case p of None \<Rightarrow> None
       | Some pte \<Rightarrow> Some (shl (ucast (base8 pte)) 24, pte)))"

text \<open>The attributes are made with the page size of 16 MB (\<open>mem-attr.h\<close> of this directory).\<close>

definition attr_mk16 :: "pr_ent_t \<Rightarrow> pin_t res" where
  "attr_mk16 e = seq (attr_mk e) (\<lambda>a. Inr (pin_16mb a))"

fun map_ents16 :: "pr_ent_t list \<Rightarrow> vm_pt \<Rightarrow> vm_pt res" where
  "map_ents16 [] pt = Inr pt"
| "map_ents16 (e # es) pt =
     seq (attr_mk16 e) (\<lambda>attr.
     seq (vm_map_sec16 pt (pr_addr e) (pr_addr e) attr) (\<lambda>(_, pt). map_ents16 es pt))"

definition vm_map_kernel16 :: "staff \<Rightarrow> u32 \<Rightarrow> procmap_t \<Rightarrow> bool \<Rightarrow> cp15 \<Rightarrow> (vm_pt \<times> cp15) res" where
  "vm_map_kernel16 S kmalloc_addr p enable_p s =
     seq (dom_perm (dom_ids p) DOM_client) (\<lambda>d.
     seq (vm_mmu_init S d s) (\<lambda>s.
     seq (vm_pt_alloc kmalloc_addr 4096) (\<lambda>pt.
     seq (map_ents16 (pm_map p) pt) (\<lambda>pt.
     seq (vm_mmu_switch S pt kern_pid kern_asid s) (\<lambda>s.
     seq (if enable_p then vm_mmu_enable S s else Inr s) (\<lambda>s.
     seq (require (pt_addr pt \<noteq> 0) Assert_fail) (\<lambda>_. Inr (pt, s))))))))"

text \<open>The variant with offsets: the two assertions about the addresses are comments.\<close>

definition vm_map_sec_off :: "vm_pt \<Rightarrow> u32 \<Rightarrow> u32 \<Rightarrow> pin_t \<Rightarrow> (fld_t \<times> vm_pt) res" where
  "vm_map_sec_off pt va pa attr =
     seq (require (attr_pagesize attr = PAGE_1MB) Assert_fail) (\<lambda>_.
     let index = unat (shr va 20) in
     seq (require (index < PT_LEVEL1_N) Assert_fail) (\<lambda>_.
     seq (arr_get (pt_ents pt) index) (\<lambda>pte.
     let pte = pte_set pa attr pte in
     seq (arr_set (pt_ents pt) index pte) (\<lambda>ents.
     Inr (pte, pt\<lparr>pt_ents := ents\<rparr>)))))"

section \<open>The walk of the processor\<close>

text \<open>A section is 1 MB from its base, a supersection 16 MB; anything else is not mapped at this level.\<close>

definition hw_ent :: "fld_t \<Rightarrow> u32 \<Rightarrow> u32 option" where
  "hw_ent e va =
     (if tag e \<noteq> 0b10 then None
      else if super e = 1 then Some (shl (ucast (base8 e)) 24 OR (va AND mask 24))
      else Some (shl (ucast (sec_base_addr e)) 20 OR (va AND mask 20)))"

definition hw_walk :: "vm_pt \<Rightarrow> u32 \<Rightarrow> u32 option" where
  "hw_walk pt va = hw_ent (pt_ents pt ! unat (shr va 20)) va"

section \<open>Fields\<close>

lemma bit_word12: "bit (sec_base_addr (set_base8 b f)) i \<longleftrightarrow> (if i < 4 then bit (sec_base_addr f) i else i < 12 \<and> bit b (i - 4))"
  by (auto simp: set_base8_def bit_or_iff bit_and_iff bit_push_bit_iff bit_mask_iff bit_ucast_n possible_bit_def dest: bit_len)

lemma base8_set [simp]: "base8 (set_base8 b f) = b"
  by (rule bit_word_eqI) (auto simp: base8_def bit_ucast_n bit_drop_bit_eq bit_word12)

lemma sbz2_set [simp]: "sbz2 (set_base8 b f) = sbz2 f"
  by (rule bit_word_eqI) (auto simp: sbz2_def bit_ucast_n bit_word12)

lemma set_base8_fields [simp]:
  "tag (set_base8 b f) = tag f" "super (set_base8 b f) = super f" "sbz1 (set_base8 b f) = sbz1 f"
  by (simp_all add: set_base8_def)

lemma super_set_simps [simp]:
  "tag (super_set pa attr e) = 0b10" "super (super_set pa attr e) = 1" "base8 (super_set pa attr e) = ucast (shr pa 24)"
  "sbz1 (super_set pa attr e) = sbz1 e" "sbz2 (super_set pa attr e) = sbz2 e"
  by (simp_all add: super_set_def) (simp add: sbz2_def)

text \<open>Entries that agree in the two fields that are not written become equal.\<close>

lemma super_set_eq:
  assumes "sbz1 e = sbz1 e'" "sbz2 e = sbz2 e'"
  shows "super_set pa attr e = super_set pa attr e'"
proof -
  have "sec_base_addr e AND mask 4 = sec_base_addr e' AND mask 4"
  proof (rule bit_word_eqI)
    fix i assume "i < LENGTH(12)"
    have l: "bit (sec_base_addr f AND mask 4) i = (i < 4 \<and> bit (sbz2 f) i)" for f
      by (auto simp: sbz2_def bit_ucast_n bit_and_iff bit_mask_iff possible_bit_def)
    show "bit (sec_base_addr e AND mask 4) i = bit (sec_base_addr e' AND mask 4) i"
      unfolding l assms(2) by (rule refl)
  qed
  then show ?thesis using assms(1) by (cases e; cases e') (simp add: super_set_def set_base8_def del: mask_numeral)
qed

section \<open>What a mapping does\<close>

lemma map_super_ok:
  assumes "map_super pa attr ixs pt = Inr pt'" "pt_ok pt" "distinct ixs"
  shows "pt_ok pt' \<and> pt_addr pt' = pt_addr pt \<and>
    (\<forall>k<4096. pt_ents pt' ! k = (if k \<in> set ixs then super_set pa attr (pt_ents pt ! k) else pt_ents pt ! k))"
  using assms
proof (induction ixs arbitrary: pt)
  case (Cons i ixs)
  let ?pt = "pt\<lparr>pt_ents := (pt_ents pt)[i := super_set pa attr (pt_ents pt ! i)]\<rparr>"
  have i: "i < 4096" and m: "map_super pa attr ixs ?pt = Inr pt'"
    using Cons.prems(1,2) by (auto simp: seq_eq_Inr require_eq_Inr PT_LEVEL1_N_def pt_ok_def)
  have "pt_ok ?pt" using Cons.prems(2) by (simp add: pt_ok_def)
  with Cons.IH [OF m] Cons.prems(3) i Cons.prems(2) show ?case
    by (auto simp: nth_list_update pt_ok_def PT_LEVEL1_N_def)
qed simp

lemma map_super_total:
  "\<lbrakk>pt_ok pt; \<forall>i \<in> set ixs. i < 4096\<rbrakk> \<Longrightarrow> \<exists>pt'. map_super pa attr ixs pt = Inr pt'"
proof (induction ixs arbitrary: pt)
  case (Cons i ixs)
  have "pt_ok (pt\<lparr>pt_ents := (pt_ents pt)[i := super_set pa attr (pt_ents pt ! i)]\<rparr>)"
    using Cons.prems(1) by (simp add: pt_ok_def)
  from Cons.IH [OF this] Cons.prems show ?case by (simp add: pt_ok_def PT_LEVEL1_N_def)
qed simp

lemma shr_div: "unat (shr (va :: u32) 20) div 16 = unat (shr va 24)" "unat (shr (va :: u32) 24) < 256"
proof -
  have s: "unat (shr va 20) = unat va div 2 ^ 20" "unat (shr va 24) = unat va div 2 ^ 24"
    by (simp_all add: shr_def drop_bit_eq_div unat_div)
  show "unat (shr va 20) div 16 = unat (shr va 24)" unfolding s by (simp add: div_mult2_eq [symmetric])
  show "unat (shr va 24) < 256" unfolding s using unat_u32_lt [of va] by (simp add: less_mult_imp_div_less)
qed

lemma aligned16:
  assumes "va mod SixteenMB = 0"
  shows "unat (shr va 20) = 16 * unat (shr va 24)" "i < 24 \<Longrightarrow> \<not> bit va i"
proof -
  have t: "take_bit 24 va = 0" using assms by (simp add: take_bit_eq_mod SixteenMB_def)
  then have "\<not> bit (take_bit 24 va) i" by simp
  then show "i < 24 \<Longrightarrow> \<not> bit va i" by (simp only: bit_take_bit_iff) simp
  have "unat va mod 2 ^ 24 = 0" using t by (metis take_bit_eq_mod unat_0 unsigned_take_bit_eq)
  then have "2 ^ 24 dvd unat va" by (simp add: dvd_eq_mod_eq_0)
  then show "unat (shr va 20) = 16 * unat (shr va 24)"
    by (auto simp: shr_def drop_bit_eq_div unat_div elim!: dvdE)
qed

lemma sixteen: "k \<in> set (map (\<lambda>i. 16 * s + i) [0..<16]) \<longleftrightarrow> k div 16 = s"
  by (auto simp: image_iff intro!: bexI [of _ "k mod 16"])

text \<open>A mapping that returns writes the entries of exactly one supersection.\<close>

lemma vm_map_sec16_ok:
  assumes "vm_map_sec16 pt va pa attr = Inr (e, pt')" "pt_ok pt"
  shows "va mod SixteenMB = 0" "pa mod SixteenMB = 0" "attr_pagesize attr = PAGE_16MB" "pt_ok pt'" "pt_addr pt' = pt_addr pt"
    "k < 4096 \<Longrightarrow> pt_ents pt' ! k = (if k div 16 = unat (shr va 24) then super_set pa attr (pt_ents pt ! k) else pt_ents pt ! k)"
proof -
  have al: "va mod SixteenMB = 0" "pa mod SixteenMB = 0" "attr_pagesize attr = PAGE_16MB"
    and m: "map_super pa attr (map (\<lambda>i. unat (shr va 20) + i) [0..<16]) pt = Inr pt'"
    using assms(1) by (auto simp: vm_map_sec16_def seq_eq_Inr require_eq_Inr Let_def)
  have d: "distinct (map (\<lambda>i. unat (shr va 20) + i) [0..<16])" by (simp add: distinct_map)
  note r = map_super_ok [OF m assms(2) d]
  show "va mod SixteenMB = 0" "pa mod SixteenMB = 0" "attr_pagesize attr = PAGE_16MB" by (fact al)+
  show "pt_ok pt'" "pt_addr pt' = pt_addr pt" using r by simp_all
  show "k < 4096 \<Longrightarrow> pt_ents pt' ! k = (if k div 16 = unat (shr va 24) then super_set pa attr (pt_ents pt ! k) else pt_ents pt ! k)"
    using r unfolding aligned16(1) [OF al(1)] sixteen by simp
qed

lemma vm_map_sec16_total:
  assumes "pt_ok pt" "va mod SixteenMB = 0" "pa mod SixteenMB = 0" "attr_pagesize attr = PAGE_16MB"
  shows "\<exists>e pt'. vm_map_sec16 pt va pa attr = Inr (e, pt')"
proof -
  have "\<forall>i \<in> set (map (\<lambda>i. unat (shr va 20) + i) [0..<16]). i < 4096"
    using shr_div(2) [of va] unfolding aligned16(1) [OF assms(2)] by auto
  from map_super_total [OF assms(1) this] obtain pt' where
    m: "map_super pa attr (map (\<lambda>i. unat (shr va 20) + i) [0..<16]) pt = Inr pt'" by blast
  have "pt_ok pt'" using map_super_ok [OF m assms(1)] by (simp add: distinct_map)
  then show ?thesis using m assms by (simp add: vm_map_sec16_def Let_def pt_ok_def PT_LEVEL1_N_def)
qed

section \<open>Properties\<close>

lemma hw_ent_super:
  assumes "tag e = 0b10" "super e = 1" "base8 e = ucast (shr pa 24)" "pa mod SixteenMB = 0"
  shows "hw_ent e va' = Some (pa OR (va' AND mask 24))"
proof -
  have "shl (ucast (ucast (shr pa 24) :: 8 word)) 24 = pa"
  proof (rule u32_eqI)
    fix i :: nat assume i: "i < 32"
    with aligned16(2) [OF assms(4), of i] show "bit (shl (ucast (ucast (shr pa 24) :: 8 word)) 24) i = bit pa i"
      by (cases "i < 24") (auto simp: bits_of bit_ucast_n)
  qed
  then show ?thesis using assms by (simp add: hw_ent_def)
qed

text \<open>C0: after a supersection is mapped the processor translates each of its addresses to the physical supersection
  with the same offset, through any of the sixteen entries, and every other address as before.\<close>

theorem super_map_translates:
  assumes "pt_ok pt" "vm_map_sec16 pt va pa attr = Inr (e, pt')"
  shows "hw_walk pt' va' = (if shr va' 24 = shr va 24 then Some (pa OR (va' AND mask 24)) else hw_walk pt va')"
proof -
  note m = vm_map_sec16_ok [OF assms(2,1)]
  have k: "unat (shr va' 20) < 4096" by (rule shr20_lt)
  have eq: "unat (shr va' 20) div 16 = unat (shr va 24) \<longleftrightarrow> shr va' 24 = shr va 24"
    by (simp add: shr_div word_unat_eq_iff)
  show ?thesis
  proof (cases "shr va' 24 = shr va 24")
    case True
    then show ?thesis using m(6) [OF k] eq hw_ent_super [OF _ _ _ m(2)] by (simp add: hw_walk_def)
  next
    case False
    then show ?thesis using m(6) [OF k] eq by (simp add: hw_walk_def)
  qed
qed

theorem super_map_translates_witness:
  "\<exists>e pt'. vm_map_sec16 demo_pt 0x03000000 0x20000000 (pin_16mb
      \<lparr>attr_G = 1, attr_asid = 0, attr_dom = 1, attr_pagesize = PAGE_1MB, attr_AP_perm = perm_rw_priv, attr_mem = MEM_device\<rparr>) =
    Inr (e, pt') \<and> hw_walk pt' 0x03f12345 = Some 0x20f12345"
proof -
  let ?a = "pin_16mb \<lparr>attr_G = 1, attr_asid = 0, attr_dom = 1, attr_pagesize = PAGE_1MB, attr_AP_perm = perm_rw_priv, attr_mem = MEM_device\<rparr>"
  have ok: "pt_ok demo_pt" by (simp add: demo_pt_def pt_ok_def)
  obtain e pt' where m: "vm_map_sec16 demo_pt 0x03000000 0x20000000 ?a = Inr (e, pt')"
    using vm_map_sec16_total [OF ok, of "0x03000000" "0x20000000" ?a] by (auto simp: SixteenMB_def pin_16mb_def)
  have "mask 24 = (0xffffff :: u32)" by (simp add: mask_eq_exp_minus_1)
  then show ?thesis using m super_map_translates [OF ok m, of "0x03f12345"] by (simp add: shr_def)
qed

text \<open>The table as the interface of sections, with supersections: the sixteen entries of one are equal, as the manual
  requires, as long as the two fields that are never written are zero.\<close>

definition super_inv :: "vm_pt \<Rightarrow> bool" where
  "super_inv pt \<longleftrightarrow> pt_ok pt \<and> (\<forall>k<4096. sbz1 (pt_ents pt ! k) = 0 \<and> sbz2 (pt_ents pt ! k) = 0)"

definition super_lookup :: "vm_pt \<Rightarrow> nat \<Rightarrow> fld_t list option" where
  "super_lookup pt s = (if s < 256 then Some (map (\<lambda>i. pt_ents pt ! (16 * s + i)) [0..<16]) else None)"

definition map_ent16 :: "vm_pt \<Rightarrow> pr_ent_t \<Rightarrow> vm_pt res" where
  "map_ent16 pt e = seq (attr_mk16 e) (\<lambda>attr.
     seq (vm_map_sec16 pt (pr_addr e) (pr_addr e) attr) (\<lambda>(_, pt). Inr pt))"

definition ent_super :: "pr_ent_t \<Rightarrow> nat" where
  "ent_super e = unat (shr (pr_addr e) 24)"

definition super_good :: "pr_ent_t \<Rightarrow> fld_t list \<Rightarrow> bool" where
  "super_good e ptes \<longleftrightarrow> pr_addr e mod SixteenMB = 0 \<and>
     (\<exists>pte. ptes = replicate 16 pte \<and> tag pte = 0b10 \<and> super pte = 1 \<and> base8 pte = ucast (shr (pr_addr e) 24))"

lemma super_set_sbz: "sbz1 e = 0 \<Longrightarrow> sbz2 e = 0 \<Longrightarrow> super_set pa attr e = super_set pa attr fld_zero"
  by (rule super_set_eq) (simp_all add: fld_zero_def sbz2_def)

interpretation sup: section_table super_inv map_ent16 super_lookup ent_super super_good
proof
  fix pt pt' e
  assume i: "super_inv pt" and "map_ent16 pt e = Inr pt'"
  then obtain a r where m: "vm_map_sec16 pt (pr_addr e) (pr_addr e) a = Inr (r, pt')"
    by (auto simp: map_ent16_def seq_eq_Inr)
  have ok: "pt_ok pt" using i by (simp add: super_inv_def)
  note w = vm_map_sec16_ok [OF m ok]
  show "super_inv pt'" using i w(4,6) by (simp add: super_inv_def)
  have e: "pt_ents pt' ! (16 * ent_super e + j) = super_set (pr_addr e) a fld_zero" if "j < 16" for j
  proof -
    have k: "16 * ent_super e + j < 4096" "(16 * ent_super e + j) div 16 = ent_super e"
      using that shr_div(2) [of "pr_addr e"] by (simp_all add: ent_super_def)
    then have "sbz1 (pt_ents pt ! (16 * ent_super e + j)) = 0" "sbz2 (pt_ents pt ! (16 * ent_super e + j)) = 0"
      using i by (simp_all add: super_inv_def)
    then show ?thesis using w(6) [OF k(1)] k(2) by (simp add: ent_super_def super_set_sbz)
  qed
  have "map (\<lambda>i. pt_ents pt' ! (16 * ent_super e + i)) [0..<16] = replicate 16 (super_set (pr_addr e) a fld_zero)"
    using e by (intro replicate_eqI) auto
  then have "super_lookup pt' (ent_super e) = Some (replicate 16 (super_set (pr_addr e) a fld_zero))"
    using shr_div(2) [of "pr_addr e"] by (simp only: super_lookup_def ent_super_def if_True)
  then show "\<exists>ptes. super_lookup pt' (ent_super e) = Some ptes \<and> super_good e ptes"
    using w(2) unfolding super_good_def by (intro exI conjI) (assumption, assumption, rule refl, simp_all)
  show "super_lookup pt' k = super_lookup pt k" if "k \<noteq> ent_super e" for k
  proof -
    have "pt_ents pt' ! (16 * k + j) = pt_ents pt ! (16 * k + j)" if "k < 256" "j < 16" for j
    proof -
      have "16 * k + j < 4096" "(16 * k + j) div 16 = k" using that by simp_all
      then show ?thesis using w(6) [of "16 * k + j"] \<open>k \<noteq> ent_super e\<close> by (simp add: ent_super_def)
    qed
    then show ?thesis unfolding super_lookup_def by (intro if_cong refl arg_cong [of _ _ Some] map_cong) auto
  qed
qed

lemma map_ents16_all: "map_ents16 es pt = map_all map_ent16 es pt"
  by (induction es arbitrary: pt) (auto simp: map_ent16_def seq_def split: sum.splits prod.splits)

lemma super_inv_alloc: "vm_pt_alloc ka n = Inr pt \<Longrightarrow> super_inv pt \<and> (\<forall>k<4096. tag (pt_ents pt ! k) = 0)"
  by (auto simp: vm_pt_alloc_def seq_eq_Inr require_eq_Inr pt_ok_def PT_LEVEL1_N_def super_inv_def fld_zero_def Let_def sbz2_def)

lemma super_lookup_at:
  "super_lookup pt (unat (shr va 24)) = Some ptes \<Longrightarrow> length ptes = 16 \<and> pt_ents pt ! unat (shr va 20) = ptes ! (unat (shr va 20) mod 16)"
proof -
  assume "super_lookup pt (unat (shr va 24)) = Some ptes"
  then have p: "ptes = map (\<lambda>i. pt_ents pt ! (16 * unat (shr va 24) + i)) [0..<16]"
    by (simp add: super_lookup_def del: upt.simps split: if_splits)
  have "16 * unat (shr va 24) + unat (shr va 20) mod 16 = unat (shr va 20)"
    using shr_div(1) [of va] div_mult_mod_eq [of "unat (shr va 20)" 16] by (simp add: mult.commute)
  then show ?thesis unfolding p by simp
qed

lemma super_lookup_walk:
  assumes "super_lookup pt (unat (shr va 24)) = Some ptes" "super_good e ptes"
  shows "hw_walk pt va = Some (pr_addr e OR (va AND mask 24))"
proof -
  obtain pte where p: "ptes = replicate 16 pte" "tag pte = 0b10" "super pte = 1" "base8 pte = ucast (shr (pr_addr e) 24)"
      "pr_addr e mod SixteenMB = 0"
    using assms(2) by (auto simp: super_good_def)
  have "pt_ents pt ! unat (shr va 20) = pte" using super_lookup_at [OF assms(1)] p(1) by simp
  then show ?thesis unfolding hw_walk_def by (simp only: hw_ent_super [OF p(2-5)])
qed


definition demo_super :: procmap_t where
  "demo_super = \<lparr>dom_ids = 2, pm_map = [\<lparr>pr_addr = 0x20000000, pr_nbytes = OneMB, pr_type = MEM_DEVICE, pr_dom = 1\<rparr>,
     \<lparr>pr_addr = 0, pr_nbytes = OneMB, pr_type = MEM_RW, pr_dom = 1\<rparr>]\<rparr>"


text \<open>\<open>vm_xlate16\<close> gives the base of the supersection where the processor adds the offset.\<close>

lemma vm_xlate16_drops_offset:
  assumes "pt_ok pt" "vm_map_sec16 pt va pa attr = Inr (e, pt')" "shr va' 24 = shr va 24"
  shows "\<exists>pte. vm_xlate16 pt' va' = Inr (Some (pa, pte)) \<and> hw_walk pt' va' = Some (pa OR (va' AND mask 24))"
proof -
  note m = vm_map_sec16_ok [OF assms(2,1)]
  have "unat (shr va' 20) div 16 = unat (shr va 24)" using assms(3) by (simp add: shr_div)
  then have p: "pt_ents pt' ! unat (shr va' 20) = super_set pa attr (pt_ents pt ! unat (shr va' 20))"
    using m(6) [OF shr20_lt] by simp
  have "hw_ent (super_set pa attr (pt_ents pt ! unat (shr va' 20))) 0 = Some (pa OR (0 AND mask 24))"
    by (rule hw_ent_super [OF _ _ _ m(2)]) simp_all
  then have "shl (ucast (ucast (shr pa 24) :: 8 word)) 24 = pa" by (simp add: hw_ent_def)
  then have "vm_xlate16 pt' va' = Inr (Some (pa, super_set pa attr (pt_ents pt ! unat (shr va' 20))))"
    using p by (simp add: vm_xlate16_def vm_lookup_sec [OF m(4)] sec_lookup_def Let_def)
  then show ?thesis using super_map_translates [OF assms(1,2), of va'] assms(3) by simp
qed

lemma push_ent_map: "push_ent a t d p = Inr p' \<Longrightarrow>
    pm_map p' = pm_map p @ [\<lparr>pr_addr = a, pr_nbytes = OneMB, pr_type = t, pr_dom = d\<rparr>]"
  by (auto simp: push_ent_def pr_ent_mk_def procmap_push_def seq_eq_Inr)

lemma vm_map_sec16_al: "vm_map_sec16 pt va pa attr = Inr r \<Longrightarrow> va mod SixteenMB = 0"
  by (auto simp: vm_map_sec16_def seq_eq_Inr require_eq_Inr Let_def)

lemma map_ents16_aligned: "map_ents16 es pt = Inr pt' \<Longrightarrow> e \<in> set es \<Longrightarrow> pr_addr e mod SixteenMB = 0"
proof (induction es arbitrary: pt)
  case (Cons x es)
  then obtain a r pt1 where m: "vm_map_sec16 pt (pr_addr x) (pr_addr x) a = Inr (r, pt1)" "map_ents16 es pt1 = Inr pt'"
    by (auto simp: seq_eq_Inr)
  show ?case
  proof (cases "e = x")
    case True
    then show ?thesis using vm_map_sec16_al [OF m(1)] by simp
  next
    case False
    then show ?thesis using Cons.IH [OF m(2)] Cons.prems(2) by simp
  qed
qed simp

text \<open>The regions of \<open>procmap_default_mk\<close> are multiples of 1 MB: no map of the kernel can be made from them.\<close>

lemma default_map_refused:
  assumes "procmap_default_mk prog_end heap_start heap_end d = Inr p"
  shows "vm_map_kernel16 S ka p enable_p s \<noteq> Inr r"
proof
  assume "vm_map_kernel16 S ka p enable_p s = Inr r"
  then obtain pt0 pt where m: "map_ents16 (pm_map p) pt0 = Inr pt"
    by (cases r) (auto simp: vm_map_kernel16_def seq_eq_Inr)
  have "\<exists>p1 p2 p3 p4 p5 p6. push_ent 0x20000000 MEM_DEVICE d \<lparr>dom_ids = 0, pm_map = []\<rparr> = Inr p1 \<and>
      push_ent 0x20100000 MEM_DEVICE d p1 = Inr p2 \<and> push_ent 0x20200000 MEM_DEVICE d p2 = Inr p3 \<and>
      push_ent 0 MEM_RW d p3 = Inr p4 \<and> push_ent 0x00100000 MEM_RW d p4 = Inr p5 \<and>
      push_ent (INT_STACK_ADDR - OneMB) MEM_RW d p5 = Inr p6 \<and> push_ent (STACK_ADDR - OneMB) MEM_RW d p6 = Inr p"
    using assms unfolding procmap_default_mk_def Let_def seq_eq_Inr by blast
  then have "\<lparr>pr_addr = 0x20100000, pr_nbytes = OneMB, pr_type = MEM_DEVICE, pr_dom = d\<rparr> \<in> set (pm_map p)"
    by (auto dest!: push_ent_map)
  from map_ents16_aligned [OF m this] have "(0x20100000 :: u32) mod SixteenMB = 0" by (simp only: pr_ent_t.select_convs)
  moreover have "(0x20100000 :: u32) mod SixteenMB = 0x00100000" by (simp add: SixteenMB_def)
  ultimately show False by simp
qed

text \<open>The variant with offsets maps the sections that the addresses lie in.\<close>

lemma section_part:
  "(va AND NOT (mask 20)) mod OneMB = (0 :: u32)" "shr (va AND NOT (mask 20)) 20 = shr va (20 :: u32)"
proof -
  have "take_bit 20 (va AND NOT (mask 20)) = 0" by (rule bit_word_eqI) (auto simp: bits_of bit_take_bit_iff)
  then show "(va AND NOT (mask 20)) mod OneMB = 0" by (simp add: take_bit_eq_mod OneMB_def)
  show "shr (va AND NOT (mask 20)) 20 = shr va 20" by (rule u32_eqI) (auto simp: bits_of dest: bit_u32_bound)
qed


end
