(* ===== verification/Spec2Isabelle.thy ===== *)
theory Spec2Isabelle
  imports Prelude BitSupport Fifo Circular CircularConc Qlist Threads PiRandom
    Mmio Gpio FakePi Uart Crc Proc Bootloader MemAttr Cp15 PageTable LibC FatHelpers Fat32
    Timer Watchdog Wp Nrf NrfDriver Radio RadioTraffic PinnedVm Printk I2c Mpu6050 Containers Support DebugHw Equiv SwUart Handlers Mailbox SuperPt
begin

text \<open>
  A verification development of EmbeddedOS, the operating system of the CS140E labs for the Raspberry Pi: the library
  \<open>libpi\<close> (bit operations, queues, C library, devices), the threads, boot loader, simulated Pi, virtual memory,
  radio and FAT32 labs. The definitions are translated from the C and assembly sources under \<open>src/\<close>; each theory
  names the files it models and holds the lemmas about them. The theorems with a number (C1, C2, \<open>\<dots>\<close>) are the
  properties of the development; each is followed by a witness that applies it to concrete values.

  How the code is modelled. Machine integers are words of their width (\<open>u8\<close>, \<open>u32\<close>, \<open>u64\<close>), so sums wrap as in C.
  Functions that may fail return \<open>'a res\<close>: \<open>Inl\<close> an error (failed assertion, panic, undefined behaviour, a loop that
  used up its rounds: \<open>Stuck\<close>) or \<open>Inr\<close> a value. Globals and structures passed by pointer are records that are
  returned updated. Code that talks to devices is a program \<open>('d, 'a) io\<close> over a \<open>bus\<close>, the four functions \<open>GET32\<close>,
  \<open>PUT32\<close>, \<open>dev_barrier\<close> and \<open>DEV_VAL32\<close> on a state \<open>'d\<close> of the devices: the same program runs on a recording bus
  (\<open>script_bus\<close>), on the simulated Pi (\<open>fake_bus\<close>), on a clock (\<open>tick_bus\<close>) and on a radio (\<open>sim_hw\<close>).
\<close>

text \<open>
  \<^bold>\<open>Parts and theories\<close>

  Prelude: words, errors, byte order, arrays. BitSupport: \<open>libc/bit-support.h\<close>.

  Ring buffer (\<open>libc/circular.h\<close>). Fifo is the interface of a bounded queue as a locale; Circular models the
  buffer with wrapping indices and instantiates it; CircularConc is the step relation of one producer and one
  consumer, split at the memory barriers, with its invariant: the consumer gets what the producer put, in order.

  Intrusive queue (\<open>libc/Q.h\<close>) in Qlist, on a heap of next pointers; threads (\<open>6-threads\<close>) in Threads: fork, yield,
  exit, start and the assembly context switch on registers and stacks. The queues of threads are those of Qlist.

  PiRandom: \<open>libc/random.c\<close>, \<open>libc/pi-random.c\<close>. LibC: the memory and string routines of \<open>libc\<close> on a byte memory.

  Devices. Mmio is the bus and its programs; Gpio models \<open>src/gpio.c\<close> and \<open>src/gpio-int.c\<close>, Uart models
  \<open>src/uart.c\<close>, FakePi the simulated Pi of \<open>8-uart/3-fake-pi\<close>, on which the drivers are run. Timer: delays and
  64-bit time-outs over the wrapping microsecond counter. Watchdog: watchdog, timer interrupt, vector table, reboot.

  Boot loader (\<open>7-bootloader\<close>). Crc: the checksum. Proc: processes that send and receive bytes, and two of them on a
  line. Bootloader: both sides of the protocol, and what happens in every interleaving.

  Virtual memory (\<open>16-vm-page-table\<close>). MemAttr: attributes and the process map; Cp15: the coprocessor sequences with a
  hazard analysis; PageTable: section descriptors, mapping, look-up, translation, the map of the kernel.

  SuperPt: the variants \<open>16-vm-page-table-16MB\<close> (supersections of sixteen entries, compared with the walk of the
  processor, on the same locale of section tables) and \<open>16-vm-page-table-offset\<close>.

  Pinned virtual memory (\<open>15-pinned-vm\<close>) in PinnedVm: pinning entries of the TLB; what the manual says of the lockdown
  registers is the locale \<open>pinned_tlb\<close>, interpreted on a simulated TLB, and the procedures of the lab are proved in it.

  Formatted output (\<open>libc/printk.c\<close>, \<open>sprintk.c\<close>) in Printk, over the function that takes the characters.

  Generic containers of the C library (\<open>circular-T.h\<close>, \<open>stack-T.h\<close>, \<open>vector-T.h\<close>, \<open>list-T.h\<close>, \<open>queue-ext-T.h\<close>) in
  Containers, by the locales \<open>fifo\<close> and \<open>lifo\<close>; pointers and word copies in Support.

  Debugging (\<open>14-ss-equiv-deux\<close>). DebugHw: the debug coprocessor as the locale \<open>debug_cp\<close> with a simulated instance,
  watchpoints, single stepping by mismatch breakpoints, processor modes; Equiv: threads that are single stepped and
  interleaved after every instruction, and the hashes of their registers. The main theorem compares the interleaved run
  with each thread running alone; user code is a function from registers and the memory of the thread to the next
  exception, and the number of exceptions bounds the run.

  Software UART (\<open>8-uart/1-sw-uart-put8\<close>) in SwUart: bits sent and received by the timing of a pin, over the locale
  \<open>pin_clock\<close> of what the pins and the cycle counter do, with a simulated processor that satisfies it; a byte that is
  sent is received, and what happens when the receiver is slow by the least amount.

  Interrupts in Handlers: the handlers of \<open>9-device-int\<close> for edges of a pin and of \<open>5-interrupts\<close> for the timer, the
  profiler, system calls and the logic analyzer. The locale \<open>edge_dev\<close> says what pins, events and timer do between two
  accesses; \<open>take_irqs\<close> runs the vector while a request is pending. On connected pins every edge is counted; for other
  signals there are theorems about the edges that are missed.

  Mailbox (\<open>12-i2c+mailboxes/code-mailbox\<close>): messages to the graphics processor in shared memory, on the locale
  \<open>mailbox\<close>.

  I2C (\<open>src/i2c.c\<close>) in I2c: the driver on the locale \<open>i2c_controller\<close>, the data sheet as a step function.
  Mpu6050 (\<open>11-imu-i2c\<close>): accelerometer and gyroscope on the locale \<open>imu_dev\<close>, which the I2C driver satisfies.

  File system (\<open>19-fat32-readonly\<close>). FatHelpers: the structures on disk; Fat32: mounting, cluster chains, directories,
  reading. The card and the allocator are parameters.

  Radio (\<open>17-nrf-networking\<close>). Wp: preconditions of device programs; Nrf: registers of the chip; NrfDriver: the
  driver and its public interface; Radio: the laws of the radio that the driver relies on, a simulated radio that
  satisfies them, and initialisation; RadioTraffic: receiving, reading and sending, with packets arriving at any time.

  \<^bold>\<open>Rounds\<close>

  A loop that waits for a device takes a number of rounds and is \<open>Stuck\<close> when they are used up. The theorems about
  such loops say how many are enough: 129 for the UART on the simulated Pi, one more than the microseconds of a delay,
  one more than the clusters of a chain, as many as there are packets in the radio. Where a loop may really not end
  the theorem says so for every number of rounds.

  \<^bold>\<open>Not modelled\<close>

  Calls that print, where the output is not part of the state modelled; third-party code (the SD card driver, UTF-8 conversion), code that
  is only present as binaries (the SPI driver and the exception set-up of the staff), start-up assembly and linker
  scripts, the Unix tools, the trusting-trust exercises, tests and the older copies of the lab code.
\<close>

end
